(* ===== verification/KBX_Prelude.thy ===== *)
theory KBX_Prelude
  imports Main "HOL-Library.Word" "HOL-Library.Monad_Syntax"
begin

text \<open>
  Conventions and generic lemmas shared by every component.

  \<^item> Fixed-width integers of the C++ code are words of that width, so \<open>+\<close>, \<open>-\<close> and \<open>*\<close>
    wrap as the code's unsigned arithmetic does; \<open>int\<close> parameters are HOL integers.
  \<^item> An address is a 64 bit word; a pointer that may be NULL is an option.
  \<^item> A value of type \<open>'a option\<close> returned by an operation is \<open>None\<close> where the code's
    behaviour is undefined or traps (a read outside an array, a NULL dereference, a
    division by zero), or where it does not return; each theory says which.
  \<^item> An allocated array is its address and its cells.
\<close>

type_synonym u8 = "8 word"
type_synonym u32 = "32 word"
type_synonym u64 = "64 word"
type_synonym ptr = "64 word"
type_synonym 'a arr = "(ptr \<times> 'a list) option"

section \<open>Arrays with checked access\<close>

definition arr_get :: "'a list \<Rightarrow> nat \<Rightarrow> 'a option" where
  "arr_get xs i = (if i < length xs then Some (xs ! i) else None)"

definition arr_set :: "'a list \<Rightarrow> nat \<Rightarrow> 'a \<Rightarrow> 'a list option" where
  "arr_set xs i v = (if i < length xs then Some (xs[i := v]) else None)"

lemma arr_get_in [simp]: "i < length xs \<Longrightarrow> arr_get xs i = Some (xs ! i)"
  by (simp add: arr_get_def)

lemma arr_get_out [simp]: "length xs \<le> i \<Longrightarrow> arr_get xs i = None"
  by (simp add: arr_get_def)

lemma arr_set_in [simp]: "i < length xs \<Longrightarrow> arr_set xs i v = Some (xs[i := v])"
  by (simp add: arr_set_def)

lemma arr_set_out [simp]: "length xs \<le> i \<Longrightarrow> arr_set xs i v = None"
  by (simp add: arr_set_def)

section \<open>Words as bounded numbers\<close>

lemma unat_u32_bound: "unat (x :: u32) < 4294967296"
  using unsigned_less [of x] by simp

lemma unat_u64_bound: "unat (x :: u64) < 18446744073709551616"
  using unsigned_less [of x] by simp

lemma unat_Suc_u32: "unat (x :: u32) < 4294967295 \<Longrightarrow> unat (x + 1) = unat x + 1"
  by (simp add: unat_word_ariths)

lemma unat_add_u64: "unat x + unat y < 18446744073709551616 \<Longrightarrow>
    unat (x + y :: u64) = unat x + unat y"
  by (simp add: unat_word_ariths)

lemma unat_mult_u64: "unat x * unat y < 18446744073709551616 \<Longrightarrow>
    unat (x * y :: u64) = unat x * unat y"
  by (simp add: unat_word_ariths)

lemma unat_diff_u64: "y \<le> x \<Longrightarrow> unat (x - y :: u64) = unat x - unat y"
  by (simp add: unat_sub)

lemma unat_mod_u32: "unat (x mod y :: u32) = unat x mod unat y"
  by (simp add: unat_mod_distrib)

lemma unat_div_u64: "unat (x div y :: u64) = unat x div unat y"
  by (simp add: unat_div_distrib)

lemma unat_of_nat_u64: "n < 18446744073709551616 \<Longrightarrow> unat (of_nat n :: u64) = n"
  by (simp add: unat_of_nat)

lemma unat_of_nat_u32: "n < 4294967296 \<Longrightarrow> unat (of_nat n :: u32) = n"
  by (simp add: unat_of_nat)

section \<open>Lists\<close>

lemma count_if_update:
  assumes "i < length xs"
  shows "length (filter P (xs[i := v])) + (if P (xs ! i) then 1 else 0)
       = length (filter P xs) + (if P v then 1 else 0)"
  using assms
proof (induction xs arbitrary: i)
  case Nil
  then show ?case by simp
next
  case (Cons x xs)
  then show ?case
  proof (cases i)
    case 0
    then show ?thesis by simp
  next
    case (Suc k)
    with Cons.prems have "k < length xs" by simp
    from Cons.IH [OF this] Suc show ?thesis by simp
  qed
qed

end
