(* ===== verification/KBX_Types.thy ===== *)
theory KBX_Types
  imports KBX_Prelude
begin

text \<open>
  The data of \<open>include/kbx_types.h\<close>: the enumerations in the order of their constructors and
  the plain structs. An enumeration is a datatype with the source's constructors;
  \<open>kbx_status_code\<close> is the numeric value the status enumeration gives each constructor.
\<close>

datatype kbx_task_type =
    KBX_TASK_IDLE
  | KBX_TASK_INFERENCE
  | KBX_TASK_IMAGE_ACQUISITION
  | KBX_TASK_PERFORMANCE_TEST

datatype kbx_model_type = KBX_DETECTION_MODEL | KBX_CLASSIFICATION_MODEL

datatype kbx_image_data_type =
    KBX_IMAGE_DATA_TYPE_UNKNOWN
  | KBX_IMAGE_DATA_TYPE_GRAYSCALE
  | KBX_IMAGE_DATA_TYPE_RGB
  | KBX_IMAGE_DATA_TYPE_RGBA

datatype kbx_task_priority =
    KBX_TASK_PRIORITY_LOW
  | KBX_TASK_PRIORITY_MEDIUM
  | KBX_TASK_PRIORITY_HIGH
  | KBX_TASK_PRIORITY_REALTIME

datatype kbx_model_config_type =
    KBX_MODEL_CONFIG_TYPE_DEFAULT
  | KBX_MODEL_CONFIG_TYPE_PERFORMANCE
  | KBX_MODEL_CONFIG_TYPE_ACCURACY

datatype kbx_memory_type =
    KBX_MEMORY_TYPE_RAM
  | KBX_MEMORY_TYPE_VRAM
  | KBX_MEMORY_TYPE_SYSTEM_MEMORY
  | KBX_MEMORY_TYPE_SHARED_MEMORY

datatype kbx_device_type = KBX_DEVICE_TYPE_CPU | KBX_DEVICE_TYPE_GPU | KBX_DEVICE_TYPE_NPU

datatype kbx_backend_type = KBX_BACKEND_TYPE_OPENVINO | KBX_BACKEND_TYPE_TENSORFLOW_LITE

datatype kbx_status_t =
    KBX_STATUS_SUCCESS
  | KBX_STATUS_ERR_NOMEM
  | KBX_STATUS_ERR_IO
  | KBX_STATUS_ERR_GPU
  | KBX_STATUS_ERR_DRM
  | KBX_STATUS_ERR_BPF
  | KBX_STATUS_ERR_VK
  | KBX_STATUS_ERR_GFX
  | KBX_STATUS_CL_ERROR

fun kbx_status_code :: "kbx_status_t \<Rightarrow> int" where
  "kbx_status_code KBX_STATUS_SUCCESS = 0"
| "kbx_status_code KBX_STATUS_ERR_NOMEM = -1"
| "kbx_status_code KBX_STATUS_ERR_IO = -2"
| "kbx_status_code KBX_STATUS_ERR_GPU = -3"
| "kbx_status_code KBX_STATUS_ERR_DRM = -4"
| "kbx_status_code KBX_STATUS_ERR_BPF = -5"
| "kbx_status_code KBX_STATUS_ERR_VK = -6"
| "kbx_status_code KBX_STATUS_ERR_GFX = -7"
| "kbx_status_code KBX_STATUS_CL_ERROR = -8"

record kbx_task_params =
  task_type :: kbx_task_type
  task_priority :: kbx_task_priority

record kbx_model_params =
  model_type :: kbx_model_type
  model_config_type :: kbx_model_config_type
  memory_type :: kbx_memory_type
  device_type :: kbx_device_type
  backend_type :: kbx_backend_type

text \<open>
  \<open>kbx_image\<close>: \<open>data\<close> is a caller's buffer, the bytes it points at, or NULL.
\<close>

record kbx_image =
  img_image_data_type :: kbx_image_data_type
  img_width :: u32
  img_height :: u32
  img_stride :: u32
  img_data_size :: u64
  img_data :: "u8 list option"
  img_fd :: int
  img_dma_fd :: int

lemma kbx_status_code_inj: "kbx_status_code a = kbx_status_code b \<Longrightarrow> a = b"
  by (cases a; cases b) simp_all

lemma kbx_status_code_nonpos: "kbx_status_code a \<le> 0"
  by (cases a) simp_all

end
