(* ===== verification/Queue_Interface.thy ===== *)
theory Queue_Interface
  imports Main
begin

text \<open>
  The contract of a bounded first-in first-out queue, as the clients of the task ring rely on
  it. \<open>enq\<close> and \<open>deq\<close> return \<open>None\<close> where the implementation would trap. The laws say that
  within the invariant neither traps, that \<open>enq\<close> refuses exactly when the queue holds
  \<open>room\<close> elements, and that \<open>deq\<close> takes the oldest one. The client lemma \<open>run_refines\<close> lifts
  them to any interleaving of operations.
\<close>

datatype 'a qop = Enq 'a | Deq

datatype 'a qres = EnqRes bool | DeqRes "'a option"

text \<open>The abstract queue: a list with a bound.\<close>

fun spec_step :: "nat \<Rightarrow> 'a qop \<Rightarrow> 'a list \<Rightarrow> 'a qres \<times> 'a list" where
  "spec_step n (Enq x) xs = (if length xs < n then (EnqRes True, xs @ [x]) else (EnqRes False, xs))"
| "spec_step n Deq [] = (DeqRes None, [])"
| "spec_step n Deq (x # xs) = (DeqRes (Some x), xs)"

fun spec_run :: "nat \<Rightarrow> 'a qop list \<Rightarrow> 'a list \<Rightarrow> 'a qres list \<times> 'a list" where
  "spec_run n [] xs = ([], xs)"
| "spec_run n (p # ps) xs =
     (case spec_step n p xs of (r, ys) \<Rightarrow> case spec_run n ps ys of (rs, zs) \<Rightarrow> (r # rs, zs))"

text \<open>The implementation, driven by the same operations.\<close>

fun impl_step :: "('q \<Rightarrow> 'a \<Rightarrow> (bool \<times> 'q) option) \<Rightarrow> ('q \<Rightarrow> ('a option \<times> 'q) option)
    \<Rightarrow> 'a qop \<Rightarrow> 'q \<Rightarrow> ('a qres \<times> 'q) option" where
  "impl_step enq deq (Enq x) q = map_option (\<lambda>(b, q'). (EnqRes b, q')) (enq q x)"
| "impl_step enq deq Deq q = map_option (\<lambda>(r, q'). (DeqRes r, q')) (deq q)"

fun impl_run :: "('q \<Rightarrow> 'a \<Rightarrow> (bool \<times> 'q) option) \<Rightarrow> ('q \<Rightarrow> ('a option \<times> 'q) option)
    \<Rightarrow> 'a qop list \<Rightarrow> 'q \<Rightarrow> ('a qres list \<times> 'q) option" where
  "impl_run enq deq [] q = Some ([], q)"
| "impl_run enq deq (p # ps) q =
     (case impl_step enq deq p q of
        None \<Rightarrow> None
      | Some (r, q') \<Rightarrow>
          (case impl_run enq deq ps q' of
             None \<Rightarrow> None
           | Some (rs, q'') \<Rightarrow> Some (r # rs, q'')))"

text \<open>What a run accepted and what it delivered.\<close>

fun accepted :: "'a qop list \<Rightarrow> 'a qres list \<Rightarrow> 'a list" where
  "accepted (Enq x # ps) (EnqRes True # rs) = x # accepted ps rs"
| "accepted (p # ps) (r # rs) = accepted ps rs"
| "accepted _ _ = []"

fun delivered :: "'a qres list \<Rightarrow> 'a list" where
  "delivered [] = []"
| "delivered (DeqRes (Some x) # rs) = x # delivered rs"
| "delivered (_ # rs) = delivered rs"

lemma spec_run_fifo:
  "spec_run n ps xs = (rs, ys) \<Longrightarrow> delivered rs @ ys = xs @ accepted ps rs"
proof (induction ps arbitrary: xs rs ys)
  case Nil
  then show ?case by simp
next
  case (Cons p ps)
  show ?case
  proof (cases p)
    case (Enq x)
    with Cons.prems show ?thesis
      by (auto split: prod.splits if_splits dest!: Cons.IH)
  next
    case Deq
    with Cons.prems show ?thesis
      by (cases xs) (auto split: prod.splits dest!: Cons.IH)
  qed
qed

lemma spec_run_bound:
  "spec_run n ps xs = (rs, ys) \<Longrightarrow> length xs \<le> n \<Longrightarrow> length ys \<le> n"
proof (induction ps arbitrary: xs rs ys)
  case Nil
  then show ?case by simp
next
  case (Cons p ps)
  obtain r zs rs' where step: "spec_step n p xs = (r, zs)" and run: "spec_run n ps zs = (rs', ys)"
    using Cons.prems(1) by (auto split: prod.splits)
  from step Cons.prems(2) have "length zs \<le> n"
    by (cases p; cases xs) (auto split: if_splits)
  with run show ?case by (rule Cons.IH)
qed

locale bounded_queue =
  fixes enq :: "'q \<Rightarrow> 'a \<Rightarrow> (bool \<times> 'q) option"
    and deq :: "'q \<Rightarrow> ('a option \<times> 'q) option"
    and contents :: "'q \<Rightarrow> 'a list"
    and room :: "'q \<Rightarrow> nat"
    and inv :: "'q \<Rightarrow> bool"
  assumes enq_room: "inv q \<Longrightarrow> length (contents q) < room q \<Longrightarrow>
      \<exists>q'. enq q x = Some (True, q') \<and> inv q' \<and> room q' = room q \<and> contents q' = contents q @ [x]"
    and enq_full: "inv q \<Longrightarrow> room q \<le> length (contents q) \<Longrightarrow> enq q x = Some (False, q)"
    and deq_empty: "inv q \<Longrightarrow> contents q = [] \<Longrightarrow> deq q = Some (None, q)"
    and deq_first: "inv q \<Longrightarrow> contents q = x # xs \<Longrightarrow>
      \<exists>q'. deq q = Some (Some x, q') \<and> inv q' \<and> room q' = room q \<and> contents q' = xs"
begin

lemma step_refines:
  assumes "inv q"
  shows "\<exists>r q'. impl_step enq deq p q = Some (r, q') \<and> inv q' \<and> room q' = room q
    \<and> spec_step (room q) p (contents q) = (r, contents q')"
proof (cases p)
  case (Enq x)
  show ?thesis
  proof (cases "length (contents q) < room q")
    case True
    with enq_room [OF assms True, of x] Enq show ?thesis by auto
  next
    case False
    with enq_full [OF assms, of x] Enq assms show ?thesis by simp
  qed
next
  case Deq
  show ?thesis
  proof (cases "contents q")
    case Nil
    with deq_empty [OF assms] Deq assms show ?thesis by simp
  next
    case (Cons x xs)
    with deq_first [OF assms Cons] Deq show ?thesis by auto
  qed
qed

lemma run_refines:
  assumes "inv q"
  shows "\<exists>rs q'. impl_run enq deq ps q = Some (rs, q') \<and> inv q' \<and> room q' = room q
    \<and> spec_run (room q) ps (contents q) = (rs, contents q')"
  using assms
proof (induction ps arbitrary: q)
  case Nil
  then show ?case by simp
next
  case (Cons p ps)
  obtain r q1 where s: "impl_step enq deq p q = Some (r, q1)" "inv q1" "room q1 = room q"
      "spec_step (room q) p (contents q) = (r, contents q1)"
    using step_refines [OF Cons.prems] by blast
  obtain rs q2 where t: "impl_run enq deq ps q1 = Some (rs, q2)" "inv q2" "room q2 = room q1"
      "spec_run (room q1) ps (contents q1) = (rs, contents q2)"
    using Cons.IH [OF s(2)] by blast
  from s t show ?case by simp
qed

lemma run_fifo:
  assumes "inv q"
  shows "\<exists>rs q'. impl_run enq deq ps q = Some (rs, q') \<and> inv q'
    \<and> delivered rs @ contents q' = contents q @ accepted ps rs"
  using run_refines [OF assms, of ps] spec_run_fifo by blast

end

end
