(* ===== verification/Mem_Ring.thy ===== *)
theory Mem_Ring
  imports KBX_Types Queue_Interface
begin

text \<open>
  The task ring of \<open>src/mem/mem_ring.cc\<close> over the struct \<open>kbx_task_queue\<close> of
  \<open>include/kbx_mem.h\<close>. \<open>head\<close> is the write index and \<open>tail\<close> the read index; one cell is kept
  free so that the two agree only when the ring is empty. Operations return \<open>None\<close> where the
  code dereferences NULL, leaves an array or divides by zero.

  \<open>numa_alloc_onnode\<close> belongs to libnuma: it is a parameter, a function of the calls made so
  far. The cells of a fresh array are whatever the memory holds (parameters \<open>junk_tasks\<close> and
  \<open>junk_data\<close>).
\<close>

section \<open>libnuma as a parameter\<close>

datatype numa_event =
    NumaAlloc u64 int "ptr option" \<comment> \<open>bytes, node, result\<close>
  | NumaFree "ptr option" u64 \<comment> \<open>pointer, bytes\<close>

type_synonym numa_log = "numa_event list"
type_synonym numa_alloc = "numa_log \<Rightarrow> u64 \<Rightarrow> int \<Rightarrow> ptr option"

section \<open>The ring\<close>

record kbx_task_queue =
  tq_head :: u32
  tq_tail :: u32
  tq_size :: u32
  tq_tasks :: "kbx_task_params arr"
  tq_data :: "ptr arr"

definition sizeof_task_params :: u64 where
  "sizeof_task_params = 8"

definition sizeof_pointer :: u64 where
  "sizeof_pointer = 8"

definition kbx_ring_init ::
  "numa_alloc \<Rightarrow> (nat \<Rightarrow> kbx_task_params) \<Rightarrow> (nat \<Rightarrow> ptr) \<Rightarrow> kbx_task_queue \<Rightarrow> u64 \<Rightarrow> numa_log
     \<Rightarrow> kbx_status_t \<times> kbx_task_queue \<times> numa_log" where
  "kbx_ring_init numa_alloc_onnode junk_tasks junk_data ring sz log =
     (let tbytes = sizeof_task_params * sz;
          t = numa_alloc_onnode log tbytes 0;
          log1 = log @ [NumaAlloc tbytes 0 t]
      in case t of
           None \<Rightarrow> (KBX_STATUS_ERR_NOMEM, ring\<lparr>tq_tasks := None\<rparr>, log1)
         | Some tp \<Rightarrow>
             let ring1 = ring\<lparr>tq_tasks :=
                   Some (tp, map junk_tasks [0..<unat (tbytes div sizeof_task_params)])\<rparr>;
                 dbytes = sizeof_pointer * sz;
                 d = numa_alloc_onnode log1 dbytes 0;
                 log2 = log1 @ [NumaAlloc dbytes 0 d]
             in case d of
                  None \<Rightarrow> (KBX_STATUS_ERR_NOMEM, ring1\<lparr>tq_data := None\<rparr>,
                           log2 @ [NumaFree (Some tp) (sizeof_task_params * sz)])
                | Some dp \<Rightarrow>
                    (KBX_STATUS_SUCCESS,
                     ring1\<lparr>tq_data := Some (dp, map junk_data [0..<unat (dbytes div sizeof_pointer)]),
                           tq_size := ucast sz, tq_head := 0, tq_tail := 0\<rparr>,
                     log2))"

definition kbx_ring_is_full :: "kbx_task_queue \<Rightarrow> bool option" where
  "kbx_ring_is_full ring =
     (if tq_size ring = 0 then None
      else Some ((tq_head ring + 1) mod tq_size ring = tq_tail ring))"

definition kbx_ring_is_empty :: "kbx_task_queue \<Rightarrow> bool" where
  "kbx_ring_is_empty ring = (tq_head ring = tq_tail ring)"

definition kbx_ring_push ::
  "kbx_task_queue \<Rightarrow> kbx_task_params \<Rightarrow> ptr \<Rightarrow> (bool \<times> kbx_task_queue) option" where
  "kbx_ring_push ring task data = do {
     full \<leftarrow> kbx_ring_is_full ring;
     if full then Some (False, ring)
     else do {
       (tp, tcells) \<leftarrow> tq_tasks ring;
       tcells' \<leftarrow> arr_set tcells (unat (tq_head ring)) task;
       (dp, dcells) \<leftarrow> tq_data ring;
       dcells' \<leftarrow> arr_set dcells (unat (tq_head ring)) data;
       Some (True, ring\<lparr>tq_tasks := Some (tp, tcells'), tq_data := Some (dp, dcells'),
                        tq_head := (tq_head ring + 1) mod tq_size ring\<rparr>)
     }
   }"

text \<open>
  \<open>kbx_ring_pop\<close> writes through its two pointer arguments: \<open>task\<close> is what \<open>*task\<close> holds and
  \<open>data\<close> is \<open>None\<close> for a NULL argument, otherwise what \<open>*data\<close> holds. Both come back as they
  are after the call.
\<close>

definition kbx_ring_pop ::
  "kbx_task_queue \<Rightarrow> kbx_task_params \<Rightarrow> ptr option
     \<Rightarrow> (bool \<times> kbx_task_params \<times> ptr option \<times> kbx_task_queue) option" where
  "kbx_ring_pop ring task data =
     (if kbx_ring_is_empty ring then Some (False, task, data, ring)
      else do {
        (tp, tcells) \<leftarrow> tq_tasks ring;
        task' \<leftarrow> arr_get tcells (unat (tq_tail ring));
        data' \<leftarrow> (case data of
                    None \<Rightarrow> Some None
                  | Some _ \<Rightarrow> do {
                      (dp, dcells) \<leftarrow> tq_data ring;
                      v \<leftarrow> arr_get dcells (unat (tq_tail ring));
                      Some (Some v)
                    });
        if tq_size ring = 0 then None
        else Some (True, task', data', ring\<lparr>tq_tail := (tq_tail ring + 1) mod tq_size ring\<rparr>)
      })"

definition kbx_ring_destroy :: "kbx_task_queue \<Rightarrow> numa_log \<Rightarrow> kbx_task_queue \<times> numa_log" where
  "kbx_ring_destroy ring log =
     (let (ring1, log1) =
            (case tq_tasks ring of
               None \<Rightarrow> (ring, log)
             | Some (tp, _) \<Rightarrow>
                 (ring\<lparr>tq_tasks := None\<rparr>,
                  log @ [NumaFree (Some tp) (sizeof_task_params * ucast (tq_size ring))]))
      in case tq_data ring1 of
           None \<Rightarrow> (ring1, log1)
         | Some (dp, _) \<Rightarrow>
             (ring1\<lparr>tq_data := None\<rparr>,
              log1 @ [NumaFree (Some dp) (sizeof_pointer * ucast (tq_size ring1))]))"

section \<open>Invariant and abstraction\<close>

definition ring_inv :: "kbx_task_queue \<Rightarrow> bool" where
  "ring_inv q \<longleftrightarrow>
     (case (tq_tasks q, tq_data q) of
        (Some (_, ts), Some (_, ds)) \<Rightarrow>
          unat (tq_size q) \<le> length ts \<and> unat (tq_size q) \<le> length ds \<and>
          unat (tq_head q) < unat (tq_size q) \<and> unat (tq_tail q) < unat (tq_size q)
      | _ \<Rightarrow> False)"

definition ring_room :: "kbx_task_queue \<Rightarrow> nat" where
  "ring_room q = unat (tq_size q) - 1"

text \<open>The occupied cells, oldest first: from \<open>tail\<close> up to \<open>head\<close>, around the end.\<close>

definition ring_idx :: "nat \<Rightarrow> nat \<Rightarrow> nat \<Rightarrow> nat list" where
  "ring_idx h t s = (if t \<le> h then [t..<h] else [t..<s] @ [0..<h])"

definition ring_cell :: "kbx_task_queue \<Rightarrow> nat \<Rightarrow> kbx_task_params \<times> ptr" where
  "ring_cell q i = (snd (the (tq_tasks q)) ! i, snd (the (tq_data q)) ! i)"

lemma ring_cell_tail [simp]: "ring_cell (q\<lparr>tq_tail := t\<rparr>) = ring_cell q"
  by (rule ext) (simp add: ring_cell_def)

definition ring_contents :: "kbx_task_queue \<Rightarrow> (kbx_task_params \<times> ptr) list" where
  "ring_contents q =
     map (ring_cell q) (ring_idx (unat (tq_head q)) (unat (tq_tail q)) (unat (tq_size q)))"

lemma ring_idx_length:
  "h < s \<Longrightarrow> t < s \<Longrightarrow> length (ring_idx h t s) = (if t \<le> h then h - t else h + s - t)"
  by (auto simp: ring_idx_def)

lemma ring_idx_full_iff:
  assumes "h < s" and "t < s"
  shows "(h + 1) mod s = t \<longleftrightarrow> length (ring_idx h t s) = s - 1"
proof (cases "h + 1 = s")
  case True
  with assms show ?thesis by (auto simp: ring_idx_length)
next
  case False
  with assms have "(h + 1) mod s = h + 1" by simp
  with assms False show ?thesis by (auto simp: ring_idx_length)
qed

lemma ring_idx_snoc:
  assumes "h < s" and "t < s" and "(h + 1) mod s \<noteq> t"
  shows "ring_idx ((h + 1) mod s) t s = ring_idx h t s @ [h]"
proof (cases "h + 1 = s")
  case True
  with assms show ?thesis by (auto simp: ring_idx_def upt_Suc_append)
next
  case False
  with assms have "(h + 1) mod s = h + 1" by simp
  with assms show ?thesis by (auto simp: ring_idx_def)
qed

lemma ring_idx_Cons:
  assumes "h < s" and "t < s" and "h \<noteq> t"
  shows "ring_idx h t s = t # ring_idx h ((t + 1) mod s) s"
proof (cases "t + 1 = s")
  case True
  with assms show ?thesis by (auto simp: ring_idx_def upt_conv_Cons)
next
  case False
  with assms have "(t + 1) mod s = t + 1" by simp
  with assms show ?thesis by (auto simp: ring_idx_def upt_conv_Cons)
qed

lemma ring_idx_nil_iff: "h < s \<Longrightarrow> t < s \<Longrightarrow> ring_idx h t s = [] \<longleftrightarrow> h = t"
  by (auto simp: ring_idx_def)

lemma ring_idx_fresh: "h < s \<Longrightarrow> t < s \<Longrightarrow> h \<notin> set (ring_idx h t s)"
  by (auto simp: ring_idx_def)

lemma ring_idx_less: "h < s \<Longrightarrow> t < s \<Longrightarrow> i \<in> set (ring_idx h t s) \<Longrightarrow> i < s"
  by (auto simp: ring_idx_def split: if_splits)

lemma ring_invE:
  assumes "ring_inv q"
  obtains tp ts dp ds where "tq_tasks q = Some (tp, ts)" "tq_data q = Some (dp, ds)"
    "unat (tq_size q) \<le> length ts" "unat (tq_size q) \<le> length ds"
    "unat (tq_head q) < unat (tq_size q)" "unat (tq_tail q) < unat (tq_size q)"
  using assms by (auto simp: ring_inv_def split: option.splits prod.splits)

lemma ring_inv_size: "ring_inv q \<Longrightarrow> tq_size q \<noteq> 0"
  by (elim ring_invE) auto

lemma unat_next:
  fixes i s :: u32
  assumes "unat i < unat s"
  shows "unat ((i + 1) mod s) = (unat i + 1) mod unat s"
proof -
  have "unat i < 4294967295" using assms unat_u32_bound [of s] by linarith
  then show ?thesis by (simp add: unat_mod_u32 unat_Suc_u32)
qed

lemma unat_next_less:
  fixes i s :: u32
  assumes "unat i < unat s"
  shows "unat ((i + 1) mod s) < unat s"
  using assms by (simp add: unat_next)

lemma ring_is_full_iff:
  assumes "ring_inv q"
  shows "kbx_ring_is_full q = Some (length (ring_contents q) = ring_room q)"
proof -
  from assms have h: "unat (tq_head q) < unat (tq_size q)" and t: "unat (tq_tail q) < unat (tq_size q)"
    by (auto elim: ring_invE)
  have "(tq_head q + 1) mod tq_size q = tq_tail q
      \<longleftrightarrow> (unat (tq_head q) + 1) mod unat (tq_size q) = unat (tq_tail q)"
    using unat_next [OF h] by (metis word_unat_eq_iff)
  then show ?thesis
    using ring_idx_full_iff [OF h t] ring_inv_size [OF assms]
    by (simp add: kbx_ring_is_full_def ring_contents_def ring_room_def)
qed

lemma ring_is_empty_iff:
  assumes "ring_inv q"
  shows "kbx_ring_is_empty q \<longleftrightarrow> ring_contents q = []"
proof -
  from assms have "unat (tq_head q) < unat (tq_size q)" "unat (tq_tail q) < unat (tq_size q)"
    by (auto elim: ring_invE)
  then show ?thesis
    by (simp add: kbx_ring_is_empty_def ring_contents_def ring_idx_nil_iff word_unat_eq_iff)
qed

lemma ring_contents_bound:
  assumes "ring_inv q"
  shows "length (ring_contents q) \<le> ring_room q"
proof -
  from assms have "unat (tq_head q) < unat (tq_size q)" "unat (tq_tail q) < unat (tq_size q)"
    by (auto elim: ring_invE)
  then show ?thesis by (auto simp: ring_contents_def ring_room_def ring_idx_length)
qed

section \<open>The operations implement a bounded queue\<close>

lemma ring_push_room:
  assumes inv: "ring_inv q" and room: "length (ring_contents q) < ring_room q"
  shows "\<exists>q'. kbx_ring_push q t d = Some (True, q') \<and> ring_inv q' \<and> ring_room q' = ring_room q
    \<and> ring_contents q' = ring_contents q @ [(t, d)]"
proof -
  obtain tp ts dp ds where q: "tq_tasks q = Some (tp, ts)" "tq_data q = Some (dp, ds)"
    "unat (tq_size q) \<le> length ts" "unat (tq_size q) \<le> length ds"
    and h: "unat (tq_head q) < unat (tq_size q)" and tl: "unat (tq_tail q) < unat (tq_size q)"
    using inv by (rule ring_invE)
  let ?h = "unat (tq_head q)" and ?t = "unat (tq_tail q)" and ?s = "unat (tq_size q)"
  let ?q = "q\<lparr>tq_tasks := Some (tp, ts[?h := t]), tq_data := Some (dp, ds[?h := d]),
              tq_head := (tq_head q + 1) mod tq_size q\<rparr>"
  have nf: "(?h + 1) mod ?s \<noteq> ?t"
    using room ring_idx_full_iff [OF h tl] by (auto simp: ring_contents_def ring_room_def)
  have "kbx_ring_push q t d = Some (True, ?q)"
    using ring_is_full_iff [OF inv] room q h by (simp add: kbx_ring_push_def)
  moreover have "ring_inv ?q"
    using q h tl unat_next_less [OF h] by (simp add: ring_inv_def)
  moreover have "ring_contents ?q = ring_contents q @ [(t, d)]"
  proof -
    have "ring_cell ?q i = ring_cell q i" if "i \<in> set (ring_idx ?h ?t ?s)" for i
      using that q ring_idx_fresh [OF h tl] by (cases "i = ?h") (simp_all add: ring_cell_def)
    moreover have "ring_cell ?q ?h = (t, d)"
      using q h by (simp add: ring_cell_def)
    ultimately show ?thesis
      using ring_idx_snoc [OF h tl nf] unat_next [OF h] by (simp add: ring_contents_def)
  qed
  ultimately show ?thesis by (simp add: ring_room_def)
qed

lemma ring_push_full:
  assumes "ring_inv q" and "ring_room q \<le> length (ring_contents q)"
  shows "kbx_ring_push q t d = Some (False, q)"
  using ring_is_full_iff [OF assms(1)] ring_contents_bound [OF assms(1)] assms(2)
  by (simp add: kbx_ring_push_def)

lemma ring_pop_empty:
  assumes "ring_inv q" and "ring_contents q = []"
  shows "kbx_ring_pop q t d = Some (False, t, d, q)"
  using assms by (simp add: kbx_ring_pop_def ring_is_empty_iff)

lemma ring_pop_first:
  assumes inv: "ring_inv q" and c: "ring_contents q = (t, d) # xs"
  shows "\<exists>q'. kbx_ring_pop q t0 d0 = Some (True, t, map_option (\<lambda>_. d) d0, q')
    \<and> ring_inv q' \<and> ring_room q' = ring_room q \<and> ring_contents q' = xs"
proof -
  obtain tp ts dp ds where q: "tq_tasks q = Some (tp, ts)" "tq_data q = Some (dp, ds)"
    "unat (tq_size q) \<le> length ts" "unat (tq_size q) \<le> length ds"
    and h: "unat (tq_head q) < unat (tq_size q)" and tl: "unat (tq_tail q) < unat (tq_size q)"
    using inv by (rule ring_invE)
  let ?h = "unat (tq_head q)" and ?t = "unat (tq_tail q)" and ?s = "unat (tq_size q)"
  let ?q = "q\<lparr>tq_tail := (tq_tail q + 1) mod tq_size q\<rparr>"
  have ne: "\<not> kbx_ring_is_empty q"
    using c by (simp add: ring_is_empty_iff [OF inv])
  then have "?h \<noteq> ?t" by (simp add: kbx_ring_is_empty_def word_unat_eq_iff)
  note idx = ring_idx_Cons [OF h tl this]
  from c idx have hd: "ring_cell q ?t = (t, d)" by (simp add: ring_contents_def)
  have "kbx_ring_pop q t0 d0 = Some (True, t, map_option (\<lambda>_. d) d0, ?q)"
    using ne q tl hd ring_inv_size [OF inv]
    by (cases d0) (simp_all add: kbx_ring_pop_def ring_cell_def)
  moreover have "ring_inv ?q"
    using q h unat_next_less [OF tl] by (simp add: ring_inv_def)
  moreover have "ring_contents ?q = xs"
    using c idx unat_next [OF tl] by (simp add: ring_contents_def ring_cell_def)
  ultimately show ?thesis by (simp add: ring_room_def)
qed

text \<open>The ring as a queue of pairs of a task and its data pointer.\<close>

definition ring_enq :: "kbx_task_queue \<Rightarrow> kbx_task_params \<times> ptr \<Rightarrow> (bool \<times> kbx_task_queue) option"
  where "ring_enq q x = kbx_ring_push q (fst x) (snd x)"

definition idle_task :: kbx_task_params where
  "idle_task = \<lparr>task_type = KBX_TASK_IDLE, task_priority = KBX_TASK_PRIORITY_LOW\<rparr>"

definition ring_deq :: "kbx_task_queue \<Rightarrow> ((kbx_task_params \<times> ptr) option \<times> kbx_task_queue) option"
  where "ring_deq q =
    map_option (\<lambda>(ok, t, d, q'). (if ok then Some (t, the d) else None, q'))
      (kbx_ring_pop q idle_task (Some 0))"

interpretation task_ring: bounded_queue ring_enq ring_deq ring_contents ring_room ring_inv
proof unfold_locales
  fix q x
  assume "ring_inv q" "length (ring_contents q) < ring_room q"
  then show "\<exists>q'. ring_enq q x = Some (True, q') \<and> ring_inv q' \<and> ring_room q' = ring_room q
      \<and> ring_contents q' = ring_contents q @ [x]"
    using ring_push_room [of q "fst x" "snd x"] by (simp add: ring_enq_def)
next
  fix q x xs
  assume inv: "ring_inv q" and c: "ring_contents q = x # xs"
  from c have "ring_contents q = (fst x, snd x) # xs" by simp
  then obtain q' where "kbx_ring_pop q idle_task (Some 0) = Some (True, fst x, Some (snd x), q')"
      "ring_inv q' \<and> ring_room q' = ring_room q \<and> ring_contents q' = xs"
    using ring_pop_first [OF inv, of "fst x" "snd x" xs idle_task "Some 0"] by auto
  then show "\<exists>q'. ring_deq q = Some (Some x, q') \<and> ring_inv q' \<and> ring_room q' = ring_room q
      \<and> ring_contents q' = xs"
    by (simp add: ring_deq_def)
qed (simp_all add: ring_enq_def ring_deq_def ring_push_full ring_pop_empty)

section \<open>Initialisation and destruction\<close>

lemma mod_le_mod_of_dvd: "n mod 4294967296 \<le> n mod (2305843009213693952 :: nat)"
proof -
  have "n mod 4294967296 = n mod 2305843009213693952 mod 4294967296"
    by (rule mod_mod_cancel [symmetric]) (rule dvdI [where k = 536870912], simp)
  then show ?thesis by (metis mod_less_eq_dividend)
qed

lemma cells_of_eight: "unat ((8 * sz) div 8 :: u64) = unat sz mod 2305843009213693952"
proof -
  have "unat (8 * sz) = 8 * (unat sz mod 2305843009213693952)"
    by (simp add: unat_word_ariths mult_mod_right)
  then show ?thesis by (simp add: unat_div_u64)
qed

lemma ring_init_success:
  assumes ok: "kbx_ring_init numa jt jd q0 sz log = (KBX_STATUS_SUCCESS, q, log')"
  shows "tq_size q = ucast sz" and "tq_head q = 0" and "tq_tail q = 0"
    and "\<exists>tp ts dp ds. tq_tasks q = Some (tp, ts) \<and> tq_data q = Some (dp, ds)
      \<and> length ts = unat sz mod 2305843009213693952 \<and> length ds = unat sz mod 2305843009213693952
      \<and> log' = log @ [NumaAlloc (8 * sz) 0 (Some tp), NumaAlloc (8 * sz) 0 (Some dp)]"
  using ok cells_of_eight [of sz]
  by (auto simp: kbx_ring_init_def Let_def sizeof_task_params_def sizeof_pointer_def
      split: option.splits)

lemma ring_init_inv:
  assumes ok: "kbx_ring_init numa jt jd q0 sz log = (KBX_STATUS_SUCCESS, q, log')"
    and nz: "(ucast sz :: u32) \<noteq> 0"
  shows "ring_inv q" and "ring_contents q = []" and "ring_room q = unat sz mod 4294967296 - 1"
proof -
  have s: "unat (ucast sz :: u32) = unat sz mod 4294967296"
    by (simp add: unsigned_ucast_eq take_bit_eq_mod)
  with nz have pos: "0 < unat sz mod 4294967296"
    by (metis gr0I unat_eq_zero)
  show "ring_inv q"
    using ring_init_success [OF ok] s pos mod_le_mod_of_dvd [of "unat sz"]
    by (auto simp: ring_inv_def)
  show "ring_contents q = []"
    using ring_init_success [OF ok] by (simp add: ring_contents_def ring_idx_def)
  show "ring_room q = unat sz mod 4294967296 - 1"
    using ring_init_success [OF ok] s by (simp add: ring_room_def)
qed

section \<open>Properties\<close>

text \<open>
  C9: Any interleaving of pushes and pops on a well-formed ring runs without trapping and
  behaves as a list bounded by \<open>size - 1\<close>: same results, same contents, invariant kept.
\<close>

theorem task_ring_refines_bounded_list:
  assumes "ring_inv q"
  shows "\<exists>rs q'. impl_run ring_enq ring_deq ps q = Some (rs, q') \<and> ring_inv q'
    \<and> ring_room q' = ring_room q
    \<and> spec_run (ring_room q) ps (ring_contents q) = (rs, ring_contents q')"
  using assms by (rule task_ring.run_refines)

definition demo_task :: "kbx_task_priority \<Rightarrow> kbx_task_params" where
  "demo_task p = \<lparr>task_type = KBX_TASK_INFERENCE, task_priority = p\<rparr>"

definition demo_ring :: kbx_task_queue where
  "demo_ring = \<lparr>tq_head = 1, tq_tail = 2, tq_size = 3,
     tq_tasks = Some (4096, replicate 3 idle_task), tq_data = Some (8192, [7, 0, 5])\<rparr>"

lemma demo_ring_inv: "ring_inv demo_ring"
  by (simp add: ring_inv_def demo_ring_def)

lemma demo_ring_view:
  "ring_room demo_ring = 2" "ring_contents demo_ring = [(idle_task, 5), (idle_task, 7)]"
  by code_simp+

theorem task_ring_refines_bounded_list_witness:
  "\<exists>q'. impl_run ring_enq ring_deq [Enq (idle_task, 9), Deq, Enq (idle_task, 9)] demo_ring
       = Some ([EnqRes False, DeqRes (Some (idle_task, 5)), EnqRes True], q')
     \<and> ring_contents q' = [(idle_task, 7), (idle_task, 9)]"
  using task_ring_refines_bounded_list [OF demo_ring_inv,
      of "[Enq (idle_task, 9), Deq, Enq (idle_task, 9)]"]
  by (auto simp: demo_ring_view)

text \<open>
  A ring initialised with \<open>sz\<close> slots delivers exactly what it accepted, in that order, and
  never holds more than \<open>sz - 1\<close> elements, as long as the slot count survives its
  truncation to 32 bits (\<open>ring->size = size\<close>): the bound is the truncated count minus one.
\<close>

theorem ring_init_then_fifo:
  assumes "kbx_ring_init numa jt jd q0 sz log = (KBX_STATUS_SUCCESS, q, log')"
    and "(ucast sz :: u32) \<noteq> 0"
  shows "\<exists>rs q'. impl_run ring_enq ring_deq ps q = Some (rs, q')
    \<and> delivered rs @ ring_contents q' = accepted ps rs
    \<and> length (ring_contents q') \<le> unat sz mod 4294967296 - 1"
proof -
  note q = ring_init_inv [OF assms]
  obtain rs q' where r: "impl_run ring_enq ring_deq ps q = Some (rs, q')" "ring_inv q'"
      "ring_room q' = ring_room q" "spec_run (ring_room q) ps [] = (rs, ring_contents q')"
    using task_ring.run_refines [OF q(1), of ps] q(2) by auto
  from spec_run_fifo [OF r(4)] spec_run_bound [OF r(4)] r(1) q(3) show ?thesis by simp
qed

definition demo_numa :: numa_alloc where
  "demo_numa log bytes node = Some (of_nat (4096 * (length log + 1)))"

definition demo_fresh_ring :: kbx_task_queue where
  "demo_fresh_ring = \<lparr>tq_head = 9, tq_tail = 5, tq_size = 0, tq_tasks = None, tq_data = None\<rparr>"

lemma demo_ring_init:
  "kbx_ring_init demo_numa (\<lambda>_. idle_task) (\<lambda>_. 0) demo_fresh_ring 3 []
   = (KBX_STATUS_SUCCESS,
      \<lparr>tq_head = 0, tq_tail = 0, tq_size = 3, tq_tasks = Some (4096, replicate 3 idle_task),
       tq_data = Some (8192, replicate 3 0)\<rparr>,
      [NumaAlloc 24 0 (Some 4096), NumaAlloc 24 0 (Some 8192)])"
  by (simp add: kbx_ring_init_def Let_def demo_numa_def demo_fresh_ring_def sizeof_task_params_def
      sizeof_pointer_def unat_div_u64 map_replicate_const)

theorem ring_init_then_fifo_witness:
  "\<exists>rs q'. impl_run ring_enq ring_deq [Enq (idle_task, 1), Enq (idle_task, 2), Enq (idle_task, 3), Deq]
        (fst (snd (kbx_ring_init demo_numa (\<lambda>_. idle_task) (\<lambda>_. 0) demo_fresh_ring 3 [])))
      = Some (rs, q') \<and> length (ring_contents q') \<le> 2"
  using ring_init_then_fifo [OF demo_ring_init,
      of "[Enq (idle_task, 1), Enq (idle_task, 2), Enq (idle_task, 3), Deq]"]
  by (auto simp: demo_ring_init)

text \<open>
  \<open>kbx_ring_destroy\<close> after a successful \<open>kbx_ring_init\<close> of fewer than \<open>2^32\<close> slots gives
  back both arrays with the sizes they were allocated with, each once, and a second
  \<open>kbx_ring_destroy\<close> frees nothing.
\<close>

theorem ring_destroy_releases_init:
  assumes "kbx_ring_init numa jt jd q0 sz log = (KBX_STATUS_SUCCESS, q, log')"
    and "sz < 4294967296"
  shows "\<exists>tp dp q1. log' = log @ [NumaAlloc (8 * sz) 0 (Some tp), NumaAlloc (8 * sz) 0 (Some dp)]
    \<and> kbx_ring_destroy q log' = (q1, log' @ [NumaFree (Some tp) (8 * sz), NumaFree (Some dp) (8 * sz)])
    \<and> (\<forall>l. kbx_ring_destroy q1 l = (q1, l))"
proof -
  have "unat sz < 4294967296" using assms(2) by (simp add: word_less_nat_alt)
  then have "ucast (ucast sz :: u32) = sz"
    by (simp add: word_unat_eq_iff unsigned_ucast_eq take_bit_eq_mod unat_mod_distrib)
  with ring_init_success [OF assms(1)] show ?thesis
    by (auto simp: kbx_ring_destroy_def sizeof_task_params_def sizeof_pointer_def)
qed

theorem ring_destroy_releases_init_witness:
  "\<exists>tp dp q1. [NumaAlloc 24 0 (Some 4096), NumaAlloc 24 0 (Some 8192)]
      = [NumaAlloc 24 0 (Some tp), NumaAlloc 24 0 (Some dp)]
    \<and> kbx_ring_destroy
        \<lparr>tq_head = 0, tq_tail = 0, tq_size = 3, tq_tasks = Some (4096, replicate 3 idle_task),
         tq_data = Some (8192, replicate 3 0)\<rparr>
        [NumaAlloc 24 0 (Some 4096), NumaAlloc 24 0 (Some 8192)]
      = (q1, [NumaAlloc 24 0 (Some 4096), NumaAlloc 24 0 (Some 8192),
              NumaFree (Some tp) 24, NumaFree (Some dp) 24])"
  using ring_destroy_releases_init [OF demo_ring_init] by auto

text \<open>
  When the second allocation fails, \<open>kbx_ring_init\<close> frees the task array but leaves
  \<open>ring->tasks\<close> pointing at it, so the \<open>kbx_ring_destroy\<close> that a caller runs afterwards
  frees the same address a second time.
\<close>

theorem ring_init_failure_leaves_dangling_tasks:
  assumes "kbx_ring_init numa jt jd q0 sz log = (KBX_STATUS_ERR_NOMEM, q, log')"
    and "numa log (8 * sz) 0 = Some tp"
  shows "\<exists>n. log' = log @ [NumaAlloc (8 * sz) 0 (Some tp), NumaAlloc (8 * sz) 0 None,
                           NumaFree (Some tp) (8 * sz)]
    \<and> snd (kbx_ring_destroy q log') = log' @ [NumaFree (Some tp) n]"
  using assms
  by (auto simp: kbx_ring_init_def kbx_ring_destroy_def Let_def sizeof_task_params_def
      sizeof_pointer_def split: option.splits)

definition demo_numa_once :: numa_alloc where
  "demo_numa_once log bytes node = (if log = [] then Some 4096 else None)"

theorem ring_init_failure_leaves_dangling_tasks_witness:
  "\<exists>q l n. kbx_ring_init demo_numa_once (\<lambda>_. idle_task) (\<lambda>_. 0) demo_fresh_ring 3 []
      = (KBX_STATUS_ERR_NOMEM, q, l)
    \<and> snd (kbx_ring_destroy q l)
      = [NumaAlloc 24 0 (Some 4096), NumaAlloc 24 0 None, NumaFree (Some 4096) 24,
         NumaFree (Some 4096) n]"
proof -
  obtain q l where i: "kbx_ring_init demo_numa_once (\<lambda>_. idle_task) (\<lambda>_. 0) demo_fresh_ring 3 []
      = (KBX_STATUS_ERR_NOMEM, q, l)"
    by (simp add: kbx_ring_init_def Let_def demo_numa_once_def)
  from ring_init_failure_leaves_dangling_tasks [OF i, of 4096] i show ?thesis
    by (auto simp: demo_numa_once_def)
qed

end
