(* ===== verification/Mem_Pool.thy ===== *)
theory Mem_Pool
  imports Mem_Ring
begin

text \<open>
  The CPU pool allocator of \<open>src/mem/mem_pool.cc\<close> over the structs \<open>kbx_mem_block\<close>,
  \<open>kbx_mem_pool\<close> and \<open>kbx_mem_manager\<close> of \<open>include/kbx_mem.h\<close>, one thread at a time
  (\<open>Mem_Conc\<close> interleaves several). \<open>None\<close> stands for undefined behaviour. The library calls
  are parameters: \<open>numa_alloc_onnode\<close> as in \<open>Mem_Ring\<close>, \<open>max_node\<close> for
  \<open>numa_max_node()\<close> and \<open>cpu_node\<close> for \<open>numa_node_of_cpu(sched_getcpu())\<close>.
\<close>

section \<open>State\<close>

abbreviation KBX_PAGE_SIZE :: u64 where
  "KBX_PAGE_SIZE \<equiv> 4096"

record kbx_mem_block =
  mb_size :: u64
  mb_ptr :: ptr
  mb_offset :: u64
  mb_used_size :: u64
  mb_is_used :: bool

record kbx_mem_pool =
  mp_buf :: "ptr option"
  mp_size :: u64
  mp_used :: u64
  mp_peak_used :: u64
  mp_block_size :: u64
  mp_blocks :: "kbx_mem_block arr"

record kbx_mem_manager =
  mm_cpu_pool :: "kbx_mem_pool arr"
  mm_gpu_pool :: "ptr option"
  mm_shared_pool :: "ptr option"
  mm_system_pool :: "ptr option"
  mm_framebuffer :: "ptr option"
  mm_framebuffer_size :: u64
  mm_display_buffer :: "ptr option"
  mm_display_buffer_size :: u64
  mm_drm_fd :: int
  mm_drm_fb_id :: int

text \<open>The ring over a memory manager that the header declares beside the task queue.\<close>

record kbx_ring_t =
  kr_head :: u64
  kr_tail :: u64
  kr_tasks :: "kbx_task_params arr"
  kr_capacity :: u64
  kr_mem_manager :: kbx_mem_manager

definition sizeof_mem_pool :: u64 where
  "sizeof_mem_pool = 48"

definition sizeof_mem_block :: u64 where
  "sizeof_mem_block = 40"

section \<open>Initialisation and destruction\<close>

definition init_block :: "ptr \<Rightarrow> nat \<Rightarrow> kbx_mem_block" where
  "init_block buf j =
     \<lparr>mb_size = KBX_PAGE_SIZE, mb_ptr = buf + of_nat j * KBX_PAGE_SIZE,
      mb_offset = of_nat j * KBX_PAGE_SIZE, mb_used_size = 0, mb_is_used = False\<rparr>"

definition init_blocks :: "ptr \<Rightarrow> nat \<Rightarrow> kbx_mem_block list" where
  "init_blocks buf n = map (init_block buf) [0..<n]"

text \<open>The loop over the pools: every call names node 0, whatever the pool's index.\<close>

fun init_pools :: "numa_alloc \<Rightarrow> u64 \<Rightarrow> nat list \<Rightarrow> kbx_mem_pool list \<Rightarrow> numa_log
    \<Rightarrow> kbx_status_t \<times> kbx_mem_pool list \<times> numa_log" where
  "init_pools numa_alloc_onnode bytes [] pools log = (KBX_STATUS_SUCCESS, pools, log)"
| "init_pools numa_alloc_onnode bytes (i # is) pools log =
     (let b = numa_alloc_onnode log bytes 0;
          log1 = log @ [NumaAlloc bytes 0 b];
          pool1 = (pools ! i)\<lparr>mp_buf := b\<rparr>
      in case b of
           None \<Rightarrow> (KBX_STATUS_ERR_NOMEM, pools[i := pool1], log1)
         | Some buf \<Rightarrow>
             let num_blocks = bytes div KBX_PAGE_SIZE;
                 bbytes = sizeof_mem_block * num_blocks;
                 c = numa_alloc_onnode log1 bbytes 0;
                 log2 = log1 @ [NumaAlloc bbytes 0 c];
                 pool2 = pool1\<lparr>mp_size := num_blocks, mp_used := 0, mp_peak_used := 0,
                               mp_block_size := KBX_PAGE_SIZE\<rparr>
             in case c of
                  None \<Rightarrow> (KBX_STATUS_ERR_NOMEM, pools[i := pool2\<lparr>mp_blocks := None\<rparr>], log2)
                | Some cp \<Rightarrow>
                    init_pools numa_alloc_onnode bytes is
                      (pools[i := pool2\<lparr>mp_blocks := Some (cp, init_blocks buf (unat num_blocks))\<rparr>])
                      log2)"

definition kbx_mem_pool_init ::
  "numa_alloc \<Rightarrow> int \<Rightarrow> (nat \<Rightarrow> kbx_mem_pool) \<Rightarrow> kbx_mem_manager \<Rightarrow> u64 \<Rightarrow> numa_log
     \<Rightarrow> kbx_status_t \<times> kbx_mem_manager \<times> numa_log" where
  "kbx_mem_pool_init numa_alloc_onnode max_node junk mgr sz log =
     (let pool_count = nat (max_node + 1);
          bytes = sz * 1024 * 1024;
          pbytes = sizeof_mem_pool * of_nat pool_count;
          p = numa_alloc_onnode log pbytes 0;
          log1 = log @ [NumaAlloc pbytes 0 p]
      in case p of
           None \<Rightarrow> (KBX_STATUS_ERR_NOMEM, mgr\<lparr>mm_cpu_pool := None\<rparr>, log1)
         | Some pp \<Rightarrow>
             case init_pools numa_alloc_onnode bytes [0..<pool_count] (map junk [0..<pool_count]) log1 of
               (st, pools, log2) \<Rightarrow>
                 let mgr1 = mgr\<lparr>mm_cpu_pool := Some (pp, pools)\<rparr>
                 in if st = KBX_STATUS_SUCCESS
                    then (KBX_STATUS_SUCCESS,
                          mgr1\<lparr>mm_gpu_pool := None, mm_shared_pool := None, mm_system_pool := None\<rparr>,
                          log2)
                    else (st, mgr1, log2))"

fun destroy_pools :: "nat \<Rightarrow> kbx_mem_pool list \<Rightarrow> numa_log \<Rightarrow> numa_log option" where
  "destroy_pools 0 pools log = Some log"
| "destroy_pools (Suc n) [] log = None"
| "destroy_pools (Suc n) (p # pools) log =
     destroy_pools n pools
       (case mp_buf p of
          None \<Rightarrow> log
        | Some buf \<Rightarrow>
            log @ [NumaFree (Some buf) (mp_size p * KBX_PAGE_SIZE),
                   NumaFree (map_option fst (mp_blocks p)) (mp_size p * sizeof_mem_block)])"

definition kbx_mem_pool_destroy :: "int \<Rightarrow> kbx_mem_manager \<Rightarrow> numa_log \<Rightarrow> numa_log option" where
  "kbx_mem_pool_destroy max_node mgr log =
     (case mm_cpu_pool mgr of
        None \<Rightarrow> Some log
      | Some (pp, pools) \<Rightarrow>
          let pool_count = nat (max_node + 1)
          in do {
               log1 \<leftarrow> destroy_pools pool_count pools log;
               Some (log1 @ [NumaFree (Some pp) (of_nat pool_count * sizeof_mem_pool)])
             })"

section \<open>Allocation\<close>

definition blocks_needed :: "u64 \<Rightarrow> u64" where
  "blocks_needed sz = (sz + KBX_PAGE_SIZE - 1) div KBX_PAGE_SIZE"

text \<open>The inner loop that gives a broken run back: clears \<open>m\<close> flags from \<open>k\<close> on.\<close>

fun clear_flags :: "nat \<Rightarrow> nat \<Rightarrow> kbx_mem_block list \<Rightarrow> kbx_mem_block list option" where
  "clear_flags k 0 cells = Some cells"
| "clear_flags k (Suc m) cells = do {
     b \<leftarrow> arr_get cells k;
     clear_flags (Suc k) m (cells[k := b\<lparr>mb_is_used := False\<rparr>])
   }"

text \<open>
  The search loop from block \<open>j\<close> on. \<open>test_and_set\<close> on a free block takes it; on a used block
  it changes nothing. The counters are natural numbers: each is at most \<open>j\<close>, so \<open>size_t\<close> does
  not wrap. The result is the first index of the run found, if any.
\<close>

function alloc_scan :: "nat \<Rightarrow> u64 \<Rightarrow> nat \<Rightarrow> nat \<Rightarrow> nat \<Rightarrow> nat \<Rightarrow> kbx_mem_block list
    \<Rightarrow> (nat option \<times> kbx_mem_block list) option" where
  "alloc_scan needed sz n j start_idx found cells =
     (if j < n then do {
        b \<leftarrow> arr_get cells j;
        if \<not> mb_is_used b then
          (let start_idx' = (if found = 0 then j else start_idx);
               cells' = cells[j := b\<lparr>mb_is_used := True, mb_used_size := sz\<rparr>]
           in if found + 1 = needed then Some (Some start_idx', cells')
              else alloc_scan needed sz n (j + 1) start_idx' (found + 1) cells')
        else do {
          cells' \<leftarrow> clear_flags start_idx found cells;
          alloc_scan needed sz n (j + 1) start_idx 0 cells'
        }
      }
      else Some (None, cells))"
  by pat_completeness auto
termination
  by (relation "measure (\<lambda>(needed, sz, n, j, start_idx, found, cells). n - j)") auto

declare alloc_scan.simps [simp del]

definition pool_cells :: "kbx_mem_pool \<Rightarrow> kbx_mem_block list" where
  "pool_cells pool = (case mp_blocks pool of None \<Rightarrow> [] | Some (_, cells) \<Rightarrow> cells)"

definition set_cells :: "kbx_mem_pool \<Rightarrow> kbx_mem_block list \<Rightarrow> kbx_mem_pool" where
  "set_cells pool cells = pool\<lparr>mp_blocks := map_option (\<lambda>(bp, _). (bp, cells)) (mp_blocks pool)\<rparr>"

definition pool_alloc :: "kbx_mem_pool \<Rightarrow> u64 \<Rightarrow> (ptr option \<times> kbx_mem_pool) option" where
  "pool_alloc pool sz = do {
     (r, cells) \<leftarrow> alloc_scan (unat (blocks_needed sz)) sz (unat (mp_size pool)) 0 0 0 (pool_cells pool);
     (case r of
        None \<Rightarrow> Some (None, set_cells pool cells)
      | Some start_idx \<Rightarrow> do {
          let used = mp_used pool + blocks_needed sz;
          let pool1 = (set_cells pool cells)\<lparr>mp_used := used\<rparr>;
          let pool2 = (if mp_peak_used pool1 < used then pool1\<lparr>mp_peak_used := used\<rparr> else pool1);
          b \<leftarrow> arr_get cells start_idx;
          Some (Some (mb_ptr b), pool2)
        })
   }"

definition kbx_mem_cpu_alloc ::
  "int \<Rightarrow> int \<Rightarrow> kbx_mem_manager \<Rightarrow> u64 \<Rightarrow> (ptr option \<times> kbx_mem_manager) option" where
  "kbx_mem_cpu_alloc max_node cpu_node mgr sz =
     (case mm_cpu_pool mgr of
        None \<Rightarrow> Some (None, mgr)
      | Some (pp, pools) \<Rightarrow>
          let node = (if cpu_node < 0 \<or> max_node + 1 \<le> cpu_node then 0 else cpu_node)
          in do {
               pool \<leftarrow> arr_get pools (nat node);
               (r, pool') \<leftarrow> pool_alloc pool sz;
               Some (r, mgr\<lparr>mm_cpu_pool := Some (pp, pools[nat node := pool'])\<rparr>)
             })"

section \<open>Release\<close>

definition pool_base :: "kbx_mem_pool \<Rightarrow> ptr" where
  "pool_base pool = (case mp_buf pool of None \<Rightarrow> 0 | Some b \<Rightarrow> b)"

definition pool_holds :: "kbx_mem_pool \<Rightarrow> ptr \<Rightarrow> bool" where
  "pool_holds pool a \<longleftrightarrow> pool_base pool \<le> a \<and> a < pool_base pool + mp_size pool * KBX_PAGE_SIZE"

definition pool_free :: "kbx_mem_pool \<Rightarrow> ptr \<Rightarrow> kbx_mem_pool option" where
  "pool_free pool a = do {
     let idx = unat ((a - pool_base pool) div KBX_PAGE_SIZE);
     b \<leftarrow> arr_get (pool_cells pool) idx;
     Some ((set_cells pool ((pool_cells pool)[idx := b\<lparr>mb_is_used := False\<rparr>]))
             \<lparr>mp_used := mp_used pool - 1\<rparr>)
   }"

fun free_in_pools :: "nat \<Rightarrow> kbx_mem_pool list \<Rightarrow> ptr \<Rightarrow> kbx_mem_pool list option" where
  "free_in_pools 0 pools a = Some pools"
| "free_in_pools (Suc n) [] a = None"
| "free_in_pools (Suc n) (p # pools) a =
     (if pool_holds p a then map_option (\<lambda>p'. p' # pools) (pool_free p a)
      else map_option (\<lambda>ps. p # ps) (free_in_pools n pools a))"

definition kbx_mem_cpu_free :: "int \<Rightarrow> kbx_mem_manager \<Rightarrow> ptr option \<Rightarrow> kbx_mem_manager option" where
  "kbx_mem_cpu_free max_node mgr p =
     (case (mm_cpu_pool mgr, p) of
        (Some (pp, pools), Some a) \<Rightarrow> do {
          pools' \<leftarrow> free_in_pools (nat (max_node + 1)) pools a;
          Some (mgr\<lparr>mm_cpu_pool := Some (pp, pools')\<rparr>)
        }
      | _ \<Rightarrow> Some mgr)"

definition kbx_mem_alloc ::
  "int \<Rightarrow> int \<Rightarrow> kbx_mem_manager \<Rightarrow> u64 \<Rightarrow> (ptr option \<times> kbx_mem_manager) option" where
  "kbx_mem_alloc max_node cpu_node mgr sz = kbx_mem_cpu_alloc max_node cpu_node mgr sz"

definition kbx_mem_free :: "int \<Rightarrow> kbx_mem_manager \<Rightarrow> ptr option \<Rightarrow> kbx_mem_manager option" where
  "kbx_mem_free max_node mgr p = kbx_mem_cpu_free max_node mgr p"

section \<open>The search loop\<close>

lemma clear_flags_spec:
  "m = 0 \<or> k + m \<le> length cells \<Longrightarrow>
   \<exists>cells'. clear_flags k m cells = Some cells' \<and> length cells' = length cells
     \<and> (\<forall>i < length cells. cells' ! i =
          (if k \<le> i \<and> i < k + m then (cells ! i)\<lparr>mb_is_used := False\<rparr> else cells ! i))"
proof (induction m arbitrary: k cells)
  case 0
  then show ?case by auto
next
  case (Suc m)
  let ?c = "cells[k := (cells ! k)\<lparr>mb_is_used := False\<rparr>]"
  have "m = 0 \<or> Suc k + m \<le> length ?c" using Suc.prems by simp
  then obtain cells' where "clear_flags (Suc k) m ?c = Some cells'" "length cells' = length ?c"
    and spec: "\<forall>i < length ?c. cells' ! i =
          (if Suc k \<le> i \<and> i < Suc k + m then (?c ! i)\<lparr>mb_is_used := False\<rparr> else ?c ! i)"
    using Suc.IH by blast
  moreover have "cells' ! i =
      (if k \<le> i \<and> i < k + Suc m then (cells ! i)\<lparr>mb_is_used := False\<rparr> else cells ! i)"
    if "i < length cells" for i
    using spec that by (cases "i = k") auto
  ultimately show ?case using Suc.prems by auto
qed

definition same_frame :: "kbx_mem_block list \<Rightarrow> kbx_mem_block list \<Rightarrow> bool" where
  "same_frame cells cells' \<longleftrightarrow> length cells' = length cells
    \<and> (\<forall>i < length cells. mb_size (cells' ! i) = mb_size (cells ! i)
         \<and> mb_ptr (cells' ! i) = mb_ptr (cells ! i) \<and> mb_offset (cells' ! i) = mb_offset (cells ! i))"

text \<open>Whether all blocks of a window are free, for the flags \<open>u\<close>.\<close>

definition window_free :: "(nat \<Rightarrow> bool) \<Rightarrow> nat \<Rightarrow> nat \<Rightarrow> bool" where
  "window_free u s m \<longleftrightarrow> (\<forall>i. s \<le> i \<and> i < s + m \<longrightarrow> \<not> u i)"

definition scan_inv :: "(nat \<Rightarrow> bool) \<Rightarrow> nat \<Rightarrow> nat \<Rightarrow> nat \<Rightarrow> nat \<Rightarrow> nat \<Rightarrow> kbx_mem_block list \<Rightarrow> bool" where
  "scan_inv u needed n j start_idx found cells \<longleftrightarrow>
     n \<le> length cells \<and> j \<le> n \<and> found \<le> j \<and> (found = 0 \<or> start_idx = j - found)
   \<and> (\<forall>i < length cells. mb_is_used (cells ! i) = (u i \<or> (j - found \<le> i \<and> i < j)))
   \<and> window_free u (j - found) found
   \<and> (0 < j - found \<longrightarrow> u (j - found - 1))
   \<and> (needed = 0 \<or> found < needed)
   \<and> (0 < needed \<longrightarrow> (\<forall>s. s + needed \<le> j \<longrightarrow> \<not> window_free u s needed))"

definition scan_post :: "(nat \<Rightarrow> bool) \<Rightarrow> nat \<Rightarrow> nat \<Rightarrow> kbx_mem_block list \<Rightarrow> nat option
    \<Rightarrow> kbx_mem_block list \<Rightarrow> bool" where
  "scan_post u needed n cells r cells' \<longleftrightarrow> same_frame cells cells' \<and>
     (case r of
        Some s \<Rightarrow> 0 < needed \<and> s + needed \<le> n \<and> window_free u s needed
          \<and> (\<forall>s' < s. \<not> window_free u s' needed)
          \<and> (\<forall>i < length cells. mb_is_used (cells' ! i) = (u i \<or> (s \<le> i \<and> i < s + needed)))
      | None \<Rightarrow> (0 < needed \<longrightarrow> (\<forall>s. s + needed \<le> n \<longrightarrow> \<not> window_free u s needed))
          \<and> (\<exists>k \<le> n. window_free u k (n - k) \<and> (0 < k \<longrightarrow> u (k - 1))
              \<and> (\<forall>i < length cells. mb_is_used (cells' ! i) = (u i \<or> (k \<le> i \<and> i < n)))))"

lemma same_frame_refl: "same_frame c c"
  by (simp add: same_frame_def)

lemma same_frame_trans: "same_frame a b \<Longrightarrow> same_frame b c \<Longrightarrow> same_frame a c"
  by (auto simp: same_frame_def)

lemma scan_post_trans:
  "same_frame a b \<Longrightarrow> scan_post u needed n b r c \<Longrightarrow> scan_post u needed n a r c"
  by (auto simp: scan_post_def same_frame_def split: option.splits)

lemma scan_inv_take:
  assumes inv: "scan_inv u needed n j st found cells" and j: "j < n" and free: "\<not> u j"
    and less: "found + 1 \<noteq> needed"
  shows "scan_inv u needed n (j + 1) (if found = 0 then j else st) (found + 1)
    (cells[j := (cells ! j)\<lparr>mb_is_used := True, mb_used_size := sz\<rparr>])"
proof -
  have c: "n \<le> length cells" "found \<le> j" "found = 0 \<or> st = j - found"
    and fl: "\<forall>i < length cells. mb_is_used (cells ! i) = (u i \<or> (j - found \<le> i \<and> i < j))"
    and w: "window_free u (j - found) found" and e: "0 < j - found \<longrightarrow> u (j - found - 1)"
    and m: "needed = 0 \<or> found < needed"
    and nw: "0 < needed \<longrightarrow> (\<forall>s. s + needed \<le> j \<longrightarrow> \<not> window_free u s needed)"
    using inv by (auto simp: scan_inv_def)
  have sub: "j + 1 - (found + 1) = j - found" by simp
  have m': "needed = 0 \<or> found + 1 < needed" using m less by auto
  have "window_free u (j - found) (found + 1)"
    using w free c(2) by (auto simp: window_free_def less_Suc_eq)
  moreover have "\<forall>i < length cells. mb_is_used (cells[j := (cells ! j)
      \<lparr>mb_is_used := True, mb_used_size := sz\<rparr>] ! i) = (u i \<or> (j - found \<le> i \<and> i < j + 1))"
    using fl j c by (auto simp: nth_list_update less_Suc_eq)
  moreover have "\<not> window_free u s needed" if "0 < needed" "s + needed \<le> j + 1" for s
  proof (cases "s + needed \<le> j")
    case True
    with nw that show ?thesis by blast
  next
    case False
    with that m' have "s \<le> j - found - 1" "j - found - 1 < s + needed" "0 < j - found" by auto
    with e show ?thesis by (auto simp: window_free_def)
  qed
  ultimately show ?thesis
    using c e m' j sub by (auto simp: scan_inv_def)
qed

lemma scan_inv_found:
  assumes inv: "scan_inv u needed n j st found cells" and j: "j < n" and free: "\<not> u j"
    and eq: "found + 1 = needed"
  shows "scan_post u needed n cells (Some (if found = 0 then j else st))
    (cells[j := (cells ! j)\<lparr>mb_is_used := True, mb_used_size := sz\<rparr>])"
proof -
  have c: "n \<le> length cells" "found \<le> j" "found = 0 \<or> st = j - found"
    and fl: "\<forall>i < length cells. mb_is_used (cells ! i) = (u i \<or> (j - found \<le> i \<and> i < j))"
    and w: "window_free u (j - found) found"
    and nw: "0 < needed \<longrightarrow> (\<forall>s. s + needed \<le> j \<longrightarrow> \<not> window_free u s needed)"
    using inv by (auto simp: scan_inv_def)
  have st: "(if found = 0 then j else st) = j - found" using c by auto
  have "window_free u (j - found) needed"
    using w free c(2) eq by (auto simp: window_free_def less_Suc_eq)
  moreover have "\<forall>i < length cells. mb_is_used (cells[j := (cells ! j)
      \<lparr>mb_is_used := True, mb_used_size := sz\<rparr>] ! i) = (u i \<or> (j - found \<le> i \<and> i < j - found + needed))"
    using fl j c eq by (auto simp: nth_list_update less_Suc_eq)
  moreover have "\<not> window_free u s needed" if "s < j - found" for s
    using that nw eq by auto
  ultimately show ?thesis
    using st j c eq by (auto simp: scan_post_def same_frame_def nth_list_update)
qed

lemma scan_inv_release:
  assumes inv: "scan_inv u needed n j st found cells" and j: "j < n" and used: "u j"
    and cl: "clear_flags st found cells = Some cells'"
  shows "scan_inv u needed n (j + 1) st 0 cells' \<and> same_frame cells cells'"
proof -
  have c: "n \<le> length cells" "found \<le> j" "found = 0 \<or> st = j - found"
    and fl: "\<forall>i < length cells. mb_is_used (cells ! i) = (u i \<or> (j - found \<le> i \<and> i < j))"
    and w: "window_free u (j - found) found" and m: "needed = 0 \<or> found < needed"
    and nw: "0 < needed \<longrightarrow> (\<forall>s. s + needed \<le> j \<longrightarrow> \<not> window_free u s needed)"
    using inv by (auto simp: scan_inv_def)
  have "found = 0 \<or> st + found \<le> length cells" using c j by auto
  from clear_flags_spec [OF this] cl
  have c': "length cells' = length cells"
    "\<And>i. i < length cells \<Longrightarrow> cells' ! i =
       (if st \<le> i \<and> i < st + found then (cells ! i)\<lparr>mb_is_used := False\<rparr> else cells ! i)"
    by simp_all
  have "mb_is_used (cells' ! i) = u i" if "i < length cells" for i
    using c'(2) [OF that] fl that c w by (auto simp: window_free_def)
  moreover have "\<not> window_free u s needed" if "0 < needed" "s + needed \<le> j + 1" for s
  proof (cases "s + needed \<le> j")
    case True
    with nw that show ?thesis by blast
  next
    case False
    with that used show ?thesis by (auto simp: window_free_def intro!: exI [of _ j])
  qed
  ultimately show ?thesis
    using c c' j m used by (auto simp: scan_inv_def same_frame_def window_free_def)
qed

lemma alloc_scan_spec:
  assumes "scan_inv u needed n j st found cells"
  shows "\<exists>r cells'. alloc_scan needed sz n j st found cells = Some (r, cells')
    \<and> scan_post u needed n cells r cells'"
  using assms
proof (induction needed sz n j st found cells rule: alloc_scan.induct)
  case (1 needed sz n j st found cells)
  note inv = "1.prems"
  have len: "n \<le> length cells" "j \<le> n" "found \<le> j"
    and fl: "\<forall>i < length cells. mb_is_used (cells ! i) = (u i \<or> (j - found \<le> i \<and> i < j))"
    using inv by (auto simp: scan_inv_def)
  show ?case
  proof (cases "j < n")
    case False
    with len have "j = n" by simp
    have "window_free u (n - found) (n - (n - found))" "\<exists>k \<le> n. k = n - found"
      using inv \<open>j = n\<close> len by (auto simp: scan_inv_def)
    with inv \<open>j = n\<close> show ?thesis
      by (auto simp: alloc_scan.simps [of _ _ _ n] scan_post_def scan_inv_def same_frame_refl
          intro!: exI [of _ "n - found"])
  next
    case True
    with len have jl: "j < length cells" by simp
    show ?thesis
    proof (cases "u j")
      case True
      with fl jl have b: "mb_is_used (cells ! j)" by simp
      have "found = 0 \<or> st + found \<le> length cells" using inv jl by (auto simp: scan_inv_def)
      from clear_flags_spec [OF this] obtain cells' where cl: "clear_flags st found cells = Some cells'"
        by blast
      note rel = scan_inv_release [OF inv \<open>j < n\<close> True cl]
      obtain r cells2 where "alloc_scan needed sz n (j + 1) st 0 cells' = Some (r, cells2)"
          "scan_post u needed n cells' r cells2"
        using "1.IH"(2) [OF \<open>j < n\<close> arr_get_in [OF jl] _ cl] b rel by auto
      with b cl jl \<open>j < n\<close> rel show ?thesis
        by (auto simp: alloc_scan.simps [of _ _ _ j] intro: scan_post_trans)
    next
      case False
      with fl jl have b: "\<not> mb_is_used (cells ! j)" by simp
      let ?c = "cells[j := (cells ! j)\<lparr>mb_is_used := True, mb_used_size := sz\<rparr>]"
      let ?s = "if found = 0 then j else st"
      show ?thesis
      proof (cases "found + 1 = needed")
        case True
        from scan_inv_found [OF inv \<open>j < n\<close> False True, of sz] b jl \<open>j < n\<close> True show ?thesis
          by (simp add: alloc_scan.simps [of _ _ _ j] Let_def)
      next
        case neq: False
        note tk = scan_inv_take [OF inv \<open>j < n\<close> False neq, of sz]
        have fr: "same_frame cells ?c" using jl by (auto simp: same_frame_def nth_list_update)
        obtain r cells2 where "alloc_scan needed sz n (j + 1) ?s (found + 1) ?c = Some (r, cells2)"
            "scan_post u needed n ?c r cells2"
          using "1.IH"(1) [OF \<open>j < n\<close> arr_get_in [OF jl] b refl refl neq tk] by auto
        with b jl \<open>j < n\<close> neq fr show ?thesis
          by (auto simp: alloc_scan.simps [of _ _ _ j] Let_def intro: scan_post_trans)
      qed
    qed
  qed
qed

lemma alloc_scan_start:
  assumes "n \<le> length cells"
  shows "\<exists>r cells'. alloc_scan needed sz n 0 0 0 cells = Some (r, cells')
    \<and> scan_post (\<lambda>i. mb_is_used (cells ! i)) needed n cells r cells'"
  by (rule alloc_scan_spec) (use assms in \<open>auto simp: scan_inv_def window_free_def\<close>)

section \<open>Pools\<close>

text \<open>
  A well-formed pool: as many blocks as \<open>size\<close> says, block \<open>i\<close> describing page \<open>i\<close> of the
  buffer, and the buffer not reaching past the end of the address space.
\<close>

definition block_at :: "ptr \<Rightarrow> nat \<Rightarrow> kbx_mem_block \<Rightarrow> bool" where
  "block_at buf i b \<longleftrightarrow> mb_size b = KBX_PAGE_SIZE \<and> mb_ptr b = buf + of_nat i * KBX_PAGE_SIZE
     \<and> mb_offset b = of_nat i * KBX_PAGE_SIZE"

definition pool_inv :: "kbx_mem_pool \<Rightarrow> bool" where
  "pool_inv p \<longleftrightarrow>
     (case (mp_buf p, mp_blocks p) of
        (Some buf, Some (_, cells)) \<Rightarrow>
          length cells = unat (mp_size p)
          \<and> unat buf + unat (mp_size p) * 4096 < 18446744073709551616
          \<and> (\<forall>i < length cells. block_at buf i (cells ! i))
      | _ \<Rightarrow> False)"

definition pool_used :: "kbx_mem_pool \<Rightarrow> nat \<Rightarrow> bool" where
  "pool_used p i = mb_is_used (pool_cells p ! i)"

definition used_count :: "kbx_mem_pool \<Rightarrow> nat" where
  "used_count p = length (filter mb_is_used (pool_cells p))"

lemma pool_invE:
  assumes "pool_inv p"
  obtains buf bp cells where "mp_buf p = Some buf" "mp_blocks p = Some (bp, cells)"
    "pool_cells p = cells" "pool_base p = buf" "length cells = unat (mp_size p)"
    "unat buf + unat (mp_size p) * 4096 < 18446744073709551616"
    "\<And>i. i < unat (mp_size p) \<Longrightarrow> block_at buf i (cells ! i)"
  using assms by (auto simp: pool_inv_def pool_cells_def pool_base_def split: option.splits)

lemma pool_cells_set [simp]: "mp_blocks p \<noteq> None \<Longrightarrow> pool_cells (set_cells p cells) = cells"
  by (auto simp: pool_cells_def set_cells_def)

lemma set_cells_simps [simp]:
  "mp_buf (set_cells p c) = mp_buf p" "mp_size (set_cells p c) = mp_size p"
  "mp_used (set_cells p c) = mp_used p" "mp_peak_used (set_cells p c) = mp_peak_used p"
  "mp_block_size (set_cells p c) = mp_block_size p"
  by (simp_all add: set_cells_def)

lemma pool_cells_more [simp]:
  "pool_cells (p\<lparr>mp_used := x\<rparr>) = pool_cells p" "pool_cells (p\<lparr>mp_peak_used := x\<rparr>) = pool_cells p"
  by (simp_all add: pool_cells_def)

lemma pool_inv_more [simp]:
  "pool_inv (p\<lparr>mp_used := x\<rparr>) = pool_inv p" "pool_inv (p\<lparr>mp_peak_used := x\<rparr>) = pool_inv p"
  by (simp_all add: pool_inv_def split: option.split prod.split)

lemma pool_inv_set_cells:
  assumes "pool_inv p" and "same_frame (pool_cells p) cells"
  shows "pool_inv (set_cells p cells)"
proof -
  obtain buf bp c where "mp_buf p = Some buf" "mp_blocks p = Some (bp, c)" "pool_cells p = c"
    "pool_base p = buf" "length c = unat (mp_size p)" "unat buf + unat (mp_size p) * 4096 < 18446744073709551616"
    "\<And>i. i < unat (mp_size p) \<Longrightarrow> block_at buf i (c ! i)"
    using assms(1) by (rule pool_invE) blast
  with assms(2) show ?thesis
    by (auto simp: pool_inv_def same_frame_def block_at_def set_cells_def)
qed

lemma blocks_needed_enough:
  "0 < blocks_needed sz \<Longrightarrow> unat sz \<le> unat (blocks_needed sz) * 4096"
proof -
  assume pos: "0 < blocks_needed sz"
  have r: "blocks_needed sz = (sz + 4095) div 4096"
    by (simp add: blocks_needed_def add.commute)
  have "unat sz + 4095 < 18446744073709551616"
  proof (rule ccontr)
    assume "\<not> ?thesis"
    then have "unat (sz + 4095) = unat sz + 4095 - 18446744073709551616"
      using unat_u64_bound [of sz] by (simp add: unat_word_ariths le_mod_geq)
    then have "unat (sz + 4095) < 4096" using unat_u64_bound [of sz] by linarith
    then have "unat (blocks_needed sz) = 0" by (simp add: r unat_div_u64)
    with pos show False by (simp add: word_less_nat_alt)
  qed
  then have "unat (blocks_needed sz) = (unat sz + 4095) div 4096"
    by (simp add: r unat_div_u64 unat_add_u64)
  then show ?thesis by simp
qed

lemma blocks_needed_small: "0 < sz \<Longrightarrow> sz \<le> 4096 \<Longrightarrow> blocks_needed sz = 1"
proof -
  assume "0 < sz" "sz \<le> 4096"
  then have n: "0 < unat sz" "unat sz \<le> 4096" by (simp_all add: word_less_nat_alt word_le_nat_alt)
  then have "unat ((sz + 4095) div 4096) = (unat sz + 4095) div 4096"
    by (simp add: unat_div_u64 unat_add_u64)
  also have "\<dots> = 1" using n by (simp add: div_nat_eqI)
  finally have "unat ((sz + 4095) div 4096) = unat (1 :: u64)" by simp
  then show ?thesis
    by (simp only: blocks_needed_def word_unat_eq_iff) (simp add: add.commute)
qed

text \<open>What one call on a well-formed pool does, in both outcomes.\<close>

lemma pool_alloc_spec:
  assumes inv: "pool_inv p"
  shows "\<exists>r p'. pool_alloc p sz = Some (r, p') \<and> pool_inv p' \<and> mp_buf p' = mp_buf p
    \<and> mp_size p' = mp_size p \<and>
    (case r of
       Some a \<Rightarrow> (\<exists>s. 0 < blocks_needed sz \<and> a = pool_base p + of_nat s * 4096
           \<and> s + unat (blocks_needed sz) \<le> unat (mp_size p)
           \<and> window_free (pool_used p) s (unat (blocks_needed sz))
           \<and> (\<forall>s' < s. \<not> window_free (pool_used p) s' (unat (blocks_needed sz)))
           \<and> (\<forall>i < unat (mp_size p). pool_used p' i =
                (pool_used p i \<or> (s \<le> i \<and> i < s + unat (blocks_needed sz))))
           \<and> mp_used p' = mp_used p + blocks_needed sz
           \<and> mp_peak_used p' = max (mp_peak_used p) (mp_used p'))
     | None \<Rightarrow> (0 < blocks_needed sz \<longrightarrow> (\<forall>s. s + unat (blocks_needed sz) \<le> unat (mp_size p)
             \<longrightarrow> \<not> window_free (pool_used p) s (unat (blocks_needed sz))))
           \<and> mp_used p' = mp_used p \<and> mp_peak_used p' = mp_peak_used p
           \<and> (\<exists>k \<le> unat (mp_size p). window_free (pool_used p) k (unat (mp_size p) - k)
               \<and> (0 < k \<longrightarrow> pool_used p (k - 1))
               \<and> (\<forall>i < unat (mp_size p). pool_used p' i = (pool_used p i \<or> k \<le> i))))"
proof -
  obtain buf bp cells where p: "mp_buf p = Some buf" "mp_blocks p = Some (bp, cells)"
    "pool_cells p = cells" "pool_base p = buf" "length cells = unat (mp_size p)"
    "\<And>i. i < unat (mp_size p) \<Longrightarrow> block_at buf i (cells ! i)"
    using inv by (rule pool_invE) blast
  let ?m = "unat (blocks_needed sz)" and ?n = "unat (mp_size p)"
  obtain r cells' where scan: "alloc_scan ?m sz ?n 0 0 0 cells = Some (r, cells')"
    and post: "scan_post (\<lambda>i. mb_is_used (cells ! i)) ?m ?n cells r cells'"
    using alloc_scan_start [of ?n cells ?m sz] p(5) by auto
  have fr: "same_frame cells cells'" using post by (simp add: scan_post_def)
  have u: "pool_used p = (\<lambda>i. mb_is_used (cells ! i))" by (simp add: pool_used_def p fun_eq_iff)
  have inv': "pool_inv (set_cells p cells')" using pool_inv_set_cells [OF inv] p(3) fr by simp
  have len: "length cells' = ?n" using fr p(5) by (simp add: same_frame_def)
  show ?thesis
  proof (cases r)
    case None
    with scan post inv' p len show ?thesis
      by (auto simp: pool_alloc_def scan_post_def u pool_used_def word_less_nat_alt)
  next
    case (Some s)
    have s: "0 < ?m" "s + ?m \<le> ?n" using post Some by (auto simp: scan_post_def)
    then have "s < ?n" by simp
    then have ptr: "mb_ptr (cells' ! s) = buf + of_nat s * 4096"
      using fr p(5,6) by (auto simp: same_frame_def block_at_def)
    have pos: "0 < blocks_needed sz" using s(1) by (simp add: word_less_nat_alt)
    let ?p = "(set_cells p cells')\<lparr>mp_used := mp_used p + blocks_needed sz\<rparr>"
    let ?q = "if mp_peak_used p < mp_used p + blocks_needed sz
      then ?p\<lparr>mp_peak_used := mp_used p + blocks_needed sz\<rparr> else ?p"
    have "pool_alloc p sz = Some (Some (buf + of_nat s * 4096), ?q)"
      using scan Some s ptr len p by (simp add: pool_alloc_def Let_def)
    moreover have "mp_peak_used ?q = max (mp_peak_used p) (mp_used ?q)" "pool_inv ?q"
      "mp_buf ?q = mp_buf p" "mp_size ?q = mp_size p" "mp_used ?q = mp_used p + blocks_needed sz"
      "pool_cells ?q = cells'"
      using inv' p by (auto simp: max_def)
    ultimately show ?thesis
      using post Some p pos s by (auto simp: scan_post_def u pool_used_def intro!: exI [of _ s])
  qed
qed

section \<open>Counting used blocks\<close>

lemma used_count_card:
  assumes "pool_inv p"
  shows "used_count p = card {i. i < unat (mp_size p) \<and> pool_used p i}"
proof -
  have "length (pool_cells p) = unat (mp_size p)" using assms by (elim pool_invE) simp
  then show ?thesis
    by (simp add: used_count_def pool_used_def length_filter_conv_card)
qed

lemma used_count_le: "pool_inv p \<Longrightarrow> used_count p \<le> unat (mp_size p)"
  by (elim pool_invE) (metis used_count_def length_filter_le)

lemma used_count_window:
  assumes inv: "pool_inv p" "pool_inv p'" and sz: "mp_size p' = mp_size p"
    and w: "window_free (pool_used p) s m" "s + m \<le> unat (mp_size p)"
    and fl: "\<forall>i < unat (mp_size p). pool_used p' i = (pool_used p i \<or> (s \<le> i \<and> i < s + m))"
  shows "used_count p' = used_count p + m"
proof -
  let ?n = "unat (mp_size p)"
  have "{i. i < ?n \<and> pool_used p' i} = {i. i < ?n \<and> pool_used p i} \<union> {s..<s + m}"
    using fl w(2) by auto
  moreover have "{i. i < ?n \<and> pool_used p i} \<inter> {s..<s + m} = {}"
    using w(1) by (auto simp: window_free_def)
  ultimately show ?thesis
    using used_count_card [OF inv(1)] used_count_card [OF inv(2)] sz
    by (simp add: card_Un_disjoint)
qed

section \<open>Addresses\<close>

lemma page_offset:
  assumes "i * 4096 < 18446744073709551616"
  shows "unat (of_nat i * 4096 :: u64) = i * 4096"
proof -
  have "unat (of_nat i :: u64) = i" using assms by (simp add: unat_of_nat_u64)
  with assms show ?thesis by (simp add: unat_mult_u64)
qed

lemma pool_page:
  assumes inv: "pool_inv p" and i: "i < unat (mp_size p)"
  shows "unat (pool_base p + of_nat i * 4096) = unat (pool_base p) + i * 4096"
    and "pool_holds p (pool_base p + of_nat i * 4096)"
    and "unat ((pool_base p + of_nat i * 4096 - pool_base p) div 4096) = i"
proof -
  have b: "unat (pool_base p) + unat (mp_size p) * 4096 < 18446744073709551616"
    using inv by (elim pool_invE) simp
  have o: "unat (of_nat i * 4096 :: u64) = i * 4096"
    using b i by (intro page_offset) simp
  then show a: "unat (pool_base p + of_nat i * 4096) = unat (pool_base p) + i * 4096"
    using b i by (simp add: unat_add_u64)
  have e: "unat (pool_base p + mp_size p * 4096) = unat (pool_base p) + unat (mp_size p) * 4096"
    using b by (simp add: unat_add_u64 unat_mult_u64)
  show "pool_holds p (pool_base p + of_nat i * 4096)"
    unfolding pool_holds_def word_le_nat_alt word_less_nat_alt a e using i by simp
  show "unat ((pool_base p + of_nat i * 4096 - pool_base p) div 4096) = i"
    using o by (simp add: unat_div_u64)
qed

lemma pool_holds_index:
  assumes inv: "pool_inv p" and h: "pool_holds p a"
  shows "unat ((a - pool_base p) div 4096) < unat (mp_size p)"
proof -
  have b: "unat (pool_base p) + unat (mp_size p) * 4096 < 18446744073709551616"
    using inv by (elim pool_invE) simp
  have e: "unat (pool_base p + mp_size p * 4096) = unat (pool_base p) + unat (mp_size p) * 4096"
    using b by (simp add: unat_add_u64 unat_mult_u64)
  have le: "pool_base p \<le> a" and less: "unat a < unat (pool_base p) + unat (mp_size p) * 4096"
    using h e by (simp_all add: pool_holds_def word_less_nat_alt)
  have "unat ((a - pool_base p) div 4096) = (unat a - unat (pool_base p)) div 4096"
    using le by (simp add: unat_div_u64 unat_diff_u64)
  also have "\<dots> < unat (mp_size p)"
    using less le by (simp add: less_mult_imp_div_less word_le_nat_alt)
  finally show ?thesis .
qed

text \<open>Releasing any address inside the pool clears the flag of its page and nothing else.\<close>

lemma pool_free_spec:
  assumes inv: "pool_inv p" and h: "pool_holds p a"
  shows "\<exists>p'. pool_free p a = Some p' \<and> pool_inv p' \<and> mp_buf p' = mp_buf p
    \<and> mp_size p' = mp_size p \<and> mp_used p' = mp_used p - 1 \<and> mp_peak_used p' = mp_peak_used p
    \<and> (\<forall>i < unat (mp_size p). pool_used p' i =
         (pool_used p i \<and> i \<noteq> unat ((a - pool_base p) div 4096)))"
proof -
  let ?i = "unat ((a - pool_base p) div 4096)"
  obtain buf bp cells where p: "mp_buf p = Some buf" "mp_blocks p = Some (bp, cells)"
    "pool_cells p = cells" "pool_base p = buf" "length cells = unat (mp_size p)"
    using inv by (rule pool_invE) blast
  have i: "?i < length cells" using pool_holds_index [OF inv h] p by simp
  let ?c = "cells[?i := (cells ! ?i)\<lparr>mb_is_used := False\<rparr>]"
  have "same_frame (pool_cells p) ?c"
    using p i by (auto simp: same_frame_def nth_list_update)
  then have "pool_inv (set_cells p ?c)" by (rule pool_inv_set_cells [OF inv])
  moreover have "pool_free p a = Some ((set_cells p ?c)\<lparr>mp_used := mp_used p - 1\<rparr>)"
    using i p by (simp add: pool_free_def Let_def)
  ultimately show ?thesis
    using p i by (auto simp: pool_used_def nth_list_update)
qed

lemma used_count_free:
  assumes inv: "pool_inv p" "pool_inv p'" and sz: "mp_size p' = mp_size p"
    and j: "j < unat (mp_size p)" "pool_used p j"
    and fl: "\<forall>i < unat (mp_size p). pool_used p' i = (pool_used p i \<and> i \<noteq> j)"
  shows "used_count p = used_count p' + 1"
proof -
  let ?n = "unat (mp_size p)"
  have "{i. i < ?n \<and> pool_used p i} = insert j {i. i < ?n \<and> pool_used p' i}"
    using fl j by auto
  moreover have "j \<notin> {i. i < ?n \<and> pool_used p' i}" using fl j by auto
  ultimately show ?thesis
    using used_count_card [OF inv(1)] used_count_card [OF inv(2)] sz by simp
qed

end
