(* ===== verification/Mem_Pool_Props.thy ===== *)
theory Mem_Pool_Props
  imports Mem_Pool
begin

text \<open>
  The memory manager as a whole: its invariant, what \<open>kbx_mem_alloc\<close> and \<open>kbx_mem_free\<close>
  promise, and what they do not. \<open>pools_of\<close> lists the per-node pools, \<open>node_of\<close> is the pool
  an allocation goes to.
\<close>

section \<open>The manager\<close>

definition pools_of :: "kbx_mem_manager \<Rightarrow> kbx_mem_pool list" where
  "pools_of mgr = (case mm_cpu_pool mgr of None \<Rightarrow> [] | Some (_, ps) \<Rightarrow> ps)"

definition node_of :: "int \<Rightarrow> int \<Rightarrow> nat" where
  "node_of max_node cpu_node = (if cpu_node < 0 \<or> max_node + 1 \<le> cpu_node then 0 else nat cpu_node)"

definition disjoint_pools :: "kbx_mem_pool \<Rightarrow> kbx_mem_pool \<Rightarrow> bool" where
  "disjoint_pools p q \<longleftrightarrow>
     unat (pool_base p) + unat (mp_size p) * 4096 \<le> unat (pool_base q)
   \<or> unat (pool_base q) + unat (mp_size q) * 4096 \<le> unat (pool_base p)"

definition mgr_inv :: "int \<Rightarrow> kbx_mem_manager \<Rightarrow> bool" where
  "mgr_inv max_node mgr \<longleftrightarrow> 0 \<le> max_node \<and> mm_cpu_pool mgr \<noteq> None
     \<and> length (pools_of mgr) = nat (max_node + 1)
     \<and> (\<forall>p \<in> set (pools_of mgr). pool_inv p)
     \<and> (\<forall>i < length (pools_of mgr). \<forall>j < length (pools_of mgr).
          i \<noteq> j \<longrightarrow> disjoint_pools (pools_of mgr ! i) (pools_of mgr ! j))"

definition with_pools :: "kbx_mem_manager \<Rightarrow> kbx_mem_pool list \<Rightarrow> kbx_mem_manager" where
  "with_pools mgr ps = mgr\<lparr>mm_cpu_pool := map_option (\<lambda>(pp, _). (pp, ps)) (mm_cpu_pool mgr)\<rparr>"

lemma pools_of_with [simp]: "mm_cpu_pool mgr \<noteq> None \<Longrightarrow> pools_of (with_pools mgr ps) = ps"
  by (auto simp: pools_of_def with_pools_def)

lemma with_pools_some [simp]:
  "mm_cpu_pool (with_pools mgr ps) = map_option (\<lambda>(pp, _). (pp, ps)) (mm_cpu_pool mgr)"
  by (simp add: with_pools_def)

lemma with_pools_twice [simp]: "with_pools (with_pools mgr ps) qs = with_pools mgr qs"
  by (cases "mm_cpu_pool mgr") (auto simp: with_pools_def)

lemma node_of_less: "mgr_inv mx mgr \<Longrightarrow> node_of mx cpu < length (pools_of mgr)"
  by (auto simp: mgr_inv_def node_of_def)

lemma mgr_inv_node: "mgr_inv mx mgr \<Longrightarrow> pool_inv (pools_of mgr ! node_of mx cpu)"
  using node_of_less [of mx mgr cpu] by (auto simp: mgr_inv_def)

text \<open>Replacing a pool by one over the same buffer keeps the invariant.\<close>

lemma mgr_inv_update:
  assumes inv: "mgr_inv mx mgr" and k: "k < length (pools_of mgr)"
    and p': "pool_inv p'" "mp_buf p' = mp_buf (pools_of mgr ! k)" "mp_size p' = mp_size (pools_of mgr ! k)"
  shows "mgr_inv mx (with_pools mgr ((pools_of mgr)[k := p']))"
proof -
  have some: "mm_cpu_pool mgr \<noteq> None" using inv by (simp add: mgr_inv_def)
  have geo: "pool_base ((pools_of mgr)[k := p'] ! i) = pool_base (pools_of mgr ! i)"
    "mp_size ((pools_of mgr)[k := p'] ! i) = mp_size (pools_of mgr ! i)" if "i < length (pools_of mgr)" for i
    using that p' k by (auto simp: nth_list_update pool_base_def)
  have "\<forall>p \<in> set ((pools_of mgr)[k := p']). pool_inv p"
    using inv p'(1) set_update_subset_insert [of "pools_of mgr" k p'] by (auto simp: mgr_inv_def)
  then show ?thesis
    using inv some geo by (auto simp: mgr_inv_def disjoint_pools_def)
qed

lemma cpu_alloc_node:
  assumes inv: "mgr_inv mx mgr"
  shows "kbx_mem_alloc mx cpu mgr sz =
    map_option (\<lambda>(r, p'). (r, with_pools mgr ((pools_of mgr)[node_of mx cpu := p'])))
      (pool_alloc (pools_of mgr ! node_of mx cpu) sz)"
proof -
  obtain pp ps where m: "mm_cpu_pool mgr = Some (pp, ps)" using inv by (auto simp: mgr_inv_def)
  then have ps: "pools_of mgr = ps" by (simp add: pools_of_def)
  have n: "nat (if cpu < 0 \<or> mx + 1 \<le> cpu then 0 else cpu) = node_of mx cpu"
    by (simp add: node_of_def)
  show ?thesis
    using node_of_less [OF inv, of cpu] m ps n
    by (auto simp: kbx_mem_alloc_def kbx_mem_cpu_alloc_def Let_def with_pools_def map_option_case
        split: option.split)
qed

lemma free_in_pools_hit:
  assumes "k < length ps" "k < n" "pool_holds (ps ! k) a" "\<forall>i < k. \<not> pool_holds (ps ! i) a"
  shows "free_in_pools n ps a = map_option (\<lambda>p'. ps[k := p']) (pool_free (ps ! k) a)"
  using assms
proof (induction n ps a arbitrary: k rule: free_in_pools.induct)
  case (1 pools a)
  then show ?case by simp
next
  case (2 n a)
  then show ?case by simp
next
  case (3 n p pools a)
  show ?case
  proof (cases k)
    case 0
    with "3.prems" show ?thesis by simp
  next
    case (Suc m)
    with "3.prems" have np: "\<not> pool_holds p a" by auto
    moreover have "\<forall>i < m. \<not> pool_holds (pools ! i) a" using "3.prems"(4) Suc by auto
    ultimately have "free_in_pools n pools a
        = map_option (\<lambda>p'. pools[m := p']) (pool_free (pools ! m) a)"
      using "3.prems" "3.IH" [of m] Suc by auto
    with np Suc show ?thesis by (simp add: map_option_case split: option.split)
  qed
qed

lemma free_in_pools_miss:
  assumes "n = length ps" "\<forall>i < n. \<not> pool_holds (ps ! i) a"
  shows "free_in_pools n ps a = Some ps"
  using assms
proof (induction n ps a rule: free_in_pools.induct)
  case (3 n p pools a)
  have "\<not> pool_holds p a" using "3.prems" by auto
  moreover have "\<forall>i < n. \<not> pool_holds (pools ! i) a" using "3.prems"(2) by auto
  ultimately show ?case using "3.prems" "3.IH" by simp
qed simp_all

lemma cpu_free_hit:
  assumes inv: "mgr_inv mx mgr" and k: "k < length (pools_of mgr)"
    and h: "pool_holds (pools_of mgr ! k) a" "\<forall>i < k. \<not> pool_holds (pools_of mgr ! i) a"
  shows "kbx_mem_free mx mgr (Some a) =
    map_option (\<lambda>p'. with_pools mgr ((pools_of mgr)[k := p'])) (pool_free (pools_of mgr ! k) a)"
proof -
  obtain pp ps where m: "mm_cpu_pool mgr = Some (pp, ps)" using inv by (auto simp: mgr_inv_def)
  then have ps: "pools_of mgr = ps" by (simp add: pools_of_def)
  have "k < nat (mx + 1)" using inv k by (simp add: mgr_inv_def)
  from free_in_pools_hit [OF k this h] show ?thesis
    using m ps by (auto simp: kbx_mem_free_def kbx_mem_cpu_free_def with_pools_def map_option_case
        split: option.split)
qed

lemma cpu_free_miss:
  assumes inv: "mgr_inv mx mgr" and h: "\<forall>i < length (pools_of mgr). \<not> pool_holds (pools_of mgr ! i) a"
  shows "kbx_mem_free mx mgr (Some a) = Some mgr"
proof -
  obtain pp ps where m: "mm_cpu_pool mgr = Some (pp, ps)" using inv by (auto simp: mgr_inv_def)
  then have ps: "pools_of mgr = ps" by (simp add: pools_of_def)
  have "nat (mx + 1) = length ps" using inv ps by (simp add: mgr_inv_def)
  with free_in_pools_miss [of "nat (mx + 1)" ps a] h ps m show ?thesis
    by (simp add: kbx_mem_free_def kbx_mem_cpu_free_def)
qed

lemma holds_unique:
  assumes inv: "mgr_inv mx mgr" and "i < length (pools_of mgr)" "k < length (pools_of mgr)"
    and "pool_holds (pools_of mgr ! i) a" "pool_holds (pools_of mgr ! k) a"
  shows "i = k"
proof (rule ccontr)
  assume "i \<noteq> k"
  with inv assms have d: "disjoint_pools (pools_of mgr ! i) (pools_of mgr ! k)"
    and pi: "pool_inv (pools_of mgr ! i)" "pool_inv (pools_of mgr ! k)"
    by (auto simp: mgr_inv_def)
  have in_range: "unat (pool_base p) \<le> unat a \<and> unat a < unat (pool_base p) + unat (mp_size p) * 4096"
    if "pool_inv p" "pool_holds p a" for p
  proof -
    have "unat (pool_base p) + unat (mp_size p) * 4096 < 18446744073709551616"
      using that(1) by (elim pool_invE) simp
    then have "unat (pool_base p + mp_size p * 4096) = unat (pool_base p) + unat (mp_size p) * 4096"
      by (simp add: unat_add_u64 unat_mult_u64)
    with that(2) show ?thesis by (simp add: pool_holds_def word_le_nat_alt word_less_nat_alt)
  qed
  from in_range [OF pi(1) assms(4)] in_range [OF pi(2) assms(5)] d show False
    by (auto simp: disjoint_pools_def)
qed

lemma cpu_free_spec:
  assumes inv: "mgr_inv mx mgr"
  shows "\<exists>mgr'. kbx_mem_free mx mgr a = Some mgr' \<and> mgr_inv mx mgr'"
proof (cases a)
  case None
  with inv show ?thesis
    by (simp add: kbx_mem_free_def kbx_mem_cpu_free_def split: option.split)
next
  case (Some p)
  show ?thesis
  proof (cases "\<exists>i < length (pools_of mgr). pool_holds (pools_of mgr ! i) p")
    case False
    with cpu_free_miss [OF inv] Some inv show ?thesis by auto
  next
    case True
    then obtain k where k: "k < length (pools_of mgr)" "pool_holds (pools_of mgr ! k) p" by blast
    moreover have "\<forall>i < k. \<not> pool_holds (pools_of mgr ! i) p"
      using holds_unique [OF inv _ k(1) _ k(2)] k(1) by (metis less_irrefl_nat less_trans)
    moreover have "pool_inv (pools_of mgr ! k)" using inv k(1) by (auto simp: mgr_inv_def)
    ultimately show ?thesis
      using cpu_free_hit [OF inv] pool_free_spec [of "pools_of mgr ! k" p] Some
        mgr_inv_update [OF inv k(1)] by fastforce
  qed
qed

lemma cpu_alloc_spec:
  assumes inv: "mgr_inv mx mgr"
  shows "\<exists>r mgr'. kbx_mem_alloc mx cpu mgr sz = Some (r, mgr') \<and> mgr_inv mx mgr'"
  using pool_alloc_spec [OF mgr_inv_node [OF inv], of cpu sz] cpu_alloc_node [OF inv, of cpu sz]
    mgr_inv_update [OF inv node_of_less [OF inv, of cpu]]
  by auto

section \<open>Properties of allocation and release\<close>

text \<open>
  C1: A successful \<open>kbx_mem_alloc\<close> is first fit on the pool of the calling CPU's node: it
  returns the address of the first window of enough free blocks, marks exactly that window,
  raises \<open>used\<close> by its length and the peak with it, touches no other pool, and the window is
  large enough for the request.
\<close>

theorem cpu_alloc_first_fit:
  assumes "mgr_inv mx mgr" and "kbx_mem_alloc mx cpu mgr sz = Some (Some a, mgr')"
  defines "k \<equiv> node_of mx cpu" and "m \<equiv> unat (blocks_needed sz)"
  shows "mgr_inv mx mgr' \<and> pools_of mgr' = (pools_of mgr)[k := pools_of mgr' ! k]
    \<and> unat sz \<le> m * 4096
    \<and> (\<exists>s. a = pool_base (pools_of mgr ! k) + of_nat s * 4096
         \<and> s + m \<le> unat (mp_size (pools_of mgr ! k))
         \<and> window_free (pool_used (pools_of mgr ! k)) s m
         \<and> (\<forall>s' < s. \<not> window_free (pool_used (pools_of mgr ! k)) s' m)
         \<and> (\<forall>i < unat (mp_size (pools_of mgr ! k)). pool_used (pools_of mgr' ! k) i
              = (pool_used (pools_of mgr ! k) i \<or> (s \<le> i \<and> i < s + m))))
    \<and> mp_used (pools_of mgr' ! k) = mp_used (pools_of mgr ! k) + blocks_needed sz
    \<and> mp_peak_used (pools_of mgr' ! k)
        = max (mp_peak_used (pools_of mgr ! k)) (mp_used (pools_of mgr' ! k))"
proof -
  let ?p = "pools_of mgr ! k"
  have some: "mm_cpu_pool mgr \<noteq> None" using assms(1) by (simp add: mgr_inv_def)
  have k: "k < length (pools_of mgr)" using node_of_less [OF assms(1)] by (simp add: k_def)
  obtain p' where al: "pool_alloc ?p sz = Some (Some a, p')"
    and m': "mgr' = with_pools mgr ((pools_of mgr)[k := p'])"
    using assms(2) cpu_alloc_node [OF assms(1), of cpu sz] by (auto simp: k_def)
  have "pools_of mgr' = (pools_of mgr)[k := p']" using m' some by simp
  moreover from this have "pools_of mgr' ! k = p'" using k by simp
  moreover have "mgr_inv mx mgr'"
    using cpu_alloc_spec [OF assms(1), of cpu sz] assms(2) by simp
  moreover have "pool_inv ?p" using mgr_inv_node [OF assms(1)] by (simp add: k_def)
  ultimately show ?thesis
    using pool_alloc_spec [of ?p sz] al blocks_needed_enough [of sz] by (auto simp: m_def)
qed

definition demo_pool :: "bool list \<Rightarrow> u64 \<Rightarrow> kbx_mem_pool" where
  "demo_pool flags used =
     \<lparr>mp_buf = Some 65536, mp_size = of_nat (length flags), mp_used = used, mp_peak_used = used,
      mp_block_size = KBX_PAGE_SIZE,
      mp_blocks = Some (1048576, map (\<lambda>i. (init_block 65536 i)\<lparr>mb_is_used := flags ! i\<rparr>)
        [0..<length flags])\<rparr>"

definition demo_mgr :: "bool list \<Rightarrow> u64 \<Rightarrow> kbx_mem_manager" where
  "demo_mgr flags used =
     \<lparr>mm_cpu_pool = Some (4096, [demo_pool flags used]), mm_gpu_pool = None, mm_shared_pool = None,
      mm_system_pool = None, mm_framebuffer = None, mm_framebuffer_size = 0,
      mm_display_buffer = None, mm_display_buffer_size = 0, mm_drm_fd = 3, mm_drm_fb_id = 0\<rparr>"

lemma demo_pool_inv: "length flags < 1000 \<Longrightarrow> pool_inv (demo_pool flags used)"
  by (simp add: pool_inv_def demo_pool_def block_at_def init_block_def unat_of_nat_u64)

lemma demo_mgr_inv:
  "mgr_inv 0 (demo_mgr [True, False, True, False, False] 2)"
  "mgr_inv 0 (demo_mgr [False, False, False] 0)"
  by (simp_all add: mgr_inv_def demo_mgr_def pools_of_def demo_pool_inv)

lemma demo_alloc:
  "kbx_mem_alloc 0 7 (demo_mgr [True, False, True, False, False] 2) 5000
   = Some (Some 77824, with_pools (demo_mgr [True, False, True, False, False] 2)
       [(set_cells (demo_pool [True, False, True, False, False] 2)
          [(init_block 65536 0)\<lparr>mb_is_used := True\<rparr>,
           (init_block 65536 1)\<lparr>mb_is_used := False, mb_used_size := 5000\<rparr>,
           (init_block 65536 2)\<lparr>mb_is_used := True\<rparr>,
           (init_block 65536 3)\<lparr>mb_is_used := True, mb_used_size := 5000\<rparr>,
           (init_block 65536 4)\<lparr>mb_is_used := True, mb_used_size := 5000\<rparr>])
        \<lparr>mp_used := 4, mp_peak_used := 4\<rparr>])"
  by code_simp

theorem cpu_alloc_first_fit_witness:
  "\<exists>a mgr' s. kbx_mem_alloc 0 7 (demo_mgr [True, False, True, False, False] 2) 5000 = Some (Some a, mgr')
    \<and> mgr_inv 0 mgr' \<and> a = 65536 + of_nat s * 4096 \<and> s + 2 \<le> 5"
proof -
  obtain m where m: "kbx_mem_alloc 0 7 (demo_mgr [True, False, True, False, False] 2) 5000
      = Some (Some 77824, m)"
    using demo_alloc by blast
  have v: "node_of 0 7 = 0" "unat (blocks_needed 5000) = 2"
    "pool_base (pools_of (demo_mgr [True, False, True, False, False] 2) ! 0) = 65536"
    "unat (mp_size (pools_of (demo_mgr [True, False, True, False, False] 2) ! 0)) = 5"
    by code_simp+
  from cpu_alloc_first_fit [OF demo_mgr_inv(1) m] m show ?thesis
    unfolding v by blast
qed

text \<open>
  \<open>kbx_mem_alloc\<close> on a well-formed manager never runs into undefined behaviour, keeps the
  manager well-formed, and returns NULL exactly when the node's pool has no window of enough
  free blocks or the block count computed for the request is 0 (a request of 0 bytes, or one
  so large that \<open>size + 4095\<close> wraps).
\<close>

theorem cpu_alloc_null_iff:
  fixes mx cpu :: int
  assumes "mgr_inv mx mgr"
  defines "p \<equiv> pools_of mgr ! node_of mx cpu"
  shows "\<exists>r mgr'. kbx_mem_alloc mx cpu mgr sz = Some (r, mgr') \<and> mgr_inv mx mgr'
    \<and> (r = None \<longleftrightarrow> blocks_needed sz = 0
        \<or> \<not> (\<exists>s. s + unat (blocks_needed sz) \<le> unat (mp_size p)
               \<and> window_free (pool_used p) s (unat (blocks_needed sz))))"
proof -
  obtain r mgr' where al: "kbx_mem_alloc mx cpu mgr sz = Some (r, mgr')" "mgr_inv mx mgr'"
    using cpu_alloc_spec [OF assms(1)] by blast
  then obtain p' where "pool_alloc p sz = Some (r, p')"
    using cpu_alloc_node [OF assms(1), of cpu sz] by (auto simp: p_def)
  then have "r = None \<longleftrightarrow> blocks_needed sz = 0 \<or> \<not> (\<exists>s. s + unat (blocks_needed sz) \<le> unat (mp_size p)
      \<and> window_free (pool_used p) s (unat (blocks_needed sz)))"
    using pool_alloc_spec [OF mgr_inv_node [OF assms(1)], of cpu sz]
    by (cases r) (auto simp: p_def word_neq_0_conv)
  with al show ?thesis by blast
qed

theorem cpu_alloc_null_iff_witness:
  "\<exists>r mgr'. kbx_mem_alloc 0 0 (demo_mgr [True, False, True, False, False] 2) 0 = Some (r, mgr')
    \<and> mgr_inv 0 mgr' \<and> r = None"
  using cpu_alloc_null_iff [OF demo_mgr_inv(1), of 0 0] by (simp add: blocks_needed_def unat_div_u64)

lemma pool_alloc_all_used:
  assumes inv: "pool_inv p" and u: "\<forall>i < unat (mp_size p). pool_used p i"
  shows "\<exists>p'. pool_alloc p sz = Some (None, p')"
proof -
  obtain r p' where al: "pool_alloc p sz = Some (r, p')" using pool_alloc_spec [OF inv] by blast
  show ?thesis
  proof (cases r)
    case None
    with al show ?thesis by simp
  next
    case (Some a)
    with al pool_alloc_spec [OF inv, of sz] obtain s where s: "0 < blocks_needed sz"
      "s + unat (blocks_needed sz) \<le> unat (mp_size p)"
      "window_free (pool_used p) s (unat (blocks_needed sz))" by auto
    then have "0 < unat (blocks_needed sz)" by (simp add: word_less_nat_alt)
    with s u have False by (auto simp: window_free_def)
    then show ?thesis ..
  qed
qed

text \<open>
  A request that fails on an entirely free pool leaves the pool entirely used, with
  \<open>used\<close> still what it was: the loop does not give back the run it holds when it reaches the
  end. Every later request on that node then fails, whatever its size.
\<close>

theorem cpu_alloc_failure_drains_pool:
  assumes inv: "mgr_inv mx mgr" and free: "used_count (pools_of mgr ! node_of mx cpu) = 0"
    and fail: "kbx_mem_alloc mx cpu mgr sz = Some (None, mgr')"
  shows "used_count (pools_of mgr' ! node_of mx cpu) = unat (mp_size (pools_of mgr ! node_of mx cpu))
    \<and> mp_used (pools_of mgr' ! node_of mx cpu) = mp_used (pools_of mgr ! node_of mx cpu)
    \<and> (\<forall>sz'. \<exists>mgr''. kbx_mem_alloc mx cpu mgr' sz' = Some (None, mgr''))"
proof -
  let ?k = "node_of mx cpu" and ?p = "pools_of mgr ! node_of mx cpu"
  have pinv: "pool_inv ?p" by (rule mgr_inv_node [OF inv])
  have some: "mm_cpu_pool mgr \<noteq> None" using inv by (simp add: mgr_inv_def)
  obtain p' where al: "pool_alloc ?p sz = Some (None, p')"
    and m': "mgr' = with_pools mgr ((pools_of mgr)[?k := p'])"
    using fail cpu_alloc_node [OF inv, of cpu sz] by auto
  have p': "pools_of mgr' ! ?k = p'" using m' some node_of_less [OF inv] by simp
  have "finite {i. i < unat (mp_size ?p) \<and> pool_used ?p i}" by simp
  with free used_count_card [OF pinv] have nu: "\<forall>i < unat (mp_size ?p). \<not> pool_used ?p i"
    by auto
  obtain j where j: "j \<le> unat (mp_size ?p)" "0 < j \<longrightarrow> pool_used ?p (j - 1)"
    "\<forall>i < unat (mp_size ?p). pool_used p' i = (pool_used ?p i \<or> j \<le> i)"
    and same: "pool_inv p'" "mp_used p' = mp_used ?p" "mp_size p' = mp_size ?p"
    using pool_alloc_spec [OF pinv, of sz] al by auto
  have "j = 0" using j(1,2) nu by (metis Suc_diff_1 Suc_le_lessD neq0_conv)
  then have all: "\<forall>i < unat (mp_size p'). pool_used p' i" using j(3) same(3) by simp
  then have "{i. i < unat (mp_size p') \<and> pool_used p' i} = {..<unat (mp_size p')}" by auto
  then have "used_count p' = unat (mp_size ?p)"
    using used_count_card [OF same(1)] same(3) by simp
  moreover have inv': "mgr_inv mx mgr'" using cpu_alloc_spec [OF inv, of cpu sz] fail by simp
  moreover have "\<exists>mgr''. kbx_mem_alloc mx cpu mgr' sz' = Some (None, mgr'')" for sz'
    using pool_alloc_all_used [OF same(1) all, of sz'] cpu_alloc_node [OF inv', of cpu sz'] p' by auto
  ultimately show ?thesis using p' same(2) by simp
qed

lemma demo_all_free: "used_count (pools_of (demo_mgr [False, False, False] 0) ! node_of 0 0) = 0"
  by code_simp

lemma demo_alloc_zero:
  "kbx_mem_alloc 0 0 (demo_mgr [False, False, False] 0) 0
   = Some (None, with_pools (demo_mgr [False, False, False] 0)
       [set_cells (demo_pool [False, False, False] 0)
          (map (\<lambda>i. (init_block 65536 i)\<lparr>mb_is_used := True\<rparr>) [0, 1, 2])])"
  by code_simp

theorem cpu_alloc_failure_drains_pool_witness:
  "\<exists>mgr'. kbx_mem_alloc 0 0 (demo_mgr [False, False, False] 0) 0 = Some (None, mgr')
    \<and> used_count (pools_of mgr' ! 0) = 3 \<and> (\<exists>mgr''. kbx_mem_alloc 0 0 mgr' 1 = Some (None, mgr''))"
  using cpu_alloc_failure_drains_pool [OF demo_mgr_inv(2) demo_all_free demo_alloc_zero]
    demo_alloc_zero
  by (auto simp: node_of_def demo_mgr_def demo_pool_def pools_of_def)

lemma alloc_then_free:
  assumes inv: "mgr_inv mx mgr" and al: "kbx_mem_alloc mx cpu mgr sz = Some (Some a, mgr')"
  defines "k \<equiv> node_of mx cpu" and "m \<equiv> unat (blocks_needed sz)"
  obtains mgr'' s where "kbx_mem_free mx mgr' (Some a) = Some mgr''" "mgr_inv mx mgr''"
    "pools_of mgr'' = (pools_of mgr)[k := pools_of mgr'' ! k]" "0 < m"
    "mp_size (pools_of mgr'' ! k) = mp_size (pools_of mgr ! k)"
    "mp_used (pools_of mgr'' ! k) = mp_used (pools_of mgr ! k) + blocks_needed sz - 1"
    "s + m \<le> unat (mp_size (pools_of mgr ! k))" "window_free (pool_used (pools_of mgr ! k)) s m"
    "\<forall>i < unat (mp_size (pools_of mgr ! k)). pool_used (pools_of mgr'' ! k) i
       = (pool_used (pools_of mgr ! k) i \<or> (s < i \<and> i < s + m))"
proof -
  let ?p = "pools_of mgr ! k"
  have some: "mm_cpu_pool mgr \<noteq> None" using inv by (simp add: mgr_inv_def)
  have k: "k < length (pools_of mgr)" using node_of_less [OF inv] by (simp add: k_def)
  have pinv: "pool_inv ?p" using mgr_inv_node [OF inv] by (simp add: k_def)
  obtain p' where pa: "pool_alloc ?p sz = Some (Some a, p')"
    and m': "mgr' = with_pools mgr ((pools_of mgr)[k := p'])"
    using al cpu_alloc_node [OF inv, of cpu sz] by (auto simp: k_def)
  obtain s where s: "0 < blocks_needed sz" "a = pool_base ?p + of_nat s * 4096"
      "s + m \<le> unat (mp_size ?p)" "window_free (pool_used ?p) s m"
      "\<forall>i < unat (mp_size ?p). pool_used p' i = (pool_used ?p i \<or> (s \<le> i \<and> i < s + m))"
    and p': "pool_inv p'" "mp_buf p' = mp_buf ?p" "mp_size p' = mp_size ?p"
      "mp_used p' = mp_used ?p + blocks_needed sz"
    using pool_alloc_spec [OF pinv, of sz] pa by (auto simp: m_def)
  have pos: "0 < m" using s(1) by (simp add: m_def word_less_nat_alt)
  have inv': "mgr_inv mx mgr'" using cpu_alloc_spec [OF inv, of cpu sz] al by simp
  have ps': "pools_of mgr' = (pools_of mgr)[k := p']" using m' some by simp
  then have k': "k < length (pools_of mgr')" "pools_of mgr' ! k = p'" using k by simp_all
  have base: "pool_base p' = pool_base ?p" using p'(2) by (simp add: pool_base_def)
  have sl: "s < unat (mp_size p')" using s(3) pos p'(3) by simp
  note pg = pool_page [OF p'(1) sl]
  have h: "pool_holds (pools_of mgr' ! k) a" using pg(2) k'(2) s(2) base by simp
  moreover have "\<forall>i < k. \<not> pool_holds (pools_of mgr' ! i) a"
    using holds_unique [OF inv' _ k'(1) _ h] k'(1) by (metis less_irrefl_nat less_trans)
  ultimately have fr: "kbx_mem_free mx mgr' (Some a) =
      map_option (\<lambda>q. with_pools mgr' ((pools_of mgr')[k := q])) (pool_free p' a)"
    using cpu_free_hit [OF inv' k'(1)] k'(2) by simp
  have idx: "unat ((a - pool_base p') div 4096) = s" using pg(3) s(2) base by simp
  obtain q where q: "pool_free p' a = Some q" "pool_inv q" "mp_buf q = mp_buf p'"
      "mp_size q = mp_size p'" "mp_used q = mp_used p' - 1"
      "\<forall>i < unat (mp_size p'). pool_used q i = (pool_used p' i \<and> i \<noteq> s)"
    using pool_free_spec [OF p'(1)] h k'(2) idx by auto
  let ?m2 = "with_pools mgr' ((pools_of mgr')[k := q])"
  have ps2: "pools_of ?m2 = (pools_of mgr)[k := q]" using m' some ps' by simp
  have "\<not> pool_used ?p s" using s(4) pos by (simp add: window_free_def)
  then have fl: "\<forall>i < unat (mp_size ?p). pool_used q i = (pool_used ?p i \<or> (s < i \<and> i < s + m))"
    using q(6) s(5) p'(3) by auto
  show ?thesis
    by (rule that [of ?m2 s])
      (use fr q p' s pos ps2 k fl mgr_inv_update [OF inv' k'(1)] k'(2) in auto)
qed

text \<open>
  \<open>kbx_mem_free\<close> gives back one block whatever the allocation's length: after allocating
  a window of \<open>m\<close> blocks and freeing the returned pointer, \<open>m - 1\<close> more blocks are in use than
  before, and \<open>used\<close> counts them.
\<close>

theorem cpu_free_releases_one_block:
  assumes "mgr_inv mx mgr" and "kbx_mem_alloc mx cpu mgr sz = Some (Some a, mgr')"
  shows "\<exists>mgr''. kbx_mem_free mx mgr' (Some a) = Some mgr'' \<and> mgr_inv mx mgr''
    \<and> used_count (pools_of mgr'' ! node_of mx cpu)
      = used_count (pools_of mgr ! node_of mx cpu) + (unat (blocks_needed sz) - 1)
    \<and> mp_used (pools_of mgr'' ! node_of mx cpu)
      = mp_used (pools_of mgr ! node_of mx cpu) + (blocks_needed sz - 1)"
proof -
  let ?k = "node_of mx cpu" and ?m = "unat (blocks_needed sz)"
  obtain mgr'' s where f: "kbx_mem_free mx mgr' (Some a) = Some mgr''" "mgr_inv mx mgr''"
    "mp_size (pools_of mgr'' ! ?k) = mp_size (pools_of mgr ! ?k)" "0 < ?m"
    "mp_used (pools_of mgr'' ! ?k) = mp_used (pools_of mgr ! ?k) + blocks_needed sz - 1"
    "s + ?m \<le> unat (mp_size (pools_of mgr ! ?k))" "window_free (pool_used (pools_of mgr ! ?k)) s ?m"
    "\<forall>i < unat (mp_size (pools_of mgr ! ?k)). pool_used (pools_of mgr'' ! ?k) i
       = (pool_used (pools_of mgr ! ?k) i \<or> (s < i \<and> i < s + ?m))"
    using alloc_then_free [OF assms] by blast
  have "window_free (pool_used (pools_of mgr ! ?k)) (s + 1) (?m - 1)"
    using f(7) by (auto simp: window_free_def)
  moreover have "\<forall>i < unat (mp_size (pools_of mgr ! ?k)). pool_used (pools_of mgr'' ! ?k) i
       = (pool_used (pools_of mgr ! ?k) i \<or> (s + 1 \<le> i \<and> i < s + 1 + (?m - 1)))"
    using f(4,8) by auto
  ultimately have "used_count (pools_of mgr'' ! ?k) = used_count (pools_of mgr ! ?k) + (?m - 1)"
    using used_count_window [OF mgr_inv_node [OF assms(1)] mgr_inv_node [OF f(2)] f(3)] f(4,6) by simp
  with f(1,2,5) show ?thesis by (simp add: algebra_simps)
qed

theorem cpu_free_releases_one_block_witness:
  "\<exists>mgr' mgr''. kbx_mem_alloc 0 7 (demo_mgr [True, False, True, False, False] 2) 5000
      = Some (Some 77824, mgr')
    \<and> kbx_mem_free 0 mgr' (Some 77824) = Some mgr''
    \<and> used_count (pools_of mgr'' ! node_of 0 7)
      = used_count (pools_of (demo_mgr [True, False, True, False, False] 2) ! node_of 0 7) + 1"
  using cpu_free_releases_one_block [OF demo_mgr_inv(1) demo_alloc] demo_alloc
  by (auto simp: blocks_needed_def unat_div_u64)

text \<open>
  For requests of 1 to 4096 bytes, allocation and release are inverse: the release
  restores every block's flag and the \<open>used\<close> counter, so such requests never exhaust a pool.
\<close>

theorem cpu_alloc_free_roundtrip:
  assumes "mgr_inv mx mgr" and "kbx_mem_alloc mx cpu mgr sz = Some (Some a, mgr')"
    and "0 < sz" and "sz \<le> 4096"
  shows "\<exists>mgr''. kbx_mem_free mx mgr' (Some a) = Some mgr'' \<and> mgr_inv mx mgr''
    \<and> (\<forall>i < unat (mp_size (pools_of mgr ! node_of mx cpu)).
         pool_used (pools_of mgr'' ! node_of mx cpu) i = pool_used (pools_of mgr ! node_of mx cpu) i)
    \<and> mp_used (pools_of mgr'' ! node_of mx cpu) = mp_used (pools_of mgr ! node_of mx cpu)
    \<and> pools_of mgr'' = (pools_of mgr)[node_of mx cpu := pools_of mgr'' ! node_of mx cpu]"
proof -
  have one: "blocks_needed sz = 1" using assms(3,4) by (rule blocks_needed_small)
  obtain mgr'' s where "kbx_mem_free mx mgr' (Some a) = Some mgr''" "mgr_inv mx mgr''"
    "pools_of mgr'' = (pools_of mgr)[node_of mx cpu := pools_of mgr'' ! node_of mx cpu]"
    "mp_used (pools_of mgr'' ! node_of mx cpu)
      = mp_used (pools_of mgr ! node_of mx cpu) + blocks_needed sz - 1"
    "\<forall>i < unat (mp_size (pools_of mgr ! node_of mx cpu)). pool_used (pools_of mgr'' ! node_of mx cpu) i
       = (pool_used (pools_of mgr ! node_of mx cpu) i \<or> (s < i \<and> i < s + unat (blocks_needed sz)))"
    using alloc_then_free [OF assms(1,2)] by blast
  with one show ?thesis by (auto simp: less_Suc_eq)
qed

lemma demo_alloc_page:
  "kbx_mem_alloc 0 0 (demo_mgr [False, False, False] 0) 4096
   = Some (Some 65536, with_pools (demo_mgr [False, False, False] 0)
       [(set_cells (demo_pool [False, False, False] 0)
          [(init_block 65536 0)\<lparr>mb_is_used := True, mb_used_size := 4096\<rparr>,
           init_block 65536 1, init_block 65536 2])\<lparr>mp_used := 1, mp_peak_used := 1\<rparr>])"
  by code_simp

theorem cpu_alloc_free_roundtrip_witness:
  "\<exists>mgr' mgr''. kbx_mem_alloc 0 0 (demo_mgr [False, False, False] 0) 4096 = Some (Some 65536, mgr')
    \<and> kbx_mem_free 0 mgr' (Some 65536) = Some mgr'' \<and> mgr_inv 0 mgr''"
  using cpu_alloc_free_roundtrip [OF demo_mgr_inv(2) demo_alloc_page] demo_alloc_page by auto

section \<open>Runs of allocator calls\<close>

datatype pool_call = PAlloc int u64 | PFree "ptr option"

fun pool_run :: "int \<Rightarrow> pool_call list \<Rightarrow> kbx_mem_manager \<Rightarrow> kbx_mem_manager option" where
  "pool_run mx [] mgr = Some mgr"
| "pool_run mx (PAlloc cpu sz # cs) mgr = do {
     (r, mgr') \<leftarrow> kbx_mem_alloc mx cpu mgr sz;
     pool_run mx cs mgr'
   }"
| "pool_run mx (PFree p # cs) mgr = do {
     mgr' \<leftarrow> kbx_mem_free mx mgr p;
     pool_run mx cs mgr'
   }"

text \<open>
  C4: No sequence of \<open>kbx_mem_alloc\<close> and \<open>kbx_mem_free\<close> calls, with any sizes, any CPU
  numbers and any pointers (foreign, interior or freed twice), leaves the block arrays or
  breaks the geometry of the pools.
\<close>

theorem cpu_pool_run_safe:
  assumes "mgr_inv mx mgr"
  shows "\<exists>mgr'. pool_run mx cs mgr = Some mgr' \<and> mgr_inv mx mgr'"
  using assms
proof (induction cs arbitrary: mgr)
  case Nil
  then show ?case by simp
next
  case (Cons c cs)
  show ?case
  proof (cases c)
    case (PAlloc cpu sz)
    with cpu_alloc_spec [OF Cons.prems, of cpu sz] Cons.IH show ?thesis by fastforce
  next
    case (PFree p)
    with cpu_free_spec [OF Cons.prems, of p] Cons.IH show ?thesis by fastforce
  qed
qed

theorem cpu_pool_run_safe_witness:
  "\<exists>mgr'. pool_run 0 [PAlloc 0 9000, PFree (Some 65536), PFree (Some 65540), PFree (Some 1)]
      (demo_mgr [False, False, False] 0) = Some mgr' \<and> mgr_inv 0 mgr'"
  using cpu_pool_run_safe [OF demo_mgr_inv(2)] by blast

end
