(* ===== verification/Mem_Pool_Init.thy ===== *)
theory Mem_Pool_Init
  imports Mem_Pool_Props "HOL-Library.Multiset"
begin

text \<open>
  \<open>kbx_mem_pool_init\<close> establishes the manager's invariant with every block free, and
  \<open>kbx_mem_pool_destroy\<close> gives back what it took, allocation by allocation.
\<close>

section \<open>What the initialisation loop builds\<close>

definition fresh_pool :: "u64 \<Rightarrow> kbx_mem_pool \<Rightarrow> bool" where
  "fresh_pool bytes p \<longleftrightarrow> mp_size p = bytes div 4096 \<and> mp_used p = 0 \<and> mp_peak_used p = 0
     \<and> mp_block_size p = 4096 \<and> mp_buf p \<noteq> None
     \<and> map_option snd (mp_blocks p) = Some (init_blocks (pool_base p) (unat (bytes div 4096)))"

definition pool_allocs :: "u64 \<Rightarrow> kbx_mem_pool \<Rightarrow> numa_event list" where
  "pool_allocs bytes p =
     [NumaAlloc bytes 0 (mp_buf p),
      NumaAlloc (40 * (bytes div 4096)) 0 (map_option fst (mp_blocks p))]"

definition pool_frees :: "kbx_mem_pool \<Rightarrow> numa_event list" where
  "pool_frees p =
     [NumaFree (mp_buf p) (mp_size p * 4096),
      NumaFree (map_option fst (mp_blocks p)) (mp_size p * 40)]"

lemma init_pools_success:
  assumes "init_pools na bytes is pools log = (KBX_STATUS_SUCCESS, pools', log')"
    and "distinct is" and "\<forall>i \<in> set is. i < length pools"
  shows "length pools' = length pools \<and> (\<forall>i. i \<notin> set is \<longrightarrow> pools' ! i = pools ! i)
    \<and> (\<forall>i \<in> set is. fresh_pool bytes (pools' ! i))
    \<and> log' = log @ concat (map (\<lambda>i. pool_allocs bytes (pools' ! i)) is)"
  using assms
proof (induction "is" arbitrary: pools log)
  case Nil
  then show ?case by simp
next
  case (Cons i "is")
  obtain buf cp p log2 where
    na: "na log bytes 0 = Some buf"
      "na (log @ [NumaAlloc bytes 0 (Some buf)]) (sizeof_mem_block * (bytes div 4096)) 0 = Some cp"
    and p: "p = (pools ! i)\<lparr>mp_buf := Some buf, mp_size := bytes div 4096, mp_used := 0,
        mp_peak_used := 0, mp_block_size := 4096,
        mp_blocks := Some (cp, init_blocks buf (unat (bytes div 4096)))\<rparr>"
    and l2: "log2 = log @ [NumaAlloc bytes 0 (Some buf),
        NumaAlloc (sizeof_mem_block * (bytes div 4096)) 0 (Some cp)]"
    and rec: "init_pools na bytes is (pools[i := p]) log2 = (KBX_STATUS_SUCCESS, pools', log')"
    using Cons.prems(1) by (auto simp: Let_def split: option.splits)
  have "distinct is" "\<forall>j \<in> set is. j < length (pools[i := p])" "i \<notin> set is" "i < length pools"
    using Cons.prems(2,3) by auto
  note IH = Cons.IH [OF rec this(1,2)]
  have pi: "pools' ! i = p" using IH \<open>i \<notin> set is\<close> \<open>i < length pools\<close> by simp
  have "fresh_pool bytes p" by (simp add: fresh_pool_def p pool_base_def)
  moreover have "log2 = log @ pool_allocs bytes p"
    by (simp add: l2 pool_allocs_def p sizeof_mem_block_def)
  ultimately show ?case using IH pi by auto
qed

lemma init_pools_node_zero:
  "\<exists>evs. snd (snd (init_pools na bytes is pools log)) = log @ evs
     \<and> list_all (\<lambda>e. \<exists>b r. e = NumaAlloc b 0 r) evs"
proof (induction "is" arbitrary: pools log)
  case Nil
  then show ?case by simp
next
  case (Cons i "is")
  show ?case
  proof (cases "na log bytes 0")
    case None
    then show ?thesis by (simp add: Let_def)
  next
    case (Some buf)
    show ?thesis
    proof (cases "na (log @ [NumaAlloc bytes 0 (Some buf)]) (sizeof_mem_block * (bytes div 4096)) 0")
      case None
      with Some show ?thesis by (simp add: Let_def)
    next
      case s2: (Some cp)
      let ?p = "(pools ! i)\<lparr>mp_buf := Some buf, mp_size := bytes div 4096, mp_used := 0,
        mp_peak_used := 0, mp_block_size := 4096,
        mp_blocks := Some (cp, init_blocks buf (unat (bytes div 4096)))\<rparr>"
      let ?l = "log @ [NumaAlloc bytes 0 (Some buf),
        NumaAlloc (sizeof_mem_block * (bytes div 4096)) 0 (Some cp)]"
      obtain evs where "snd (snd (init_pools na bytes is (pools[i := ?p]) ?l)) = ?l @ evs"
        "list_all (\<lambda>e. \<exists>b r. e = NumaAlloc b 0 r) evs"
        using Cons.IH by blast
      with Some s2 show ?thesis by (simp add: Let_def)
    qed
  qed
qed

lemma init_success:
  assumes "kbx_mem_pool_init na mx junk mgr sz log = (KBX_STATUS_SUCCESS, mgr', log')" and "0 \<le> mx"
  defines "bytes \<equiv> sz * 1024 * 1024"
  shows "\<exists>pp pools. mm_cpu_pool mgr' = Some (pp, pools) \<and> length pools = nat (mx + 1)
    \<and> list_all (fresh_pool bytes) pools
    \<and> log' = log @ NumaAlloc (48 * of_nat (nat (mx + 1))) 0 (Some pp)
          # concat (map (pool_allocs bytes) pools)"
proof -
  let ?n = "nat (mx + 1)"
  obtain pp pools where loop: "init_pools na bytes [0..<?n] (map junk [0..<?n])
      (log @ [NumaAlloc (48 * of_nat ?n) 0 (Some pp)]) = (KBX_STATUS_SUCCESS, pools, log')"
    and m: "mm_cpu_pool mgr' = Some (pp, pools)"
    using assms(1) by (auto simp: kbx_mem_pool_init_def Let_def bytes_def sizeof_mem_pool_def
        split: option.splits prod.splits if_splits)
  have spec: "length pools = ?n" "\<forall>i \<in> {0..<?n}. fresh_pool bytes (pools ! i)"
    "log' = (log @ [NumaAlloc (48 * of_nat ?n) 0 (Some pp)])
        @ concat (map (\<lambda>i. pool_allocs bytes (pools ! i)) [0..<?n])"
    using init_pools_success [OF loop] by auto
  have "map (\<lambda>i. pool_allocs bytes (pools ! i)) [0..<?n] = map (pool_allocs bytes) pools"
    using spec(1) by (intro nth_equalityI) auto
  with spec m show ?thesis by (auto simp: list_all_length)
qed

lemma fresh_pool_inv:
  assumes "fresh_pool bytes p"
    and "unat (pool_base p) + unat (mp_size p) * 4096 < 18446744073709551616"
  shows "pool_inv p" and "used_count p = 0"
proof -
  obtain buf cp where p: "mp_buf p = Some buf" "pool_base p = buf"
    "mp_blocks p = Some (cp, init_blocks buf (unat (mp_size p)))"
    using assms(1) by (auto simp: fresh_pool_def pool_base_def split: option.splits)
  show "pool_inv p"
    using p assms(2) by (simp add: pool_inv_def init_blocks_def init_block_def block_at_def)
  show "used_count p = 0"
    using p by (simp add: used_count_def pool_cells_def init_blocks_def init_block_def)
qed

text \<open>
  C19: After a successful \<open>kbx_mem_pool_init\<close> the manager is well-formed, with one pool per
  node of \<open>size\<close> MiB cut into 4096 byte blocks, all of them free, and zero counters, provided
  the regions that \<open>numa_alloc_onnode\<close> returned do not overlap or wrap.
\<close>

theorem pool_init_establishes_manager:
  assumes "kbx_mem_pool_init na mx junk mgr sz log = (KBX_STATUS_SUCCESS, mgr', log')"
    and "0 \<le> mx"
    and "\<forall>p \<in> set (pools_of mgr'). unat (pool_base p) + unat (mp_size p) * 4096 < 18446744073709551616"
    and "\<forall>i < length (pools_of mgr'). \<forall>j < length (pools_of mgr').
          i \<noteq> j \<longrightarrow> disjoint_pools (pools_of mgr' ! i) (pools_of mgr' ! j)"
  shows "mgr_inv mx mgr' \<and> length (pools_of mgr') = nat (mx + 1)
    \<and> (\<forall>p \<in> set (pools_of mgr'). mp_size p = sz * 1024 * 1024 div 4096 \<and> used_count p = 0
         \<and> mp_used p = 0 \<and> mp_peak_used p = 0)"
proof -
  obtain pp pools where m: "mm_cpu_pool mgr' = Some (pp, pools)" "length pools = nat (mx + 1)"
    "list_all (fresh_pool (sz * 1024 * 1024)) pools"
    using init_success [OF assms(1,2)] by blast
  then have "pools_of mgr' = pools" by (simp add: pools_of_def)
  with m assms fresh_pool_inv [of "sz * 1024 * 1024"] show ?thesis
    by (auto simp: mgr_inv_def list_all_iff fresh_pool_def)
qed

definition demo_numa_mib :: numa_alloc where
  "demo_numa_mib log bytes node = Some (of_nat (4194304 * (length log + 1)))"

definition demo_junk_pool :: kbx_mem_pool where
  "demo_junk_pool = \<lparr>mp_buf = None, mp_size = 9, mp_used = 9, mp_peak_used = 9, mp_block_size = 9,
     mp_blocks = None\<rparr>"

lemma demo_pool_init:
  "kbx_mem_pool_init demo_numa_mib 0 (\<lambda>_. demo_junk_pool) (demo_mgr [] 0) 1 []
   = (KBX_STATUS_SUCCESS,
      (demo_mgr [] 0)\<lparr>mm_cpu_pool := Some (4194304,
         [\<lparr>mp_buf = Some 8388608, mp_size = 256, mp_used = 0, mp_peak_used = 0,
           mp_block_size = 4096, mp_blocks = Some (12582912, init_blocks 8388608 256)\<rparr>])\<rparr>,
      [NumaAlloc 48 0 (Some 4194304), NumaAlloc 1048576 0 (Some 8388608),
       NumaAlloc 10240 0 (Some 12582912)])"
  by (simp add: kbx_mem_pool_init_def Let_def demo_numa_mib_def demo_mgr_def demo_junk_pool_def
      sizeof_mem_pool_def sizeof_mem_block_def)

theorem pool_init_establishes_manager_witness:
  "\<exists>mgr'. kbx_mem_pool_init demo_numa_mib 0 (\<lambda>_. demo_junk_pool) (demo_mgr [] 0) 1 []
      = (KBX_STATUS_SUCCESS, mgr', snd (snd (kbx_mem_pool_init demo_numa_mib 0
           (\<lambda>_. demo_junk_pool) (demo_mgr [] 0) 1 [])))
    \<and> mgr_inv 0 mgr'"
  using pool_init_establishes_manager [OF demo_pool_init]
  by (simp add: demo_pool_init pools_of_def pool_base_def)

fun alloc_of :: "numa_event \<Rightarrow> (ptr option \<times> u64) option" where
  "alloc_of (NumaAlloc b node r) = Some (r, b)"
| "alloc_of (NumaFree p b) = None"

fun free_of :: "numa_event \<Rightarrow> (ptr option \<times> u64) option" where
  "free_of (NumaFree p b) = Some (p, b)"
| "free_of (NumaAlloc b node r) = None"

lemma destroy_pools_all:
  "length pools = n \<Longrightarrow> list_all (\<lambda>p. mp_buf p \<noteq> None) pools \<Longrightarrow>
   destroy_pools n pools log = Some (log @ concat (map pool_frees pools))"
proof (induction n pools log rule: destroy_pools.induct)
  case (3 n p pools log)
  then show ?case
    by (auto simp: pool_frees_def sizeof_mem_block_def split: option.splits)
qed simp_all

lemma mib_pages: "(sz * 1024 * 1024 div 4096) * 4096 = (sz * 1024 * 1024 :: u64)"
proof -
  have e: "sz * 1024 * 1024 = push_bit 20 sz"
    by (simp add: push_bit_eq_mult)
  have "(push_bit 20 sz div 4096) * 4096 = push_bit 12 (drop_bit 12 (push_bit 20 sz))"
    by (simp add: push_bit_eq_mult drop_bit_eq_div)
  also have "\<dots> = push_bit 20 sz"
    by (rule bit_word_eqI) (auto simp: bit_simps)
  finally show ?thesis by (simp only: e)
qed

text \<open>
  \<open>kbx_mem_pool_destroy\<close> after a successful \<open>kbx_mem_pool_init\<close> frees exactly the
  allocations the initialisation made, with their sizes. The manager keeps its pointer, so a
  second \<open>kbx_mem_pool_destroy\<close> frees them all again.
\<close>

theorem pool_destroy_releases_init:
  assumes "kbx_mem_pool_init na mx junk mgr sz log = (KBX_STATUS_SUCCESS, mgr', log')"
    and "0 \<le> mx"
  shows "\<exists>as fs. log' = log @ as \<and> kbx_mem_pool_destroy mx mgr' log' = Some (log' @ fs)
    \<and> mset (map free_of fs) = mset (map alloc_of as)
    \<and> kbx_mem_pool_destroy mx mgr' (log' @ fs) = Some (log' @ fs @ fs)"
proof -
  let ?b = "sz * 1024 * 1024"
  let ?size = "48 * of_nat (nat (mx + 1)) :: u64"
  obtain pp pools where m: "mm_cpu_pool mgr' = Some (pp, pools)" "length pools = nat (mx + 1)"
    "list_all (fresh_pool ?b) pools"
    and l: "log' = log @ NumaAlloc ?size 0 (Some pp) # concat (map (pool_allocs ?b) pools)"
    using init_success [OF assms] by blast
  have nn: "list_all (\<lambda>p. mp_buf p \<noteq> None) pools"
    using m(3) by (auto simp: list_all_iff fresh_pool_def)
  define fs where "fs = concat (map pool_frees pools) @ [NumaFree (Some pp) ?size]"
  have d: "kbx_mem_pool_destroy mx mgr' l = Some (l @ fs)" for l
    using m destroy_pools_all [OF m(2) nn]
    by (simp add: kbx_mem_pool_destroy_def Let_def sizeof_mem_pool_def fs_def mult.commute)
  have "map free_of (pool_frees p) = map alloc_of (pool_allocs ?b p)" if "p \<in> set pools" for p
    using m(3) that mib_pages [of sz]
    by (auto simp: list_all_iff fresh_pool_def pool_frees_def pool_allocs_def mult.commute)
  then have "map free_of (concat (map pool_frees pools))
      = map alloc_of (concat (map (pool_allocs ?b) pools))"
    by (induction pools) auto
  then have "mset (map free_of fs)
      = mset (map alloc_of (NumaAlloc ?size 0 (Some pp) # concat (map (pool_allocs ?b) pools)))"
    by (simp add: fs_def)
  with l d show ?thesis by auto
qed

theorem pool_destroy_releases_init_witness:
  "\<exists>as fs. [NumaAlloc 48 0 (Some 4194304), NumaAlloc 1048576 0 (Some 8388608),
       NumaAlloc 10240 0 (Some 12582912)] = [] @ as
    \<and> mset (map free_of fs) = mset (map alloc_of as)"
  using pool_destroy_releases_init [OF demo_pool_init] by auto

text \<open>
  Every allocation of \<open>kbx_mem_pool_init\<close>, for whatever node's pool, is made on node 0.
\<close>

theorem pool_init_allocates_on_node_zero:
  "\<exists>evs. snd (snd (kbx_mem_pool_init na mx junk mgr sz log)) = log @ evs
     \<and> list_all (\<lambda>e. \<exists>b r. e = NumaAlloc b 0 r) evs"
proof (cases "na log (sizeof_mem_pool * of_nat (nat (mx + 1))) 0")
  case None
  then show ?thesis by (simp add: kbx_mem_pool_init_def Let_def)
next
  case (Some pp)
  then show ?thesis
    using init_pools_node_zero [of na "sz * 1024 * 1024" "[0..<nat (mx + 1)]"
        "map junk [0..<nat (mx + 1)]"
        "log @ [NumaAlloc (sizeof_mem_pool * of_nat (nat (mx + 1))) 0 (Some pp)]"]
    by (auto simp: kbx_mem_pool_init_def Let_def split: prod.splits)
qed

end
