(* ===== verification/Mem_Conc.thy ===== *)
theory Mem_Conc
  imports Mem_Pool_Props
begin

text \<open>
  Several threads inside \<open>kbx_mem_cpu_alloc\<close> and \<open>kbx_mem_cpu_free\<close> on one pool of \<open>n\<close>
  blocks. One step is one access to shared memory: a \<open>test_and_set\<close> or a \<open>clear\<close> of a
  block's flag (both atomic), or a plain load or store of \<open>pool->used\<close>, because the code's
  \<open>+=\<close> and \<open>--\<close> on that counter are not atomic. \<open>peak_used\<close> and the per-block
  \<open>used_size\<close>, which no decision reads, are left out. The first part ties the thread program
  to \<open>alloc_scan\<close>: run alone, it does the same to the flags and returns the same window.
\<close>

section \<open>The thread program\<close>

datatype alloc_pc =
    Idle
  | Scan nat nat nat nat \<comment> \<open>needed, j, \<open>start_idx\<close>, found: about to test block j\<close>
  | Release nat nat nat nat nat \<comment> \<open>needed, j, \<open>start_idx\<close>, k, end: about to clear block k\<close>
  | LoadUsed nat nat \<comment> \<open>needed, \<open>start_idx\<close>: the window is taken, \<open>used\<close> not yet read\<close>
  | StoreUsed nat nat u64 \<comment> \<open>the same with the value read\<close>
  | Held nat nat \<comment> \<open>returned the window\<close>
  | Failed \<comment> \<open>returned NULL\<close>
  | FreeLoad \<comment> \<open>the first flag is cleared, \<open>used\<close> not yet read\<close>
  | FreeStore u64

text \<open>The part of the search that touches the flags.\<close>

fun scan_step :: "nat \<Rightarrow> alloc_pc \<times> bool list \<Rightarrow> (alloc_pc \<times> bool list) option" where
  "scan_step n (Scan m j st f, flags) =
     Some (if j < n then
             (if \<not> flags ! j
              then (let st' = (if f = 0 then j else st)
                    in if f + 1 = m then LoadUsed m st' else Scan m (j + 1) st' (f + 1))
              else Release m j st st (st + f), flags[j := True])
           else (Failed, flags))"
| "scan_step n (Release m j st k e, flags) =
     Some (if k < e then (Release m j st (k + 1) e, flags[k := False])
           else (Scan m (j + 1) st 0, flags))"
| "scan_step n (_, flags) = None"

section \<open>One thread alone is the sequential loop\<close>

inductive alone :: "nat \<Rightarrow> alloc_pc \<times> bool list \<Rightarrow> alloc_pc \<times> bool list \<Rightarrow> bool" where
  alone_refl: "alone n c c"
| alone_step: "scan_step n c = Some c' \<Longrightarrow> alone n c' c'' \<Longrightarrow> alone n c c''"

definition flags_of :: "kbx_mem_block list \<Rightarrow> bool list" where
  "flags_of cells = map mb_is_used cells"

definition scan_result :: "nat \<Rightarrow> nat option \<Rightarrow> alloc_pc" where
  "scan_result m r = (case r of None \<Rightarrow> Failed | Some s \<Rightarrow> LoadUsed m s)"

lemma alone_release:
  "clear_flags k f cells = Some cells' \<Longrightarrow> (k + f = e) \<Longrightarrow>
   alone n (Scan m (j + 1) st 0, flags_of cells') c \<Longrightarrow>
   alone n (Release m j st k e, flags_of cells) c"
proof (induction k f cells arbitrary: e rule: clear_flags.induct)
  case (1 k cells)
  then show ?case by (auto intro: alone_step)
next
  case (2 k f cells)
  from "2.prems"(1) obtain b where b: "arr_get cells k = Some b"
    and rest: "clear_flags (Suc k) f (cells[k := b\<lparr>mb_is_used := False\<rparr>]) = Some cells'"
    by (auto split: Option.bind_splits)
  then have k: "k < length cells" by (cases "k < length cells") auto
  have "Suc k + f = e" using "2.prems"(2) by simp
  note IH = "2.IH" [OF b rest this "2.prems"(3)]
  have "scan_step n (Release m j st k e, flags_of cells)
      = Some (Release m j st (k + 1) e, flags_of (cells[k := b\<lparr>mb_is_used := False\<rparr>]))"
    using "2.prems"(2) k by (simp add: flags_of_def map_update)
  from alone_step [OF this] IH show ?case by simp
qed

lemma flags_same: "j < length cells \<Longrightarrow> mb_is_used (cells ! j) \<Longrightarrow> (flags_of cells)[j := True] = flags_of cells"
  by (simp add: flags_of_def list_update_same_conv)

lemma flags_nth: "j < length cells \<Longrightarrow> flags_of cells ! j = mb_is_used (cells ! j)"
  by (simp add: flags_of_def)

lemma alone_scan:
  "alloc_scan m sz n j st f cells = Some (r, cells') \<Longrightarrow>
   alone n (Scan m j st f, flags_of cells) (scan_result m r, flags_of cells')"
proof (induction m sz n j st f cells rule: alloc_scan.induct)
  case (1 m sz n j st f cells)
  show ?case
  proof (cases "j < n")
    case False
    with "1.prems" have r: "r = None" "cells' = cells"
      by (auto simp: alloc_scan.simps [of m sz n j st f cells])
    have "scan_step n (Scan m j st f, flags_of cells) = Some (Failed, flags_of cells)"
      using False by simp
    then show ?thesis using r by (auto simp: scan_result_def intro: alone_step alone_refl)
  next
    case True
    with "1.prems" obtain b where b: "arr_get cells j = Some b"
      by (auto simp: alloc_scan.simps [of m sz n j st f cells] split: Option.bind_splits)
    then have j: "j < length cells" and bj: "b = cells ! j" by (cases "j < length cells"; simp)+
    show ?thesis
    proof (cases "mb_is_used b")
      case used: True
      with "1.prems" b True obtain c1 where cl: "clear_flags st f cells = Some c1"
        and rest: "alloc_scan m sz n (j + 1) st 0 c1 = Some (r, cells')"
        by (auto simp: alloc_scan.simps [of m sz n j st f cells] split: Option.bind_splits)
      have IH: "alone n (Scan m (j + 1) st 0, flags_of c1) (scan_result m r, flags_of cells')"
        using "1.IH"(2) [OF True b _ cl rest] used by simp
      have "scan_step n (Scan m j st f, flags_of cells)
          = Some (Release m j st st (st + f), flags_of cells)"
        using True j used bj by (simp add: flags_nth flags_same)
      then show ?thesis by (rule alone_step) (rule alone_release [OF cl refl IH])
    next
      case free: False
      let ?st = "if f = 0 then j else st"
      let ?c = "cells[j := b\<lparr>mb_is_used := True, mb_used_size := sz\<rparr>]"
      have fl: "(flags_of cells)[j := True] = flags_of ?c"
        using j by (simp add: flags_of_def map_update)
      show ?thesis
      proof (cases "f + 1 = m")
        case eq: True
        with "1.prems" b True free have r: "r = Some ?st" "cells' = ?c"
          by (auto simp: alloc_scan.simps [of m sz n j st f cells] Let_def)
        have "scan_step n (Scan m j st f, flags_of cells) = Some (LoadUsed m ?st, flags_of ?c)"
          using True j free bj eq fl by (simp add: flags_nth Let_def)
        then show ?thesis using r by (auto simp: scan_result_def intro: alone_step alone_refl)
      next
        case neq: False
        with "1.prems" b True free
        have rest: "alloc_scan m sz n (j + 1) ?st (f + 1) ?c = Some (r, cells')"
          by (simp add: alloc_scan.simps [of m sz n j st f cells] Let_def)
        have "scan_step n (Scan m j st f, flags_of cells)
            = Some (Scan m (j + 1) ?st (f + 1), flags_of ?c)"
          using True j free bj neq fl by (simp add: flags_nth Let_def)
        then show ?thesis
          by (rule alone_step) (use "1.IH"(1) [OF True b free refl refl neq rest] in simp)
      qed
    qed
  qed
qed

section \<open>The system\<close>

record conc_state =
  cs_flags :: "bool list"
  cs_used :: u64
  cs_pc :: "nat \<Rightarrow> alloc_pc"

inductive conc_step :: "nat \<Rightarrow> conc_state \<Rightarrow> conc_state \<Rightarrow> bool" for n where
  call_alloc: "cs_pc s t \<in> {Idle, Failed} \<Longrightarrow>
     conc_step n s (s\<lparr>cs_pc := (cs_pc s)(t := Scan m 0 0 0)\<rparr>)"
| search: "scan_step n (cs_pc s t, cs_flags s) = Some (pc, flags) \<Longrightarrow>
     conc_step n s (s\<lparr>cs_flags := flags, cs_pc := (cs_pc s)(t := pc)\<rparr>)"
| load_used: "cs_pc s t = LoadUsed m st \<Longrightarrow>
     conc_step n s (s\<lparr>cs_pc := (cs_pc s)(t := StoreUsed m st (cs_used s))\<rparr>)"
| store_used: "cs_pc s t = StoreUsed m st v \<Longrightarrow>
     conc_step n s (s\<lparr>cs_used := v + of_nat m, cs_pc := (cs_pc s)(t := Held m st)\<rparr>)"
| free_clear: "cs_pc s t = Held m st \<Longrightarrow>
     conc_step n s (s\<lparr>cs_flags := (cs_flags s)[st := False], cs_pc := (cs_pc s)(t := FreeLoad)\<rparr>)"
| free_load: "cs_pc s t = FreeLoad \<Longrightarrow>
     conc_step n s (s\<lparr>cs_pc := (cs_pc s)(t := FreeStore (cs_used s))\<rparr>)"
| free_store: "cs_pc s t = FreeStore v \<Longrightarrow>
     conc_step n s (s\<lparr>cs_used := v - 1, cs_pc := (cs_pc s)(t := Idle)\<rparr>)"

definition conc_init :: "nat \<Rightarrow> conc_state" where
  "conc_init n = \<lparr>cs_flags = replicate n False, cs_used = 0, cs_pc = (\<lambda>_. Idle)\<rparr>"

inductive conc_reach :: "nat \<Rightarrow> conc_state \<Rightarrow> bool" for n where
  reach_init: "conc_reach n (conc_init n)"
| reach_step: "conc_reach n s \<Longrightarrow> conc_step n s s' \<Longrightarrow> conc_reach n s'"

inductive_cases conc_stepE: "conc_step n s s'"

section \<open>Ownership\<close>

text \<open>The blocks a thread has taken and not given back.\<close>

fun owned :: "alloc_pc \<Rightarrow> nat set" where
  "owned (Scan m j st f) = {j - f..<j}"
| "owned (Release m j st k e) = {k..<e}"
| "owned (LoadUsed m st) = {st..<st + m}"
| "owned (StoreUsed m st v) = {st..<st + m}"
| "owned (Held m st) = {st..<st + m}"
| "owned _ = {}"

fun pc_wf :: "nat \<Rightarrow> alloc_pc \<Rightarrow> bool" where
  "pc_wf n (Scan m j st f) \<longleftrightarrow> j \<le> n \<and> f \<le> j \<and> (f = 0 \<or> st + f = j)"
| "pc_wf n (Release m j st k e) \<longleftrightarrow> j < n \<and> (k < e \<longrightarrow> e \<le> j)"
| "pc_wf n (LoadUsed m st) \<longleftrightarrow> 0 < m \<and> st + m \<le> n"
| "pc_wf n (StoreUsed m st v) \<longleftrightarrow> 0 < m \<and> st + m \<le> n"
| "pc_wf n (Held m st) \<longleftrightarrow> 0 < m \<and> st + m \<le> n"
| "pc_wf n _ \<longleftrightarrow> True"

definition conc_inv :: "nat \<Rightarrow> conc_state \<Rightarrow> bool" where
  "conc_inv n s \<longleftrightarrow> length (cs_flags s) = n \<and> (\<forall>t. pc_wf n (cs_pc s t))
     \<and> (\<forall>t. \<forall>i \<in> owned (cs_pc s t). i < n \<and> cs_flags s ! i)
     \<and> (\<forall>t u. t \<noteq> u \<longrightarrow> owned (cs_pc s t) \<inter> owned (cs_pc s u) = {})"

lemma conc_inv_init: "conc_inv n (conc_init n)"
  by (simp add: conc_inv_def conc_init_def)

text \<open>
  Every step is one thread moving to a well-formed control point: it keeps the invariant when
  the blocks it newly owns were free and are now marked, and the marks it clears are on blocks
  it owned and owns no longer.
\<close>

lemma conc_inv_move:
  assumes inv: "conc_inv n s" and wf: "pc_wf n pc" and len: "length flags = n"
    and own: "\<forall>i \<in> owned pc. i < n \<and> flags ! i \<and> (i \<in> owned (cs_pc s t) \<or> \<not> cs_flags s ! i)"
    and keep: "\<forall>i < n. cs_flags s ! i \<longrightarrow> flags ! i \<or> i \<in> owned (cs_pc s t)"
  shows "conc_inv n (s\<lparr>cs_flags := flags, cs_used := v, cs_pc := (cs_pc s)(t := pc)\<rparr>)"
proof -
  have o: "\<forall>u. \<forall>i \<in> owned (cs_pc s u). i < n \<and> cs_flags s ! i"
    and d: "\<forall>u w. u \<noteq> w \<longrightarrow> owned (cs_pc s u) \<inter> owned (cs_pc s w) = {}"
    and w: "\<forall>u. pc_wf n (cs_pc s u)"
    using inv by (auto simp: conc_inv_def)
  have other: "owned pc \<inter> owned (cs_pc s u) = {}" if "u \<noteq> t" for u
    using own o d that by fastforce
  have "\<forall>i \<in> owned (cs_pc s u). i < n \<and> flags ! i" if "u \<noteq> t" for u
    using o d keep that by fastforce
  with other own w wf len d show ?thesis
    by (auto simp: conc_inv_def)
qed

lemma search_inv:
  assumes inv: "conc_inv n s" and st: "scan_step n (cs_pc s t, cs_flags s) = Some (pc, flags)"
  shows "conc_inv n (s\<lparr>cs_flags := flags, cs_pc := (cs_pc s)(t := pc)\<rparr>)"
proof -
  have len: "length (cs_flags s) = n" and wf: "pc_wf n (cs_pc s t)"
    and own: "\<forall>i \<in> owned (cs_pc s t). i < n \<and> cs_flags s ! i"
    using inv by (auto simp: conc_inv_def)
  have "pc_wf n pc \<and> length flags = n
    \<and> (\<forall>i \<in> owned pc. i < n \<and> flags ! i \<and> (i \<in> owned (cs_pc s t) \<or> \<not> cs_flags s ! i))
    \<and> (\<forall>i < n. cs_flags s ! i \<longrightarrow> flags ! i \<or> i \<in> owned (cs_pc s t))"
  proof (cases "cs_pc s t")
    case (Scan m j st' f)
    with st wf len own show ?thesis
      by (auto simp: Let_def nth_list_update less_Suc_eq split: if_splits)
  next
    case (Release m j st' k e)
    with st wf len own show ?thesis
      by (auto simp: nth_list_update split: if_splits)
  qed (use st in simp_all)
  then show ?thesis using conc_inv_move [OF inv, of pc flags t "cs_used s"] by simp
qed

lemma conc_invD:
  assumes "conc_inv n s"
  shows "length (cs_flags s) = n" and "pc_wf n (cs_pc s t)"
    and "\<forall>i \<in> owned (cs_pc s t). i < n \<and> cs_flags s ! i"
  using assms by (auto simp: conc_inv_def)

lemma conc_step_inv: "conc_step n s s' \<Longrightarrow> conc_inv n s \<Longrightarrow> conc_inv n s'"
proof (induction rule: conc_step.induct)
  case (call_alloc s t m)
  note d = conc_invD(1) [OF call_alloc.prems] conc_invD(2,3) [OF call_alloc.prems, of t]
  have "conc_inv n (s\<lparr>cs_flags := cs_flags s, cs_used := cs_used s, cs_pc := (cs_pc s)(t := Scan m 0 0 0)\<rparr>)"
    by (rule conc_inv_move [OF call_alloc.prems]) (use d call_alloc.hyps in \<open>auto simp: nth_list_update\<close>)
  then show ?case by simp
next
  case (search s t pc flags)
  then show ?case by (rule search_inv [rotated])
next
  case (load_used s t m st)
  note d = conc_invD(1) [OF load_used.prems] conc_invD(2,3) [OF load_used.prems, of t]
  have "conc_inv n (s\<lparr>cs_flags := cs_flags s, cs_used := cs_used s, cs_pc := (cs_pc s)(t := StoreUsed m st (cs_used s))\<rparr>)"
    by (rule conc_inv_move [OF load_used.prems]) (use d load_used.hyps in \<open>auto simp: nth_list_update\<close>)
  then show ?case by simp
next
  case (store_used s t m st v)
  note d = conc_invD(1) [OF store_used.prems] conc_invD(2,3) [OF store_used.prems, of t]
  have "conc_inv n (s\<lparr>cs_flags := cs_flags s, cs_used := v + of_nat m, cs_pc := (cs_pc s)(t := Held m st)\<rparr>)"
    by (rule conc_inv_move [OF store_used.prems]) (use d store_used.hyps in \<open>auto simp: nth_list_update\<close>)
  then show ?case by simp
next
  case (free_clear s t m st)
  note d = conc_invD(1) [OF free_clear.prems] conc_invD(2,3) [OF free_clear.prems, of t]
  have "conc_inv n (s\<lparr>cs_flags := (cs_flags s)[st := False], cs_used := cs_used s, cs_pc := (cs_pc s)(t := FreeLoad)\<rparr>)"
    by (rule conc_inv_move [OF free_clear.prems]) (use d free_clear.hyps in \<open>auto simp: nth_list_update\<close>)
  then show ?case by simp
next
  case (free_load s t)
  note d = conc_invD(1) [OF free_load.prems] conc_invD(2,3) [OF free_load.prems, of t]
  have "conc_inv n (s\<lparr>cs_flags := cs_flags s, cs_used := cs_used s, cs_pc := (cs_pc s)(t := FreeStore (cs_used s))\<rparr>)"
    by (rule conc_inv_move [OF free_load.prems]) (use d free_load.hyps in \<open>auto simp: nth_list_update\<close>)
  then show ?case by simp
next
  case (free_store s t v)
  note d = conc_invD(1) [OF free_store.prems] conc_invD(2,3) [OF free_store.prems, of t]
  have "conc_inv n (s\<lparr>cs_flags := cs_flags s, cs_used := v - 1, cs_pc := (cs_pc s)(t := Idle)\<rparr>)"
    by (rule conc_inv_move [OF free_store.prems]) (use d free_store.hyps in \<open>auto simp: nth_list_update\<close>)
  then show ?case by simp
qed

lemma conc_reach_inv: "conc_reach n s \<Longrightarrow> conc_inv n s"
  by (induction rule: conc_reach.induct) (auto intro: conc_inv_init conc_step_inv)

section \<open>Schedules\<close>

text \<open>
  The step a thread takes next (with \<open>m\<close> the block count of a call that starts), and runs
  under a schedule: a list of thread numbers, each with such an \<open>m\<close>.
\<close>

definition conc_next :: "nat \<Rightarrow> conc_state \<Rightarrow> nat \<Rightarrow> nat \<Rightarrow> conc_state" where
  "conc_next n s t m =
     (case scan_step n (cs_pc s t, cs_flags s) of
        Some (pc, flags) \<Rightarrow> s\<lparr>cs_flags := flags, cs_pc := (cs_pc s)(t := pc)\<rparr>
      | None \<Rightarrow>
          (case cs_pc s t of
             LoadUsed k st \<Rightarrow> s\<lparr>cs_pc := (cs_pc s)(t := StoreUsed k st (cs_used s))\<rparr>
           | StoreUsed k st v \<Rightarrow> s\<lparr>cs_used := v + of_nat k, cs_pc := (cs_pc s)(t := Held k st)\<rparr>
           | Held k st \<Rightarrow> s\<lparr>cs_flags := (cs_flags s)[st := False], cs_pc := (cs_pc s)(t := FreeLoad)\<rparr>
           | FreeLoad \<Rightarrow> s\<lparr>cs_pc := (cs_pc s)(t := FreeStore (cs_used s))\<rparr>
           | FreeStore v \<Rightarrow> s\<lparr>cs_used := v - 1, cs_pc := (cs_pc s)(t := Idle)\<rparr>
           | _ \<Rightarrow> s\<lparr>cs_pc := (cs_pc s)(t := Scan m 0 0 0)\<rparr>))"

fun conc_sched :: "nat \<Rightarrow> conc_state \<Rightarrow> (nat \<times> nat) list \<Rightarrow> conc_state" where
  "conc_sched n s [] = s"
| "conc_sched n s ((t, m) # ts) = conc_sched n (conc_next n s t m) ts"

lemma conc_next_step: "conc_step n s (conc_next n s t m)"
proof (cases "cs_pc s t")
  case Idle
  then show ?thesis using call_alloc [of s t n m] by (simp add: conc_next_def)
next
  case Failed
  then show ?thesis using call_alloc [of s t n m] by (simp add: conc_next_def)
next
  case (Scan k j st f)
  then obtain pc flags where "scan_step n (cs_pc s t, cs_flags s) = Some (pc, flags)"
    by (cases "scan_step n (cs_pc s t, cs_flags s)") auto
  then show ?thesis using search [of n s t pc flags] by (simp add: conc_next_def)
next
  case (Release k j st a b)
  then obtain pc flags where "scan_step n (cs_pc s t, cs_flags s) = Some (pc, flags)"
    by (cases "scan_step n (cs_pc s t, cs_flags s)") auto
  then show ?thesis using search [of n s t pc flags] by (simp add: conc_next_def)
qed (auto simp: conc_next_def intro: load_used store_used free_clear free_load free_store)

lemma conc_sched_reach: "conc_reach n s \<Longrightarrow> conc_reach n (conc_sched n s ts)"
  by (induction n s ts rule: conc_sched.induct) (auto intro: reach_step conc_next_step)

section \<open>Properties\<close>

text \<open>
  The interleaved thread program is the sequential search: run alone, a thread leaves the
  same flags as \<open>alloc_scan\<close> and ends at the same window, or at NULL.
\<close>

theorem thread_alone_is_alloc_scan:
  assumes "alloc_scan m sz n 0 0 0 cells = Some (r, cells')"
  shows "alone n (Scan m 0 0 0, map mb_is_used cells) (scan_result m r, map mb_is_used cells')"
  using alone_scan [OF assms] by (simp add: flags_of_def)

theorem thread_alone_is_alloc_scan_witness:
  "alone 3 (Scan 1 0 0 0, [True, False, False]) (LoadUsed 1 1, [True, True, False])"
proof -
  let ?c = "pool_cells (demo_pool [True, False, False] 1)"
  have fl: "map mb_is_used ?c = [True, False, False]" by code_simp
  have sc: "alloc_scan 1 8 3 0 0 0 ?c = Some (Some 1, [(init_block 65536 0)\<lparr>mb_is_used := True\<rparr>,
      (init_block 65536 1)\<lparr>mb_is_used := True, mb_used_size := 8\<rparr>, init_block 65536 2])"
    by code_simp
  from thread_alone_is_alloc_scan [OF sc] show ?thesis
    unfolding fl by (simp add: scan_result_def init_block_def)
qed

text \<open>
  C7: Under every interleaving of any number of threads, two threads that both hold an
  allocation hold disjoint windows inside the pool, and every block of them is marked used.
\<close>

theorem conc_alloc_exclusive:
  assumes "conc_reach n s" and "t \<noteq> u"
    and "cs_pc s t = Held m a" and "cs_pc s u = Held k b"
  shows "{a..<a + m} \<inter> {b..<b + k} = {} \<and> a + m \<le> n \<and> b + k \<le> n
    \<and> (\<forall>i \<in> {a..<a + m} \<union> {b..<b + k}. cs_flags s ! i)"
proof -
  have inv: "conc_inv n s" using assms(1) by (rule conc_reach_inv)
  then have "owned (cs_pc s t) \<inter> owned (cs_pc s u) = {}" using assms(2) by (simp add: conc_inv_def)
  with conc_invD(2,3) [OF inv, of t] conc_invD(2,3) [OF inv, of u] assms(3,4) show ?thesis
    by auto
qed

definition demo_race :: conc_state where
  "demo_race = conc_sched 2 (conc_init 2)
     [(0, 1), (0, 0), (1, 1), (1, 0), (1, 0), (1, 0), (0, 0), (1, 0), (0, 0), (1, 0)]"

lemma demo_race_state:
  "cs_pc demo_race 0 = Held 1 0" "cs_pc demo_race (Suc 0) = Held 1 1" "cs_used demo_race = 1"
  "cs_flags demo_race = [True, True]" "1 < t \<Longrightarrow> cs_pc demo_race t = Idle"
  by (simp_all add: demo_race_def conc_next_def conc_init_def Let_def numeral_2_eq_2)

theorem conc_alloc_exclusive_witness:
  "conc_reach 2 demo_race \<and> {0..<0 + 1} \<inter> {1..<1 + 1} = ({} :: nat set)"
proof -
  have r: "conc_reach 2 demo_race"
    unfolding demo_race_def by (rule conc_sched_reach) (rule reach_init)
  from conc_alloc_exclusive [OF r _ demo_race_state(1,2)] r show ?thesis by simp
qed

text \<open>
  The counter \<open>pool->used\<close> is not protected: there is an interleaving of two threads, each
  allocating one block and freeing it, after which every block is free, no call is running,
  and \<open>used\<close> has wrapped to \<open>2^64 - 1\<close>.
\<close>

theorem conc_used_counter_wraps:
  "\<exists>s. conc_reach 2 s \<and> (\<forall>t. cs_pc s t = Idle) \<and> cs_flags s = [False, False]
     \<and> cs_used s = 18446744073709551615"
proof (intro exI conjI allI)
  let ?s = "conc_sched 2 demo_race [(0, 0), (0, 0), (0, 0), (1, 0), (1, 0), (1, 0)]"
  show "conc_reach 2 ?s"
    unfolding demo_race_def by (intro conc_sched_reach reach_init)
  show "cs_pc ?s t = Idle" for t
    using demo_race_state(5) [of t] by (simp add: conc_next_def demo_race_state)
  show "cs_flags ?s = [False, False]" "cs_used ?s = 18446744073709551615"
    by (simp_all add: conc_next_def demo_race_state)
qed

end
