(* ===== verification/Mem_Alloc.thy ===== *)
theory Mem_Alloc
  imports Mem_Pool "HOL-Library.Multiset"
begin

text \<open>
  The other allocators of \<open>src/mem/mem_pool.cc\<close>: DRM dumb buffers with the global table
  \<open>g_gpu_allocs\<close>, anonymous shared mappings with a size header, and \<open>posix_memalign\<close>. The
  system calls are parameters: functions of the calls made so far, which the models record.
  The mutex around the table makes each table access one step; calls are taken one at a time.
\<close>

section \<open>The contract of an allocator\<close>

text \<open>
  A client holds the pointers it was given and frees only those. Under the laws below, what
  the provider regards as live is always exactly what the client holds.
\<close>

datatype alloc_op = AAlloc u64 | AFree nat

fun drop_nth :: "nat \<Rightarrow> 'a list \<Rightarrow> 'a list" where
  "drop_nth i [] = []"
| "drop_nth 0 (x # xs) = xs"
| "drop_nth (Suc i) (x # xs) = x # drop_nth i xs"

fun client_run :: "('s \<Rightarrow> u64 \<Rightarrow> ptr option \<times> 's) \<Rightarrow> ('s \<Rightarrow> ptr \<Rightarrow> 's) \<Rightarrow> alloc_op list
    \<Rightarrow> 's \<Rightarrow> ptr list \<Rightarrow> 's \<times> ptr list" where
  "client_run alloc free [] s held = (s, held)"
| "client_run alloc free (AAlloc n # ops) s held =
     (case alloc s n of
        (None, s') \<Rightarrow> client_run alloc free ops s' held
      | (Some p, s') \<Rightarrow> client_run alloc free ops s' (held @ [p]))"
| "client_run alloc free (AFree i # ops) s held =
     (if i < length held then client_run alloc free ops (free s (held ! i)) (drop_nth i held)
      else client_run alloc free ops s held)"

lemma drop_nth_set:
  "i < length xs \<Longrightarrow> distinct xs \<Longrightarrow> set (drop_nth i xs) = set xs - {xs ! i} \<and> distinct (drop_nth i xs)"
proof (induction i xs rule: drop_nth.induct)
  case (1 i)
  then show ?case by simp
next
  case (2 x xs)
  then show ?case by simp
next
  case (3 i x xs)
  then have i: "i < length xs" "x \<notin> set xs" "distinct xs" by simp_all
  then have "x \<noteq> xs ! i" by (metis nth_mem)
  with i "3.IH" show ?case by (simp add: insert_Diff_if)
qed

locale allocator =
  fixes alloc :: "'s \<Rightarrow> u64 \<Rightarrow> ptr option \<times> 's"
    and free :: "'s \<Rightarrow> ptr \<Rightarrow> 's"
    and live :: "'s \<Rightarrow> ptr set"
    and inv :: "'s \<Rightarrow> bool"
  assumes alloc_none: "inv s \<Longrightarrow> alloc s n = (None, s') \<Longrightarrow> inv s' \<and> live s' = live s"
    and alloc_some: "inv s \<Longrightarrow> alloc s n = (Some p, s') \<Longrightarrow>
      inv s' \<and> p \<notin> live s \<and> live s' = insert p (live s)"
    and free_live: "inv s \<Longrightarrow> p \<in> live s \<Longrightarrow> inv (free s p) \<and> live (free s p) = live s - {p}"
begin

lemma run_live:
  assumes "inv s" and "live s = set held" and "distinct held"
    and "client_run alloc free ops s held = (s', held')"
  shows "inv s' \<and> live s' = set held' \<and> distinct held'"
  using assms
proof (induction ops arbitrary: s held)
  case Nil
  then show ?case by simp
next
  case (Cons c ops)
  show ?case
  proof (cases c)
    case (AAlloc n)
    obtain r s1 where al: "alloc s n = (r, s1)" by (cases "alloc s n")
    show ?thesis
    proof (cases r)
      case None
      with alloc_none [of s n s1] al AAlloc Cons.prems Cons.IH [of s1 held] show ?thesis by simp
    next
      case (Some p)
      with alloc_some [of s n p s1] al AAlloc Cons.prems Cons.IH [of s1 "held @ [p]"]
      show ?thesis by simp
    qed
  next
    case (AFree i)
    with free_live [of s "held ! i"] drop_nth_set [of i held] Cons.prems
      Cons.IH [of "free s (held ! i)" "drop_nth i held"] Cons.IH [of s held]
    show ?thesis by (simp split: if_splits)
  qed
qed

end

section \<open>DRM dumb buffers\<close>

datatype drm_event =
    CreateDumb int u32 "(u64 \<times> u32) option" \<comment> \<open>fd, width, granted size and handle\<close>
  | MapDumb int u32 "u64 option" \<comment> \<open>fd, handle, offset\<close>
  | DrmMmap int u64 u64 "ptr option" \<comment> \<open>fd, length, offset, address\<close>
  | DrmMunmap ptr u64
  | DestroyDumb int u32

record drm_env =
  drm_create :: "drm_event list \<Rightarrow> int \<Rightarrow> u32 \<Rightarrow> (u64 \<times> u32) option"
  drm_map :: "drm_event list \<Rightarrow> int \<Rightarrow> u32 \<Rightarrow> u64 option"
  drm_mmap :: "drm_event list \<Rightarrow> int \<Rightarrow> u64 \<Rightarrow> u64 \<Rightarrow> ptr option"

record gpu_state =
  g_gpu_allocs :: "ptr \<rightharpoonup> u64 \<times> u32"
  gpu_log :: "drm_event list"

definition kbx_mem_gpu_alloc ::
  "drm_env \<Rightarrow> kbx_mem_manager option \<Rightarrow> gpu_state \<Rightarrow> u64 \<Rightarrow> ptr option \<times> gpu_state" where
  "kbx_mem_gpu_alloc env mgr s sz =
     (case mgr of
        None \<Rightarrow> (None, s)
      | Some m \<Rightarrow>
          if mm_drm_fd m \<le> 0 then (None, s)
          else
            let fd = mm_drm_fd m;
                width = ucast sz;
                c = drm_create env (gpu_log s) fd width;
                s1 = s\<lparr>gpu_log := gpu_log s @ [CreateDumb fd width c]\<rparr>
            in case c of
                 None \<Rightarrow> (None, s1)
               | Some (csize, handle) \<Rightarrow>
                   let mo = drm_map env (gpu_log s1) fd handle;
                       s2 = s1\<lparr>gpu_log := gpu_log s1 @ [MapDumb fd handle mo]\<rparr>
                   in case mo of
                        None \<Rightarrow> (None, s2\<lparr>gpu_log := gpu_log s2 @ [DestroyDumb fd handle]\<rparr>)
                      | Some off \<Rightarrow>
                          let p = drm_mmap env (gpu_log s2) fd csize off;
                              s3 = s2\<lparr>gpu_log := gpu_log s2 @ [DrmMmap fd csize off p]\<rparr>
                          in case p of
                               None \<Rightarrow> (None, s3\<lparr>gpu_log := gpu_log s3 @ [DestroyDumb fd handle]\<rparr>)
                             | Some a \<Rightarrow>
                                 (Some a, s3\<lparr>g_gpu_allocs := (g_gpu_allocs s3)(a \<mapsto> (csize, handle))\<rparr>))"

definition kbx_mem_gpu_free :: "kbx_mem_manager \<Rightarrow> gpu_state \<Rightarrow> ptr option \<Rightarrow> gpu_state" where
  "kbx_mem_gpu_free m s p =
     (case p of
        None \<Rightarrow> s
      | Some a \<Rightarrow>
          if mm_drm_fd m \<le> 0 then s
          else
            let (csize, handle, s1) =
                  (case g_gpu_allocs s a of
                     None \<Rightarrow> (0, 0, s)
                   | Some (n, h) \<Rightarrow> (n, h, s\<lparr>g_gpu_allocs := (g_gpu_allocs s)(a := None)\<rparr>))
            in if handle \<noteq> 0
               then s1\<lparr>gpu_log := gpu_log s1 @ [DrmMunmap a csize, DestroyDumb (mm_drm_fd m) handle]\<rparr>
               else s1)"

section \<open>Shared mappings\<close>

datatype map_event =
    AnonMmap u64 "ptr option"
  | AnonMunmap ptr u64

record shared_state =
  sh_heap :: "ptr \<Rightarrow> u64" \<comment> \<open>the \<open>size_t\<close> stored at an address\<close>
  sh_log :: "map_event list"

definition kbx_mem_shared_alloc ::
  "(map_event list \<Rightarrow> u64 \<Rightarrow> ptr option) \<Rightarrow> shared_state \<Rightarrow> u64 \<Rightarrow> ptr option \<times> shared_state" where
  "kbx_mem_shared_alloc mmap s sz =
     (let total_size = sz + KBX_PAGE_SIZE;
          p = mmap (sh_log s) total_size;
          s1 = s\<lparr>sh_log := sh_log s @ [AnonMmap total_size p]\<rparr>
      in case p of
           None \<Rightarrow> (None, s1)
         | Some a \<Rightarrow> (Some (a + KBX_PAGE_SIZE), s1\<lparr>sh_heap := (sh_heap s1)(a := total_size)\<rparr>))"

definition kbx_mem_shared_free :: "shared_state \<Rightarrow> ptr option \<Rightarrow> shared_state" where
  "kbx_mem_shared_free s p =
     (case p of
        None \<Rightarrow> s
      | Some a \<Rightarrow>
          let real_ptr = a - KBX_PAGE_SIZE;
              total_size = sh_heap s real_ptr
          in s\<lparr>sh_log := sh_log s @ [AnonMunmap real_ptr total_size]\<rparr>)"

section \<open>posix_memalign\<close>

datatype heap_event =
    PosixMemalign u64 u64 "ptr option"
  | HeapFree "ptr option"

definition kbx_mem_system_alloc ::
  "(heap_event list \<Rightarrow> u64 \<Rightarrow> u64 \<Rightarrow> ptr option) \<Rightarrow> heap_event list \<Rightarrow> u64
     \<Rightarrow> ptr option \<times> heap_event list" where
  "kbx_mem_system_alloc posix_memalign log sz =
     (let p = posix_memalign log KBX_PAGE_SIZE sz
      in (p, log @ [PosixMemalign KBX_PAGE_SIZE sz p]))"

definition kbx_mem_system_free :: "heap_event list \<Rightarrow> ptr option \<Rightarrow> heap_event list" where
  "kbx_mem_system_free log p = log @ [HeapFree p]"

section \<open>Ledgers\<close>

fun handle_step :: "u32 multiset \<Rightarrow> drm_event \<Rightarrow> u32 multiset" where
  "handle_step M (CreateDumb fd w (Some (n, h))) = add_mset h M"
| "handle_step M (DestroyDumb fd h) = M - {#h#}"
| "handle_step M _ = M"

definition live_handles :: "drm_event list \<Rightarrow> u32 multiset" where
  "live_handles log = foldl handle_step {#} log"

fun gmap_step :: "(ptr \<times> u64) multiset \<Rightarrow> drm_event \<Rightarrow> (ptr \<times> u64) multiset" where
  "gmap_step M (DrmMmap fd n off (Some p)) = add_mset (p, n) M"
| "gmap_step M (DrmMunmap p n) = M - {#(p, n)#}"
| "gmap_step M _ = M"

definition gpu_maps :: "drm_event list \<Rightarrow> (ptr \<times> u64) multiset" where
  "gpu_maps log = foldl gmap_step {#} log"

fun amap_step :: "(ptr \<times> u64) multiset \<Rightarrow> map_event \<Rightarrow> (ptr \<times> u64) multiset" where
  "amap_step M (AnonMmap n (Some p)) = add_mset (p, n) M"
| "amap_step M (AnonMmap n None) = M"
| "amap_step M (AnonMunmap p n) = M - {#(p, n)#}"

definition shared_maps :: "map_event list \<Rightarrow> (ptr \<times> u64) multiset" where
  "shared_maps log = foldl amap_step {#} log"

lemma ledger_append [simp]:
  "live_handles (log @ es) = foldl handle_step (live_handles log) es"
  "gpu_maps (log @ es) = foldl gmap_step (gpu_maps log) es"
  "shared_maps (slog @ ms) = foldl amap_step (shared_maps slog) ms"
  by (simp_all add: live_handles_def gpu_maps_def shared_maps_def)

lemma ledger_nil [simp]: "live_handles [] = {#}" "gpu_maps [] = {#}" "shared_maps [] = {#}"
  by (simp_all add: live_handles_def gpu_maps_def shared_maps_def)

section \<open>The dumb-buffer table and what the kernel holds\<close>

definition table_handles :: "(ptr \<rightharpoonup> u64 \<times> u32) \<Rightarrow> u32 multiset" where
  "table_handles t = image_mset (\<lambda>p. snd (the (t p))) (mset_set (dom t))"

definition table_maps :: "(ptr \<rightharpoonup> u64 \<times> u32) \<Rightarrow> (ptr \<times> u64) multiset" where
  "table_maps t = image_mset (\<lambda>p. (p, fst (the (t p)))) (mset_set (dom t))"

lemma table_insert:
  assumes "finite (dom t)" and "p \<notin> dom t"
  shows "table_handles (t(p \<mapsto> (n, h))) = add_mset h (table_handles t)"
    and "table_maps (t(p \<mapsto> (n, h))) = add_mset (p, n) (table_maps t)"
proof -
  have d: "mset_set (dom (t(p \<mapsto> (n, h)))) = add_mset p (mset_set (dom t))" using assms by simp
  have c: "image_mset (\<lambda>q. f ((t(p \<mapsto> (n, h))) q) q) (mset_set (dom t))
      = image_mset (\<lambda>q. f (t q) q) (mset_set (dom t))" for f :: "(u64 \<times> u32) option \<Rightarrow> ptr \<Rightarrow> 'b"
    using assms by (intro image_mset_cong) auto
  show "table_handles (t(p \<mapsto> (n, h))) = add_mset h (table_handles t)"
    unfolding table_handles_def d using c [of "\<lambda>x q. snd (the x)"] by simp
  show "table_maps (t(p \<mapsto> (n, h))) = add_mset (p, n) (table_maps t)"
    unfolding table_maps_def d using c [of "\<lambda>x q. (q, fst (the x))"] by simp
qed

lemma table_erase:
  assumes "finite (dom t)" and "t p = Some (n, h)"
  shows "table_handles (t(p := None)) = table_handles t - {#h#}"
    and "table_maps (t(p := None)) = table_maps t - {#(p, n)#}"
proof -
  let ?t = "t(p := None)"
  have t: "t = ?t(p \<mapsto> (n, h))" using assms(2) by (auto simp: fun_eq_iff)
  have f: "finite (dom ?t)" "p \<notin> dom ?t" using assms(1) by auto
  have "table_handles t = add_mset h (table_handles ?t)"
    by (subst t) (rule table_insert [OF f])
  then show "table_handles ?t = table_handles t - {#h#}" by simp
  have "table_maps t = add_mset (p, n) (table_maps ?t)"
    by (subst t) (rule table_insert [OF f])
  then show "table_maps ?t = table_maps t - {#(p, n)#}" by simp
qed

text \<open>
  What the code relies on: \<open>mmap\<close> does not return an address that is mapped, and the DRM
  driver does not grant handle 0.
\<close>

definition drm_env_ok :: "drm_env \<Rightarrow> bool" where
  "drm_env_ok env \<longleftrightarrow>
     (\<forall>log fd n off p. drm_mmap env log fd n off = Some p \<longrightarrow> p \<notin> fst ` set_mset (gpu_maps log))
   \<and> (\<forall>log fd w n h. drm_create env log fd w = Some (n, h) \<longrightarrow> h \<noteq> 0)"

definition gpu_inv :: "drm_env \<Rightarrow> gpu_state \<Rightarrow> bool" where
  "gpu_inv env s \<longleftrightarrow> drm_env_ok env \<and> finite (dom (g_gpu_allocs s))
     \<and> live_handles (gpu_log s) = table_handles (g_gpu_allocs s)
     \<and> gpu_maps (gpu_log s) = table_maps (g_gpu_allocs s)
     \<and> 0 \<notin># table_handles (g_gpu_allocs s)"

lemma table_handle_in:
  "finite (dom t) \<Longrightarrow> t p = Some (n, h) \<Longrightarrow> h \<in># table_handles t"
  by (force simp: table_handles_def)

lemma table_maps_dom: "finite (dom t) \<Longrightarrow> fst ` set_mset (table_maps t) = dom t"
  by (auto simp: table_maps_def image_image)

text \<open>
  The calls that obtain a buffer, and that every entry of the table goes back to such calls: it has the size and the
  handle the driver granted, and the mapping is of that size, of that buffer.
\<close>

definition obtained :: "int \<Rightarrow> u32 \<Rightarrow> u64 \<Rightarrow> u32 \<Rightarrow> u64 \<Rightarrow> ptr \<Rightarrow> drm_event list" where
  "obtained fd width len h off p = [CreateDumb fd width (Some (len, h)), MapDumb fd h (Some off), DrmMmap fd len off (Some p)]"

definition granted :: "int \<Rightarrow> gpu_state \<Rightarrow> bool" where
  "granted fd s \<longleftrightarrow> (\<forall>p len h. g_gpu_allocs s p = Some (len, h) \<longrightarrow>
     (\<exists>before width off after. gpu_log s = before @ obtained fd width len h off p @ after))"

lemma granted_extend:
  assumes "granted fd s" "gpu_log s' = gpu_log s @ es"
    and "\<And>p e. g_gpu_allocs s' p = Some e \<Longrightarrow> g_gpu_allocs s p = Some e
      \<or> (\<exists>width off. es = obtained fd width (fst e) (snd e) off p)"
  shows "granted fd s'"
  unfolding granted_def
proof (intro allI impI)
  fix p n h assume "g_gpu_allocs s' p = Some (n, h)"
  from assms(3) [OF this] consider "g_gpu_allocs s p = Some (n, h)" | width off where "es = obtained fd width n h off p"
    by auto
  then show "\<exists>before width off after. gpu_log s' = before @ obtained fd width n h off p @ after"
  proof cases
    case 1
    then obtain before width off after where "gpu_log s = before @ obtained fd width n h off p @ after"
      using assms(1) unfolding granted_def by blast
    then show ?thesis using assms(2) by (intro exI [of _ before] exI [of _ width] exI [of _ off] exI [of _ "after @ es"]) simp
  next
    case 2
    then show ?thesis using assms(2) by (intro exI [of _ "gpu_log s"] exI [of _ width] exI [of _ off] exI [of _ "[]"]) simp
  qed
qed

text \<open>A call either adds events that change neither ledger, or adds one entry to everything.\<close>

lemma gpu_alloc_elim:
  assumes "kbx_mem_gpu_alloc env mgr s n = (r, s')"
  shows "(r = None \<and> (\<exists>es. s' = s\<lparr>gpu_log := gpu_log s @ es\<rparr>
        \<and> (\<forall>M. foldl handle_step M es = M) \<and> (\<forall>M. foldl gmap_step M es = M)))
    \<or> (\<exists>p csize h m off. r = Some p \<and> mgr = Some m
        \<and> s' = s\<lparr>gpu_log := gpu_log s @ obtained (mm_drm_fd m) (ucast n) csize h off p,
                g_gpu_allocs := (g_gpu_allocs s)(p \<mapsto> (csize, h))\<rparr>
        \<and> drm_create env (gpu_log s) (mm_drm_fd m) (ucast n) = Some (csize, h)
        \<and> drm_mmap env (gpu_log s @ [CreateDumb (mm_drm_fd m) (ucast n) (Some (csize, h)), MapDumb (mm_drm_fd m) h (Some off)])
             (mm_drm_fd m) csize off = Some p)"
proof (cases "mgr = None \<or> mm_drm_fd (the mgr) \<le> 0")
  case True
  with assms have "r = None" "s' = s\<lparr>gpu_log := gpu_log s @ []\<rparr>"
    by (cases mgr; simp add: kbx_mem_gpu_alloc_def)+
  then show ?thesis by (intro disjI1 conjI exI [of _ "[]"]) simp_all
next
  case False
  then obtain m where m: "mgr = Some m" "\<not> mm_drm_fd m \<le> 0" by auto
  let ?fd = "mm_drm_fd m" and ?w = "ucast n :: u32"
  show ?thesis
  proof (cases "drm_create env (gpu_log s) ?fd ?w")
    case None
    with assms m have "r = None" "s' = s\<lparr>gpu_log := gpu_log s @ [CreateDumb ?fd ?w None]\<rparr>"
      by (auto simp: kbx_mem_gpu_alloc_def Let_def)
    then show ?thesis by (intro disjI1 conjI exI [of _ "[CreateDumb ?fd ?w None]"]) simp_all
  next
    case (Some c)
    obtain csize h where c: "c = (csize, h)" by (cases c)
    let ?e1 = "[CreateDumb ?fd ?w (Some (csize, h))]"
    show ?thesis
    proof (cases "drm_map env (gpu_log s @ ?e1) ?fd h")
      case None
      let ?es = "?e1 @ [MapDumb ?fd h None, DestroyDumb ?fd h]"
      from None Some c assms m have "r = None" "s' = s\<lparr>gpu_log := gpu_log s @ ?es\<rparr>"
        by (auto simp: kbx_mem_gpu_alloc_def Let_def)
      then show ?thesis by (intro disjI1 conjI exI [of _ ?es]) simp_all
    next
      case off: (Some off)
      let ?e2 = "?e1 @ [MapDumb ?fd h (Some off)]"
      show ?thesis
      proof (cases "drm_mmap env (gpu_log s @ ?e2) ?fd csize off")
        case None
        let ?es = "?e2 @ [DrmMmap ?fd csize off None, DestroyDumb ?fd h]"
        from None off Some c assms m have "r = None" "s' = s\<lparr>gpu_log := gpu_log s @ ?es\<rparr>"
          by (auto simp: kbx_mem_gpu_alloc_def Let_def)
        then show ?thesis by (intro disjI1 conjI exI [of _ ?es]) simp_all
      next
        case p: (Some p)
        let ?es = "?e2 @ [DrmMmap ?fd csize off (Some p)]"
        from p off Some c assms m have "r = Some p" "s' = s\<lparr>gpu_log := gpu_log s @ ?es,
            g_gpu_allocs := (g_gpu_allocs s)(p \<mapsto> (csize, h))\<rparr>"
          by (auto simp: kbx_mem_gpu_alloc_def Let_def)
        with p Some c m(1) show ?thesis
          by (intro disjI2 exI [of _ p] exI [of _ csize] exI [of _ h] exI [of _ m] exI [of _ off]) (simp add: obtained_def)
      qed
    qed
  qed
qed

lemma gpu_alloc_none:
  assumes inv: "gpu_inv env s" "granted (mm_drm_fd m) s" and al: "kbx_mem_gpu_alloc env (Some m) s n = (None, s')"
  shows "gpu_inv env s' \<and> granted (mm_drm_fd m) s' \<and> dom (g_gpu_allocs s') = dom (g_gpu_allocs s)"
proof -
  obtain es where s': "s' = s\<lparr>gpu_log := gpu_log s @ es\<rparr>" and led: "\<forall>M. foldl handle_step M es = M" "\<forall>M. foldl gmap_step M es = M"
    using gpu_alloc_elim [OF al] by auto
  have "granted (mm_drm_fd m) s'" by (rule granted_extend [OF inv(2)]) (simp_all add: s')
  then show ?thesis using inv(1) led by (simp add: s' gpu_inv_def)
qed

lemma gpu_alloc_some:
  assumes inv: "gpu_inv env s" "granted (mm_drm_fd m) s" and al: "kbx_mem_gpu_alloc env (Some m) s n = (Some p, s')"
  shows "gpu_inv env s' \<and> granted (mm_drm_fd m) s' \<and> p \<notin> dom (g_gpu_allocs s)
    \<and> dom (g_gpu_allocs s') = insert p (dom (g_gpu_allocs s))"
proof -
  let ?fd = "mm_drm_fd m" and ?w = "ucast n :: u32"
  obtain csize h off where
    s': "s' = s\<lparr>gpu_log := gpu_log s @ obtained ?fd ?w csize h off p, g_gpu_allocs := (g_gpu_allocs s)(p \<mapsto> (csize, h))\<rparr>"
    and env: "drm_create env (gpu_log s) ?fd ?w = Some (csize, h)"
      "drm_mmap env (gpu_log s @ [CreateDumb ?fd ?w (Some (csize, h)), MapDumb ?fd h (Some off)]) ?fd csize off = Some p"
    using gpu_alloc_elim [OF al] by auto
  have fin: "finite (dom (g_gpu_allocs s))" and ok: "drm_env_ok env"
    and maps: "gpu_maps (gpu_log s) = table_maps (g_gpu_allocs s)"
    using inv(1) by (auto simp: gpu_inv_def)
  have "p \<notin> fst ` set_mset (gpu_maps (gpu_log s @ [CreateDumb ?fd ?w (Some (csize, h)), MapDumb ?fd h (Some off)]))"
    using ok env(2) unfolding drm_env_ok_def by blast
  then have fresh: "p \<notin> dom (g_gpu_allocs s)" using maps table_maps_dom [OF fin] by simp
  moreover have "h \<noteq> 0" using ok env(1) by (auto simp: drm_env_ok_def)
  moreover have "granted ?fd s'"
  proof (rule granted_extend [OF inv(2)])
    show "gpu_log s' = gpu_log s @ obtained ?fd ?w csize h off p" by (simp add: s')
    show "g_gpu_allocs s q = Some e \<or> (\<exists>width off'. obtained ?fd ?w csize h off p = obtained ?fd width (fst e) (snd e) off' q)"
      if "g_gpu_allocs s' q = Some e" for q e
    proof (cases "q = p")
      case True
      then have "e = (csize, h)" using that by (simp add: s')
      then show ?thesis using True by auto
    qed (use that in \<open>simp add: s'\<close>)
  qed
  ultimately show ?thesis
    using inv(1) table_insert [OF fin fresh] by (simp add: s' obtained_def gpu_inv_def)
qed

lemma gpu_free_live:
  assumes inv: "gpu_inv env s" "granted (mm_drm_fd m) s" and p: "p \<in> dom (g_gpu_allocs s)" and fd: "0 < mm_drm_fd m"
  shows "gpu_inv env (kbx_mem_gpu_free m s (Some p)) \<and> granted (mm_drm_fd m) (kbx_mem_gpu_free m s (Some p))
    \<and> dom (g_gpu_allocs (kbx_mem_gpu_free m s (Some p))) = dom (g_gpu_allocs s) - {p}"
proof -
  obtain n h where e: "g_gpu_allocs s p = Some (n, h)" using p by auto
  have fin: "finite (dom (g_gpu_allocs s))" using inv(1) by (simp add: gpu_inv_def)
  have h: "h \<noteq> 0" using inv(1) table_handle_in [OF fin e] by (auto simp: gpu_inv_def)
  then have free: "kbx_mem_gpu_free m s (Some p) = s\<lparr>g_gpu_allocs := (g_gpu_allocs s)(p := None),
      gpu_log := gpu_log s @ [DrmMunmap p n, DestroyDumb (mm_drm_fd m) h]\<rparr>"
    using fd e by (simp add: kbx_mem_gpu_free_def)
  have "granted (mm_drm_fd m) (kbx_mem_gpu_free m s (Some p))"
    by (rule granted_extend [OF inv(2)]) (auto simp: free split: if_splits)
  with inv(1) table_erase [OF fin e] show ?thesis
    by (auto simp: free gpu_inv_def dest: in_diffD)
qed

interpretation gpu: allocator "kbx_mem_gpu_alloc env (Some m)" "\<lambda>s p. kbx_mem_gpu_free m s (Some p)"
  "\<lambda>s. dom (g_gpu_allocs s)" "\<lambda>s. gpu_inv env s \<and> granted (mm_drm_fd m) s \<and> 0 < mm_drm_fd m" for env m
  by unfold_locales (use gpu_alloc_none gpu_alloc_some gpu_free_live in blast)+


definition demo_drm :: drm_env where
  "demo_drm = \<lparr>drm_create = (\<lambda>log fd w. Some (4096, 1)), drm_map = (\<lambda>log fd h. Some 0),
     drm_mmap = (\<lambda>log fd n off. if gpu_maps log = {#} then Some 65536 else None)\<rparr>"

definition demo_manager :: kbx_mem_manager where
  "demo_manager =
     \<lparr>mm_cpu_pool = None, mm_gpu_pool = None, mm_shared_pool = None, mm_system_pool = None,
      mm_framebuffer = None, mm_framebuffer_size = 0, mm_display_buffer = None,
      mm_display_buffer_size = 0, mm_drm_fd = 3, mm_drm_fb_id = 0\<rparr>"

lemma demo_drm_ok: "drm_env_ok demo_drm"
  by (simp add: drm_env_ok_def demo_drm_def)

lemma demo_gpu_run:
  "\<exists>s. client_run (kbx_mem_gpu_alloc demo_drm (Some demo_manager))
      (\<lambda>s p. kbx_mem_gpu_free demo_manager s (Some p)) [AAlloc 100, AAlloc 200, AFree 0, AAlloc 300]
      \<lparr>g_gpu_allocs = Map.empty, gpu_log = []\<rparr> [] = (s, [65536])"
  by (simp add: kbx_mem_gpu_alloc_def kbx_mem_gpu_free_def Let_def demo_drm_def demo_manager_def
      live_handles_def gpu_maps_def)


text \<open>
  The width of the dumb buffer is a 32 bit field: a request of \<open>2^32\<close> bytes or more asks
  the driver for its low 32 bits only, so a driver that grants less than a page beyond the
  requested width returns a mapping smaller than the size the caller asked for.
\<close>

theorem gpu_alloc_truncates_size:
  assumes "kbx_mem_gpu_alloc env (Some m) s sz = (Some p, s')"
    and "4294967296 + 4096 \<le> unat sz"
    and "\<forall>log fd w n h. drm_create env log fd w = Some (n, h) \<longrightarrow> unat n < unat w + 4096"
  shows "\<exists>n h. g_gpu_allocs s' p = Some (n, h) \<and> unat n < unat sz
    \<and> CreateDumb (mm_drm_fd m) (ucast sz) (Some (n, h)) \<in> set (gpu_log s')"
proof -
  obtain n h off where c: "drm_create env (gpu_log s) (mm_drm_fd m) (ucast sz) = Some (n, h)"
    and s': "s' = s\<lparr>gpu_log := gpu_log s @ [CreateDumb (mm_drm_fd m) (ucast sz) (Some (n, h)),
        MapDumb (mm_drm_fd m) h (Some off), DrmMmap (mm_drm_fd m) n off (Some p)],
      g_gpu_allocs := (g_gpu_allocs s)(p \<mapsto> (n, h))\<rparr>"
    using assms(1)
    by (auto simp: kbx_mem_gpu_alloc_def Let_def split: option.splits if_splits prod.splits)
  have "unat n < unat (ucast sz :: u32) + 4096" using assms(3) c by blast
  moreover have "unat (ucast sz :: u32) < 4294967296" by (rule unat_u32_bound)
  ultimately show ?thesis using assms(2) s' by simp
qed

definition demo_drm_exact :: drm_env where
  "demo_drm_exact = \<lparr>drm_create = (\<lambda>log fd w. Some (ucast w, 1)), drm_map = (\<lambda>log fd h. Some 0),
     drm_mmap = (\<lambda>log fd n off. Some 65536)\<rparr>"

theorem gpu_alloc_truncates_size_witness:
  "\<exists>s n h. kbx_mem_gpu_alloc demo_drm_exact (Some demo_manager)
      \<lparr>g_gpu_allocs = Map.empty, gpu_log = []\<rparr> 4295000000 = (Some 65536, s)
    \<and> g_gpu_allocs s 65536 = Some (n, h) \<and> unat n < 4295000000"
proof -
  obtain s where s: "kbx_mem_gpu_alloc demo_drm_exact (Some demo_manager)
      \<lparr>g_gpu_allocs = Map.empty, gpu_log = []\<rparr> 4295000000 = (Some 65536, s)"
    by (simp add: kbx_mem_gpu_alloc_def demo_drm_exact_def demo_manager_def Let_def)
  have "unat (ucast (w :: u32) :: u64) < unat w + 4096" for w
    using mod_less_eq_dividend [of "unat w" "2 ^ 64"]
    by (simp add: unsigned_ucast_eq take_bit_eq_mod)
  then have "\<forall>log fd w n h. drm_create demo_drm_exact log fd w = Some (n, h) \<longrightarrow> unat n < unat w + 4096"
    by (simp add: demo_drm_exact_def)
  from gpu_alloc_truncates_size [OF s _ this] s show ?thesis by auto
qed

section \<open>Shared mappings keep their size in a header page\<close>

definition shared_env_ok :: "(map_event list \<Rightarrow> u64 \<Rightarrow> ptr option) \<Rightarrow> bool" where
  "shared_env_ok mmap \<longleftrightarrow>
     (\<forall>log n p. mmap log n = Some p \<longrightarrow> p \<notin> fst ` set_mset (shared_maps log))"

definition shared_live :: "shared_state \<Rightarrow> ptr set" where
  "shared_live s = (\<lambda>(p, n). p + 4096) ` set_mset (shared_maps (sh_log s))"

text \<open>Each live mapping is listed once and its header holds its length.\<close>

definition shared_inv :: "(map_event list \<Rightarrow> u64 \<Rightarrow> ptr option) \<Rightarrow> shared_state \<Rightarrow> bool" where
  "shared_inv mmap s \<longleftrightarrow> shared_env_ok mmap
     \<and> (\<forall>(p, n) \<in># shared_maps (sh_log s). sh_heap s p = n)
     \<and> (\<forall>x. count (shared_maps (sh_log s)) x \<le> 1)"

lemma shared_alloc_none:
  assumes "shared_inv mmap s" and "kbx_mem_shared_alloc mmap s n = (None, s')"
  shows "shared_inv mmap s' \<and> shared_live s' = shared_live s"
  using assms
  by (auto simp: kbx_mem_shared_alloc_def Let_def shared_inv_def shared_live_def split: option.splits)

lemma shared_alloc_some:
  assumes inv: "shared_inv mmap s" and al: "kbx_mem_shared_alloc mmap s n = (Some a, s')"
  shows "shared_inv mmap s' \<and> a \<notin> shared_live s \<and> shared_live s' = insert a (shared_live s)"
proof -
  obtain p where p: "mmap (sh_log s) (n + 4096) = Some p" "a = p + 4096"
    and s': "s' = s\<lparr>sh_log := sh_log s @ [AnonMmap (n + 4096) (Some p)],
                 sh_heap := (sh_heap s)(p := n + 4096)\<rparr>"
    using al by (auto simp: kbx_mem_shared_alloc_def Let_def split: option.splits)
  have fresh: "\<And>m. (p, m) \<notin># shared_maps (sh_log s)"
    using inv p(1) by (force simp: shared_inv_def shared_env_ok_def)
  then have "count (shared_maps (sh_log s)) (p, n + 4096) = 0" by (simp add: not_in_iff)
  with inv fresh s' p show ?thesis
    by (auto simp: shared_inv_def shared_live_def)
qed

lemma shared_free_live:
  assumes inv: "shared_inv mmap s" and a: "a \<in> shared_live s"
  shows "shared_inv mmap (kbx_mem_shared_free s (Some a))
    \<and> shared_live (kbx_mem_shared_free s (Some a)) = shared_live s - {a}"
proof -
  let ?M = "shared_maps (sh_log s)"
  obtain p n where pn: "(p, n) \<in># ?M" "a = p + 4096" using a by (auto simp: shared_live_def)
  have h: "\<And>q m. (q, m) \<in># ?M \<Longrightarrow> sh_heap s q = m" using inv by (auto simp: shared_inv_def)
  have uniq: "m = n" if "(p, m) \<in># ?M" for m using h [OF that] h [OF pn(1)] by simp
  have one: "\<And>x. count ?M x \<le> 1" using inv by (auto simp: shared_inv_def)
  have log: "shared_maps (sh_log (kbx_mem_shared_free s (Some a))) = ?M - {#(p, n)#}"
    "sh_heap (kbx_mem_shared_free s (Some a)) = sh_heap s"
    using pn h by (simp_all add: kbx_mem_shared_free_def Let_def)
  have "count (?M - {#(p, n)#}) (p, n) = 0" using one [of "(p, n)"] by simp
  then have gone: "(p, n) \<notin># ?M - {#(p, n)#}" by (simp add: not_in_iff)
  have mem: "x \<in># ?M - {#(p, n)#} \<longleftrightarrow> x \<in># ?M \<and> x \<noteq> (p, n)" for x
  proof -
    have "set_mset ?M = insert (p, n) (set_mset (?M - {#(p, n)#}))"
      by (subst insert_DiffM [OF pn(1), symmetric]) (simp only: set_mset_add_mset_insert)
    with gone show ?thesis by blast
  qed
  have cnt: "count (?M - {#(p, n)#}) x \<le> 1" for x using one [of x] by simp
  have "shared_live (kbx_mem_shared_free s (Some a)) = shared_live s - {a}"
  proof (rule set_eqI)
    fix b
    have "b \<in> shared_live (kbx_mem_shared_free s (Some a)) \<longleftrightarrow> (\<exists>q m. (q, m) \<in># ?M \<and> (q, m) \<noteq> (p, n) \<and> b = q + 4096)"
      using mem by (auto simp: shared_live_def log)
    also have "\<dots> \<longleftrightarrow> b \<in> shared_live s - {a}"
      using pn by (auto simp: shared_live_def dest: uniq)
    finally show "b \<in> shared_live (kbx_mem_shared_free s (Some a)) \<longleftrightarrow> b \<in> shared_live s - {a}" .
  qed
  moreover have "shared_inv mmap (kbx_mem_shared_free s (Some a))"
    using inv cnt mem h unfolding shared_inv_def log by (auto dest: in_diffD)
  ultimately show ?thesis by simp
qed

interpretation shared: allocator "kbx_mem_shared_alloc mmap" "\<lambda>s p. kbx_mem_shared_free s (Some p)"
  shared_live "shared_inv mmap" for mmap
  by unfold_locales (use shared_alloc_none shared_alloc_some shared_free_live in blast)+

text \<open>
  C18: Whatever a client does with \<open>kbx_mem_shared_alloc\<close> and \<open>kbx_mem_shared_free\<close>, freeing
  only what it holds, the mappings that exist are exactly those of the pointers it holds: each
  release unmaps the whole mapping, whose length the header page remembers.
\<close>

theorem shared_allocator_never_leaks:
  assumes "shared_env_ok mmap"
    and "client_run (kbx_mem_shared_alloc mmap) (\<lambda>s p. kbx_mem_shared_free s (Some p)) ops
      \<lparr>sh_heap = h0, sh_log = []\<rparr> [] = (s, held)"
  shows "fst ` set_mset (shared_maps (sh_log s)) = (\<lambda>a. a - 4096) ` set held \<and> distinct held
    \<and> (\<forall>(p, n) \<in># shared_maps (sh_log s). sh_heap s p = n)"
proof -
  have "shared_inv mmap \<lparr>sh_heap = h0, sh_log = []\<rparr>" using assms(1) by (simp add: shared_inv_def)
  then have r: "shared_inv mmap s \<and> shared_live s = set held \<and> distinct held"
    using shared.run_live [OF _ _ _ assms(2)] by (simp add: shared_live_def)
  then have "(\<lambda>a. a - 4096) ` shared_live s = (\<lambda>a. a - 4096) ` set held" by simp
  moreover have "(\<lambda>a. a - 4096) ` shared_live s = fst ` set_mset (shared_maps (sh_log s))"
    by (force simp: shared_live_def image_iff)
  ultimately show ?thesis using r by (simp add: shared_inv_def)
qed

definition demo_mmap :: "map_event list \<Rightarrow> u64 \<Rightarrow> ptr option" where
  "demo_mmap log n = (if shared_maps log = {#} then Some 65536 else None)"

theorem shared_allocator_never_leaks_witness:
  "\<exists>s. client_run (kbx_mem_shared_alloc demo_mmap) (\<lambda>s p. kbx_mem_shared_free s (Some p))
      [AAlloc 100, AFree 0, AAlloc 5000] \<lparr>sh_heap = (\<lambda>_. 0), sh_log = []\<rparr> [] = (s, [69632])
    \<and> fst ` set_mset (shared_maps (sh_log s)) = {65536}"
proof -
  have ok: "shared_env_ok demo_mmap" by (simp add: shared_env_ok_def demo_mmap_def)
  obtain s where s: "client_run (kbx_mem_shared_alloc demo_mmap) (\<lambda>s p. kbx_mem_shared_free s (Some p))
      [AAlloc 100, AFree 0, AAlloc 5000] \<lparr>sh_heap = (\<lambda>_. 0), sh_log = []\<rparr> [] = (s, [69632])"
    by (simp add: kbx_mem_shared_alloc_def kbx_mem_shared_free_def Let_def demo_mmap_def
        shared_maps_def)
  from shared_allocator_never_leaks [OF ok s] s show ?thesis by auto
qed

text \<open>
  The usable bytes of a shared allocation lie inside its mapping exactly when the size plus
  the header page does not overflow; otherwise the pointer returned already lies past the end.
\<close>

theorem shared_alloc_in_bounds_iff:
  assumes "kbx_mem_shared_alloc mmap s sz = (Some a, s')"
    and "mmap (sh_log s) (sz + 4096) = Some p"
    and "unat p + 4096 + unat sz < 18446744073709551616 * 2"
    and "unat p + 4096 < 18446744073709551616"
  shows "a = p + 4096 \<and> sh_heap s' p = sz + 4096
    \<and> (unat a + unat sz \<le> unat p + unat (sz + 4096) \<longleftrightarrow> unat sz + 4096 < 18446744073709551616)
    \<and> (18446744073709551616 \<le> unat sz + 4096 \<longrightarrow> unat p + unat (sz + 4096) < unat a)"
proof -
  have a: "a = p + 4096" "sh_heap s' p = sz + 4096"
    using assms(1,2) by (auto simp: kbx_mem_shared_alloc_def Let_def)
  then have ua: "unat a = unat p + 4096" using assms(4) by (simp add: unat_add_u64)
  show ?thesis
  proof (cases "unat sz + 4096 < 18446744073709551616")
    case True
    then have "unat (sz + 4096) = unat sz + 4096" by (simp add: unat_add_u64)
    with True a ua show ?thesis by simp
  next
    case False
    then have "unat (sz + 4096) = unat sz + 4096 - 18446744073709551616"
      using unat_u64_bound [of sz] by (simp add: unat_word_ariths le_mod_geq)
    with False a ua unat_u64_bound [of sz] show ?thesis by auto
  qed
qed

theorem shared_alloc_in_bounds_iff_witness:
  "\<exists>s'. kbx_mem_shared_alloc (\<lambda>log n. Some 65536) \<lparr>sh_heap = (\<lambda>_. 0), sh_log = []\<rparr> 18446744073709551615
      = (Some 69632, s')
    \<and> unat (65536 :: u64) + unat (18446744073709551615 + 4096 :: u64) < unat (69632 :: u64)"
proof -
  obtain s' where s': "kbx_mem_shared_alloc (\<lambda>log n. Some 65536) \<lparr>sh_heap = (\<lambda>_. 0), sh_log = []\<rparr>
      18446744073709551615 = (Some 69632, s')"
    by (simp add: kbx_mem_shared_alloc_def Let_def)
  from shared_alloc_in_bounds_iff [OF s', of 65536] s' show ?thesis by simp
qed

end
