(* ===== verification/V4L2_Model.thy ===== *)
theory V4L2_Model
  imports KBX_Types
begin

text \<open>
  The V4L2 camera of \<open>src/io/v4l2_camera.cc\<close> over the structs of \<open>include/kbx_io_v4l2.h\<close>.

  The kernel and the C library are a parameter, \<open>v4l2_os\<close>: each call is answered by a function
  of the events so far, and every call is recorded as an event, so the state of a run is its
  history and the global \<open>extension\<close>. A computation has type \<open>\<dots> option\<close>: \<open>None\<close> is a run that
  does not return (an endless retry); a returned value is a control outcome: go on (\<open>Next\<close>),
  \<open>return\<close> a status (\<open>Done\<close>), \<open>exit\<close> the process (\<open>Exit\<close>) or undefined behaviour
  (\<open>Undefined\<close>). Diagnostics printed on stdout and stderr are not modelled.
\<close>

unbundle bit_operations_syntax

section \<open>Constants and structs of the V4L2 interface that the code uses\<close>

abbreviation V4L2_CAP_VIDEO_CAPTURE :: u32 where "V4L2_CAP_VIDEO_CAPTURE \<equiv> 0x1"
abbreviation V4L2_CAP_VBI_CAPTURE :: u32 where "V4L2_CAP_VBI_CAPTURE \<equiv> 0x10"
abbreviation V4L2_CAP_TUNER :: u32 where "V4L2_CAP_TUNER \<equiv> 0x10000"
abbreviation V4L2_CAP_STREAMING :: u32 where "V4L2_CAP_STREAMING \<equiv> 0x4000000"
abbreviation V4L2_STD_UNKNOWN :: u64 where "V4L2_STD_UNKNOWN \<equiv> 0"
abbreviation V4L2_STD_ALL :: u64 where "V4L2_STD_ALL \<equiv> 0xFFFFFF"
abbreviation V4L2_BUF_TYPE_VIDEO_CAPTURE :: u32 where "V4L2_BUF_TYPE_VIDEO_CAPTURE \<equiv> 1"
abbreviation V4L2_MEMORY_MMAP :: u32 where "V4L2_MEMORY_MMAP \<equiv> 1"
abbreviation V4L2_FIELD_ANY :: u32 where "V4L2_FIELD_ANY \<equiv> 0"
abbreviation V4L2_PIX_FMT_MJPEG :: u32 where "V4L2_PIX_FMT_MJPEG \<equiv> 0x47504A4D"
abbreviation V4L2_PIX_FMT_UYVY :: u32 where "V4L2_PIX_FMT_UYVY \<equiv> 0x59565955"
abbreviation V4L2_PIX_FMT_YUYV :: u32 where "V4L2_PIX_FMT_YUYV \<equiv> 0x56595559"

datatype errno = EINTR | EAGAIN | EINVAL | EOTHER int

record v4l2_streamparm =
  sp_type :: u32
  sp_numerator :: u32
  sp_denominator :: u32

record v4l2_format =
  vf_type :: u32
  vf_width :: u32
  vf_height :: u32
  vf_pixelformat :: u32
  vf_field :: u32

record v4l2_requestbuffers =
  rb_count :: u32
  rb_type :: u32
  rb_memory :: u32

record v4l2_buffer =
  vb_type :: u32
  vb_memory :: u32
  vb_index :: u32
  vb_length :: u32
  vb_offset :: u32
  vb_bytesused :: u32

record v4l2_exportbuffer =
  eb_type :: u32
  eb_index :: u32
  eb_fd :: int
  eb_flags :: u32

text \<open>The requests with the struct passed in, and what the driver writes back.\<close>

datatype vreq =
    VIDIOC_QUERYCAP
  | VIDIOC_G_STD
  | VIDIOC_S_STD u64
  | VIDIOC_S_PARM v4l2_streamparm
  | VIDIOC_G_PARM v4l2_streamparm
  | VIDIOC_S_FMT v4l2_format
  | VIDIOC_G_FMT v4l2_format
  | VIDIOC_REQBUFS v4l2_requestbuffers
  | VIDIOC_QUERYBUF v4l2_buffer
  | VIDIOC_QBUF v4l2_buffer
  | VIDIOC_DQBUF v4l2_buffer
  | VIDIOC_STREAMON u32
  | VIDIOC_STREAMOFF u32
  | VIDIOC_EXPBUF v4l2_exportbuffer

datatype vres =
    ResNone
  | ResCaps u32
  | ResStd u64
  | ResFmt v4l2_format
  | ResReq v4l2_requestbuffers
  | ResBuf v4l2_buffer
  | ResExp v4l2_exportbuffer

text \<open>The struct after the call: what the driver wrote, or as it was passed.\<close>

fun out_caps :: "u32 \<Rightarrow> vres \<Rightarrow> u32" where
  "out_caps c (ResCaps d) = d" | "out_caps c _ = c"

fun out_std :: "u64 \<Rightarrow> vres \<Rightarrow> u64" where
  "out_std c (ResStd d) = d" | "out_std c _ = c"

fun out_fmt :: "v4l2_format \<Rightarrow> vres \<Rightarrow> v4l2_format" where
  "out_fmt c (ResFmt d) = d" | "out_fmt c _ = c"

fun out_req :: "v4l2_requestbuffers \<Rightarrow> vres \<Rightarrow> v4l2_requestbuffers" where
  "out_req c (ResReq d) = d" | "out_req c _ = c"

fun out_buf :: "v4l2_buffer \<Rightarrow> vres \<Rightarrow> v4l2_buffer" where
  "out_buf c (ResBuf d) = d" | "out_buf c _ = c"

fun out_exp :: "v4l2_exportbuffer \<Rightarrow> vres \<Rightarrow> v4l2_exportbuffer" where
  "out_exp c (ResExp d) = d" | "out_exp c _ = c"

section \<open>Operating system and history\<close>

datatype sys_event =
    EvOpen string int
  | EvIoctl int vreq "errno + vres"
  | EvMmap int u64 u32 "ptr option" \<comment> \<open>fd, length, offset, address\<close>
  | EvMunmap "ptr option" u64
  | EvCalloc u32 "ptr option"
  | EvFree ptr
  | EvClose int
  | EvSelect int "errno + nat"
  | EvCreate string int \<comment> \<open>an output file opened for writing\<close>
  | EvWrite int "ptr option" u64 int \<comment> \<open>fd, bytes of a mapped buffer, how many, result\<close>
  | EvPopen string bool
  | EvPipe "ptr option" u64 u64 \<comment> \<open>bytes, how many, how many were written\<close>
  | EvPclose int
  | EvWriteImage int "u8 list" int \<comment> \<open>fd, bytes offered, result\<close>

record v4l2_os =
  os_open :: "sys_event list \<Rightarrow> string \<Rightarrow> int"
  os_ioctl :: "sys_event list \<Rightarrow> int \<Rightarrow> vreq \<Rightarrow> errno + vres"
  os_mmap :: "sys_event list \<Rightarrow> int \<Rightarrow> u64 \<Rightarrow> u32 \<Rightarrow> ptr option"
  os_calloc :: "sys_event list \<Rightarrow> u32 \<Rightarrow> ptr option"
  os_select :: "sys_event list \<Rightarrow> int \<Rightarrow> errno + nat"
  os_create :: "sys_event list \<Rightarrow> string \<Rightarrow> int"
  os_popen :: "sys_event list \<Rightarrow> string \<Rightarrow> bool"
  os_load :: "sys_event list \<Rightarrow> ptr \<Rightarrow> u8" \<comment> \<open>a byte of mapped memory\<close>
  os_write :: "sys_event list \<Rightarrow> int \<Rightarrow> u8 list \<Rightarrow> int"
  os_save :: "sys_event list \<Rightarrow> int \<Rightarrow> ptr option \<Rightarrow> u64 \<Rightarrow> int" \<comment> \<open>\<open>write\<close> of a frame to a file\<close>
  os_pipe :: "sys_event list \<Rightarrow> ptr option \<Rightarrow> u64 \<Rightarrow> u64" \<comment> \<open>\<open>fwrite\<close> to the encoder\<close>
  os_pclose :: "sys_event list \<Rightarrow> int"

record v4l2_sys =
  vs_hist :: "sys_event list"
  vs_ext :: string \<comment> \<open>the global \<open>extension\<close>\<close>

datatype 'a flow = Next 'a | Done kbx_status_t | Exit int | Undefined

text \<open>The status a function that returns one gives its caller, from its last statement or an early return.\<close>

fun returned :: "kbx_status_t flow \<Rightarrow> kbx_status_t option" where
  "returned (Next st) = Some st"
| "returned (Done st) = Some st"
| "returned _ = None"

definition emit :: "sys_event \<Rightarrow> v4l2_sys \<Rightarrow> v4l2_sys" where
  "emit e s = s\<lparr>vs_hist := vs_hist s @ [e]\<rparr>"

lemma emit_simps [simp]:
  "vs_hist (emit e s) = vs_hist s @ [e]" "vs_ext (emit e s) = vs_ext s"
  by (simp_all add: emit_def)

section \<open>Structs of the program\<close>

record kbx_buffer =
  kb_start :: "ptr option" \<comment> \<open>\<open>None\<close> is \<open>MAP_FAILED\<close>\<close>
  kb_length :: u64
  kb_bytesused :: u64
  kb_type :: u32
  kb_index :: u32
  kb_field :: u32
  kb_sequence :: u32
  kb_timestamp_type :: u32
  kb_timestamp :: u64
  kb_priv :: "ptr option"
  kb_memory :: u32

record kbx_v4l2_device =
  vd_fd :: int
  vd_image :: kbx_image
  vd_buffers :: "kbx_buffer arr"
  vd_n_buffers :: u32

record kbx_v4l2_init_params =
  ip_device_name :: string
  ip_width :: u32
  ip_height :: u32
  ip_format :: u32
  ip_interval :: u32
  ip_io_type :: u32
  ip_frame_count :: u32

text \<open>
  \<open>kbx_camera_device\<close>, the locals \<open>kbx_v4l2_init\<close> works on: of its capability struct the code
  reads the capability bits, of its input the index; \<open>cropcap\<close>, \<open>crop\<close> and \<open>buffer\<close> are never
  touched.
\<close>

record kbx_camera_device =
  cd_fd :: int
  cd_capabilities :: u32
  cd_input_index :: u32
  cd_format :: v4l2_format
  cd_streamparm :: v4l2_streamparm
  cd_requestbuffers :: v4l2_requestbuffers

section \<open>Computations\<close>

type_synonym 'a vm = "v4l2_sys \<Rightarrow> ('a flow \<times> v4l2_sys) option"

definition vret :: "'a \<Rightarrow> 'a vm" where "vret a s = Some (Next a, s)"
definition vdone :: "kbx_status_t \<Rightarrow> 'a vm" where "vdone st s = Some (Done st, s)"
definition vexit :: "int \<Rightarrow> 'a vm" where "vexit c s = Some (Exit c, s)"
definition vundef :: "'a vm" where "vundef s = Some (Undefined, s)"
definition vhist :: "sys_event list vm" where "vhist s = Some (Next (vs_hist s), s)"
definition vemit :: "sys_event \<Rightarrow> unit vm" where "vemit e s = Some (Next (), emit e s)"
definition vset_ext :: "string \<Rightarrow> unit vm" where "vset_ext e s = Some (Next (), s\<lparr>vs_ext := e\<rparr>)"

definition vbind :: "'a vm \<Rightarrow> ('a \<Rightarrow> 'b vm) \<Rightarrow> 'b vm" where
  "vbind m k s = (case m s of
       None \<Rightarrow> None
     | Some (Next a, s1) \<Rightarrow> k a s1
     | Some (Done st, s1) \<Rightarrow> Some (Done st, s1)
     | Some (Exit c, s1) \<Rightarrow> Some (Exit c, s1)
     | Some (Undefined, s1) \<Rightarrow> Some (Undefined, s1))"

lemma vbind_simps [simp]:
  "vbind (vret a) k = k a"
  "vbind (vdone st) k = vdone st"
  "vbind (vexit c) k = vexit c"
  "vbind vundef k = vundef"
  by (auto simp: fun_eq_iff vbind_def vret_def vdone_def vexit_def vundef_def)

lemma vbind_assoc: "vbind (vbind m k) l = vbind m (\<lambda>a. vbind (k a) l)"
  by (auto simp: fun_eq_iff vbind_def split: option.splits flow.splits)

section \<open>ioctl with retry\<close>

partial_function (option) xioctl ::
  "v4l2_os \<Rightarrow> int \<Rightarrow> vreq \<Rightarrow> v4l2_sys \<Rightarrow> ((errno + vres) \<times> v4l2_sys) option" where
  "xioctl os fh request s =
     (let r = os_ioctl os (vs_hist s) fh request;
          s1 = emit (EvIoctl fh request r) s
      in if r = Inl EINTR then xioctl os fh request s1 else Some (r, s1))"

definition vioctl :: "v4l2_os \<Rightarrow> int \<Rightarrow> vreq \<Rightarrow> (errno + vres) vm" where
  "vioctl os fh request s = map_option (\<lambda>(r, s1). (Next r, s1)) (xioctl os fh request s)"

section \<open>Saving frames\<close>

text \<open>Decimal output of \<open>%d\<close>.\<close>

fun dec_digits :: "nat \<Rightarrow> string" where
  "dec_digits n = (if n < 10 then [char_of (48 + n)] else dec_digits (n div 10) @ [char_of (48 + n mod 10)])"

declare dec_digits.simps [simp del]

definition format_d :: "int \<Rightarrow> string" where
  "format_d i = (if i < 0 then ''-'' @ dec_digits (nat (- i)) else dec_digits (nat i))"

text \<open>\<open>snprintf\<close> into a buffer of \<open>n\<close> bytes keeps the first \<open>n - 1\<close> characters.\<close>

definition snprintf :: "nat \<Rightarrow> string \<Rightarrow> string" where
  "snprintf n text = take (n - 1) text"

text \<open>
  The frame size is an \<open>int\<close> that \<open>write\<close> and \<open>fwrite\<close> take as a \<open>size_t\<close>; their results, and that of the
  encoder, are only printed or dropped, but the history has them.
\<close>

definition save_frame :: "v4l2_os \<Rightarrow> string \<Rightarrow> ptr option \<Rightarrow> u32 \<Rightarrow> v4l2_sys \<Rightarrow> v4l2_sys" where
  "save_frame os path p sz s =
     (let fd = os_create os (vs_hist s) path;
          s1 = emit (EvCreate path fd) s
      in if fd < 0 then s1
         else let rz = os_save os (vs_hist s1) fd p (scast sz)
              in emit (EvClose fd) (emit (EvWrite fd p (scast sz) rz) s1))"

definition jpeg_command :: "string \<Rightarrow> u32 \<Rightarrow> u32 \<Rightarrow> u32 \<Rightarrow> string" where
  "jpeg_command path width height fmt =
     (let ff_fmt = (if fmt = V4L2_PIX_FMT_UYVY then ''uyvy422''
                    else if fmt = V4L2_PIX_FMT_YUYV then ''yuyv422'' else ''yuv420p'')
      in ''ffmpeg -y -f rawvideo -pixel_format '' @ ff_fmt @ '' -video_size '' @ format_d (sint width)
         @ ''x'' @ format_d (sint height) @ '' -i - -frames:v 1 '' @ path @ '' > /dev/null 2>&1'')"

definition save_frame_as_jpeg ::
  "v4l2_os \<Rightarrow> string \<Rightarrow> ptr option \<Rightarrow> u32 \<Rightarrow> u32 \<Rightarrow> u32 \<Rightarrow> u32 \<Rightarrow> v4l2_sys \<Rightarrow> v4l2_sys" where
  "save_frame_as_jpeg os path p sz width height fmt s =
     (if fmt = V4L2_PIX_FMT_MJPEG then save_frame os path p sz s
      else
        let cmd = snprintf 512 (jpeg_command path width height fmt);
            ok = os_popen os (vs_hist s) cmd;
            s1 = emit (EvPopen cmd ok) s
        in if ok
           then let s2 = emit (EvPipe p (scast sz) (os_pipe os (vs_hist s1) p (scast sz))) s1
                in emit (EvPclose (os_pclose os (vs_hist s2))) s2
           else save_frame os path p sz s1)"

section \<open>Reasoning about computations\<close>

lemma vbind_Next:
  "vbind m k s = Some (Next b, s2) \<longleftrightarrow> (\<exists>a s1. m s = Some (Next a, s1) \<and> k a s1 = Some (Next b, s2))"
  by (auto simp: vbind_def split: option.splits flow.splits)

lemma vret_Next [simp]: "vret a s = Some (Next b, s2) \<longleftrightarrow> b = a \<and> s2 = s"
  by (auto simp: vret_def)

lemma vdone_Next [simp]: "vdone st s \<noteq> Some (Next b, s2)"
  by (simp add: vdone_def)

lemma vexit_Next [simp]: "vexit c s \<noteq> Some (Next b, s2)"
  by (simp add: vexit_def)

lemma vundef_Next [simp]: "vundef s \<noteq> Some (Next b, s2)"
  by (simp add: vundef_def)

lemma guard_Next [simp]:
  "(if c then vdone st else m) s = Some (Next b, s2) \<longleftrightarrow> \<not> c \<and> m s = Some (Next b, s2)"
  "(if c then vexit e else m) s = Some (Next b, s2) \<longleftrightarrow> \<not> c \<and> m s = Some (Next b, s2)"
  "(if c then vundef else m) s = Some (Next b, s2) \<longleftrightarrow> \<not> c \<and> m s = Some (Next b, s2)"
  by simp_all

lemma case_Next [simp]:
  "(case r of Inl e \<Rightarrow> vdone (st e) | Inr x \<Rightarrow> k x) s = Some (Next b, s2)
   \<longleftrightarrow> (\<exists>x. r = Inr x \<and> k x s = Some (Next b, s2))"
  "(case q of None \<Rightarrow> vdone st1 | Some y \<Rightarrow> l y) s = Some (Next b, s2)
   \<longleftrightarrow> (\<exists>y. q = Some y \<and> l y s = Some (Next b, s2))"
  "(case q of None \<Rightarrow> vundef | Some y \<Rightarrow> l y) s = Some (Next b, s2)
   \<longleftrightarrow> (\<exists>y. q = Some y \<and> l y s = Some (Next b, s2))"
  by (auto split: sum.splits option.splits)

lemma vhist_Next [simp]: "vhist s = Some (Next h, s2) \<longleftrightarrow> h = vs_hist s \<and> s2 = s"
  by (auto simp: vhist_def)

lemma vemit_Next [simp]: "vemit e s = Some (Next u, s2) \<longleftrightarrow> s2 = emit e s"
  by (auto simp: vemit_def)

lemma vset_ext_Next [simp]: "vset_ext e s = Some (Next u, s2) \<longleftrightarrow> s2 = s\<lparr>vs_ext := e\<rparr>"
  by (auto simp: vset_ext_def)

definition ioctl_outcome ::
  "v4l2_os \<Rightarrow> int \<Rightarrow> vreq \<Rightarrow> v4l2_sys \<Rightarrow> (errno + vres) \<times> v4l2_sys \<Rightarrow> bool" where
  "ioctl_outcome os fh req s y \<longleftrightarrow> fst y \<noteq> Inl EINTR \<and> vs_ext (snd y) = vs_ext s \<and>
     (\<exists>n. vs_hist (snd y)
          = vs_hist s @ replicate n (EvIoctl fh req (Inl EINTR)) @ [EvIoctl fh req (fst y)] \<and>
        os_ioctl os (vs_hist s @ replicate n (EvIoctl fh req (Inl EINTR))) fh req = fst y)"

lemma xioctl_outcome:
  assumes "xioctl os fh req s = Some y"
  shows "ioctl_outcome os fh req s y"
proof (rule xioctl.raw_induct [where P = "\<lambda>os fh req s y. ioctl_outcome os fh req s y", OF _ assms])
  fix xi os fh req s y
  assume IH: "\<And>os fh req s y. xi os fh req s = Some y \<Longrightarrow> ioctl_outcome os fh req s y"
    and step: "(let r = os_ioctl os (vs_hist s) fh req; s1 = emit (EvIoctl fh req r) s
        in if r = Inl EINTR then xi os fh req s1 else Some (r, s1)) = Some y"
  show "ioctl_outcome os fh req s y"
  proof (cases "os_ioctl os (vs_hist s) fh req = Inl EINTR")
    case True
    with step have "xi os fh req (emit (EvIoctl fh req (Inl EINTR)) s) = Some y"
      by (simp add: Let_def)
    from IH [OF this] obtain n where
      "fst y \<noteq> Inl EINTR" "vs_ext (snd y) = vs_ext s"
      "vs_hist (snd y)
       = vs_hist s @ replicate (Suc n) (EvIoctl fh req (Inl EINTR)) @ [EvIoctl fh req (fst y)]"
      "os_ioctl os (vs_hist s @ replicate (Suc n) (EvIoctl fh req (Inl EINTR))) fh req = fst y"
      by (auto simp: ioctl_outcome_def)
    then show ?thesis unfolding ioctl_outcome_def by blast
  next
    case False
    with step have "y = (os_ioctl os (vs_hist s) fh req,
        emit (EvIoctl fh req (os_ioctl os (vs_hist s) fh req)) s)"
      by (auto simp: Let_def)
    with False show ?thesis by (auto simp: ioctl_outcome_def intro: exI [of _ 0])
  qed
qed

lemma xioctl_result:
  assumes "xioctl os fh req s = Some (r, s1)"
  shows "r \<noteq> Inl EINTR \<and> vs_ext s1 = vs_ext s \<and>
    (\<exists>n. vs_hist s1 = vs_hist s @ replicate n (EvIoctl fh req (Inl EINTR)) @ [EvIoctl fh req r])"
  using xioctl_outcome [OF assms] by (auto simp: ioctl_outcome_def)

lemma xioctl_answers:
  "os_ioctl os (vs_hist s @ replicate n (EvIoctl fh req (Inl EINTR))) fh req \<noteq> Inl EINTR \<Longrightarrow>
   xioctl os fh req s \<noteq> None"
proof (induction n arbitrary: s)
  case 0
  then show ?case by (subst xioctl.simps) (simp add: Let_def)
next
  case (Suc n)
  show ?case
  proof (cases "os_ioctl os (vs_hist s) fh req = Inl EINTR")
    case True
    from Suc.prems have "xioctl os fh req (emit (EvIoctl fh req (Inl EINTR)) s) \<noteq> None"
      by (intro Suc.IH) simp
    with True show ?thesis by (subst xioctl.simps) (simp add: Let_def)
  next
    case False
    then show ?thesis by (subst xioctl.simps) (simp add: Let_def)
  qed
qed

lemma vioctl_Next:
  assumes "vioctl os fh req s = Some (Next r, s1)"
  obtains n where "r \<noteq> Inl EINTR" "vs_ext s1 = vs_ext s"
    "vs_hist s1 = vs_hist s @ replicate n (EvIoctl fh req (Inl EINTR)) @ [EvIoctl fh req r]"
  using assms xioctl_result [of os fh req s] by (auto simp: vioctl_def)

text \<open>
  \<open>emits P m\<close>: whatever the outcome of \<open>m\<close>, the history is extended, by events satisfying \<open>P\<close>.
\<close>

definition emits :: "(sys_event \<Rightarrow> bool) \<Rightarrow> 'a vm \<Rightarrow> bool" where
  "emits P m \<longleftrightarrow> (\<forall>s r s1. m s = Some (r, s1) \<longrightarrow>
     (\<exists>new. vs_hist s1 = vs_hist s @ new \<and> list_all P new))"

lemma emitsD: "emits P m \<Longrightarrow> m s = Some (r, s1) \<Longrightarrow>
    \<exists>new. vs_hist s1 = vs_hist s @ new \<and> list_all P new"
  by (auto simp: emits_def)

lemma emits_vbind [intro]:
  assumes m: "emits P m" and k: "\<And>a. emits P (k a)"
  shows "emits P (vbind m k)"
  unfolding emits_def
proof (intro allI impI)
  fix s r s2
  assume run: "vbind m k s = Some (r, s2)"
  then obtain r1 s1 where m1: "m s = Some (r1, s1)" by (auto simp: vbind_def split: option.splits)
  with m obtain new where new: "vs_hist s1 = vs_hist s @ new" "list_all P new"
    by (blast dest: emitsD)
  show "\<exists>new. vs_hist s2 = vs_hist s @ new \<and> list_all P new"
  proof (cases r1)
    case (Next a)
    with run m1 have "k a s1 = Some (r, s2)" by (simp add: vbind_def)
    with k obtain new1 where "vs_hist s2 = vs_hist s1 @ new1" "list_all P new1"
      by (blast dest: emitsD)
    with new show ?thesis by (intro exI [of _ "new @ new1"]) simp
  qed (use run m1 new in \<open>auto simp: vbind_def\<close>)
qed

lemma emits_simple [simp, intro]:
  "emits P (vret a)" "emits P (vdone st)" "emits P (vexit c)" "emits P vundef" "emits P vhist"
  "emits P (vset_ext e)"
  by (auto simp: emits_def vret_def vdone_def vexit_def vundef_def vhist_def vset_ext_def)

lemma emits_vemit [simp]: "P e \<Longrightarrow> emits P (vemit e)"
  by (auto simp: emits_def vemit_def)

lemma emits_vioctl [simp]:
  assumes "\<And>r. P (EvIoctl fh req r)"
  shows "emits P (vioctl os fh req)"
  unfolding emits_def
proof (intro allI impI)
  fix s r s1
  assume "vioctl os fh req s = Some (r, s1)"
  then obtain r1 where "xioctl os fh req s = Some (r1, s1)" by (auto simp: vioctl_def)
  from xioctl_result [OF this] obtain n where
    "vs_hist s1 = vs_hist s @ replicate n (EvIoctl fh req (Inl EINTR)) @ [EvIoctl fh req r1]"
    by blast
  with assms show "\<exists>new. vs_hist s1 = vs_hist s @ new \<and> list_all P new"
    by (intro exI [of _ "replicate n (EvIoctl fh req (Inl EINTR)) @ [EvIoctl fh req r1]"])
      (simp add: list_all_iff)
qed

text \<open>Projections of a history: what was acquired, released, queued and dequeued.\<close>

fun ev_map :: "sys_event \<Rightarrow> (ptr \<times> u64) list" where
  "ev_map (EvMmap fd n off (Some p)) = [(p, n)]" | "ev_map _ = []"

fun ev_unmap :: "sys_event \<Rightarrow> (ptr \<times> u64) list" where
  "ev_unmap (EvMunmap (Some p) n) = [(p, n)]" | "ev_unmap _ = []"

fun ev_open :: "sys_event \<Rightarrow> int list" where
  "ev_open (EvOpen path fd) = (if fd = -1 then [] else [fd])" | "ev_open _ = []"

fun ev_close :: "sys_event \<Rightarrow> int list" where
  "ev_close (EvClose fd) = [fd]" | "ev_close _ = []"

fun ev_calloc :: "sys_event \<Rightarrow> ptr list" where
  "ev_calloc (EvCalloc n (Some p)) = [p]" | "ev_calloc _ = []"

fun ev_free :: "sys_event \<Rightarrow> ptr list" where
  "ev_free (EvFree p) = [p]" | "ev_free _ = []"

fun ev_queue :: "sys_event \<Rightarrow> (int \<times> u32) list" where
  "ev_queue (EvIoctl fd (VIDIOC_QBUF b) (Inr _)) = [(fd, vb_index b)]" | "ev_queue _ = []"

definition proj :: "(sys_event \<Rightarrow> 'b list) \<Rightarrow> sys_event list \<Rightarrow> 'b list" where
  "proj f h = concat (map f h)"

lemma proj_simps [simp]:
  "proj f [] = []" "proj f (e # h) = f e @ proj f h" "proj f (h @ h1) = proj f h @ proj f h1"
  by (simp_all add: proj_def)

lemma proj_replicate [simp]: "f e = [] \<Longrightarrow> proj f (replicate n e) = []"
  by (induction n) simp_all

lemma proj_none: "list_all (\<lambda>e. f e = []) h \<Longrightarrow> proj f h = []"
  by (induction h) simp_all

section \<open>Termination of the retry\<close>

text \<open>
  \<open>xioctl\<close> returns exactly when the driver stops answering EINTR: for some number of
  interrupted attempts, the next answer is another one. (An endlessly interrupted call never
  returns: the loop has no bound.) What it returns is never EINTR.
\<close>

theorem xioctl_returns_iff:
  "(xioctl os fh request s = None \<longleftrightarrow>
     \<not> (\<exists>n. os_ioctl os (vs_hist s @ replicate n (EvIoctl fh request (Inl EINTR))) fh request \<noteq> Inl EINTR))
   \<and> map_option fst (xioctl os fh request s) \<noteq> Some (Inl EINTR)"
proof (cases "xioctl os fh request s")
  case None
  with xioctl_answers [of os s _ fh request] show ?thesis by auto
next
  case (Some y)
  from xioctl_outcome [OF Some] obtain n where "fst y \<noteq> Inl EINTR"
    "os_ioctl os (vs_hist s @ replicate n (EvIoctl fh request (Inl EINTR))) fh request = fst y"
    by (auto simp: ioctl_outcome_def)
  with Some show ?thesis by (auto intro!: exI [of _ n])
qed

end
