(* ===== verification/V4L2_Init.thy ===== *)
theory V4L2_Init
  imports V4L2_Model
begin

text \<open>
  Opening a camera: \<open>kbx_v4l2_init\<close> of \<open>src/io/v4l2_camera.cc\<close> in the blocks the code has
  (probe, standard, frame rate and format, buffer request, mapping, queueing), each one a
  computation over the history of system calls.
\<close>

section \<open>The blocks of the function\<close>

definition cleared_parm :: v4l2_streamparm where
  "cleared_parm = \<lparr>sp_type = V4L2_BUF_TYPE_VIDEO_CAPTURE, sp_numerator = 0, sp_denominator = 0\<rparr>"

definition cleared_format :: v4l2_format where
  "cleared_format = \<lparr>vf_type = V4L2_BUF_TYPE_VIDEO_CAPTURE, vf_width = 0, vf_height = 0,
     vf_pixelformat = 0, vf_field = 0\<rparr>"

definition cleared_buffer :: "u32 \<Rightarrow> v4l2_buffer" where
  "cleared_buffer i = \<lparr>vb_type = V4L2_BUF_TYPE_VIDEO_CAPTURE, vb_memory = V4L2_MEMORY_MMAP,
     vb_index = i, vb_length = 0, vb_offset = 0, vb_bytesused = 0\<rparr>"

definition zero_buffer :: kbx_buffer where
  "zero_buffer = \<lparr>kb_start = Some 0, kb_length = 0, kb_bytesused = 0, kb_type = 0, kb_index = 0,
     kb_field = 0, kb_sequence = 0, kb_timestamp_type = 0, kb_timestamp = 0, kb_priv = None,
     kb_memory = 0\<rparr>"

text \<open>
  \<open>open_camera\<close> is the open and the capability checks. The local struct is not initialised by
  the code; a driver that answers \<open>VIDIOC_QUERYCAP\<close> fills it, and its bits before that are the
  parameter \<open>garbage\<close>.
\<close>

definition open_camera :: "v4l2_os \<Rightarrow> u32 \<Rightarrow> string \<Rightarrow> (int \<times> u32) vm" where
  "open_camera os garbage device_name =
     vbind vhist (\<lambda>h.
     let fd = os_open os h device_name in
     vbind (vemit (EvOpen device_name fd)) (\<lambda>_.
     if fd = -1 then vdone KBX_STATUS_ERR_IO
     else vbind (vioctl os fd VIDIOC_QUERYCAP) (\<lambda>r.
       case r of
         Inl _ \<Rightarrow> vdone KBX_STATUS_ERR_IO
       | Inr res \<Rightarrow>
           let capabilities = out_caps garbage res in
           if capabilities AND V4L2_CAP_VIDEO_CAPTURE = 0 then vdone KBX_STATUS_ERR_IO
           else if capabilities AND V4L2_CAP_STREAMING = 0 then vdone KBX_STATUS_ERR_IO
           else vret (fd, capabilities))))"

text \<open>
  The polling loop runs while the driver reports "all standards", at most \<open>10 - i\<close> times; the
  detected standard, if any, is set and its result ignored.
\<close>

function poll_standard :: "v4l2_os \<Rightarrow> int \<Rightarrow> nat \<Rightarrow> u64 \<Rightarrow> u64 vm" where
  "poll_standard os fd i std_id =
     (if std_id = V4L2_STD_ALL \<and> i < 10
      then vbind (vioctl os fd VIDIOC_G_STD) (\<lambda>r.
             poll_standard os fd (i + 1) (case r of Inl _ \<Rightarrow> std_id | Inr res \<Rightarrow> out_std std_id res))
      else vret std_id)"
  by auto
termination by (relation "measure (\<lambda>(os, fd, i, std_id). 10 - i)") auto

declare poll_standard.simps [simp del]

definition detect_standard :: "v4l2_os \<Rightarrow> int \<Rightarrow> u32 \<Rightarrow> unit vm" where
  "detect_standard os fd capabilities =
     (if capabilities AND (V4L2_CAP_TUNER OR V4L2_CAP_VBI_CAPTURE) \<noteq> 0 then
        vbind (vioctl os fd VIDIOC_G_STD) (\<lambda>r.
        vbind (poll_standard os fd 0
                 (case r of Inl _ \<Rightarrow> V4L2_STD_UNKNOWN | Inr res \<Rightarrow> out_std V4L2_STD_UNKNOWN res)) (\<lambda>std_id.
        if std_id \<noteq> V4L2_STD_UNKNOWN
        then vbind (vioctl os fd (VIDIOC_S_STD std_id)) (\<lambda>_. vret ())
        else vret ()))
      else vret ())"

definition negotiate_format :: "v4l2_os \<Rightarrow> int \<Rightarrow> kbx_v4l2_init_params \<Rightarrow> v4l2_format vm" where
  "negotiate_format os fd params =
     vbind (vioctl os fd (VIDIOC_S_PARM cleared_parm)) (\<lambda>_.
     vbind (vioctl os fd (VIDIOC_G_PARM cleared_parm)) (\<lambda>_.
     vbind (vioctl os fd (VIDIOC_S_FMT (cleared_format\<lparr>
              vf_width := ip_width params, vf_height := ip_height params,
              vf_pixelformat := ip_format params, vf_field := V4L2_FIELD_ANY\<rparr>))) (\<lambda>r.
     case r of
       Inl _ \<Rightarrow> vdone KBX_STATUS_ERR_IO
     | Inr _ \<Rightarrow>
         vbind (vioctl os fd (VIDIOC_G_FMT cleared_format)) (\<lambda>r.
         case r of
           Inl _ \<Rightarrow> vdone KBX_STATUS_ERR_IO
         | Inr res \<Rightarrow>
             let format = out_fmt cleared_format res in
             vbind (vset_ext (if vf_pixelformat format = V4L2_PIX_FMT_MJPEG
                                 \<or> ip_format params = V4L2_PIX_FMT_MJPEG
                              then ''jpg'' else ''raw'')) (\<lambda>_.
             vret format)))))"

text \<open>\<open>request_buffers\<close> gives the driver's buffer count and the zeroed array.\<close>

definition request_buffers :: "v4l2_os \<Rightarrow> int \<Rightarrow> (u32 \<times> ptr) vm" where
  "request_buffers os fd =
     (let request = \<lparr>rb_count = 4, rb_type = V4L2_BUF_TYPE_VIDEO_CAPTURE, rb_memory = V4L2_MEMORY_MMAP\<rparr> in
      vbind (vioctl os fd (VIDIOC_REQBUFS request)) (\<lambda>r.
      case r of
        Inl _ \<Rightarrow> vdone KBX_STATUS_ERR_IO
      | Inr res \<Rightarrow>
          let count = rb_count (out_req request res) in
          if count < 2 then vexit 1
          else vbind vhist (\<lambda>h.
            let buffers = os_calloc os h count in
            vbind (vemit (EvCalloc count buffers)) (\<lambda>_.
            case buffers of
              None \<Rightarrow> vdone KBX_STATUS_ERR_NOMEM
            | Some p \<Rightarrow> vret (count, p)))))"

text \<open>
  The mapping loop, with the buffers already mapped: \<open>k\<close> is the number of iterations left,
  \<open>n\<close> the loop's \<open>n_buffers\<close>.
\<close>

fun map_buffers :: "v4l2_os \<Rightarrow> int \<Rightarrow> nat \<Rightarrow> u32 \<Rightarrow> kbx_buffer list \<Rightarrow> (u32 \<times> kbx_buffer list) vm" where
  "map_buffers os fd 0 n buffers = vret (n, buffers)"
| "map_buffers os fd (Suc k) n buffers =
     vbind (vioctl os fd (VIDIOC_QUERYBUF (cleared_buffer n))) (\<lambda>r.
     let buffer_info = (case r of Inl _ \<Rightarrow> cleared_buffer n | Inr res \<Rightarrow> out_buf (cleared_buffer n) res) in
     vbind vhist (\<lambda>h.
     let start = os_mmap os h fd (ucast (vb_length buffer_info)) (vb_offset buffer_info) in
     vbind (vemit (EvMmap fd (ucast (vb_length buffer_info)) (vb_offset buffer_info) start)) (\<lambda>_.
     case start of
       None \<Rightarrow> vdone KBX_STATUS_ERR_IO
     | Some _ \<Rightarrow> map_buffers os fd k (n + 1)
                  (buffers[unat n := (buffers ! unat n)\<lparr>kb_start := start,
                                        kb_length := ucast (vb_length buffer_info)\<rparr>]))))"

fun queue_buffers :: "v4l2_os \<Rightarrow> int \<Rightarrow> nat \<Rightarrow> u32 \<Rightarrow> unit vm" where
  "queue_buffers os fd 0 i = vret ()"
| "queue_buffers os fd (Suc k) i =
     vbind (vioctl os fd (VIDIOC_QBUF (cleared_buffer i))) (\<lambda>r.
     case r of
       Inl _ \<Rightarrow> vdone KBX_STATUS_ERR_IO
     | Inr _ \<Rightarrow> queue_buffers os fd k (i + 1))"

definition kbx_v4l2_init ::
  "v4l2_os \<Rightarrow> u32 \<Rightarrow> kbx_v4l2_device \<Rightarrow> kbx_v4l2_init_params \<Rightarrow> kbx_v4l2_device vm" where
  "kbx_v4l2_init os garbage device params =
     vbind (open_camera os garbage (ip_device_name params)) (\<lambda>(fd, capabilities).
     vbind (detect_standard os fd capabilities) (\<lambda>_.
     vbind (negotiate_format os fd params) (\<lambda>_.
     vbind (request_buffers os fd) (\<lambda>(count, p).
     vbind (map_buffers os fd (unat count) 0 (replicate (unat count) zero_buffer)) (\<lambda>(n_buffers, buffers).
     vbind (queue_buffers os fd (unat n_buffers) 0) (\<lambda>_.
     vret (device\<lparr>vd_fd := fd, vd_buffers := Some (p, buffers), vd_n_buffers := n_buffers\<rparr>)))))))"

section \<open>What each block does\<close>

lemma ioctl_quiet:
  assumes "vioctl os fh req s = Some (Next r, s1)" "\<And>r. f (EvIoctl fh req r) = []"
  shows "\<exists>new. vs_hist s1 = vs_hist s @ new \<and> proj f new = []"
  using vioctl_Next [OF assms(1)] assms(2)
  by (metis append.right_neutral proj_replicate proj_simps)

lemma emits_quiet:
  assumes "emits (\<lambda>e. f e = []) m" "m s = Some (r, s1)"
  shows "\<exists>new. vs_hist s1 = vs_hist s @ new \<and> proj f new = []"
  using emitsD [OF assms] by (auto dest: proj_none)

lemma emits_poll_standard:
  assumes "\<And>r. P (EvIoctl fd VIDIOC_G_STD r)"
  shows "emits P (poll_standard os fd i std_id)"
  using assms
proof (induction os fd i std_id rule: poll_standard.induct)
  case (1 os fd i std_id)
  show ?case
  proof (cases "std_id = V4L2_STD_ALL \<and> i < 10")
    case True
    show ?thesis
      by (subst poll_standard.simps) (use True 1 in \<open>auto intro!: emits_vbind emits_vioctl\<close>)
  next
    case False
    show ?thesis by (subst poll_standard.simps, subst if_not_P [OF False]) simp
  qed
qed

lemma emits_detect_standard:
  assumes "\<And>req r. P (EvIoctl fd req r)"
  shows "emits P (detect_standard os fd capabilities)"
  unfolding detect_standard_def
  by (auto intro!: emits_vbind emits_vioctl emits_poll_standard assms)

lemma emits_negotiate_format:
  assumes "\<And>req r. P (EvIoctl fd req r)"
  shows "emits P (negotiate_format os fd params)"
  unfolding negotiate_format_def
  by (auto intro!: emits_vbind emits_vioctl assms split: sum.splits simp: Let_def)

lemma emits_open_camera:
  assumes "\<And>fd req r. P (EvIoctl fd req r)" "\<And>path fd. P (EvOpen path fd)"
  shows "emits P (open_camera os garbage device_name)"
  unfolding open_camera_def
  by (auto intro!: emits_vbind emits_vioctl emits_vemit assms split: sum.splits simp: Let_def)

lemma emits_request_buffers:
  assumes "\<And>req r. P (EvIoctl fd req r)" "\<And>n p. P (EvCalloc n p)"
  shows "emits P (request_buffers os fd)"
  unfolding request_buffers_def
  by (auto intro!: emits_vbind emits_vioctl emits_vemit assms
      split: sum.splits option.splits simp: Let_def)

lemma emits_map_buffers:
  assumes "\<And>req r. P (EvIoctl fd req r)" "\<And>n off p. P (EvMmap fd n off p)"
  shows "emits P (map_buffers os fd k n buffers)"
  by (induction k arbitrary: n buffers)
    (auto intro!: emits_vbind emits_vioctl emits_vemit assms split: option.splits simp: Let_def)

lemma emits_queue_buffers:
  assumes "\<And>req r. P (EvIoctl fd req r)"
  shows "emits P (queue_buffers os fd k i)"
  by (induction k arbitrary: i)
    (auto intro!: emits_vbind emits_vioctl assms split: sum.splits)

lemma emits_init:
  assumes "\<And>fd req r. P (EvIoctl fd req r)" "\<And>path fd. P (EvOpen path fd)"
    "\<And>n p. P (EvCalloc n p)" "\<And>fd n off p. P (EvMmap fd n off p)"
  shows "emits P (kbx_v4l2_init os garbage device params)"
  unfolding kbx_v4l2_init_def
  by (auto intro!: emits_vbind emits_open_camera emits_detect_standard emits_negotiate_format
      emits_request_buffers emits_map_buffers emits_queue_buffers assms)

definition mapped_entry :: "kbx_buffer \<Rightarrow> ptr \<times> u64" where
  "mapped_entry b = (the (kb_start b), kb_length b)"

lemma map_buffers_Next:
  assumes "map_buffers os fd k n buffers s = Some (Next (n1, buffers1), s1)"
    and "unat n + k \<le> length buffers" "length buffers < 4294967296"
  shows "unat n1 = unat n + k \<and> length buffers1 = length buffers
    \<and> take (unat n) buffers1 = take (unat n) buffers
    \<and> (\<forall>b \<in> set (take k (drop (unat n) buffers1)). kb_start b \<noteq> None)
    \<and> vs_ext s1 = vs_ext s
    \<and> (\<exists>new. vs_hist s1 = vs_hist s @ new
         \<and> proj ev_map new = map mapped_entry (take k (drop (unat n) buffers1))
         \<and> proj ev_queue new = [])"
  using assms
proof (induction k arbitrary: n buffers s)
  case 0
  then show ?case by auto
next
  case (Suc k)
  from Suc.prems(1) obtain r s2 where q: "vioctl os fd (VIDIOC_QUERYBUF (cleared_buffer n)) s = Some (Next r, s2)"
    and rest: "(let info = (case r of Inl _ \<Rightarrow> cleared_buffer n | Inr res \<Rightarrow> out_buf (cleared_buffer n) res);
        start = os_mmap os (vs_hist s2) fd (ucast (vb_length info)) (vb_offset info)
      in case start of None \<Rightarrow> vdone KBX_STATUS_ERR_IO
         | Some _ \<Rightarrow> map_buffers os fd k (n + 1)
             (buffers[unat n := (buffers ! unat n)\<lparr>kb_start := start, kb_length := ucast (vb_length info)\<rparr>]))
        (emit (EvMmap fd (ucast (vb_length (case r of Inl _ \<Rightarrow> cleared_buffer n
                 | Inr res \<Rightarrow> out_buf (cleared_buffer n) res)))
               (vb_offset (case r of Inl _ \<Rightarrow> cleared_buffer n | Inr res \<Rightarrow> out_buf (cleared_buffer n) res))
               (os_mmap os (vs_hist s2) fd (ucast (vb_length (case r of Inl _ \<Rightarrow> cleared_buffer n
                 | Inr res \<Rightarrow> out_buf (cleared_buffer n) res)))
               (vb_offset (case r of Inl _ \<Rightarrow> cleared_buffer n | Inr res \<Rightarrow> out_buf (cleared_buffer n) res)))) s2)
      = Some (Next (n1, buffers1), s1)"
    by (auto simp: vbind_Next Let_def)
  define info where "info = (case r of Inl _ \<Rightarrow> cleared_buffer n | Inr res \<Rightarrow> out_buf (cleared_buffer n) res)"
  from rest obtain p where p: "os_mmap os (vs_hist s2) fd (ucast (vb_length info)) (vb_offset info) = Some p"
    by (auto simp: Let_def info_def split: option.splits)
  define b where "b = (buffers ! unat n)\<lparr>kb_start := Some p, kb_length := ucast (vb_length info)\<rparr>"
  from rest p have step: "map_buffers os fd k (n + 1) (buffers[unat n := b])
      (emit (EvMmap fd (ucast (vb_length info)) (vb_offset info) (Some p)) s2) = Some (Next (n1, buffers1), s1)"
    by (simp add: Let_def info_def [symmetric] b_def)
  have n: "unat (n + 1) = unat n + 1" using Suc.prems by (intro unat_Suc_u32) simp
  from Suc.IH [OF step] Suc.prems n have IH: "unat n1 = unat n + Suc k" "length buffers1 = length buffers"
    "take (Suc (unat n)) buffers1 = take (Suc (unat n)) (buffers[unat n := b])"
    "\<forall>b \<in> set (take k (drop (Suc (unat n)) buffers1)). kb_start b \<noteq> None"
    "vs_ext s1 = vs_ext s2" and
    "\<exists>new. vs_hist s1 = vs_hist s2 @ EvMmap fd (ucast (vb_length info)) (vb_offset info) (Some p) # new
       \<and> proj ev_map new = map mapped_entry (take k (drop (Suc (unat n)) buffers1)) \<and> proj ev_queue new = []"
    by auto
  then obtain new where new:
    "vs_hist s1 = vs_hist s2 @ EvMmap fd (ucast (vb_length info)) (vb_offset info) (Some p) # new"
    "proj ev_map new = map mapped_entry (take k (drop (Suc (unat n)) buffers1))" "proj ev_queue new = []"
    by blast
  have lt: "unat n < length buffers" using Suc.prems by simp
  from IH(3) have nth: "buffers1 ! unat n = b" and tk: "take (unat n) buffers1 = take (unat n) buffers"
    using lt by (metis lessI nth_list_update_eq nth_take, metis less_or_eq_imp_le lessI take_update_cancel take_take min.absorb1 Suc_leD order_refl)
  have split: "take (Suc k) (drop (unat n) buffers1) = b # take k (drop (Suc (unat n)) buffers1)"
    using lt IH(2) nth by (simp add: Cons_nth_drop_Suc [symmetric])
  from vioctl_Next [OF q] obtain m where m: "vs_ext s2 = vs_ext s"
    "vs_hist s2 = vs_hist s @ replicate m (EvIoctl fd (VIDIOC_QUERYBUF (cleared_buffer n)) (Inl EINTR))
       @ [EvIoctl fd (VIDIOC_QUERYBUF (cleared_buffer n)) r]" by metis
  define all where "all = replicate m (EvIoctl fd (VIDIOC_QUERYBUF (cleared_buffer n)) (Inl EINTR))
       @ [EvIoctl fd (VIDIOC_QUERYBUF (cleared_buffer n)) r]
       @ EvMmap fd (ucast (vb_length info)) (vb_offset info) (Some p) # new"
  have "vs_hist s1 = vs_hist s @ all" using m(2) new(1) by (simp add: all_def)
  moreover have "proj ev_map all = map mapped_entry (take (Suc k) (drop (unat n) buffers1))"
    using new(2) by (simp add: all_def split) (simp add: mapped_entry_def b_def)
  moreover have "proj ev_queue all = []" using new(3) by (simp add: all_def)
  moreover have "\<forall>b \<in> set (take (Suc k) (drop (unat n) buffers1)). kb_start b \<noteq> None"
    using IH(4) by (simp add: split b_def)
  ultimately show ?case using IH(1,2,5) m(1) tk by auto
qed

lemma queue_buffers_Next:
  assumes "queue_buffers os fd k i s = Some (Next u, s1)"
  shows "vs_ext s1 = vs_ext s \<and> (\<exists>new. vs_hist s1 = vs_hist s @ new \<and> proj ev_map new = []
    \<and> proj ev_queue new = map (\<lambda>j. (fd, i + of_nat j)) [0..<k])"
  using assms
proof (induction k arbitrary: i s)
  case 0
  then show ?case by simp
next
  case (Suc k)
  let ?req = "VIDIOC_QBUF (cleared_buffer i)"
  from Suc.prems obtain r s2 res where q: "vioctl os fd ?req s = Some (Next r, s2)" and r: "r = Inr res"
    and rest: "queue_buffers os fd k (i + 1) s2 = Some (Next u, s1)"
    by (auto simp: vbind_Next)
  from vioctl_Next [OF q] r obtain m where m: "vs_ext s2 = vs_ext s"
    "vs_hist s2 = vs_hist s @ replicate m (EvIoctl fd ?req (Inl EINTR)) @ [EvIoctl fd ?req (Inr res)]"
    by metis
  from Suc.IH [OF rest] obtain new where new: "vs_ext s1 = vs_ext s2" "vs_hist s1 = vs_hist s2 @ new"
    "proj ev_map new = []" "proj ev_queue new = map (\<lambda>j. (fd, (i + 1) + of_nat j)) [0..<k]" by blast
  have "proj ev_queue (replicate m (EvIoctl fd ?req (Inl EINTR)) @ [EvIoctl fd ?req (Inr res)] @ new)
      = map (\<lambda>j. (fd, i + of_nat j)) [0..<Suc k]"
    using new(4) by (simp add: cleared_buffer_def upt_conv_Cons map_Suc_upt [symmetric] ac_simps del: upt_Suc)
  with m new show ?case by (intro conjI exI [of _
      "replicate m (EvIoctl fd ?req (Inl EINTR)) @ [EvIoctl fd ?req (Inr res)] @ new"]) simp_all
qed

lemma negotiate_format_Next:
  assumes "negotiate_format os fd params s = Some (Next format, s1)"
  shows "vs_ext s1 = (if vf_pixelformat format = V4L2_PIX_FMT_MJPEG \<or> ip_format params = V4L2_PIX_FMT_MJPEG
     then ''jpg'' else ''raw'')"
  using assms
  by (auto simp: negotiate_format_def vbind_Next Let_def)

text \<open>
  \<open>live_camera s0 s device\<close>: between the states \<open>s0\<close> and \<open>s\<close> the device's descriptor was opened,
  its buffers are exactly the mappings made, and every buffer was queued once, in index order.
\<close>

definition live_camera :: "v4l2_sys \<Rightarrow> v4l2_sys \<Rightarrow> kbx_v4l2_device \<Rightarrow> bool" where
  "live_camera s0 s device \<longleftrightarrow> (\<exists>new p buffers.
     vs_hist s = vs_hist s0 @ new
     \<and> vd_buffers device = Some (p, buffers) \<and> unat (vd_n_buffers device) = length buffers
     \<and> 2 \<le> length buffers \<and> (\<forall>b \<in> set buffers. kb_start b \<noteq> None)
     \<and> proj ev_map new = map mapped_entry buffers
     \<and> proj ev_open new = [vd_fd device] \<and> vd_fd device \<noteq> -1
     \<and> proj ev_calloc new = [p]
     \<and> proj ev_queue new = map (\<lambda>j. (vd_fd device, of_nat j)) [0..<length buffers]
     \<and> proj ev_close new = [] \<and> proj ev_unmap new = [] \<and> proj ev_free new = [])"

definition init_ev :: "sys_event \<Rightarrow> bool" where
  "init_ev e \<longleftrightarrow> ev_close e = [] \<and> ev_unmap e = [] \<and> ev_free e = []"

lemma init_ev_simps [simp]:
  "init_ev (EvIoctl fd req r)" "init_ev (EvOpen path fd)" "init_ev (EvCalloc c p)"
  "init_ev (EvMmap fd n off p)"
  by (simp_all add: init_ev_def)

lemma init_ev_proj:
  "list_all init_ev new \<Longrightarrow> proj ev_close new = [] \<and> proj ev_unmap new = [] \<and> proj ev_free new = []"
  by (induction new) (auto simp: init_ev_def)

definition quiet_ev :: "sys_event \<Rightarrow> bool" where
  "quiet_ev e \<longleftrightarrow> ev_map e = [] \<and> ev_open e = [] \<and> ev_calloc e = [] \<and> ev_queue e = [] \<and> init_ev e"

lemma quiet_ev_proj:
  "list_all quiet_ev new \<Longrightarrow>
     proj ev_map new = [] \<and> proj ev_open new = [] \<and> proj ev_calloc new = [] \<and> proj ev_queue new = []"
  by (induction new) (auto simp: quiet_ev_def)

fun is_qbuf :: "vreq \<Rightarrow> bool" where
  "is_qbuf (VIDIOC_QBUF b) = True" | "is_qbuf _ = False"

lemma quiet_ev_ioctl: "\<not> is_qbuf req \<Longrightarrow> quiet_ev (EvIoctl fd req r)"
  by (cases req) (auto simp: quiet_ev_def)

lemma emits_weaken: "emits P m \<Longrightarrow> (\<And>e. P e \<Longrightarrow> Q e) \<Longrightarrow> emits Q m"
  unfolding emits_def by (meson list.pred_mono_strong)

lemma quiet_detect_standard: "emits quiet_ev (detect_standard os fd capabilities)"
  unfolding detect_standard_def
  by (auto intro!: emits_vbind emits_vioctl emits_poll_standard quiet_ev_ioctl)

lemma quiet_negotiate_format: "emits quiet_ev (negotiate_format os fd params)"
  unfolding negotiate_format_def
  by (auto intro!: emits_vbind emits_vioctl quiet_ev_ioctl split: sum.splits simp: Let_def)

lemma vioctl_quiet:
  assumes "vioctl os fd req s = Some (Next r, s1)" "\<And>r. quiet_ev (EvIoctl fd req r)"
  shows "vs_ext s1 = vs_ext s \<and> (\<exists>new. vs_hist s1 = vs_hist s @ new \<and> list_all quiet_ev new)"
  using vioctl_Next [OF assms(1)] emitsD [OF emits_vioctl [of quiet_ev fd req] assms(1)] assms(2)
  by blast

lemma open_camera_Next:
  assumes "open_camera os garbage name s = Some (Next (fd, capabilities), s1)"
  shows "fd \<noteq> -1 \<and> capabilities AND V4L2_CAP_VIDEO_CAPTURE \<noteq> 0 \<and> capabilities AND V4L2_CAP_STREAMING \<noteq> 0
    \<and> fd = os_open os (vs_hist s) name \<and> vs_ext s1 = vs_ext s
    \<and> (\<exists>new. vs_hist s1 = vs_hist s @ EvOpen name fd # new \<and> list_all quiet_ev new)"
proof -
  from assms obtain r s2 where q: "vioctl os fd VIDIOC_QUERYCAP (emit (EvOpen name fd) s) = Some (Next r, s2)"
    and c: "fd \<noteq> -1" "capabilities AND V4L2_CAP_VIDEO_CAPTURE \<noteq> 0" "capabilities AND V4L2_CAP_STREAMING \<noteq> 0"
      "s1 = s2" "fd = os_open os (vs_hist s) name"
    by (auto simp: open_camera_def vbind_Next Let_def)
  from vioctl_quiet [OF q quiet_ev_ioctl] c show ?thesis by auto
qed

lemma request_buffers_Next:
  assumes "request_buffers os fd s = Some (Next (count, p), s1)"
  shows "2 \<le> count \<and> vs_ext s1 = vs_ext s
    \<and> (\<exists>new. vs_hist s1 = vs_hist s @ new @ [EvCalloc count (Some p)] \<and> list_all quiet_ev new)"
proof -
  let ?req = "VIDIOC_REQBUFS \<lparr>rb_count = 4, rb_type = V4L2_BUF_TYPE_VIDEO_CAPTURE, rb_memory = V4L2_MEMORY_MMAP\<rparr>"
  from assms obtain r s2 where q: "vioctl os fd ?req s = Some (Next r, s2)"
    and c: "\<not> count < 2" "s1 = emit (EvCalloc count (Some p)) s2"
    by (auto simp: request_buffers_def vbind_Next Let_def)
  with vioctl_quiet [OF q quiet_ev_ioctl] show ?thesis by (auto simp: not_less)
qed

lemma emits_Next:
  assumes "emits P m" "m s = Some (r, s1)" "vs_hist s1 = vs_hist s @ new"
  shows "list_all P new"
  using emitsD [OF assms(1,2)] assms(3) by auto

definition map_ev :: "sys_event \<Rightarrow> bool" where
  "map_ev e \<longleftrightarrow> ev_open e = [] \<and> ev_calloc e = [] \<and> init_ev e"

lemma map_ev_proj: "list_all map_ev new \<Longrightarrow> proj ev_open new = [] \<and> proj ev_calloc new = []"
  by (induction new) (auto simp: map_ev_def)

lemma map_ev_simps [simp]: "map_ev (EvIoctl fd req r)" "map_ev (EvMmap fd n off p)"
  by (simp_all add: map_ev_def)

lemma init_live:
  assumes "kbx_v4l2_init os garbage device params s = Some (Next device1, s1)"
  shows "live_camera s s1 device1"
proof -
  from assms obtain fd caps sa sb sc count p sd n bufs se where
    o: "open_camera os garbage (ip_device_name params) s = Some (Next (fd, caps), sa)" and
    d: "detect_standard os fd caps sa = Some (Next (), sb)" and
    g: "\<exists>fmt. negotiate_format os fd params sb = Some (Next fmt, sc)" and
    r: "request_buffers os fd sc = Some (Next (count, p), sd)" and
    m: "map_buffers os fd (unat count) 0 (replicate (unat count) zero_buffer) sd = Some (Next (n, bufs), se)" and
    q: "queue_buffers os fd (unat n) 0 se = Some (Next (), s1)" and
    dev: "device1 = device\<lparr>vd_fd := fd, vd_buffers := Some (p, bufs), vd_n_buffers := n\<rparr>"
    by (auto simp: kbx_v4l2_init_def vbind_Next)
  from open_camera_Next [OF o] obtain na where na: "fd \<noteq> -1"
    "vs_hist sa = vs_hist s @ EvOpen (ip_device_name params) fd # na" "list_all quiet_ev na" by blast
  from emitsD [OF quiet_detect_standard d] obtain nb where nb:
    "vs_hist sb = vs_hist sa @ nb" "list_all quiet_ev nb" by blast
  from g emitsD [OF quiet_negotiate_format] obtain nc where nc:
    "vs_hist sc = vs_hist sb @ nc" "list_all quiet_ev nc" by blast
  from request_buffers_Next [OF r] obtain nd where nd: "2 \<le> count"
    "vs_hist sd = vs_hist sc @ nd @ [EvCalloc count (Some p)]" "list_all quiet_ev nd" by blast
  have "unat count < 4294967296" by (rule unat_u32_bound)
  with map_buffers_Next [OF m] obtain ne where ne: "unat n = unat count" "length bufs = unat count"
    "\<forall>b \<in> set bufs. kb_start b \<noteq> None" "vs_hist se = vs_hist sd @ ne"
    "proj ev_map ne = map mapped_entry bufs" "proj ev_queue ne = []" by auto
  from queue_buffers_Next [OF q] obtain nf where nf: "vs_hist s1 = vs_hist se @ nf" "proj ev_map nf = []"
    "proj ev_queue nf = map (\<lambda>j. (fd, of_nat j)) [0..<unat n]" by auto
  have me: "list_all map_ev ne" by (rule emits_Next [OF emits_map_buffers m ne(4)]) simp_all
  have mf: "list_all map_ev nf" by (rule emits_Next [OF emits_queue_buffers q nf(1)]) simp_all
  define new where "new = EvOpen (ip_device_name params) fd # na @ nb @ nc @ nd @ EvCalloc count (Some p) # ne @ nf"
  have hist: "vs_hist s1 = vs_hist s @ new"
    by (simp add: new_def na nb nc nd ne(4) nf(1))
  have "list_all init_ev new"
    by (rule emits_Next [OF emits_init assms hist]) simp_all
  note rel = init_ev_proj [OF this]
  have "2 \<le> length bufs" using nd(1) ne(2) by (simp add: word_le_nat_alt)
  then show ?thesis
    unfolding live_camera_def
    using na(1) rel ne nf(2,3) hist dev quiet_ev_proj [OF na(3)] quiet_ev_proj [OF nb(2)]
      quiet_ev_proj [OF nc(2)] quiet_ev_proj [OF nd(3)] map_ev_proj [OF me] map_ev_proj [OF mf]
    by (intro exI [of _ new] exI [of _ p] exI [of _ bufs]) (simp add: new_def)
qed

end
