(* ===== verification/V4L2_Device.thy ===== *)
theory V4L2_Device
  imports V4L2_Init
begin

text \<open>
  The operations on an opened camera in \<open>src/io/v4l2_camera.cc\<close>: \<open>kbx_v4l2_destroy\<close>,
  \<open>kbx_v4l2_stop_capture\<close>, \<open>kbx_v4l2_export_dmabuf\<close>, \<open>kbx_v4l2_read\<close> and \<open>kbx_v4l2_write\<close>,
  and what init, these and their failures do with the resources of the process.
\<close>

section \<open>Operations\<close>

text \<open>The unmap loop over the indices below \<open>n_buffers\<close>; past the array it is undefined.\<close>

fun unmap_buffers :: "nat \<Rightarrow> kbx_buffer list \<Rightarrow> unit vm" where
  "unmap_buffers 0 buffers = vret ()"
| "unmap_buffers (Suc k) [] = vundef"
| "unmap_buffers (Suc k) (b # buffers) =
     vbind (vemit (EvMunmap (kb_start b) (kb_length b))) (\<lambda>_. unmap_buffers k buffers)"

definition kbx_v4l2_destroy :: "kbx_v4l2_device \<Rightarrow> kbx_v4l2_device vm" where
  "kbx_v4l2_destroy device =
     vbind (case vd_buffers device of
              None \<Rightarrow> vret device
            | Some (p, buffers) \<Rightarrow>
                vbind (unmap_buffers (unat (vd_n_buffers device)) buffers) (\<lambda>_.
                vbind (vemit (EvFree p)) (\<lambda>_. vret (device\<lparr>vd_buffers := None\<rparr>)))) (\<lambda>device.
     if 0 \<le> vd_fd device
     then vbind (vemit (EvClose (vd_fd device))) (\<lambda>_. vret (device\<lparr>vd_fd := -1\<rparr>))
     else vret device)"

definition kbx_v4l2_stop_capture :: "v4l2_os \<Rightarrow> kbx_v4l2_device \<Rightarrow> kbx_status_t vm" where
  "kbx_v4l2_stop_capture os device =
     vbind (vioctl os (vd_fd device) (VIDIOC_STREAMOFF V4L2_BUF_TYPE_VIDEO_CAPTURE)) (\<lambda>r.
     case r of
       Inl _ \<Rightarrow> vret KBX_STATUS_ERR_IO
     | Inr _ \<Rightarrow> vret KBX_STATUS_SUCCESS)"

abbreviation O_RDWR_CLOEXEC :: u32 where "O_RDWR_CLOEXEC \<equiv> 0x80002"

text \<open>The caller's \<open>fd\<close> is passed in and returned.\<close>

definition kbx_v4l2_export_dmabuf ::
  "v4l2_os \<Rightarrow> kbx_v4l2_device \<Rightarrow> u32 \<Rightarrow> int \<Rightarrow> (kbx_status_t \<times> int) vm" where
  "kbx_v4l2_export_dmabuf os device index fd =
     (let exp_buf = \<lparr>eb_type = V4L2_BUF_TYPE_VIDEO_CAPTURE, eb_index = index, eb_fd = -1,
                     eb_flags = O_RDWR_CLOEXEC\<rparr> in
      vbind (vioctl os (vd_fd device) (VIDIOC_EXPBUF exp_buf)) (\<lambda>r.
      case r of
        Inl _ \<Rightarrow> vret (KBX_STATUS_ERR_IO, fd)
      | Inr res \<Rightarrow> vret (KBX_STATUS_SUCCESS, eb_fd (out_exp exp_buf res))))"

text \<open>\<open>device->buffers[index]\<close>: outside the array, or with no array, undefined.\<close>

definition buffer_at :: "kbx_v4l2_device \<Rightarrow> u32 \<Rightarrow> kbx_buffer vm" where
  "buffer_at device i =
     (case vd_buffers device of
        None \<Rightarrow> vundef
      | Some (p, buffers) \<Rightarrow> if length buffers \<le> unat i then vundef else vret (buffers ! unat i))"

text \<open>
  \<open>copy_out\<close> is \<open>memcpy(image->data, start, n)\<close>: undefined when it leaves the mapping of
  \<open>length\<close> bytes or the caller's array.
\<close>

definition copy_out :: "v4l2_os \<Rightarrow> kbx_buffer \<Rightarrow> u8 list \<Rightarrow> nat \<Rightarrow> u8 list vm" where
  "copy_out os b dest n =
     (case kb_start b of
        None \<Rightarrow> vundef
      | Some p \<Rightarrow>
          if unat (kb_length b) < n \<or> length dest < n then vundef
          else vbind vhist (\<lambda>h.
            vret (map (\<lambda>i. os_load os h (p + of_nat i)) [0..<n] @ drop n dest)))"

definition copy_size :: "kbx_image \<Rightarrow> u32 \<Rightarrow> u64" where
  "copy_size img bytesused =
     (if img_data_size img < ucast bytesused then img_data_size img else ucast bytesused)"

definition kbx_v4l2_read ::
  "v4l2_os \<Rightarrow> kbx_v4l2_device option \<Rightarrow> kbx_image option \<Rightarrow> (kbx_status_t \<times> kbx_image option) vm" where
  "kbx_v4l2_read os device_p image_p =
     (case (device_p, image_p) of
        (Some dev, Some img) \<Rightarrow>
          vbind (vioctl os (vd_fd dev) (VIDIOC_DQBUF (cleared_buffer 0))) (\<lambda>r.
          case r of
            Inl _ \<Rightarrow> vret (KBX_STATUS_ERR_IO, image_p)
          | Inr res \<Rightarrow>
              let buffer_info = out_buf (cleared_buffer 0) res in
              vbind (case img_data img of
                       None \<Rightarrow> vret img
                     | Some dest \<Rightarrow>
                         let copied = copy_size img (vb_bytesused buffer_info) in
                         vbind (buffer_at dev (vb_index buffer_info)) (\<lambda>b.
                         vbind (copy_out os b dest (unat copied)) (\<lambda>bytes.
                         vret (img\<lparr>img_data := Some bytes, img_data_size := copied\<rparr>)))) (\<lambda>img.
              vbind (vioctl os (vd_fd dev) (VIDIOC_QBUF buffer_info)) (\<lambda>r.
              case r of
                Inl _ \<Rightarrow> vret (KBX_STATUS_ERR_IO, Some img)
              | Inr _ \<Rightarrow> vret (KBX_STATUS_SUCCESS, Some img))))
      | _ \<Rightarrow> vret (KBX_STATUS_ERR_IO, image_p))"

text \<open>\<open>write\<close> returns a byte count that the code keeps in an \<open>int\<close>.\<close>

definition kbx_v4l2_write ::
  "v4l2_os \<Rightarrow> kbx_v4l2_device option \<Rightarrow> kbx_image option \<Rightarrow> kbx_status_t vm" where
  "kbx_v4l2_write os device_p image_p =
     (case (device_p, image_p) of
        (Some dev, Some img) \<Rightarrow>
          (case img_data img of
             None \<Rightarrow> vret KBX_STATUS_ERR_IO
           | Some bytes \<Rightarrow>
               if length bytes < unat (img_data_size img) then vundef
               else
                 let offered = take (unat (img_data_size img)) bytes in
                 vbind vhist (\<lambda>h.
                 let n = os_write os h (vd_fd dev) offered;
                     ret = sint (word_of_int n :: u32) in
                 vbind (vemit (EvWriteImage (vd_fd dev) offered n)) (\<lambda>_.
                 if ret < 0 then vret KBX_STATUS_ERR_IO else vret KBX_STATUS_SUCCESS)))
      | _ \<Rightarrow> vret KBX_STATUS_ERR_IO)"

section \<open>Release\<close>

lemma unmap_buffers_run:
  "k \<le> length buffers \<Longrightarrow> unmap_buffers k buffers s
     = Some (Next (), s\<lparr>vs_hist := vs_hist s @ map (\<lambda>b. EvMunmap (kb_start b) (kb_length b)) (take k buffers)\<rparr>)"
proof (induction k buffers arbitrary: s rule: unmap_buffers.induct)
  case (3 k b buffers)
  then show ?case by (simp add: vbind_def vemit_def emit_def)
qed (simp_all add: vret_def)

lemma proj_munmaps:
  assumes "\<forall>b \<in> set buffers. kb_start b \<noteq> None"
  shows "proj ev_unmap (map (\<lambda>b. EvMunmap (kb_start b) (kb_length b)) buffers) = map mapped_entry buffers"
    and "proj ev_free (map (\<lambda>b. EvMunmap (kb_start b) (kb_length b)) buffers) = []"
    and "proj ev_close (map (\<lambda>b. EvMunmap (kb_start b) (kb_length b)) buffers) = []"
  using assms by (induction buffers) (auto simp: mapped_entry_def)

lemma destroy_run:
  assumes "vd_buffers device = Some (p, buffers)" "unat (vd_n_buffers device) = length buffers"
    and "0 \<le> vd_fd device"
  shows "kbx_v4l2_destroy device s = Some (Next (device\<lparr>vd_buffers := None, vd_fd := -1\<rparr>),
    s\<lparr>vs_hist := vs_hist s @ map (\<lambda>b. EvMunmap (kb_start b) (kb_length b)) buffers
        @ [EvFree p, EvClose (vd_fd device)]\<rparr>)"
  using assms
  by (simp add: kbx_v4l2_destroy_def vbind_def unmap_buffers_run vemit_def vret_def emit_def)

section \<open>A concrete driver\<close>

text \<open>
  \<open>uvc_driver n ptrs\<close> is a streaming camera that grants \<open>n\<close> buffers of 4096 bytes, answers each
  dequeue with buffer 1 holding two bytes, and maps as long as \<open>ptrs\<close> allows; it serves the
  witnesses.
\<close>

definition uvc_driver :: "u32 \<Rightarrow> u32 \<Rightarrow> v4l2_os" where
  "uvc_driver n mappable = \<lparr>
     os_open = (\<lambda>h path. 3),
     os_ioctl = (\<lambda>h fd req. case req of
         VIDIOC_QUERYCAP \<Rightarrow> Inr (ResCaps 0x4000001)
       | VIDIOC_REQBUFS r \<Rightarrow> Inr (ResReq (r\<lparr>rb_count := n\<rparr>))
       | VIDIOC_QUERYBUF b \<Rightarrow> Inr (ResBuf (b\<lparr>vb_length := 4096, vb_offset := 4096 * vb_index b\<rparr>))
       | VIDIOC_DQBUF b \<Rightarrow> Inr (ResBuf (b\<lparr>vb_index := 1, vb_bytesused := 2\<rparr>))
       | _ \<Rightarrow> Inr ResNone),
     os_mmap = (\<lambda>h fd len off. if off < 4096 * mappable then Some (0x10000 + ucast off) else None),
     os_calloc = (\<lambda>h k. Some 0x5000),
     os_select = (\<lambda>h fd. Inr 1),
     os_create = (\<lambda>h path. 4),
     os_popen = (\<lambda>h cmd. True),
     os_load = (\<lambda>h p. ucast p + 7),
     os_write = (\<lambda>h fd bytes. int (length bytes)), os_save = (\<lambda>h fd p n. int (unat n)),
     os_pipe = (\<lambda>h p n. n), os_pclose = (\<lambda>h. 0)\<rparr>"

lemma uvc_simps [simp]:
  "os_open (uvc_driver n k) h path = 3"
  "os_ioctl (uvc_driver n k) h fd VIDIOC_QUERYCAP = Inr (ResCaps 0x4000001)"
  "os_ioctl (uvc_driver n k) h fd (VIDIOC_REQBUFS r) = Inr (ResReq (r\<lparr>rb_count := n\<rparr>))"
  "os_ioctl (uvc_driver n k) h fd (VIDIOC_QUERYBUF b)
     = Inr (ResBuf (b\<lparr>vb_length := 4096, vb_offset := 4096 * vb_index b\<rparr>))"
  "os_ioctl (uvc_driver n k) h fd (VIDIOC_DQBUF b) = Inr (ResBuf (b\<lparr>vb_index := 1, vb_bytesused := 2\<rparr>))"
  "os_ioctl (uvc_driver n k) h fd (VIDIOC_S_PARM sp) = Inr ResNone"
  "os_ioctl (uvc_driver n k) h fd (VIDIOC_G_PARM sp) = Inr ResNone"
  "os_ioctl (uvc_driver n k) h fd (VIDIOC_S_FMT f) = Inr ResNone"
  "os_ioctl (uvc_driver n k) h fd (VIDIOC_G_FMT f) = Inr ResNone"
  "os_ioctl (uvc_driver n k) h fd (VIDIOC_QBUF b) = Inr ResNone"
  "os_ioctl (uvc_driver n k) h fd (VIDIOC_STREAMON t) = Inr ResNone"
  "os_mmap (uvc_driver n k) h fd len off = (if off < 4096 * k then Some (0x10000 + ucast off) else None)"
  "os_calloc (uvc_driver n k) h c = Some 0x5000"
  "os_select (uvc_driver n k) h fd = Inr 1"
  "os_create (uvc_driver n k) h path = 4"
  "os_load (uvc_driver n k) h p = ucast p + 7"
  "os_save (uvc_driver n k) h fd q m = int (unat m)"
  by (simp_all add: uvc_driver_def)

lemma vioctl_answer:
  "os_ioctl os (vs_hist s) fh req = Inr x \<Longrightarrow>
     vioctl os fh req s = Some (Next (Inr x), emit (EvIoctl fh req (Inr x)) s)"
  by (simp add: vioctl_def, subst xioctl.simps) (simp add: Let_def)

lemma two_rounds:
  "map_buffers os fd 2 n bs = map_buffers os fd (Suc (Suc 0)) n bs"
  "queue_buffers os fd 2 n = queue_buffers os fd (Suc (Suc 0)) n"
  "unmap_buffers 2 bs = unmap_buffers (Suc (Suc 0)) bs"
  "replicate 2 x = [x, x]"
  by (simp_all add: numeral_2_eq_2)

lemmas v4l2_eval = vbind_def vret_def vdone_def vexit_def vundef_def vhist_def vemit_def vset_ext_def
  vioctl_answer Let_def two_rounds

definition sample_params :: "string \<Rightarrow> u32 \<Rightarrow> u32 \<Rightarrow> kbx_v4l2_init_params" where
  "sample_params name format frames = \<lparr>ip_device_name = name, ip_width = 640, ip_height = 480,
     ip_format = format, ip_interval = 30, ip_io_type = 0, ip_frame_count = frames\<rparr>"

definition closed_device :: kbx_v4l2_device where
  "closed_device = \<lparr>vd_fd = -1, vd_image = \<lparr>img_image_data_type = KBX_IMAGE_DATA_TYPE_UNKNOWN,
     img_width = 0, img_height = 0, img_stride = 0, img_data_size = 0, img_data = None, img_fd = -1,
     img_dma_fd = -1\<rparr>, vd_buffers = None, vd_n_buffers = 0\<rparr>"

definition sys_start :: v4l2_sys where
  "sys_start = \<lparr>vs_hist = [], vs_ext = ''raw''\<rparr>"

definition uvc_buffer :: "ptr \<Rightarrow> kbx_buffer" where
  "uvc_buffer p = zero_buffer\<lparr>kb_start := Some p, kb_length := 4096\<rparr>"

definition uvc_device :: kbx_v4l2_device where
  "uvc_device = closed_device\<lparr>vd_fd := 3,
     vd_buffers := Some (0x5000, [uvc_buffer 0x10000, uvc_buffer 0x11000]), vd_n_buffers := 2\<rparr>"

lemma uvc_init:
  "\<exists>s. kbx_v4l2_init (uvc_driver 2 2) 0 closed_device (sample_params ''cam'' V4L2_PIX_FMT_YUYV 1) sys_start
     = Some (Next uvc_device, s) \<and> vs_ext s = ''raw''"
  by (simp add: kbx_v4l2_init_def open_camera_def detect_standard_def negotiate_format_def
      request_buffers_def v4l2_eval sample_params_def sys_start_def uvc_device_def uvc_buffer_def
      closed_device_def cleared_format_def cleared_buffer_def zero_buffer_def)

section \<open>Properties\<close>

lemma init_result:
  assumes "kbx_v4l2_init os garbage device params s = Some (Next device1, s1)"
  shows "vd_image device1 = vd_image device"
    and "vs_ext s1 = ''jpg'' \<or> vs_ext s1 = ''raw'' \<and> ip_format params \<noteq> V4L2_PIX_FMT_MJPEG"
    and "vd_fd device1 = os_open os (vs_hist s) (ip_device_name params)"
proof -
  from assms obtain fd caps sa sb fmt sc count p sd n bufs se where
    o: "open_camera os garbage (ip_device_name params) s = Some (Next (fd, caps), sa)" and
    g: "negotiate_format os fd params sb = Some (Next fmt, sc)" and
    r: "request_buffers os fd sc = Some (Next (count, p), sd)" and
    m: "map_buffers os fd (unat count) 0 (replicate (unat count) zero_buffer) sd = Some (Next (n, bufs), se)" and
    q: "queue_buffers os fd (unat n) 0 se = Some (Next (), s1)" and
    dev: "device1 = device\<lparr>vd_fd := fd, vd_buffers := Some (p, bufs), vd_n_buffers := n\<rparr>"
    by (auto simp: kbx_v4l2_init_def vbind_Next)
  have "vs_ext s1 = vs_ext sc"
    using queue_buffers_Next [OF q] request_buffers_Next [OF r] map_buffers_Next [OF m]
      unat_u32_bound [of count] by simp
  with negotiate_format_Next [OF g]
  show "vs_ext s1 = ''jpg'' \<or> vs_ext s1 = ''raw'' \<and> ip_format params \<noteq> V4L2_PIX_FMT_MJPEG"
    by simp
  show "vd_image device1 = vd_image device" using dev by simp
  show "vd_fd device1 = os_open os (vs_hist s) (ip_device_name params)"
    using open_camera_Next [OF o] dev by simp
qed

text \<open>
  C10: \<open>kbx_v4l2_init\<close> that succeeds leaves a device that can stream: its descriptor is the one
  opened, it holds at least two buffers, each of them is one of the mappings made (none is
  \<open>MAP_FAILED\<close>, none is lost), each was queued to the driver exactly once in index order, and
  nothing was released; the global extension is "jpg" whenever MJPEG was asked for.
\<close>

theorem v4l2_init_gives_live_camera:
  assumes "kbx_v4l2_init os garbage device params s = Some (Next device1, s1)"
  shows "live_camera s s1 device1 \<and> vd_image device1 = vd_image device
    \<and> vd_fd device1 = os_open os (vs_hist s) (ip_device_name params)
    \<and> (vs_ext s1 = ''jpg'' \<or> vs_ext s1 = ''raw'' \<and> ip_format params \<noteq> V4L2_PIX_FMT_MJPEG)"
  using init_live [OF assms] init_result [OF assms] by blast

theorem v4l2_init_gives_live_camera_witness:
  "\<exists>s1. live_camera sys_start s1 uvc_device"
proof -
  obtain s1 where "kbx_v4l2_init (uvc_driver 2 2) 0 closed_device
      (sample_params ''cam'' V4L2_PIX_FMT_YUYV 1) sys_start = Some (Next uvc_device, s1)"
    using uvc_init by blast
  from v4l2_init_gives_live_camera [OF this] show ?thesis by blast
qed

lemma open_camera_events:
  assumes "open_camera os garbage name s = Some (r, s1)"
  shows "\<exists>new. vs_hist s1 = vs_hist s @ EvOpen name (os_open os (vs_hist s) name) # new
    \<and> list_all quiet_ev new"
proof (cases "os_open os (vs_hist s) name = -1")
  case True
  with assms show ?thesis
    by (auto simp: open_camera_def vbind_def vhist_def vemit_def Let_def vdone_def)
next
  case False
  define k :: "errno + vres \<Rightarrow> (int \<times> u32) vm" where
    "k = (\<lambda>r. case r of Inl _ \<Rightarrow> vdone KBX_STATUS_ERR_IO
       | Inr res \<Rightarrow> let capabilities = out_caps garbage res in
           if capabilities AND V4L2_CAP_VIDEO_CAPTURE = 0 then vdone KBX_STATUS_ERR_IO
           else if capabilities AND V4L2_CAP_STREAMING = 0 then vdone KBX_STATUS_ERR_IO
           else vret (os_open os (vs_hist s) name, capabilities))"
  have "emits quiet_ev (vbind (vioctl os (os_open os (vs_hist s) name) VIDIOC_QUERYCAP) k)"
    by (auto intro!: emits_vbind emits_vioctl quiet_ev_ioctl simp: k_def Let_def split: sum.splits)
  moreover have "vbind (vioctl os (os_open os (vs_hist s) name) VIDIOC_QUERYCAP) k
      (emit (EvOpen name (os_open os (vs_hist s) name)) s) = Some (r, s1)"
    using assms False
    unfolding open_camera_def k_def Let_def
    by (simp add: vbind_def [of vhist] vbind_def [of "vemit _"] vhist_def vemit_def)
  ultimately show ?thesis by (auto dest: emitsD)
qed

definition hold_ev :: "sys_event \<Rightarrow> bool" where
  "hold_ev e \<longleftrightarrow> ev_open e = [] \<and> init_ev e"

lemma hold_ev_simps [simp]:
  "hold_ev (EvIoctl fd req r)" "hold_ev (EvCalloc c p)" "hold_ev (EvMmap fd n off p)"
  by (simp_all add: hold_ev_def)

lemma hold_ev_proj: "list_all hold_ev new \<Longrightarrow>
    proj ev_open new = [] \<and> proj ev_close new = [] \<and> proj ev_unmap new = [] \<and> proj ev_free new = []"
  by (induction new) (auto simp: hold_ev_def init_ev_def)

lemma init_events:
  assumes "kbx_v4l2_init os garbage device params s = Some (r, s1)"
  shows "\<exists>new. vs_hist s1
      = vs_hist s @ EvOpen (ip_device_name params) (os_open os (vs_hist s) (ip_device_name params)) # new
    \<and> list_all hold_ev new"
proof -
  define k where "k = (\<lambda>(fd, capabilities).
     vbind (detect_standard os fd capabilities) (\<lambda>_.
     vbind (negotiate_format os fd params) (\<lambda>_.
     vbind (request_buffers os fd) (\<lambda>(count, p).
     vbind (map_buffers os fd (unat count) 0 (replicate (unat count) zero_buffer)) (\<lambda>(n_buffers, buffers).
     vbind (queue_buffers os fd (unat n_buffers) 0) (\<lambda>_.
     vret (device\<lparr>vd_fd := fd, vd_buffers := Some (p, buffers), vd_n_buffers := n_buffers\<rparr>)))))))"
  have run: "vbind (open_camera os garbage (ip_device_name params)) k s = Some (r, s1)"
    using assms by (simp add: kbx_v4l2_init_def k_def)
  then obtain r1 s2 where o: "open_camera os garbage (ip_device_name params) s = Some (r1, s2)"
    by (auto simp: vbind_def split: option.splits)
  from open_camera_events [OF o] obtain n1 where n1: "vs_hist s2
      = vs_hist s @ EvOpen (ip_device_name params) (os_open os (vs_hist s) (ip_device_name params)) # n1"
    "list_all hold_ev n1"
    by (metis (mono_tags, lifting) hold_ev_def quiet_ev_def list.pred_mono_strong)
  have k: "emits hold_ev (k a)" for a
    by (auto simp: k_def split: prod.splits intro!: emits_vbind emits_detect_standard emits_negotiate_format
        emits_request_buffers emits_map_buffers emits_queue_buffers)
  show ?thesis
  proof (cases r1)
    case (Next a)
    with run o have "k a s2 = Some (r, s1)" by (simp add: vbind_def)
    with emitsD [OF k] obtain n2 where "vs_hist s1 = vs_hist s2 @ n2" "list_all hold_ev n2" by blast
    with n1 show ?thesis by (intro exI [of _ "n1 @ n2"]) simp
  qed (use run o n1 in \<open>auto simp: vbind_def\<close>)
qed

text \<open>
  once the device node is open, \<open>kbx_v4l2_init\<close> never releases anything: on whatever path
  it ends (an error status after a failed ioctl or mapping, exit, or success), the descriptor
  it opened is still open, and no mapping and no array it made has been released. With an error
  status the descriptor reaches no one: the device is not written, so it leaks.
\<close>

theorem v4l2_init_error_leaks_descriptor:
  assumes "kbx_v4l2_init os garbage device params s = Some (Done status, s1)"
    and "os_open os (vs_hist s) (ip_device_name params) = fd" "fd \<noteq> -1"
  shows "\<exists>new. vs_hist s1 = vs_hist s @ new \<and> proj ev_open new = [fd]
    \<and> proj ev_close new = [] \<and> proj ev_unmap new = [] \<and> proj ev_free new = []"
proof -
  from init_events [OF assms(1)] obtain new where
    "vs_hist s1 = vs_hist s @ EvOpen (ip_device_name params) fd # new" "list_all hold_ev new"
    using assms(2) by blast
  with hold_ev_proj [of new] assms(3) show ?thesis
    by (intro exI [of _ "EvOpen (ip_device_name params) fd # new"]) simp
qed

text \<open>
  The instance: the second mapping fails; the array and the first mapping leak as well.
\<close>

lemma uvc_init_fails:
  "\<exists>s. kbx_v4l2_init (uvc_driver 2 1) 0 closed_device (sample_params ''cam'' V4L2_PIX_FMT_YUYV 1) sys_start
     = Some (Done KBX_STATUS_ERR_IO, s) \<and> proj ev_map (vs_hist s) = [(0x10000, 4096)]
       \<and> proj ev_calloc (vs_hist s) = [0x5000]"
  by (simp add: kbx_v4l2_init_def open_camera_def detect_standard_def negotiate_format_def
      request_buffers_def v4l2_eval sample_params_def sys_start_def uvc_device_def uvc_buffer_def
      closed_device_def cleared_format_def cleared_buffer_def zero_buffer_def)

theorem v4l2_init_error_leaks_descriptor_witness:
  "\<exists>s1 :: v4l2_sys. proj ev_open (vs_hist s1) = [3] \<and> proj ev_close (vs_hist s1) = []
     \<and> proj ev_map (vs_hist s1) = [(0x10000, 4096)] \<and> proj ev_unmap (vs_hist s1) = []"
proof -
  obtain s1 where s1: "kbx_v4l2_init (uvc_driver 2 1) 0 closed_device
      (sample_params ''cam'' V4L2_PIX_FMT_YUYV 1) sys_start = Some (Done KBX_STATUS_ERR_IO, s1)"
    "proj ev_map (vs_hist s1) = [(0x10000, 4096)]"
    using uvc_init_fails by blast
  from v4l2_init_error_leaks_descriptor [OF s1(1), of 3] s1(2) show ?thesis
    by (auto simp: sys_start_def)
qed

text \<open>
  C13: \<open>kbx_v4l2_destroy\<close> undoes \<open>kbx_v4l2_init\<close>: it unmaps exactly the mappings that init made, in
  their order, frees the array once and closes the descriptor once; it leaves the device with
  no buffers and descriptor -1, on which a second call does nothing.
\<close>

theorem v4l2_destroy_undoes_init:
  assumes "kbx_v4l2_init os garbage device params s = Some (Next device1, s1)"
    and "\<And>h path. -1 \<le> os_open os h path"
  shows "\<exists>got released device2 s2.
      vs_hist s1 = vs_hist s @ got
      \<and> kbx_v4l2_destroy device1 s1 = Some (Next device2, s2)
      \<and> vs_hist s2 = vs_hist s1 @ released
      \<and> proj ev_unmap released = proj ev_map got \<and> proj ev_free released = proj ev_calloc got
      \<and> proj ev_close released = proj ev_open got
      \<and> vd_fd device2 = -1 \<and> vd_buffers device2 = None
      \<and> kbx_v4l2_destroy device2 s2 = Some (Next device2, s2)"
proof -
  from init_live [OF assms(1)] obtain got p buffers where live:
    "vs_hist s1 = vs_hist s @ got" "vd_buffers device1 = Some (p, buffers)"
    "unat (vd_n_buffers device1) = length buffers" "\<forall>b \<in> set buffers. kb_start b \<noteq> None"
    "proj ev_map got = map mapped_entry buffers" "proj ev_open got = [vd_fd device1]"
    "proj ev_calloc got = [p]" "vd_fd device1 \<noteq> -1"
    unfolding live_camera_def by blast
  from init_result(3) [OF assms(1)] assms(2) live(8) have "0 \<le> vd_fd device1"
    by (metis int_one_le_iff_zero_less add.commute add_0 diff_0 diff_add_cancel order_le_less zless_imp_add1_zle)
  from destroy_run [OF live(2,3) this, of s1] live proj_munmaps [OF live(4)] show ?thesis
    by (simp add: kbx_v4l2_destroy_def)
qed

theorem v4l2_destroy_undoes_init_witness:
  "\<exists>s1 device2 s2. kbx_v4l2_destroy uvc_device s1 = Some (Next device2, s2) \<and> vd_fd device2 = -1
     \<and> length (proj ev_unmap (vs_hist s2)) = 2"
proof -
  obtain s1 where s1: "kbx_v4l2_init (uvc_driver 2 2) 0 closed_device
      (sample_params ''cam'' V4L2_PIX_FMT_YUYV 1) sys_start = Some (Next uvc_device, s1)"
    using uvc_init by blast
  from init_live [OF s1] have l: "proj ev_unmap (vs_hist s1) = []" "proj ev_map (vs_hist s1)
      = map mapped_entry [uvc_buffer 0x10000, uvc_buffer 0x11000]"
    by (auto simp: live_camera_def sys_start_def uvc_device_def)
  from v4l2_destroy_undoes_init [OF s1] show ?thesis
    using l by (fastforce simp: sys_start_def)
qed

text \<open>
  The documented behaviour of a streaming driver: a dequeued buffer is one of the mapped ones
  and its payload fits the mapping.
\<close>

definition driver_ok :: "v4l2_os \<Rightarrow> int \<Rightarrow> kbx_buffer list \<Rightarrow> bool" where
  "driver_ok os fd buffers \<longleftrightarrow> (\<forall>h res. os_ioctl os h fd (VIDIOC_DQBUF (cleared_buffer 0)) = Inr res \<longrightarrow>
     (let info = out_buf (cleared_buffer 0) res in
      unat (vb_index info) < length buffers
      \<and> unat (vb_bytesused info) \<le> unat (kb_length (buffers ! unat (vb_index info)))
      \<and> kb_start (buffers ! unat (vb_index info)) \<noteq> None))"

lemma xioctl_ok_answer:
  assumes "xioctl os fh req s = Some (Inr res, s1)"
  shows "\<exists>h. os_ioctl os h fh req = Inr res"
  using xioctl_outcome [OF assms] by (auto simp: ioctl_outcome_def)

definition dequeued :: "vres \<Rightarrow> v4l2_buffer" where
  "dequeued res = out_buf (cleared_buffer 0) res"

definition frame_copied :: "v4l2_os \<Rightarrow> kbx_buffer \<Rightarrow> nat \<Rightarrow> u8 list \<Rightarrow> kbx_image \<Rightarrow> kbx_image \<Rightarrow> bool" where
  "frame_copied os b n dest img img1 \<longleftrightarrow> (\<exists>h. img1 = img\<lparr>
     img_data := Some (map (\<lambda>i. os_load os h (the (kb_start b) + of_nat i)) [0..<n] @ drop n dest),
     img_data_size := of_nat n\<rparr>)"

lemma copy_out_frame:
  assumes "kb_start b = Some q" "unat used \<le> unat (kb_length b)" "unat (img_data_size img) \<le> length dest"
    and copy: "copy = copy_size img used"
  shows "\<exists>bytes. copy_out os b dest (unat copy) s = Some (Next bytes, s)
    \<and> frame_copied os b (min (unat (img_data_size img)) (unat used)) dest img (img\<lparr>img_data := Some bytes, img_data_size := copy\<rparr>)"
proof -
  have "unat (ucast used :: u64) = unat used"
    using unat_u32_bound [of used] by (simp add: unsigned_ucast_eq take_bit_eq_mod)
  then have n: "unat copy = min (unat (img_data_size img)) (unat used)"
    by (auto simp: copy copy_size_def word_less_nat_alt)
  let ?bytes = "map (\<lambda>i. os_load os (vs_hist s) (q + of_nat i)) [0..<unat copy] @ drop (unat copy) dest"
  have "copy_out os b dest (unat copy) s = Some (Next ?bytes, s)"
    using assms(1-3) n by (simp add: copy_out_def vbind_def vhist_def vret_def)
  moreover have "frame_copied os b (unat copy) dest img (img\<lparr>img_data := Some ?bytes, img_data_size := copy\<rparr>)"
    unfolding frame_copied_def using assms(1) by (intro exI [of _ "vs_hist s"]) simp
  ultimately show ?thesis using n by auto
qed

lemma requeue_outcome:
  assumes "vbind (vioctl os fd (VIDIOC_QBUF info)) (\<lambda>r. case r of
      Inl _ \<Rightarrow> vret (KBX_STATUS_ERR_IO, Some img) | Inr _ \<Rightarrow> vret (KBX_STATUS_SUCCESS, Some img)) s = Some (out, s1)"
  shows "\<exists>status. out = Next (status, Some img) \<and> (status = KBX_STATUS_SUCCESS \<longrightarrow>
    proj ev_queue (vs_hist s1) = proj ev_queue (vs_hist s) @ [(fd, vb_index info)])"
proof -
  from assms obtain r where q: "vioctl os fd (VIDIOC_QBUF info) s = Some (Next r, s1)"
    and out: "out = Next (case r of Inl _ \<Rightarrow> KBX_STATUS_ERR_IO | Inr _ \<Rightarrow> KBX_STATUS_SUCCESS, Some img)"
    by (auto simp: vbind_def vret_def vioctl_def split: option.splits sum.splits)
  from vioctl_Next [OF q] obtain m where "vs_hist s1 = vs_hist s
      @ replicate m (EvIoctl fd (VIDIOC_QBUF info) (Inl EINTR)) @ [EvIoctl fd (VIDIOC_QBUF info) r]" by metis
  then show ?thesis using out by (cases r) simp_all
qed


definition still_image :: "u8 list \<Rightarrow> kbx_image" where
  "still_image bytes = \<lparr>img_image_data_type = KBX_IMAGE_DATA_TYPE_UNKNOWN, img_width = 640, img_height = 480,
     img_stride = 0, img_data_size = of_nat (length bytes), img_data = Some bytes, img_fd = -1, img_dma_fd = -1\<rparr>"

lemma uvc_driver_ok: "driver_ok (uvc_driver 2 2) 3 [uvc_buffer 0x10000, uvc_buffer 0x11000]"
  by (simp add: driver_ok_def uvc_buffer_def zero_buffer_def)

lemma uvc_read:
  "\<exists>s1. kbx_v4l2_read (uvc_driver 2 2) (Some uvc_device) (Some (still_image [1, 2, 3])) sys_start
     = Some (Next (KBX_STATUS_SUCCESS, Some ((still_image [1, 2, 3])\<lparr>img_data := Some [7, 8, 3],
         img_data_size := 2\<rparr>)), s1)"
  by (simp add: kbx_v4l2_read_def v4l2_eval still_image_def uvc_device_def closed_device_def
      buffer_at_def copy_size_def copy_out_def uvc_buffer_def zero_buffer_def cleared_buffer_def upt_rec sys_start_def)


end
