(* ===== verification/V4L2_Capture.thy ===== *)
theory V4L2_Capture
  imports V4L2_Device
begin

text \<open>
  The capture loop, \<open>kbx_v4l2_start_capture\<close> of \<open>src/io/v4l2_camera.cc\<close>. The inner loop (wait,
  dequeue, retry) and the outer one (endless when the frame count is 0) are partial functions:
  \<open>None\<close> is a run that does not return. The outer index is the code's 32 bit counter.
\<close>

section \<open>Operations\<close>

definition fd_set_ok :: "int \<Rightarrow> bool" where
  "fd_set_ok fd \<longleftrightarrow> 0 \<le> fd \<and> fd < 1024"

partial_function (option) dequeue_frame :: "v4l2_os \<Rightarrow> int \<Rightarrow> v4l2_buffer vm" where
  "dequeue_frame os fd s =
     (if \<not> fd_set_ok fd then Some (Undefined, s)
      else let r = os_select os (vs_hist s) fd; s1 = emit (EvSelect fd r) s in
        case r of
          Inl e \<Rightarrow> if e = EINTR then dequeue_frame os fd s1 else Some (Done KBX_STATUS_ERR_IO, s1)
        | Inr n \<Rightarrow>
            if n = 0 then Some (Done KBX_STATUS_ERR_IO, s1)
            else (case xioctl os fd (VIDIOC_DQBUF (cleared_buffer 0)) s1 of
                None \<Rightarrow> None
              | Some (Inl e, s2) \<Rightarrow> if e = EAGAIN then dequeue_frame os fd s2
                                  else Some (Done KBX_STATUS_ERR_IO, s2)
              | Some (Inr res, s2) \<Rightarrow> Some (Next (dequeued res), s2)))"

definition frame_name :: "u32 \<Rightarrow> string \<Rightarrow> string" where
  "frame_name i extension = ''frame'' @ format_d (sint (i + 1)) @ ''.'' @ extension"

text \<open>A plain \<open>ioctl\<close>, without the retry of \<open>xioctl\<close>.\<close>

definition plain_ioctl :: "v4l2_os \<Rightarrow> int \<Rightarrow> vreq \<Rightarrow> (errno + vres) vm" where
  "plain_ioctl os fd req s =
     (let r = os_ioctl os (vs_hist s) fd req in Some (Next r, emit (EvIoctl fd req r) s))"

definition vrun :: "(v4l2_sys \<Rightarrow> v4l2_sys) \<Rightarrow> unit vm" where
  "vrun f s = Some (Next (), f s)"

definition vext :: "string vm" where
  "vext s = Some (Next (vs_ext s), s)"

definition store_frame ::
  "v4l2_os \<Rightarrow> kbx_v4l2_device \<Rightarrow> kbx_v4l2_init_params \<Rightarrow> u32 \<Rightarrow> v4l2_buffer \<Rightarrow> unit vm" where
  "store_frame os device params i buffer_info =
     vbind vext (\<lambda>extension.
     let filename = frame_name i extension in
     if 32 \<le> length filename then vundef
     else if extension = ''jpg'' then
       vbind (plain_ioctl os (vd_fd device) (VIDIOC_G_FMT cleared_format)) (\<lambda>r.
       let fmt = (case r of Inl _ \<Rightarrow> cleared_format | Inr res \<Rightarrow> out_fmt cleared_format res) in
       vbind (buffer_at device (vb_index buffer_info)) (\<lambda>b.
       vrun (save_frame_as_jpeg os filename (kb_start b) (vb_bytesused buffer_info)
               (ip_width params) (ip_height params) (vf_pixelformat fmt))))
     else
       vbind (buffer_at device (vb_index buffer_info)) (\<lambda>b.
       vrun (save_frame os filename (kb_start b) (vb_bytesused buffer_info))))"

definition requeue_frame :: "v4l2_os \<Rightarrow> int \<Rightarrow> v4l2_buffer \<Rightarrow> unit vm" where
  "requeue_frame os fd buffer_info =
     vbind (vioctl os fd (VIDIOC_QBUF buffer_info)) (\<lambda>r.
     case r of Inl _ \<Rightarrow> vdone KBX_STATUS_ERR_IO | Inr _ \<Rightarrow> vret ())"

definition capture_frame ::
  "v4l2_os \<Rightarrow> kbx_v4l2_device \<Rightarrow> kbx_v4l2_init_params \<Rightarrow> u32 \<Rightarrow> unit vm" where
  "capture_frame os device params i =
     vbind (dequeue_frame os (vd_fd device)) (\<lambda>buffer_info.
     vbind (store_frame os device params i buffer_info) (\<lambda>_.
     requeue_frame os (vd_fd device) buffer_info))"

partial_function (option) capture_loop ::
  "v4l2_os \<Rightarrow> kbx_v4l2_device \<Rightarrow> kbx_v4l2_init_params \<Rightarrow> u32 \<Rightarrow> u32 \<Rightarrow> unit vm" where
  "capture_loop os device params count i s =
     (if count = 0 \<or> i < count then
        (case capture_frame os device params i s of
           None \<Rightarrow> None
         | Some (Next _, s1) \<Rightarrow> capture_loop os device params count (i + 1) s1
         | Some (Done st, s1) \<Rightarrow> Some (Done st, s1)
         | Some (Exit c, s1) \<Rightarrow> Some (Exit c, s1)
         | Some (Undefined, s1) \<Rightarrow> Some (Undefined, s1))
      else Some (Next (), s))"

definition kbx_v4l2_start_capture ::
  "v4l2_os \<Rightarrow> kbx_v4l2_device \<Rightarrow> kbx_v4l2_init_params \<Rightarrow> kbx_status_t vm" where
  "kbx_v4l2_start_capture os device params =
     vbind (vioctl os (vd_fd device) (VIDIOC_STREAMON V4L2_BUF_TYPE_VIDEO_CAPTURE)) (\<lambda>r.
     case r of
       Inl _ \<Rightarrow> vdone KBX_STATUS_ERR_IO
     | Inr _ \<Rightarrow>
         vbind (capture_loop os device params (ip_frame_count params) 0) (\<lambda>_.
         vret KBX_STATUS_SUCCESS))"

section \<open>Decimal output is injective and short\<close>

definition dec_value :: "string \<Rightarrow> nat" where
  "dec_value ds = foldl (\<lambda>a c. 10 * a + (of_char c - 48)) 0 ds"

lemma digit_value: "d < 10 \<Longrightarrow> (of_char (char_of (48 + d)) :: nat) = 48 + d"
  by simp

lemma dec_value_digits: "dec_value (dec_digits n) = n"
proof (induction n rule: dec_digits.induct)
  case (1 n)
  show ?case
  proof (cases "n < 10")
    case True
    then show ?thesis by (subst dec_digits.simps) (simp add: dec_value_def)
  next
    case False
    then have "dec_digits n = dec_digits (n div 10) @ [char_of (48 + n mod 10)]"
      by (subst dec_digits.simps) simp
    with 1 [OF False] show ?thesis by (simp add: dec_value_def)
  qed
qed

lemma dec_digits_inject: "dec_digits m = dec_digits n \<longleftrightarrow> m = n"
  by (metis dec_value_digits)

lemma dec_digits_length: "n < 10 ^ k \<Longrightarrow> 0 < k \<Longrightarrow> length (dec_digits n) \<le> k"
proof (induction k arbitrary: n)
  case 0
  then show ?case by simp
next
  case (Suc k)
  show ?case
  proof (cases "n < 10")
    case True
    then show ?thesis by (subst dec_digits.simps) simp
  next
    case False
    then have "0 < k" using Suc.prems by (cases k) auto
    moreover have "n div 10 < 10 ^ k" using Suc.prems by (simp add: div_less_iff_less_mult mult.commute)
    ultimately have "length (dec_digits (n div 10)) \<le> k" by (rule Suc.IH [rotated])
    with False show ?thesis by (subst dec_digits.simps) simp
  qed
qed

lemma dec_digits_no_minus: "''-'' @ xs \<noteq> dec_digits n"
proof (induction n arbitrary: xs rule: dec_digits.induct)
  case (1 n)
  show ?case
  proof (cases "n < 10")
    case True
    have "CHR ''-'' \<noteq> char_of (48 + n)"
    proof
      assume "CHR ''-'' = char_of (48 + n)"
      then have "(of_char (CHR ''-'') :: nat) = of_char (char_of (48 + n) :: char)" by (rule arg_cong)
      with True show False by simp
    qed
    then show ?thesis using True by (subst dec_digits.simps) simp
  next
    case False
    then have d: "dec_digits n = dec_digits (n div 10) @ [char_of (48 + n mod 10)]"
      by (subst dec_digits.simps) simp
    have "dec_digits (n div 10) \<noteq> []" by (subst dec_digits.simps) simp
    then obtain c cs where cs: "dec_digits (n div 10) = c # cs" by (cases "dec_digits (n div 10)") auto
    with 1 [OF False, of cs] have "c \<noteq> CHR ''-''" by auto
    with d cs show ?thesis by simp
  qed
qed

lemma format_d_inject: "format_d i = format_d j \<longleftrightarrow> i = j"
proof
  assume "format_d i = format_d j"
  then show "i = j"
    using dec_digits_no_minus [of "dec_digits (nat (- i))" "nat j"]
      dec_digits_no_minus [of "dec_digits (nat (- j))" "nat i"]
    by (auto simp: format_d_def dec_digits_inject split: if_splits)
qed simp

lemma format_d_length: "length (format_d (sint (w :: u32))) \<le> 11"
proof -
  have "- 2147483648 \<le> sint w" "sint w < 2147483648"
    using sint_greater_eq [of w] sint_less [of w] by simp_all
  then have "nat (- sint w) < 10 ^ 10" "nat (sint w) < 10 ^ 10" by simp_all
  with dec_digits_length [of "nat (- sint w)" 10] dec_digits_length [of "nat (sint w)" 10]
  show ?thesis by (simp add: format_d_def)
qed

lemma frame_name_inject: "frame_name i e = frame_name j e \<longleftrightarrow> i = j"
proof
  assume "frame_name i e = frame_name j e"
  then have "sint (i + 1) = sint (j + 1)" by (simp add: frame_name_def format_d_inject)
  then have "i + 1 = j + 1" by (rule signed_word_eqI)
  then show "i = j" by simp
qed simp

lemma frame_names_distinct:
  "n < 4294967296 \<Longrightarrow> distinct (map (\<lambda>k. frame_name (of_nat k) e) [0..<n])"
  by (auto simp: distinct_map inj_on_def frame_name_inject dest: arg_cong [of _ _ unat]
      simp: unat_of_nat_u32)

lemma frame_name_length: "length (frame_name i extension) \<le> 17 + length extension"
  using format_d_length [of "i + 1"] by (simp add: frame_name_def)

section \<open>What a frame does\<close>

text \<open>
  The calls that matter: the stream switched on or off, a buffer taken from the driver, a buffer given back to it,
  and what is done to store a frame.
\<close>

datatype capture_ev = Streaming bool | Taken v4l2_buffer | Queued v4l2_buffer | Output sys_event

fun ev_capture :: "int \<Rightarrow> sys_event \<Rightarrow> capture_ev list" where
  "ev_capture d (EvIoctl fd (VIDIOC_STREAMON t) (Inr res)) = (if fd = d then [Streaming True] else [])"
| "ev_capture d (EvIoctl fd (VIDIOC_STREAMOFF t) (Inr res)) = (if fd = d then [Streaming False] else [])"
| "ev_capture d (EvIoctl fd (VIDIOC_DQBUF b) (Inr res)) = (if fd = d then [Taken (dequeued res)] else [])"
| "ev_capture d (EvIoctl fd (VIDIOC_QBUF b) (Inr res)) = (if fd = d then [Queued b] else [])"
| "ev_capture d (EvCreate path fd) = [Output (EvCreate path fd)]"
| "ev_capture d (EvWrite fd p n rz) = [Output (EvWrite fd p n rz)]"
| "ev_capture d (EvClose fd) = [Output (EvClose fd)]"
| "ev_capture d (EvPopen cmd ok) = [Output (EvPopen cmd ok)]"
| "ev_capture d (EvPipe p n k) = [Output (EvPipe p n k)]"
| "ev_capture d (EvPclose st) = [Output (EvPclose st)]"
| "ev_capture d _ = []"

lemma ev_capture_failed [simp]: "ev_capture d (EvIoctl fd req (Inl e)) = []"
  by (cases req) simp_all

text \<open>A call that ends a capture with an error.\<close>

fun failed :: "int \<Rightarrow> sys_event \<Rightarrow> bool" where
  "failed d (EvSelect fd r) \<longleftrightarrow> fd = d \<and> r \<noteq> Inl EINTR \<and> (\<forall>n. r = Inr n \<longrightarrow> n = 0)"
| "failed d (EvIoctl fd req (Inl e)) \<longleftrightarrow> fd = d \<and> e \<noteq> EINTR \<and> (e = EAGAIN \<longrightarrow> (\<forall>b. req \<noteq> VIDIOC_DQBUF b))"
| "failed d _ \<longleftrightarrow> False"

definition ends_failed :: "int \<Rightarrow> v4l2_sys \<Rightarrow> bool" where
  "ends_failed d s \<longleftrightarrow> (\<exists>h e. vs_hist s = h @ [e] \<and> failed d e)"

definition dequeue_outcome :: "int \<Rightarrow> v4l2_sys \<Rightarrow> v4l2_buffer flow \<times> v4l2_sys \<Rightarrow> bool" where
  "dequeue_outcome fd s y \<longleftrightarrow> vs_ext (snd y) = vs_ext s \<and>
     (case fst y of
        Next b \<Rightarrow> \<exists>new. vs_hist (snd y) = vs_hist s @ new \<and> proj (ev_capture fd) new = [Taken b]
      | Done st \<Rightarrow> st = KBX_STATUS_ERR_IO \<and> ends_failed fd (snd y)
      | _ \<Rightarrow> True)"

lemma dequeue_outcome_prefix:
  assumes "dequeue_outcome fd s1 y" "vs_ext s1 = vs_ext s" "vs_hist s1 = vs_hist s @ new" "proj (ev_capture fd) new = []"
  shows "dequeue_outcome fd s y"
  using assms by (fastforce simp: dequeue_outcome_def split: flow.splits)

lemma dequeue_frame_outcome:
  assumes "dequeue_frame os fd s = Some y"
  shows "dequeue_outcome fd s y"
proof (rule dequeue_frame.raw_induct [where P = "\<lambda>os fd s y. dequeue_outcome fd s y", OF _ assms])
  fix df os fd s y
  assume IH: "\<And>os fd s y. df os fd s = Some y \<Longrightarrow> dequeue_outcome fd s y"
    and step: "(if \<not> fd_set_ok fd then Some (Undefined, s)
      else let r = os_select os (vs_hist s) fd; s1 = emit (EvSelect fd r) s in
        case r of
          Inl e \<Rightarrow> if e = EINTR then df os fd s1 else Some (Done KBX_STATUS_ERR_IO, s1)
        | Inr n \<Rightarrow>
            if n = 0 then Some (Done KBX_STATUS_ERR_IO, s1)
            else (case xioctl os fd (VIDIOC_DQBUF (cleared_buffer 0)) s1 of
                None \<Rightarrow> None
              | Some (Inl e, s2) \<Rightarrow> if e = EAGAIN then df os fd s2
                                  else Some (Done KBX_STATUS_ERR_IO, s2)
              | Some (Inr res, s2) \<Rightarrow> Some (Next (dequeued res), s2))) = Some y"
  let ?r = "os_select os (vs_hist s) fd" and ?q = "VIDIOC_DQBUF (cleared_buffer 0)"
  let ?s1 = "emit (EvSelect fd ?r) s"
  consider (bad) "\<not> fd_set_ok fd" "y = (Undefined, s)"
    | (intr) "?r = Inl EINTR" "df os fd ?s1 = Some y"
    | (stop) "y = (Done KBX_STATUS_ERR_IO, ?s1)" "failed fd (EvSelect fd ?r)"
    | (dq) r s2 where "xioctl os fd ?q ?s1 = Some (r, s2)"
        "(case r of Inl e \<Rightarrow> if e = EAGAIN then df os fd s2 else Some (Done KBX_STATUS_ERR_IO, s2)
          | Inr res \<Rightarrow> Some (Next (dequeued res), s2)) = Some y"
    using step by (auto simp: Let_def split: if_splits sum.splits option.splits)
  then show "dequeue_outcome fd s y"
  proof cases
    case bad
    then show ?thesis by (simp add: dequeue_outcome_def)
  next
    case intr
    from IH [OF intr(2)] show ?thesis
      by (rule dequeue_outcome_prefix [where new = "[EvSelect fd ?r]"]) simp_all
  next
    case stop
    then show ?thesis by (auto simp: dequeue_outcome_def ends_failed_def)
  next
    case dq
    from xioctl_result [OF dq(1)] obtain n where n: "r \<noteq> Inl EINTR" "vs_ext s2 = vs_ext s"
      "vs_hist s2 = (vs_hist s @ EvSelect fd ?r # replicate n (EvIoctl fd ?q (Inl EINTR))) @ [EvIoctl fd ?q r]"
      by auto
    define new where "new = EvSelect fd ?r # replicate n (EvIoctl fd ?q (Inl EINTR)) @ [EvIoctl fd ?q r]"
    have new: "vs_hist s2 = vs_hist s @ new" "proj (ev_capture fd) new = ev_capture fd (EvIoctl fd ?q r)"
      using n(3) by (simp_all add: new_def)
    show ?thesis
    proof (cases r)
      case (Inl e)
      show ?thesis
      proof (cases "e = EAGAIN")
        case True
        with dq(2) Inl have "df os fd s2 = Some y" by simp
        from dequeue_outcome_prefix [OF IH [OF this] n(2) new(1)] new(2) Inl show ?thesis by simp
      next
        case False
        have "ends_failed fd s2" unfolding ends_failed_def n(3) using n(1) Inl False by auto
        then show ?thesis using dq(2) Inl n False by (auto simp: dequeue_outcome_def)
      qed
    next
      case (Inr res)
      with dq(2) n(2) new show ?thesis by (auto simp: dequeue_outcome_def)
    qed
  qed
qed

text \<open>
  What may be done to store a frame of \<open>n\<close> bytes at \<open>p\<close>: the file cannot be opened, or it is written, whatever
  part of it, and closed; a JPEG is piped to the encoder, or stored as it is when it is one already or there is
  no encoder.
\<close>

definition raw_output :: "string \<Rightarrow> ptr option \<Rightarrow> u32 \<Rightarrow> sys_event list \<Rightarrow> bool" where
  "raw_output path p n out \<longleftrightarrow> (\<exists>fd < 0. out = [EvCreate path fd])
     \<or> (\<exists>fd \<ge> 0. \<exists>rz. out = [EvCreate path fd, EvWrite fd p (scast n) rz, EvClose fd])"

definition jpeg_output :: "string \<Rightarrow> u32 \<Rightarrow> u32 \<Rightarrow> ptr option \<Rightarrow> u32 \<Rightarrow> sys_event list \<Rightarrow> bool" where
  "jpeg_output path w h p n out \<longleftrightarrow> raw_output path p n out
     \<or> (\<exists>fmt raw. out = EvPopen (snprintf 512 (jpeg_command path w h fmt)) False # raw \<and> raw_output path p n raw)
     \<or> (\<exists>fmt k st. out = [EvPopen (snprintf 512 (jpeg_command path w h fmt)) True, EvPipe p (scast n) k, EvPclose st])"

definition frame_output :: "string \<Rightarrow> kbx_v4l2_init_params \<Rightarrow> string \<Rightarrow> ptr option \<Rightarrow> u32 \<Rightarrow> sys_event list \<Rightarrow> bool" where
  "frame_output extension params path p n out \<longleftrightarrow>
     (if extension = ''jpg'' then jpeg_output path (ip_width params) (ip_height params) p n out else raw_output path p n out)"

lemma raw_output_proj: "raw_output path p n out \<Longrightarrow> proj (ev_capture d) out = map Output out"
  by (auto simp: raw_output_def)

lemma frame_output_proj: "frame_output extension params path p n out \<Longrightarrow> proj (ev_capture d) out = map Output out"
  by (auto simp: frame_output_def jpeg_output_def raw_output_proj split: if_splits)

lemma save_frame_output:
  "\<exists>out. vs_hist (save_frame os path p n s) = vs_hist s @ out \<and> raw_output path p n out \<and> vs_ext (save_frame os path p n s) = vs_ext s"
proof (cases "os_create os (vs_hist s) path < 0")
  case True
  then show ?thesis by (simp add: save_frame_def raw_output_def Let_def)
next
  case False
  then show ?thesis by (auto simp: save_frame_def raw_output_def Let_def)
qed

lemma save_frame_as_jpeg_output:
  "\<exists>out. vs_hist (save_frame_as_jpeg os path p n w h fmt s) = vs_hist s @ out \<and> jpeg_output path w h p n out
    \<and> vs_ext (save_frame_as_jpeg os path p n w h fmt s) = vs_ext s"
proof -
  let ?cmd = "snprintf 512 (jpeg_command path w h fmt)"
  consider "fmt = V4L2_PIX_FMT_MJPEG" | "fmt \<noteq> V4L2_PIX_FMT_MJPEG" "os_popen os (vs_hist s) ?cmd"
    | "fmt \<noteq> V4L2_PIX_FMT_MJPEG" "\<not> os_popen os (vs_hist s) ?cmd" by blast
  then show ?thesis
  proof cases
    case 1
    then show ?thesis using save_frame_output [of os path p n s] by (auto simp: save_frame_as_jpeg_def jpeg_output_def)
  next
    case 2
    then show ?thesis by (auto simp: save_frame_as_jpeg_def jpeg_output_def Let_def)
  next
    case 3
    then show ?thesis using save_frame_output [of os path p n "emit (EvPopen ?cmd False) s"]
      by (auto simp: save_frame_as_jpeg_def jpeg_output_def Let_def)
  qed
qed

definition buffer_start :: "kbx_v4l2_device \<Rightarrow> u32 \<Rightarrow> ptr option" where
  "buffer_start device i = (case vd_buffers device of None \<Rightarrow> None | Some (p, buffers) \<Rightarrow> kb_start (buffers ! unat i))"

lemma buffer_at_Next:
  "buffer_at device i s = Some (Next b, s1) \<Longrightarrow> s1 = s \<and> kb_start b = buffer_start device i"
  by (auto simp: buffer_at_def vundef_def vret_def arr_get_def buffer_start_def split: option.splits if_splits)

lemma store_frame_Next:
  assumes "store_frame os device params i b s = Some (Next u, s1)"
  shows "vs_ext s1 = vs_ext s \<and> (\<exists>new out. vs_hist s1 = vs_hist s @ new \<and> proj (ev_capture d) new = map Output out
    \<and> frame_output (vs_ext s) params (frame_name i (vs_ext s)) (buffer_start device (vb_index b)) (vb_bytesused b) out)"
proof (cases "vs_ext s = ''jpg''")
  case True
  let ?g = "EvIoctl (vd_fd device) (VIDIOC_G_FMT cleared_format)"
  from assms True obtain kb fmt r where kb: "buffer_at device (vb_index b) (emit (?g r) s) = Some (Next kb, emit (?g r) s)"
    and s1: "s1 = save_frame_as_jpeg os (frame_name i (vs_ext s)) (kb_start kb) (vb_bytesused b) (ip_width params)
      (ip_height params) fmt (emit (?g r) s)"
    by (auto simp: store_frame_def vbind_Next vext_def plain_ioctl_def vrun_def Let_def dest: buffer_at_Next)
  have g: "ev_capture d (?g r) = []" by (cases r) simp_all
  from save_frame_as_jpeg_output [of os "frame_name i (vs_ext s)" "kb_start kb" "vb_bytesused b" "ip_width params"
      "ip_height params" fmt "emit (?g r) s"] s1 True obtain out where out: "vs_hist s1 = vs_hist s @ ?g r # out" "vs_ext s1 = vs_ext s"
    "frame_output (vs_ext s) params (frame_name i (vs_ext s)) (kb_start kb) (vb_bytesused b) out"
    by (auto simp: frame_output_def)
  then show ?thesis using g frame_output_proj [OF out(3)] buffer_at_Next [OF kb]
    by (intro conjI exI [of _ "?g r # out"] exI [of _ out]) simp_all
next
  case False
  with assms obtain kb where kb: "buffer_at device (vb_index b) s = Some (Next kb, s)"
    and s1: "s1 = save_frame os (frame_name i (vs_ext s)) (kb_start kb) (vb_bytesused b) s"
    by (auto simp: store_frame_def vbind_Next vext_def vrun_def Let_def dest: buffer_at_Next)
  from save_frame_output [of os "frame_name i (vs_ext s)" "kb_start kb" "vb_bytesused b" s] s1 False
  obtain out where out: "vs_hist s1 = vs_hist s @ out" "vs_ext s1 = vs_ext s"
    "frame_output (vs_ext s) params (frame_name i (vs_ext s)) (kb_start kb) (vb_bytesused b) out"
    by (auto simp: frame_output_def)
  then show ?thesis using frame_output_proj [OF out(3)] buffer_at_Next [OF kb] by auto
qed

lemma store_frame_returns: "store_frame os device params i b s \<noteq> Some (Done st, s1)"
  by (auto simp: store_frame_def vbind_def vext_def plain_ioctl_def vrun_def buffer_at_def vundef_def vret_def Let_def
      split: option.splits flow.splits if_splits)

lemma requeue_frame_Next:
  assumes "requeue_frame os fd b s = Some (Next u, s1)"
  shows "vs_ext s1 = vs_ext s \<and> (\<exists>new. vs_hist s1 = vs_hist s @ new \<and> proj (ev_capture fd) new = [Queued b])"
proof -
  from assms obtain res where q: "vioctl os fd (VIDIOC_QBUF b) s = Some (Next (Inr res), s1)"
    by (auto simp: requeue_frame_def vbind_Next)
  from vioctl_Next [OF q] obtain n where n: "vs_ext s1 = vs_ext s" "vs_hist s1 = vs_hist s
      @ replicate n (EvIoctl fd (VIDIOC_QBUF b) (Inl EINTR)) @ [EvIoctl fd (VIDIOC_QBUF b) (Inr res)]"
    by metis
  then show ?thesis
    by (intro conjI exI [of _ "replicate n (EvIoctl fd (VIDIOC_QBUF b) (Inl EINTR))
        @ [EvIoctl fd (VIDIOC_QBUF b) (Inr res)]"]) simp_all
qed

lemma vioctl_failed:
  assumes "vioctl os fd req s = Some (Next (Inl e), s1)" "\<forall>b. req \<noteq> VIDIOC_DQBUF b"
  shows "ends_failed fd s1"
  using vioctl_Next [OF assms(1)] assms(2) by (metis append_assoc ends_failed_def failed.simps(2))

lemma requeue_frame_Done:
  assumes "requeue_frame os fd b s = Some (Done st, s1)"
  shows "st = KBX_STATUS_ERR_IO \<and> ends_failed fd s1"
proof -
  from assms obtain e where "vioctl os fd (VIDIOC_QBUF b) s = Some (Next (Inl e), s1)" and st: "st = KBX_STATUS_ERR_IO"
    by (auto simp: requeue_frame_def vbind_def vret_def vdone_def vioctl_def split: option.splits flow.splits sum.splits)
  from vioctl_failed [OF this(1)] st show ?thesis by simp
qed

text \<open>
  The calls of whole frames: each is taken from the driver, stored under its name, and given back, in this order,
  before the next is taken.
\<close>

definition frame_calls :: "v4l2_buffer \<times> sys_event list \<Rightarrow> capture_ev list" where
  "frame_calls f = Taken (fst f) # map Output (snd f) @ [Queued (fst f)]"

definition frames_stored ::
  "string \<Rightarrow> kbx_v4l2_device \<Rightarrow> kbx_v4l2_init_params \<Rightarrow> (nat \<Rightarrow> string) \<Rightarrow> (v4l2_buffer \<times> sys_event list) list \<Rightarrow> bool" where
  "frames_stored extension device params name frames \<longleftrightarrow> (\<forall>k < length frames.
     frame_output extension params (name k) (buffer_start device (vb_index (fst (frames ! k))))
       (vb_bytesused (fst (frames ! k))) (snd (frames ! k)))"

lemma capture_frame_Next:
  assumes "capture_frame os device params i s = Some (Next u, s1)"
  shows "vs_ext s1 = vs_ext s \<and> (\<exists>new f. vs_hist s1 = vs_hist s @ new \<and> proj (ev_capture (vd_fd device)) new = frame_calls f
    \<and> frame_output (vs_ext s) params (frame_name i (vs_ext s)) (buffer_start device (vb_index (fst f))) (vb_bytesused (fst f)) (snd f))"
proof -
  let ?d = "vd_fd device"
  from assms obtain b sa sb where d: "dequeue_frame os ?d s = Some (Next b, sa)"
    and st: "store_frame os device params i b sa = Some (Next (), sb)" and q: "requeue_frame os ?d b sb = Some (Next u, s1)"
    by (auto simp: capture_frame_def vbind_Next)
  from dequeue_frame_outcome [OF d] obtain na where na: "vs_ext sa = vs_ext s" "vs_hist sa = vs_hist s @ na"
    "proj (ev_capture ?d) na = [Taken b]" by (auto simp: dequeue_outcome_def)
  from store_frame_Next [OF st, of ?d] obtain nb out where nb: "vs_ext sb = vs_ext sa" "vs_hist sb = vs_hist sa @ nb"
    "proj (ev_capture ?d) nb = map Output out"
    "frame_output (vs_ext sa) params (frame_name i (vs_ext sa)) (buffer_start device (vb_index b)) (vb_bytesused b) out" by blast
  from requeue_frame_Next [OF q] obtain nc where nc: "vs_ext s1 = vs_ext sb" "vs_hist s1 = vs_hist sb @ nc"
    "proj (ev_capture ?d) nc = [Queued b]" by blast
  show ?thesis using na nb nc
    by (intro conjI exI [of _ "na @ nb @ nc"] exI [of _ "(b, out)"]) (simp_all add: frame_calls_def)
qed

lemma capture_frame_Done:
  assumes "capture_frame os device params i s = Some (Done st, s1)"
  shows "st = KBX_STATUS_ERR_IO \<and> ends_failed (vd_fd device) s1"
proof -
  let ?d = "vd_fd device"
  consider "dequeue_frame os ?d s = Some (Done st, s1)" | b sb where "requeue_frame os ?d b sb = Some (Done st, s1)"
    using assms store_frame_returns
    by (auto simp: capture_frame_def vbind_def split: option.splits flow.splits)
  then show ?thesis
    using dequeue_frame_outcome requeue_frame_Done by cases (fastforce simp: dequeue_outcome_def)+
qed

definition loop_outcome ::
  "kbx_v4l2_device \<Rightarrow> kbx_v4l2_init_params \<Rightarrow> u32 \<Rightarrow> u32 \<Rightarrow> v4l2_sys \<Rightarrow> unit flow \<times> v4l2_sys \<Rightarrow> bool" where
  "loop_outcome device params count i s y \<longleftrightarrow>
     (case fst y of
        Next _ \<Rightarrow> count \<noteq> 0 \<and> (i \<le> count \<longrightarrow> vs_ext (snd y) = vs_ext s \<and> (\<exists>new frames.
          vs_hist (snd y) = vs_hist s @ new \<and> length frames = unat count - unat i
          \<and> proj (ev_capture (vd_fd device)) new = concat (map frame_calls frames)
          \<and> frames_stored (vs_ext s) device params (\<lambda>k. frame_name (i + of_nat k) (vs_ext s)) frames))
      | Done st \<Rightarrow> st = KBX_STATUS_ERR_IO \<and> ends_failed (vd_fd device) (snd y)
      | _ \<Rightarrow> True)"

lemma frames_stored_Cons:
  assumes "frame_output ext params (name 0) (buffer_start device (vb_index (fst f))) (vb_bytesused (fst f)) (snd f)"
    and "frames_stored ext device params (\<lambda>k. name (Suc k)) fs"
  shows "frames_stored ext device params name (f # fs)"
  using assms by (auto simp: frames_stored_def nth_Cons split: nat.split)

lemma loop_outcome_step:
  assumes f: "capture_frame os device params i s = Some (Next (), s1)" and go: "count = 0 \<or> i < count"
    and rest: "loop_outcome device params count (i + 1) s1 y"
  shows "loop_outcome device params count i s y"
proof (cases "fst y")
  case (Next u)
  have c: "count \<noteq> 0" using rest Next by (simp add: loop_outcome_def)
  with go have lt: "i < count" by simp
  then have n: "unat (i + 1) = unat i + 1"
    using unat_u32_bound [of count] by (intro unat_Suc_u32) (simp add: word_less_nat_alt)
  with lt have le: "i + 1 \<le> count" by (simp add: word_less_nat_alt word_le_nat_alt)
  from capture_frame_Next [OF f] obtain new1 fr where one: "vs_ext s1 = vs_ext s" "vs_hist s1 = vs_hist s @ new1"
    "proj (ev_capture (vd_fd device)) new1 = frame_calls fr"
    "frame_output (vs_ext s) params (frame_name i (vs_ext s)) (buffer_start device (vb_index (fst fr))) (vb_bytesused (fst fr)) (snd fr)"
    by blast
  from rest Next le one(1) obtain new2 frames where two: "vs_ext (snd y) = vs_ext s" "vs_hist (snd y) = vs_hist s1 @ new2"
    "length frames = unat count - unat (i + 1)" "proj (ev_capture (vd_fd device)) new2 = concat (map frame_calls frames)"
    "frames_stored (vs_ext s) device params (\<lambda>k. frame_name (i + 1 + of_nat k) (vs_ext s)) frames"
    by (auto simp: loop_outcome_def)
  have "frames_stored (vs_ext s) device params (\<lambda>k. frame_name (i + of_nat k) (vs_ext s)) (fr # frames)"
    by (rule frames_stored_Cons) (use one(4) two(5) in \<open>simp_all add: ac_simps\<close>)
  moreover have "length (fr # frames) = unat count - unat i" using two(3) n lt by (simp add: word_less_nat_alt)
  ultimately show ?thesis
    unfolding loop_outcome_def using Next c one(2,3) two(1,2,4)
    by (simp, intro impI exI [of _ "new1 @ new2"] exI [of _ "fr # frames"]) simp
qed (use rest in \<open>simp_all add: loop_outcome_def\<close>)

lemma capture_loop_outcome:
  assumes "capture_loop os device params count i s = Some y"
  shows "loop_outcome device params count i s y"
proof (rule capture_loop.raw_induct [where P = "\<lambda>os device params count i s y. loop_outcome device params count i s y",
      OF _ assms])
  fix cl os device params count i s y
  assume IH: "\<And>os device params count i s y. cl os device params count i s = Some y \<Longrightarrow> loop_outcome device params count i s y"
    and step: "(if count = 0 \<or> i < count then
        (case capture_frame os device params i s of
           None \<Rightarrow> None
         | Some (Next _, s1) \<Rightarrow> cl os device params count (i + 1) s1
         | Some (Done st, s1) \<Rightarrow> Some (Done st, s1)
         | Some (Exit c, s1) \<Rightarrow> Some (Exit c, s1)
         | Some (Undefined, s1) \<Rightarrow> Some (Undefined, s1))
      else Some (Next (), s)) = Some y"
  show "loop_outcome device params count i s y"
  proof (cases "count = 0 \<or> i < count")
    case False
    with step show ?thesis
      by (auto simp: loop_outcome_def frames_stored_def word_less_nat_alt intro!: exI [of _ "[]"])
  next
    case go: True
    show ?thesis
    proof (cases "\<exists>s1. capture_frame os device params i s = Some (Next (), s1)")
      case False
      with step go capture_frame_Done [of os device params i s] show ?thesis
        by (auto simp: loop_outcome_def split: option.splits flow.splits)
    next
      case True
      then obtain s1 where f: "capture_frame os device params i s = Some (Next (), s1)" by blast
      with step go have "cl os device params count (i + 1) s1 = Some y" by simp
      then show ?thesis using loop_outcome_step [OF f go IH] by blast
    qed
  qed
qed

lemma start_capture_outcome:
  assumes "kbx_v4l2_start_capture os device params s = Some (out, s1)" "returned out = Some status"
  shows "status = KBX_STATUS_SUCCESS \<and> ip_frame_count params \<noteq> 0 \<and> (\<exists>new frames. vs_hist s1 = vs_hist s @ new
       \<and> length frames = unat (ip_frame_count params)
       \<and> proj (ev_capture (vd_fd device)) new = Streaming True # concat (map frame_calls frames)
       \<and> frames_stored (vs_ext s) device params (\<lambda>k. frame_name (of_nat k) (vs_ext s)) frames)
    \<or> status = KBX_STATUS_ERR_IO \<and> ends_failed (vd_fd device) s1"
proof -
  let ?q = "VIDIOC_STREAMON V4L2_BUF_TYPE_VIDEO_CAPTURE" and ?d = "vd_fd device"
  obtain r sa where on: "vioctl os ?d ?q s = Some (Next r, sa)"
    using assms(1) by (auto simp: kbx_v4l2_start_capture_def vbind_def vioctl_def split: option.splits)
  show ?thesis
  proof (cases r)
    case (Inl e)
    with on assms have "status = KBX_STATUS_ERR_IO" "s1 = sa"
      by (auto simp: kbx_v4l2_start_capture_def vbind_def vdone_def)
    then show ?thesis using vioctl_failed [OF on [unfolded Inl]] by simp
  next
    case (Inr res)
    from vioctl_Next [OF on] Inr obtain m where m: "vs_ext sa = vs_ext s" "vs_hist sa = vs_hist s
        @ replicate m (EvIoctl ?d ?q (Inl EINTR)) @ [EvIoctl ?d ?q (Inr res)]" by metis
    from on Inr assms(1) obtain y where l: "capture_loop os device params (ip_frame_count params) 0 sa = Some y"
      and out: "(out, s1) = (case fst y of Next _ \<Rightarrow> (Next KBX_STATUS_SUCCESS, snd y) | Done st \<Rightarrow> (Done st, snd y)
        | Exit c \<Rightarrow> (Exit c, snd y) | Undefined \<Rightarrow> (Undefined, snd y))"
      by (auto simp: kbx_v4l2_start_capture_def vbind_def vret_def split: option.splits flow.splits)
    show ?thesis
    proof (cases "fst y")
      case (Next u)
      with capture_loop_outcome [OF l] m(1) obtain new frames where n: "ip_frame_count params \<noteq> 0" "vs_hist (snd y) = vs_hist sa @ new"
        "length frames = unat (ip_frame_count params)" "proj (ev_capture ?d) new = concat (map frame_calls frames)"
        "frames_stored (vs_ext s) device params (\<lambda>k. frame_name (of_nat k) (vs_ext s)) frames"
        by (auto simp: loop_outcome_def)
      then show ?thesis using Next out assms(2) m(2)
        by (intro disjI1 conjI exI [of _ "replicate m (EvIoctl ?d ?q (Inl EINTR)) @ [EvIoctl ?d ?q (Inr res)] @ new"]
            exI [of _ frames]) simp_all
    qed (use capture_loop_outcome [OF l] out assms(2) in \<open>simp_all add: loop_outcome_def\<close>)
  qed
qed

section \<open>A driver that serves a stream\<close>

text \<open>The driver as its calls leave it: whether it streams, and the buffers queued with it.\<close>

fun cam_step :: "capture_ev \<Rightarrow> bool \<times> u32 list \<Rightarrow> bool \<times> u32 list" where
  "cam_step (Streaming on) (_, q) = (on, if on then q else [])"
| "cam_step (Taken b) (on, q) = (on, remove1 (vb_index b) q)"
| "cam_step (Queued b) (on, q) = (on, q @ [vb_index b])"
| "cam_step (Output e) c = c"

definition camera_after :: "int \<Rightarrow> sys_event list \<Rightarrow> bool \<times> u32 list" where
  "camera_after d h = fold cam_step (proj (ev_capture d) h) (False, [])"

text \<open>Answers that make the loop try again.\<close>

fun retry_ev :: "int \<Rightarrow> sys_event \<Rightarrow> bool" where
  "retry_ev d (EvSelect fd (Inl e)) \<longleftrightarrow> fd = d \<and> e = EINTR"
| "retry_ev d (EvSelect fd (Inr n)) \<longleftrightarrow> fd = d"
| "retry_ev d (EvIoctl fd (VIDIOC_DQBUF b) (Inl e)) \<longleftrightarrow> fd = d \<and> (e = EINTR \<or> e = EAGAIN)"
| "retry_ev d _ \<longleftrightarrow> False"

definition accepts :: "v4l2_os \<Rightarrow> sys_event list \<Rightarrow> int \<Rightarrow> vreq \<Rightarrow> bool" where
  "accepts os h d req \<longleftrightarrow> (\<exists>N res. os_ioctl os (h @ replicate N (EvIoctl d req (Inl EINTR))) d req = Inr res
     \<and> (\<forall>m < N. os_ioctl os (h @ replicate m (EvIoctl d req (Inl EINTR))) d req = Inl EINTR))"

text \<open>
  What the interface documents of a streaming device with \<open>n\<close> buffers: waiting for a frame may be interrupted, and
  a frame that was announced may not be there yet, but not for ever; a frame comes in a queued buffer; a buffer that
  is not queued can be queued, and the stream switched on, after finitely many interrupts.
\<close>

definition serves :: "v4l2_os \<Rightarrow> int \<Rightarrow> nat \<Rightarrow> bool" where
  "serves os d n \<longleftrightarrow>
     (\<forall>h q. camera_after d h = (True, q) \<and> q \<noteq> [] \<longrightarrow>
        (os_select os h d = Inl EINTR \<or> (\<exists>k > 0. os_select os h d = Inr k))
      \<and> (os_ioctl os h d (VIDIOC_DQBUF (cleared_buffer 0)) \<in> {Inl EINTR, Inl EAGAIN}
         \<or> (\<exists>res. os_ioctl os h d (VIDIOC_DQBUF (cleared_buffer 0)) = Inr res \<and> vb_index (dequeued res) \<in> set q))
      \<and> (\<exists>N. \<forall>w. list_all (retry_ev d) w \<and> N \<le> length w \<longrightarrow> os_select os (h @ w) d \<noteq> Inl EINTR
           \<and> os_ioctl os (h @ w) d (VIDIOC_DQBUF (cleared_buffer 0)) \<notin> {Inl EINTR, Inl EAGAIN}))
   \<and> (\<forall>h q b. camera_after d h = (True, q) \<and> unat (vb_index b) < n \<and> vb_index b \<notin> set q \<longrightarrow>
        accepts os h d (VIDIOC_QBUF b))
   \<and> (\<forall>h q. camera_after d h = (False, q) \<longrightarrow> accepts os h d (VIDIOC_STREAMON V4L2_BUF_TYPE_VIDEO_CAPTURE))"

lemma retry_ev_capture: "retry_ev d e \<Longrightarrow> ev_capture d e = []"
  by (cases "(d, e)" rule: retry_ev.cases) auto

lemma retries_proj: "list_all (retry_ev d) w \<Longrightarrow> proj (ev_capture d) w = []"
  by (induction w) (simp_all add: retry_ev_capture)

lemma camera_after_append: "camera_after d (h @ new) = fold cam_step (proj (ev_capture d) new) (camera_after d h)"
  by (simp add: camera_after_def)

lemma camera_outputs: "fold cam_step (map Output out) c = c"
  by (induction out) simp_all

lemma xioctl_accepts:
  assumes "accepts os (vs_hist s) d req"
  shows "\<exists>res s1. xioctl os d req s = Some (Inr res, s1)"
proof -
  have "os_ioctl os (vs_hist s @ replicate N (EvIoctl d req (Inl EINTR))) d req = Inr res \<Longrightarrow>
    \<forall>m < N. os_ioctl os (vs_hist s @ replicate m (EvIoctl d req (Inl EINTR))) d req = Inl EINTR \<Longrightarrow>
    \<exists>res s1. xioctl os d req s = Some (Inr res, s1)" for N res
  proof (induction N arbitrary: s)
    case 0
    then show ?case by (subst xioctl.simps) (simp add: Let_def)
  next
    case (Suc N)
    let ?s = "emit (EvIoctl d req (Inl EINTR)) s"
    have "os_ioctl os (vs_hist s) d req = Inl EINTR" using spec [OF Suc.prems(2), of 0] by simp
    moreover have "\<exists>res s1. xioctl os d req ?s = Some (Inr res, s1)"
    proof (rule Suc.IH)
      show "os_ioctl os (vs_hist ?s @ replicate N (EvIoctl d req (Inl EINTR))) d req = Inr res"
        using Suc.prems(1) by simp
      show "\<forall>m < N. os_ioctl os (vs_hist ?s @ replicate m (EvIoctl d req (Inl EINTR))) d req = Inl EINTR"
        using Suc.prems(2) by (auto dest: spec [of _ "Suc m" for m])
    qed
    ultimately show ?case by (subst xioctl.simps) (simp add: Let_def)
  qed
  then show ?thesis using assms by (auto simp: accepts_def)
qed

lemma requeue_serves:
  assumes "accepts os (vs_hist s) fd (VIDIOC_QBUF b)"
  shows "\<exists>s1. requeue_frame os fd b s = Some (Next (), s1)"
  using xioctl_accepts [OF assms] by (auto simp: requeue_frame_def vbind_Next vioctl_def)

text \<open>While the driver serves \<open>q\<close>, a round of the waiting loop takes a frame of \<open>q\<close> or adds retries, fewer than \<open>N\<close>.\<close>

definition waits :: "v4l2_os \<Rightarrow> int \<Rightarrow> u32 list \<Rightarrow> nat \<Rightarrow> sys_event list \<Rightarrow> bool" where
  "waits os d q N h \<longleftrightarrow> (\<forall>w. list_all (retry_ev d) w \<longrightarrow>
     (if os_select os (h @ w) d = Inl EINTR then length w < N else \<exists>k > 0. os_select os (h @ w) d = Inr k)
     \<and> (if os_ioctl os (h @ w) d (VIDIOC_DQBUF (cleared_buffer 0)) \<in> {Inl EINTR, Inl EAGAIN} then length w < N
        else \<exists>res. os_ioctl os (h @ w) d (VIDIOC_DQBUF (cleared_buffer 0)) = Inr res \<and> vb_index (dequeued res) \<in> set q))"

lemma serves_waits:
  assumes "serves os d n" "camera_after d h = (True, q)" "q \<noteq> []"
  shows "\<exists>N. waits os d q N h"
proof -
  obtain N where N: "\<And>w. list_all (retry_ev d) w \<Longrightarrow> N \<le> length w \<Longrightarrow> os_select os (h @ w) d \<noteq> Inl EINTR
      \<and> os_ioctl os (h @ w) d (VIDIOC_DQBUF (cleared_buffer 0)) \<notin> {Inl EINTR, Inl EAGAIN}"
    using assms unfolding serves_def by meson
  have "camera_after d (h @ w) = (True, q)" if "list_all (retry_ev d) w" for w
    using that assms(2) by (simp add: camera_after_append retries_proj)
  then have "(os_select os (h @ w) d = Inl EINTR \<or> (\<exists>k > 0. os_select os (h @ w) d = Inr k))
      \<and> (os_ioctl os (h @ w) d (VIDIOC_DQBUF (cleared_buffer 0)) \<in> {Inl EINTR, Inl EAGAIN}
      \<or> (\<exists>res. os_ioctl os (h @ w) d (VIDIOC_DQBUF (cleared_buffer 0)) = Inr res \<and> vb_index (dequeued res) \<in> set q))"
    if "list_all (retry_ev d) w" for w
    using that assms(1,3) unfolding serves_def by blast
  then show ?thesis unfolding waits_def using N by (metis not_le)
qed

lemma dequeue_round:
  assumes "waits os d q N h" "fd_set_ok d" "vs_hist s = h @ w" "list_all (retry_ev d) w"
  shows "(\<exists>b s1. dequeue_frame os d s = Some (Next b, s1) \<and> vb_index b \<in> set q)
    \<or> length w < N \<and> (\<exists>w1 s1. vs_hist s1 = h @ w @ w1 \<and> w1 \<noteq> [] \<and> list_all (retry_ev d) (w @ w1)
        \<and> dequeue_frame os d s = dequeue_frame os d s1)"
proof -
  let ?q = "VIDIOC_DQBUF (cleared_buffer 0)" and ?r = "os_select os (vs_hist s) d"
  let ?s1 = "emit (EvSelect d ?r) s" and ?w = "w @ [EvSelect d ?r]"
  have r: "if ?r = Inl EINTR then length w < N else \<exists>k > 0. ?r = Inr k"
    using assms(1,3,4) by (simp add: waits_def)
  then have w1: "list_all (retry_ev d) ?w" "vs_hist ?s1 = h @ ?w" using assms(3,4) by (auto split: if_splits)
  show ?thesis
  proof (cases "?r = Inl EINTR")
    case True
    then have "dequeue_frame os d s = dequeue_frame os d ?s1" using assms(2) by (subst dequeue_frame.simps) (simp add: Let_def)
    then show ?thesis using True r w1 by (intro disjI2 conjI exI [of _ "[EvSelect d ?r]"] exI [of _ ?s1]) simp_all
  next
    case False
    then obtain k where k: "?r = Inr k" "0 < k" using r by auto
    have retries: "list_all (retry_ev d) (?w @ replicate m (EvIoctl d ?q (Inl EINTR)))" for m
      using w1(1) by (auto simp: list_all_iff)
    have "os_ioctl os (vs_hist ?s1 @ replicate N (EvIoctl d ?q (Inl EINTR))) d ?q \<noteq> Inl EINTR"
      using assms(1) retries [of N] unfolding waits_def w1(2) append_assoc by (fastforce split: if_splits)
    then have "xioctl os d ?q ?s1 \<noteq> None" by (rule xioctl_answers)
    then obtain x s2 where x: "xioctl os d ?q ?s1 = Some (x, s2)" by auto
    from xioctl_outcome [OF x] obtain m where m: "x \<noteq> Inl EINTR"
      "vs_hist s2 = h @ (?w @ replicate m (EvIoctl d ?q (Inl EINTR))) @ [EvIoctl d ?q x]"
      "os_ioctl os (h @ ?w @ replicate m (EvIoctl d ?q (Inl EINTR))) d ?q = x"
      using w1(2) by (auto simp: ioctl_outcome_def)
    have "if x \<in> {Inl EINTR, Inl EAGAIN} then length (?w @ replicate m (EvIoctl d ?q (Inl EINTR))) < N
        else \<exists>res. x = Inr res \<and> vb_index (dequeued res) \<in> set q"
      using assms(1) retries [of m] m(3) unfolding waits_def by blast
    then consider "x = Inl EAGAIN" "length w < N" | res where "x = Inr res" "vb_index (dequeued res) \<in> set q"
      using m(1) by (auto split: if_splits)
    then show ?thesis
    proof cases
      case 1
      then have "dequeue_frame os d s = dequeue_frame os d s2" using k x assms(2) by (subst dequeue_frame.simps) (simp add: Let_def)
      then show ?thesis using 1 m(2) retries [of m]
        by (intro disjI2 conjI exI [of _ "[EvSelect d ?r] @ replicate m (EvIoctl d ?q (Inl EINTR)) @ [EvIoctl d ?q x]"]
            exI [of _ s2]) simp_all
    next
      case 2
      then show ?thesis using k x assms(2) by (subst dequeue_frame.simps) (simp add: Let_def)
    qed
  qed
qed

lemma dequeue_frame_serves:
  assumes "serves os d n" "fd_set_ok d" "camera_after d (vs_hist s) = (True, q)" "q \<noteq> []"
  shows "\<exists>b s1. dequeue_frame os d s = Some (Next b, s1) \<and> vb_index b \<in> set q"
proof -
  obtain N where N: "waits os d q N (vs_hist s)" using serves_waits [OF assms(1,3,4)] by blast
  have "\<exists>b s1. dequeue_frame os d s' = Some (Next b, s1) \<and> vb_index b \<in> set q"
    if "vs_hist s' = vs_hist s @ w" "list_all (retry_ev d) w" for s' w
    using that
  proof (induction "N - length w" arbitrary: s' w rule: less_induct)
    case less
    from dequeue_round [OF N assms(2) less.prems] show ?case
    proof (elim disjE conjE exE)
      fix w1 s1
      assume "length w < N" "vs_hist s1 = vs_hist s @ w @ w1" "w1 \<noteq> []" "list_all (retry_ev d) (w @ w1)"
        and eq: "dequeue_frame os d s' = dequeue_frame os d s1"
      then show ?thesis unfolding eq by (intro less.hyps [where w = "w @ w1"]) (auto simp: length_greater_0_conv [symmetric] simp del: length_greater_0_conv)
    qed blast
  qed
  from this [of s "[]"] show ?thesis by simp
qed

text \<open>Between frames the driver streams and holds buffers of the device.\<close>

definition cam_ready :: "int \<Rightarrow> nat \<Rightarrow> sys_event list \<Rightarrow> bool" where
  "cam_ready d n h \<longleftrightarrow> (\<exists>q. camera_after d h = (True, q) \<and> q \<noteq> [] \<and> distinct q \<and> (\<forall>i \<in> set q. unat i < n))"

lemma capture_frame_serves:
  assumes "serves os (vd_fd device) (length buffers)" "vd_buffers device = Some (p, buffers)" "fd_set_ok (vd_fd device)"
    and "cam_ready (vd_fd device) (length buffers) (vs_hist s)" "length (vs_ext s) \<le> 3"
  shows "\<exists>s1. capture_frame os device params i s = Some (Next (), s1) \<and> vs_ext s1 = vs_ext s
    \<and> cam_ready (vd_fd device) (length buffers) (vs_hist s1)"
proof -
  let ?d = "vd_fd device" and ?n = "length buffers"
  from assms(4) obtain q where q: "camera_after ?d (vs_hist s) = (True, q)" "q \<noteq> []" "distinct q" "\<forall>i \<in> set q. unat i < ?n"
    by (auto simp: cam_ready_def)
  from dequeue_frame_serves [OF assms(1,3) q(1,2)] obtain b sa where d: "dequeue_frame os ?d s = Some (Next b, sa)"
    "vb_index b \<in> set q" by blast
  from dequeue_frame_outcome [OF d(1)] obtain na where na: "vs_ext sa = vs_ext s" "vs_hist sa = vs_hist s @ na"
    "proj (ev_capture ?d) na = [Taken b]" by (auto simp: dequeue_outcome_def)
  have i: "unat (vb_index b) < ?n" using q(4) d(2) by blast
  have "length (frame_name i (vs_ext s)) \<le> 20" using frame_name_length [of i "vs_ext s"] assms(5) by simp
  then have "\<exists>sb. store_frame os device params i b sa = Some (Next (), sb)"
    using i na(1) assms(2) by (simp add: store_frame_def vbind_Next vext_def plain_ioctl_def vrun_def buffer_at_def Let_def)
  then obtain sb where st: "store_frame os device params i b sa = Some (Next (), sb)" by blast
  from store_frame_Next [OF st, of ?d] obtain nb out where nb: "vs_hist sb = vs_hist sa @ nb" "proj (ev_capture ?d) nb = map Output out"
    by blast
  have after: "camera_after ?d (vs_hist sb) = (True, remove1 (vb_index b) q)"
    using q(1) na(3) nb(2) by (simp add: nb(1) na(2) camera_after_append camera_outputs)
  then have "accepts os (vs_hist sb) ?d (VIDIOC_QBUF b)"
    using assms(1) i q(3) unfolding serves_def by (metis set_remove1_eq Diff_iff insertI1)
  from requeue_serves [OF this] obtain s1 where "requeue_frame os ?d b sb = Some (Next (), s1)" by blast
  then have rq: "requeue_frame os ?d b sb = Some (Next (), s1)" .
  with d(1) st have run: "capture_frame os device params i s = Some (Next (), s1)" by (auto simp: capture_frame_def vbind_Next)
  from requeue_frame_Next [OF rq] obtain nc where "vs_hist s1 = vs_hist sb @ nc" "proj (ev_capture ?d) nc = [Queued b]" by blast
  then have "camera_after ?d (vs_hist s1) = (True, remove1 (vb_index b) q @ [vb_index b])"
    using after by (simp add: camera_after_append)
  then have "cam_ready ?d ?n (vs_hist s1)"
    using q(3,4) i by (auto simp: cam_ready_def dest: in_set_remove1 [THEN iffD1, rotated] set_remove1_subset [THEN subsetD])
  then show ?thesis using run capture_frame_Next [OF run] by blast
qed

lemma capture_loop_serves:
  assumes "serves os (vd_fd device) (length buffers)" "vd_buffers device = Some (p, buffers)" "fd_set_ok (vd_fd device)"
    and "count \<noteq> 0" "cam_ready (vd_fd device) (length buffers) (vs_hist s)" "length (vs_ext s) \<le> 3"
  shows "\<exists>s1. capture_loop os device params count i s = Some (Next (), s1)"
  using assms(5,6)
proof (induction "unat count - unat i" arbitrary: i s rule: less_induct)
  case less
  show ?case
  proof (cases "i < count")
    case False
    then show ?thesis using assms(4) by (subst capture_loop.simps) simp
  next
    case True
    from capture_frame_serves [OF assms(1-3) less.prems] obtain s1 where
      f: "capture_frame os device params i s = Some (Next (), s1)" "vs_ext s1 = vs_ext s"
      "cam_ready (vd_fd device) (length buffers) (vs_hist s1)" by blast
    have n: "unat (i + 1) = unat i + 1"
      using True unat_u32_bound [of count] by (intro unat_Suc_u32) (simp add: word_less_nat_alt)
    have "\<exists>s2. capture_loop os device params count (i + 1) s1 = Some (Next (), s2)"
      by (rule less.hyps) (use True n f less.prems in \<open>simp_all add: word_less_nat_alt\<close>)
    with f True show ?thesis by (subst capture_loop.simps) simp
  qed
qed

lemma start_capture_serves:
  assumes "serves os (vd_fd device) (length buffers)" "vd_buffers device = Some (p, buffers)" "fd_set_ok (vd_fd device)"
    and "camera_after (vd_fd device) (vs_hist s) = (False, q)" "q \<noteq> []" "distinct q" "\<forall>i \<in> set q. unat i < length buffers"
    and "length (vs_ext s) \<le> 3" "ip_frame_count params \<noteq> 0"
  shows "\<exists>s1. kbx_v4l2_start_capture os device params s = Some (Next KBX_STATUS_SUCCESS, s1)"
proof -
  let ?q = "VIDIOC_STREAMON V4L2_BUF_TYPE_VIDEO_CAPTURE" and ?d = "vd_fd device"
  have "accepts os (vs_hist s) ?d ?q" using assms(1,4) unfolding serves_def by blast
  from xioctl_accepts [OF this] obtain res sa where on: "vioctl os ?d ?q s = Some (Next (Inr res), sa)"
    by (auto simp: vioctl_def)
  from vioctl_Next [OF on] obtain m where m: "vs_ext sa = vs_ext s" "vs_hist sa = vs_hist s
      @ replicate m (EvIoctl ?d ?q (Inl EINTR)) @ [EvIoctl ?d ?q (Inr res)]" by metis
  have "cam_ready ?d (length buffers) (vs_hist sa)" using assms(4-7) by (simp add: cam_ready_def m(2) camera_after_append)
  from capture_loop_serves [OF assms(1-3,9) this] m(1) assms(8) on show ?thesis
    by (auto simp: kbx_v4l2_start_capture_def vbind_Next)
qed

section \<open>Properties\<close>

text \<open>
  C3: a capture that returns SUCCESS, which it does only for a positive frame count, has switched the stream on and
  then, \<open>frame_count\<close> times, taken a buffer from the driver, stored the bytes used of its mapping under the next of
  the pairwise distinct names frame1, frame2, ..., and given it back before taking the next; storing is one attempt:
  whether the file can be opened, how much of it is written and how the encoder ends has no influence. Any other
  return is ERR_IO, right after the call that failed.
\<close>

theorem v4l2_capture_saves_each_frame:
  assumes "kbx_v4l2_start_capture os device params s = Some (out, s1)" "returned out = Some status"
  shows "status = KBX_STATUS_SUCCESS \<and> ip_frame_count params \<noteq> 0
      \<and> (\<exists>new frames names. vs_hist s1 = vs_hist s @ new \<and> length frames = unat (ip_frame_count params)
         \<and> proj (ev_capture (vd_fd device)) new
            = Streaming True # concat (map (\<lambda>(b, stores). Taken b # map Output stores @ [Queued b]) frames)
         \<and> names = map (\<lambda>k. ''frame'' @ format_d (sint (of_nat k + 1 :: u32)) @ ''.'' @ vs_ext s) [0..<length frames]
         \<and> distinct names
         \<and> (\<forall>k < length frames. frame_output (vs_ext s) params (names ! k)
              (buffer_start device (vb_index (fst (frames ! k)))) (vb_bytesused (fst (frames ! k))) (snd (frames ! k))))
    \<or> status = KBX_STATUS_ERR_IO \<and> (\<exists>h e. vs_hist s1 = h @ [e] \<and> failed (vd_fd device) e)"
  using start_capture_outcome [OF assms]
proof (elim disjE conjE exE)
  fix new frames
  assume n: "status = KBX_STATUS_SUCCESS" "ip_frame_count params \<noteq> 0" "vs_hist s1 = vs_hist s @ new"
    "length frames = unat (ip_frame_count params)"
    "proj (ev_capture (vd_fd device)) new = Streaming True # concat (map frame_calls frames)"
    "frames_stored (vs_ext s) device params (\<lambda>k. frame_name (of_nat k) (vs_ext s)) frames"
  have "frame_calls = (\<lambda>(b, stores). Taken b # map Output stores @ [Queued b])" by (auto simp: frame_calls_def fun_eq_iff)
  moreover have "distinct (map (\<lambda>k. frame_name (of_nat k) (vs_ext s)) [0..<length frames])"
    unfolding n(4) by (rule frame_names_distinct) (rule unat_u32_bound)
  ultimately show ?thesis using n
    by (intro disjI1 conjI exI [of _ new] exI [of _ frames] exI [of _ "map (\<lambda>k. frame_name (of_nat k) (vs_ext s)) [0..<length frames]"])
      (simp_all add: frames_stored_def frame_name_def)
qed (simp_all add: ends_failed_def)

text \<open>
  C20: over a driver that serves a stream, with interrupts and announced frames that are not there yet but not for
  ever, a capture of a positive number of frames returns, with SUCCESS, and has stored that many frames: started
  when the stream is off and some of the device's buffers are queued, as initialisation leaves them.
\<close>

theorem v4l2_capture_returns:
  assumes "serves os (vd_fd device) (length buffers)" "vd_buffers device = Some (p, buffers)"
    and "0 \<le> vd_fd device" "vd_fd device < 1024"
    and "camera_after (vd_fd device) (vs_hist s) = (False, q)" "q \<noteq> []" "distinct q" "\<forall>i \<in> set q. unat i < length buffers"
    and "vs_ext s = ''jpg'' \<or> vs_ext s = ''raw''" "ip_frame_count params \<noteq> 0"
  shows "\<exists>s1 new frames. kbx_v4l2_start_capture os device params s = Some (Next KBX_STATUS_SUCCESS, s1)
    \<and> vs_hist s1 = vs_hist s @ new \<and> length frames = unat (ip_frame_count params)
    \<and> proj (ev_capture (vd_fd device)) new = Streaming True # concat (map frame_calls frames)
    \<and> frames_stored (vs_ext s) device params (\<lambda>k. frame_name (of_nat k) (vs_ext s)) frames"
proof -
  have "fd_set_ok (vd_fd device)" "length (vs_ext s) \<le> 3" using assms(3,4,9) by (auto simp: fd_set_ok_def)
  from start_capture_serves [OF assms(1,2) this(1) assms(5-8) this(2) assms(10)] obtain s1 where
    r: "kbx_v4l2_start_capture os device params s = Some (Next KBX_STATUS_SUCCESS, s1)" by blast
  from start_capture_outcome [OF r] r show ?thesis by auto
qed

section \<open>Examples\<close>

text \<open>A driver that interrupts every wait once, and announces every frame once too early.\<close>

definition patience :: "int \<Rightarrow> sys_event list \<Rightarrow> nat" where
  "patience d h = length (takeWhile (retry_ev d) (rev h))"

definition slow_driver :: v4l2_os where
  "slow_driver = (uvc_driver 2 2)\<lparr>
     os_select := (\<lambda>h fd. if patience 3 h = 0 then Inl EINTR else Inr 1),
     os_ioctl := (\<lambda>h fd req. case req of
         VIDIOC_DQBUF b \<Rightarrow> if patience 3 h < 4 \<or> snd (camera_after 3 h) = [] then Inl EAGAIN
           else Inr (ResBuf (b\<lparr>vb_index := hd (snd (camera_after 3 h)), vb_bytesused := 2\<rparr>))
       | _ \<Rightarrow> Inr ResNone)\<rparr>"

lemma patience_append: "list_all (retry_ev d) w \<Longrightarrow> length w \<le> patience d (h @ w)"
proof -
  assume "list_all (retry_ev d) w"
  then have "takeWhile (retry_ev d) (rev (h @ w)) = rev w @ takeWhile (retry_ev d) (rev h)"
    by (simp, intro takeWhile_append2) (simp add: list_all_iff)
  then show ?thesis by (simp add: patience_def)
qed

lemma slow_driver_serves: "serves slow_driver 3 2"
  unfolding serves_def
proof (intro conjI allI impI)
  fix h q assume q: "camera_after 3 h = (True, q) \<and> q \<noteq> []"
  show "os_select slow_driver h 3 = Inl EINTR \<or> (\<exists>k > 0. os_select slow_driver h 3 = Inr k)"
    by (auto simp: slow_driver_def)
  show "os_ioctl slow_driver h 3 (VIDIOC_DQBUF (cleared_buffer 0)) \<in> {Inl EINTR, Inl EAGAIN}
    \<or> (\<exists>res. os_ioctl slow_driver h 3 (VIDIOC_DQBUF (cleared_buffer 0)) = Inr res \<and> vb_index (dequeued res) \<in> set q)"
    using q by (auto simp: slow_driver_def dequeued_def)
  have "os_select slow_driver (h @ w) 3 \<noteq> Inl EINTR
      \<and> os_ioctl slow_driver (h @ w) 3 (VIDIOC_DQBUF (cleared_buffer 0)) \<notin> {Inl EINTR, Inl EAGAIN}"
    if w: "list_all (retry_ev 3) w \<and> 4 \<le> length w" for w
  proof -
    have "4 \<le> patience 3 (h @ w)" using w patience_append [of 3 w h] by linarith
    moreover have "camera_after 3 (h @ w) = (True, q)" using w q by (simp add: camera_after_append retries_proj)
    ultimately show ?thesis using q by (simp add: slow_driver_def)
  qed
  then show "\<exists>N. \<forall>w. list_all (retry_ev 3) w \<and> N \<le> length w \<longrightarrow> os_select slow_driver (h @ w) 3 \<noteq> Inl EINTR
      \<and> os_ioctl slow_driver (h @ w) 3 (VIDIOC_DQBUF (cleared_buffer 0)) \<notin> {Inl EINTR, Inl EAGAIN}" by blast
qed (auto simp: accepts_def slow_driver_def intro!: exI [of _ 0])

definition queued_start :: v4l2_sys where
  "queued_start = \<lparr>vs_hist = [EvIoctl 3 (VIDIOC_QBUF (cleared_buffer 0)) (Inr ResNone),
     EvIoctl 3 (VIDIOC_QBUF (cleared_buffer 1)) (Inr ResNone)], vs_ext = ''raw''\<rparr>"

theorem v4l2_capture_returns_witness:
  "\<exists>s1 new frames. kbx_v4l2_start_capture slow_driver uvc_device (sample_params ''cam'' V4L2_PIX_FMT_YUYV 3) queued_start
     = Some (Next KBX_STATUS_SUCCESS, s1) \<and> vs_hist s1 = vs_hist queued_start @ new \<and> length frames = 3
    \<and> proj (ev_capture 3) new = Streaming True # concat (map frame_calls frames)"
proof -
  have q: "camera_after (vd_fd uvc_device) (vs_hist queued_start) = (False, [0, 1])"
    by (simp add: camera_after_def queued_start_def uvc_device_def cleared_buffer_def)
  have fd: "vd_fd uvc_device = 3" "vd_buffers uvc_device = Some (0x5000, [uvc_buffer 0x10000, uvc_buffer 0x11000])"
    by (simp_all add: uvc_device_def)
  have serves: "serves slow_driver (vd_fd uvc_device) (length [uvc_buffer 0x10000, uvc_buffer 0x11000])"
    using slow_driver_serves by (simp add: fd(1) numeral_2_eq_2)
  from v4l2_capture_returns [OF serves fd(2) _ _ q, of "sample_params ''cam'' V4L2_PIX_FMT_YUYV 3"]
  show ?thesis by (auto simp: fd(1) queued_start_def sample_params_def)
qed

text \<open>A capture whose only file cannot be opened.\<close>

definition full_disk :: v4l2_os where
  "full_disk = (uvc_driver 2 2)\<lparr>os_create := \<lambda>h path. -1\<rparr>"

lemma full_disk_capture:
  "\<exists>s1. kbx_v4l2_start_capture full_disk uvc_device (sample_params ''cam'' V4L2_PIX_FMT_YUYV 1) sys_start
     = Some (Next KBX_STATUS_SUCCESS, s1)"
proof -
  have name: "format_d 1 = ''1''" by code_simp
  have "dequeue_frame full_disk 3 s = Some (Next ((cleared_buffer 0)\<lparr>vb_index := 1, vb_bytesused := 2\<rparr>),
      emit (EvIoctl 3 (VIDIOC_DQBUF (cleared_buffer 0)) (Inr (ResBuf ((cleared_buffer 0)\<lparr>vb_index := 1, vb_bytesused := 2\<rparr>))))
        (emit (EvSelect 3 (Inr 1)) s))" for s
    by (subst dequeue_frame.simps) (simp add: fd_set_ok_def full_disk_def, subst xioctl.simps, simp add: Let_def dequeued_def)
  then show ?thesis
    by (simp add: kbx_v4l2_start_capture_def v4l2_eval sample_params_def sys_start_def uvc_device_def full_disk_def)
      (subst capture_loop.simps, simp add: capture_frame_def v4l2_eval store_frame_def requeue_frame_def
        vext_def vrun_def buffer_at_def name frame_name_def save_frame_def, subst capture_loop.simps, simp)
qed

theorem v4l2_capture_saves_each_frame_witness:
  "\<exists>s1 b out. kbx_v4l2_start_capture full_disk uvc_device (sample_params ''cam'' V4L2_PIX_FMT_YUYV 1) sys_start
      = Some (Next KBX_STATUS_SUCCESS, s1)
    \<and> proj (ev_capture 3) (vs_hist s1) = Streaming True # Taken b # map Output out @ [Queued b]
    \<and> raw_output ''frame1.raw'' (buffer_start uvc_device (vb_index b)) (vb_bytesused b) out"
proof -
  have one: "unat (ip_frame_count (sample_params ''cam'' V4L2_PIX_FMT_YUYV 1)) = 1" by (simp add: sample_params_def)
  have ext: "vs_ext sys_start = ''raw''" "vs_hist sys_start = []" "vd_fd uvc_device = 3" by (simp_all add: sys_start_def uvc_device_def)
  have name: "''frame'' @ format_d (sint (of_nat 0 + 1 :: u32)) @ ''.'' @ ''raw'' = ''frame1.raw''" by code_simp
  obtain s1 where s1: "kbx_v4l2_start_capture full_disk uvc_device (sample_params ''cam'' V4L2_PIX_FMT_YUYV 1) sys_start
      = Some (Next KBX_STATUS_SUCCESS, s1)" using full_disk_capture by blast
  from v4l2_capture_saves_each_frame [OF s1] obtain frames where f: "length frames = 1"
    "proj (ev_capture 3) (vs_hist s1) = Streaming True # concat (map (\<lambda>(b, stores). Taken b # map Output stores @ [Queued b]) frames)"
    "frame_output ''raw'' (sample_params ''cam'' V4L2_PIX_FMT_YUYV 1) ''frame1.raw''
      (buffer_start uvc_device (vb_index (fst (frames ! 0)))) (vb_bytesused (fst (frames ! 0))) (snd (frames ! 0))"
    unfolding one ext using name by auto
  then obtain b out where "frames = [(b, out)]" by (auto simp: length_Suc_conv)
  with f s1 show ?thesis by (auto simp: frame_output_def)
qed

text \<open>
  the fixed buffers of the capture loop are large enough: for either extension and every
  32 bit frame index the file name with its NUL fits the 32 bytes that \<open>sprintf\<close> writes without a
  bound, and the ffmpeg command fits the 512 bytes of \<open>snprintf\<close>, for every size and format, so
  the command run is never a truncated one.
\<close>

theorem v4l2_capture_buffers_suffice:
  assumes "extension = ''jpg'' \<or> extension = ''raw''"
  shows "length (frame_name i extension) + 1 \<le> 32
    \<and> snprintf 512 (jpeg_command (frame_name i extension) width height fmt)
       = jpeg_command (frame_name i extension) width height fmt"
proof -
  have n: "length (frame_name i extension) \<le> 20"
    using frame_name_length [of i extension] assms by auto
  have "length (jpeg_command (frame_name i extension) width height fmt) \<le> 200"
    using n format_d_length [of width] format_d_length [of height]
    by (simp add: jpeg_command_def Let_def)
  with n show ?thesis by (simp add: snprintf_def)
qed

theorem v4l2_capture_buffers_suffice_witness:
  "length (frame_name 4294967294 ''jpg'') + 1 \<le> 32"
  using v4l2_capture_buffers_suffice [of "''jpg''" 4294967294] by simp

end
