(* ===== verification/CL_Init.thy ===== *)
theory CL_Init
  imports Mem_Pool_Props
begin

text \<open>
  The OpenCL context of \<open>src/compute/lo_engine.cc\<close>: its struct (\<open>include/kbx_compute.h\<close>), the
  choice of a device and \<open>kbx_cl_init\<close>. The OpenCL library is a parameter, \<open>cl_env\<close>: what each
  query writes, and how each creation is answered, as a function of the calls made so far; every
  call that creates or releases an object is recorded as an event. A NULL handle is \<open>None\<close>.
  Diagnostics are not modelled.
\<close>

unbundle bit_operations_syntax

section \<open>Data\<close>

abbreviation CL_SUCCESS :: int where "CL_SUCCESS \<equiv> 0"
abbreviation CL_DEVICE_TYPE_CPU :: u64 where "CL_DEVICE_TYPE_CPU \<equiv> 2"
abbreviation CL_DEVICE_TYPE_GPU :: u64 where "CL_DEVICE_TYPE_GPU \<equiv> 4"
abbreviation CL_DEVICE_TYPE_ACCELERATOR :: u64 where "CL_DEVICE_TYPE_ACCELERATOR \<equiv> 8"

type_synonym handle = "ptr option"

record kbx_cl_ctx =
  cc_platform :: handle
  cc_device :: handle
  cc_context :: handle
  cc_queue :: handle
  cc_program :: handle
  cc_kernel_nv12_to_rgb :: handle
  cc_imported_image :: handle
  cc_mem_manager :: "kbx_mem_manager option"

text \<open>Values passed to \<open>clSetKernelArg\<close>.\<close>

datatype cl_arg = ArgMem handle | ArgUint u32

datatype cl_event =
    ClCreateContext handle handle int handle
  | ClReleaseContext handle
  | ClCreateQueue handle handle bool int handle \<comment> \<open>out of order?\<close>
  | ClCreateProgram string int handle
  | ClBuildProgram handle int
  | ClReleaseProgram handle
  | ClCreateKernel handle int handle
  | ClImport handle int u64 int handle
  | ClReleaseMem handle
  | ClSetArg handle nat cl_arg int
  | ClEnqueue handle handle "u64 \<times> u64" "u64 \<times> u64" int handle \<comment> \<open>queue, kernel, global, local, status, event\<close>
  | ClFinish handle int
  | ClWait handle int
  | ClReleaseEvent handle

record cl_env =
  ce_platforms :: "int \<times> u32"
  ce_platform :: "nat \<Rightarrow> handle" \<comment> \<open>slot \<open>i\<close> of the platform array\<close>
  ce_platform_name :: "handle \<Rightarrow> string" \<comment> \<open>what the 256 byte buffer holds after the query\<close>
  ce_devices :: "handle \<Rightarrow> int \<times> u32"
  ce_device :: "handle \<Rightarrow> nat \<Rightarrow> handle"
  ce_type :: "handle \<Rightarrow> u64"
  ce_context :: "cl_event list \<Rightarrow> int \<times> handle"
  ce_queue :: "cl_event list \<Rightarrow> bool \<Rightarrow> int \<times> handle"

section \<open>Scoring and selection\<close>

fun is_prefix :: "'a list \<Rightarrow> 'a list \<Rightarrow> bool" where
  "is_prefix [] ys = True"
| "is_prefix (x # xs) [] = False"
| "is_prefix (x # xs) (y # ys) \<longleftrightarrow> x = y \<and> is_prefix xs ys"

text \<open>\<open>strstr(hay, needle) != nullptr\<close>\<close>

fun strstr :: "string \<Rightarrow> string \<Rightarrow> bool" where
  "strstr [] needle \<longleftrightarrow> needle = []"
| "strstr (c # hay) needle \<longleftrightarrow> is_prefix needle (c # hay) \<or> strstr hay needle"

definition device_score :: "string \<Rightarrow> u64 \<Rightarrow> int" where
  "device_score p_name type =
     (if type AND CL_DEVICE_TYPE_GPU \<noteq> 0 then
        (let score = 50 in if strstr p_name ''Intel'' then score + 50 else score)
      else if type AND CL_DEVICE_TYPE_ACCELERATOR \<noteq> 0 then 20
      else if type AND CL_DEVICE_TYPE_CPU \<noteq> 0 then 10
      else 0)"

text \<open>The selection state: \<open>best_score\<close>, \<open>best_platform\<close>, \<open>best_device\<close>.\<close>

type_synonym best = "int \<times> handle \<times> handle"

definition consider_device :: "cl_env \<Rightarrow> handle \<Rightarrow> nat \<Rightarrow> best \<Rightarrow> best" where
  "consider_device env platform j best =
     (let device = ce_device env platform j;
          score = device_score (ce_platform_name env platform) (ce_type env device)
      in if score > fst best then (score, platform, device) else best)"

definition consider_platform :: "cl_env \<Rightarrow> nat \<Rightarrow> best \<Rightarrow> best" where
  "consider_platform env i best =
     (let platform = ce_platform env i;
          (ret, num_devices) = ce_devices env platform
      in if ret \<noteq> CL_SUCCESS \<or> num_devices = 0 then best
         else fold (consider_device env platform) [0..<unat num_devices] best)"

definition select_device :: "cl_env \<Rightarrow> u32 \<Rightarrow> best" where
  "select_device env num_platforms = fold (consider_platform env) [0..<unat num_platforms] (-1, None, None)"

section \<open>kbx_cl_init\<close>

definition kbx_cl_init ::
  "cl_env \<Rightarrow> kbx_cl_ctx option \<Rightarrow> kbx_mem_manager option \<Rightarrow> cl_event list
     \<Rightarrow> kbx_status_t \<times> kbx_cl_ctx option \<times> cl_event list" where
  "kbx_cl_init env ctx_p mem_manager h =
     (case (ctx_p, mem_manager) of
        (Some ctx0, Some mm) \<Rightarrow>
          (let ctx = ctx0\<lparr>cc_mem_manager := Some mm\<rparr>;
               (ret, num_platforms) = ce_platforms env
           in if ret \<noteq> CL_SUCCESS \<or> num_platforms = 0 then (KBX_STATUS_ERR_IO, Some ctx, h)
              else
                let (best_score, best_platform, best_device) = select_device env num_platforms
                in if best_device = None then (KBX_STATUS_ERR_IO, Some ctx, h)
                   else
                     let (ret, context) = ce_context env h;
                         h1 = h @ [ClCreateContext best_platform best_device ret context]
                     in if ret \<noteq> CL_SUCCESS then (KBX_STATUS_ERR_IO, Some ctx, h1)
                        else
                          let (ret, command_queue) = ce_queue env h1 True;
                              h2 = h1 @ [ClCreateQueue context best_device True ret command_queue]
                          in if ret \<noteq> CL_SUCCESS then
                               let (ret, fallback_queue) = ce_queue env h2 False;
                                   h3 = h2 @ [ClCreateQueue context best_device False ret fallback_queue]
                               in if ret \<noteq> CL_SUCCESS
                                  then (KBX_STATUS_ERR_IO, Some ctx, h3 @ [ClReleaseContext context])
                                  else (KBX_STATUS_SUCCESS, Some (ctx\<lparr>cc_platform := best_platform,
                                          cc_device := best_device, cc_context := context,
                                          cc_queue := fallback_queue\<rparr>), h3)
                             else (KBX_STATUS_SUCCESS, Some (ctx\<lparr>cc_platform := best_platform,
                                     cc_device := best_device, cc_context := context,
                                     cc_queue := command_queue\<rparr>), h2))
      | _ \<Rightarrow> (KBX_STATUS_ERR_IO, ctx_p, h))"

section \<open>The best device\<close>

text \<open>The candidates in the order of the loops, each with its score.\<close>

definition platform_candidates :: "cl_env \<Rightarrow> nat \<Rightarrow> best list" where
  "platform_candidates env i =
     (let platform = ce_platform env i
      in if fst (ce_devices env platform) \<noteq> CL_SUCCESS then []
         else map (\<lambda>j. (device_score (ce_platform_name env platform) (ce_type env (ce_device env platform j)),
                        platform, ce_device env platform j))
                  [0..<unat (snd (ce_devices env platform))])"

definition candidates :: "cl_env \<Rightarrow> u32 \<Rightarrow> best list" where
  "candidates env n = concat (map (platform_candidates env) [0..<unat n])"

definition better :: "best \<Rightarrow> best \<Rightarrow> best" where
  "better c b = (if fst c > fst b then c else b)"

lemma device_score_range: "0 \<le> device_score name type \<and> device_score name type \<le> 100"
  by (simp add: device_score_def Let_def)

lemma consider_device_better:
  "fold (consider_device env p) js b
   = fold better (map (\<lambda>j. (device_score (ce_platform_name env p) (ce_type env (ce_device env p j)), p, ce_device env p j)) js) b"
  by (induction js arbitrary: b) (simp_all add: consider_device_def better_def Let_def)

lemma consider_platform_better: "consider_platform env i b = fold better (platform_candidates env i) b"
  by (cases "ce_devices env (ce_platform env i)")
    (auto simp: consider_platform_def platform_candidates_def Let_def consider_device_better)

lemma select_device_better: "select_device env n = fold better (candidates env n) (-1, None, None)"
proof -
  have "fold (consider_platform env) is b = fold better (concat (map (platform_candidates env) is)) b" for "is" b
    by (induction "is" arbitrary: b) (simp_all add: consider_platform_better)
  then show ?thesis by (simp add: select_device_def candidates_def)
qed

text \<open>Folding \<open>better\<close> keeps the first of the best-scored candidates.\<close>

lemma fold_better:
  assumes "cs \<noteq> []" "\<forall>c \<in> set cs. fst b < fst c"
  shows "\<exists>k < length cs. fold better cs b = cs ! k \<and> (\<forall>c \<in> set cs. fst c \<le> fst (cs ! k))
    \<and> (\<forall>j < k. fst (cs ! j) < fst (cs ! k))"
  using assms
proof (induction cs rule: rev_induct)
  case (snoc c cs)
  show ?case
  proof (cases "cs = []")
    case True
    with snoc.prems show ?thesis by (simp add: better_def)
  next
    case False
    with snoc obtain k where k: "k < length cs" "fold better cs b = cs ! k" "\<forall>c \<in> set cs. fst c \<le> fst (cs ! k)"
      "\<forall>j < k. fst (cs ! j) < fst (cs ! k)" by auto
    show ?thesis
    proof (cases "fst (cs ! k) < fst c")
      case True
      have "fold better (cs @ [c]) b = (cs @ [c]) ! length cs" using True k(2) by (simp add: better_def)
      moreover have "\<forall>j < length cs. fst ((cs @ [c]) ! j) < fst c"
        using True k(3) by (auto simp: nth_append intro: le_less_trans)
      ultimately show ?thesis using True k(3) by (intro exI [of _ "length cs"]) (auto intro: order_trans)
    next
      case False
      have "fold better (cs @ [c]) b = (cs @ [c]) ! k" using False k by (simp add: better_def nth_append)
      with False k show ?thesis by (intro exI [of _ k]) (auto simp: nth_append)
    qed
  qed
qed simp

section \<open>Properties of kbx_cl_init\<close>

text \<open>Objects acquired and released, as lists in call order.\<close>

fun ev_context :: "cl_event \<Rightarrow> handle list" where
  "ev_context (ClCreateContext p d ret c) = (if ret = CL_SUCCESS then [c] else [])" | "ev_context _ = []"

fun ev_release_context :: "cl_event \<Rightarrow> handle list" where
  "ev_release_context (ClReleaseContext c) = [c]" | "ev_release_context _ = []"

fun ev_new_queue :: "cl_event \<Rightarrow> (handle \<times> handle) list" where
  "ev_new_queue (ClCreateQueue c d ooo ret q) = (if ret = CL_SUCCESS then [(c, q)] else [])"
| "ev_new_queue _ = []"

definition collect :: "('e \<Rightarrow> 'b list) \<Rightarrow> 'e list \<Rightarrow> 'b list" where
  "collect f h = concat (map f h)"

lemma collect_simps [simp]:
  "collect f [] = []" "collect f (e # h) = f e @ collect f h" "collect f (h @ h1) = collect f h @ collect f h1"
  by (simp_all add: collect_def)

lemma device_score_intel:
  "device_score name type = 100 \<longleftrightarrow> type AND CL_DEVICE_TYPE_GPU \<noteq> 0 \<and> strstr name ''Intel''"
  by (simp add: device_score_def Let_def)

lemma candidates_nonneg: "c \<in> set (candidates env n) \<Longrightarrow> 0 \<le> fst c"
  using device_score_range by (auto simp: candidates_def platform_candidates_def Let_def split: if_splits)

lemma select_device_best:
  assumes "select_device env n = (score, platform, Some d)"
  shows "\<exists>k < length (candidates env n). candidates env n ! k = (score, platform, Some d)
    \<and> (\<forall>c \<in> set (candidates env n). fst c \<le> score)
    \<and> (\<forall>j < k. fst (candidates env n ! j) < score)"
proof -
  have ne: "candidates env n \<noteq> []"
    using assms by (auto simp: select_device_better)
  moreover have "\<forall>c \<in> set (candidates env n). fst (-1, None, None) < fst c"
    using candidates_nonneg by fastforce
  ultimately obtain k where k: "k < length (candidates env n)"
    "fold better (candidates env n) (-1, None, None) = candidates env n ! k"
    "\<forall>c \<in> set (candidates env n). fst c \<le> fst (candidates env n ! k)"
    "\<forall>j < k. fst (candidates env n ! j) < fst (candidates env n ! k)"
    using fold_better [of "candidates env n" "(-1, None, None)"] by blast
  moreover have kth: "candidates env n ! k = (score, platform, Some d)"
    using k(2) assms by (simp add: select_device_better)
  ultimately show ?thesis by (intro exI [of _ k]) simp
qed

text \<open>
  Two platforms: a CPU, and one with an Intel GPU whose out-of-order queue is refused.
\<close>

definition two_platforms :: cl_env where
  "two_platforms = \<lparr>ce_platforms = (0, 2), ce_platform = (\<lambda>i. Some (of_nat (i + 1))),
     ce_platform_name = (\<lambda>p. if p = Some 1 then ''pocl'' else ''Intel CL''), ce_devices = (\<lambda>p. (0, 1)),
     ce_device = (\<lambda>p j. map_option (\<lambda>a. a + 16) p),
     ce_type = (\<lambda>d. if d = Some 17 then CL_DEVICE_TYPE_CPU else CL_DEVICE_TYPE_GPU),
     ce_context = (\<lambda>h. (0, Some 32)), ce_queue = (\<lambda>h ooo. if ooo then (-35, None) else (0, Some 33))\<rparr>"

definition blank_ctx :: kbx_cl_ctx where
  "blank_ctx = \<lparr>cc_platform = None, cc_device = None, cc_context = None, cc_queue = None,
     cc_program = None, cc_kernel_nv12_to_rgb = None, cc_imported_image = None, cc_mem_manager = None\<rparr>"

text \<open>
  What the comments of the code rank: a GPU of a platform with "Intel" in its name, another GPU, an accelerator, a
  CPU, anything else.
\<close>

definition device_rank :: "string \<Rightarrow> u64 \<Rightarrow> nat" where
  "device_rank name type =
     (if type AND CL_DEVICE_TYPE_GPU \<noteq> 0 then if \<exists>pre post. name = pre @ ''Intel'' @ post then 4 else 3
      else if type AND CL_DEVICE_TYPE_ACCELERATOR \<noteq> 0 then 2
      else if type AND CL_DEVICE_TYPE_CPU \<noteq> 0 then 1 else 0)"

text \<open>Device \<open>j\<close> of platform \<open>i\<close> is listed by the library.\<close>

definition listed :: "cl_env \<Rightarrow> nat \<times> nat \<Rightarrow> bool" where
  "listed env c \<longleftrightarrow> fst c < unat (snd (ce_platforms env)) \<and> fst (ce_devices env (ce_platform env (fst c))) = CL_SUCCESS
     \<and> snd c < unat (snd (ce_devices env (ce_platform env (fst c))))"

definition rank_at :: "cl_env \<Rightarrow> nat \<times> nat \<Rightarrow> nat" where
  "rank_at env c = device_rank (ce_platform_name env (ce_platform env (fst c)))
     (ce_type env (ce_device env (ce_platform env (fst c)) (snd c)))"

lemma is_prefix_iff: "is_prefix xs ys \<longleftrightarrow> (\<exists>zs. ys = xs @ zs)"
  by (induction xs ys rule: is_prefix.induct) auto

lemma strstr_iff: "strstr hay needle \<longleftrightarrow> (\<exists>pre post. hay = pre @ needle @ post)"
proof (induction hay needle rule: strstr.induct)
  case (2 c hay needle)
  show ?case
  proof
    assume "strstr (c # hay) needle"
    then consider zs where "c # hay = needle @ zs" | "strstr hay needle" by (auto simp: is_prefix_iff)
    then show "\<exists>pre post. c # hay = pre @ needle @ post"
    proof cases
      case 1
      then show ?thesis by (intro exI [of _ "[]"] exI [of _ zs]) simp
    next
      case 2
      then show ?thesis using "2.IH" by (metis append_Cons)
    qed
  next
    assume "\<exists>pre post. c # hay = pre @ needle @ post"
    then obtain pre post where e: "c # hay = pre @ needle @ post" by blast
    show "strstr (c # hay) needle"
    proof (cases pre)
      case Nil
      then have "is_prefix needle (c # hay)" using e by (simp add: is_prefix_iff)
      then show ?thesis by simp
    next
      case (Cons x pre')
      then have "strstr hay needle" using e "2.IH" by auto
      then show ?thesis by simp
    qed
  qed
qed auto

text \<open>The score is the place in the ranking.\<close>

lemma device_score_rank: "device_score name type = [0, 10, 20, 50, 100] ! device_rank name type"
  by (simp add: device_score_def device_rank_def strstr_iff Let_def)

lemma rank_le: "device_rank name type \<le> 4"
  by (simp add: device_rank_def)

lemma score_less_iff: "m \<le> 4 \<Longrightarrow> n \<le> 4 \<Longrightarrow> ([0, 10, 20, 50, 100] :: int list) ! m < [0, 10, 20, 50, 100] ! n \<longleftrightarrow> m < n"
  by (auto simp: le_Suc_eq eval_nat_numeral)

definition listed_devices :: "cl_env \<Rightarrow> u32 \<Rightarrow> (nat \<times> nat) list" where
  "listed_devices env n = concat (map (\<lambda>i. map (Pair i)
     [0..<if fst (ce_devices env (ce_platform env i)) \<noteq> CL_SUCCESS then 0 else unat (snd (ce_devices env (ce_platform env i)))])
     [0..<unat n])"

lemma listed_devices_set: "set (listed_devices env (snd (ce_platforms env))) = {c. listed env c}"
  by (auto simp: listed_devices_def listed_def split: if_splits)

lemma candidates_listed:
  "candidates env n = map (\<lambda>c. ([0, 10, 20, 50, 100] ! rank_at env c, ce_platform env (fst c),
     ce_device env (ce_platform env (fst c)) (snd c))) (listed_devices env n)"
proof -
  have "platform_candidates env = (\<lambda>i. map (\<lambda>c. ([0, 10, 20, 50, 100] ! rank_at env c, ce_platform env (fst c),
       ce_device env (ce_platform env (fst c)) (snd c))) (map (Pair i)
     [0..<if fst (ce_devices env (ce_platform env i)) \<noteq> CL_SUCCESS then 0 else unat (snd (ce_devices env (ce_platform env i)))]))"
    by (auto simp: platform_candidates_def fun_eq_iff comp_def Let_def device_score_rank rank_at_def)
  then show ?thesis by (simp only: candidates_def listed_devices_def map_concat map_map comp_def)
qed

lemma listed_devices_order:
  assumes "j < k" "k < length (listed_devices env n)"
  shows "listed_devices env n ! j \<noteq> listed_devices env n ! k
    \<and> (fst (listed_devices env n ! j) < fst (listed_devices env n ! k)
       \<or> fst (listed_devices env n ! j) = fst (listed_devices env n ! k) \<and> snd (listed_devices env n ! j) < snd (listed_devices env n ! k))"
proof -
  let ?lt = "\<lambda>a b :: nat \<times> nat. fst a < fst b \<or> fst a = fst b \<and> snd a < snd b"
  have "sorted_wrt ?lt (concat (map (\<lambda>i. map (Pair i) [0..<f i]) [0..<m]))" for f :: "nat \<Rightarrow> nat" and m
    by (induction m) (auto simp: sorted_wrt_append sorted_wrt_map)
  then have "sorted_wrt ?lt (listed_devices env n)" unfolding listed_devices_def .
  from sorted_wrt_nth_less [OF this assms] show ?thesis by auto
qed

text \<open>
  C16: \<open>kbx_cl_init\<close> that succeeds has chosen, among the devices the platforms list, one of the highest rank, so an
  Intel GPU whenever there is one, and of these the first in the order of platforms and devices; the context has
  been created for this platform and device, the queue for this context and device, out of order or, if that was
  refused, in order; nothing else was created and nothing released, and program, kernel and imported image of the
  struct are as they were.
\<close>

theorem cl_init_selects_best_device:
  assumes "kbx_cl_init env (Some ctx0) (Some mm) h = (KBX_STATUS_SUCCESS, Some ctx, h1)"
  shows "\<exists>i j refused. listed env (i, j)
    \<and> (\<forall>c. listed env c \<longrightarrow> rank_at env c \<le> rank_at env (i, j)
         \<and> (fst c < i \<or> fst c = i \<and> snd c < j \<longrightarrow> rank_at env c < rank_at env (i, j)))
    \<and> cc_platform ctx = ce_platform env i \<and> cc_device ctx = ce_device env (cc_platform ctx) j
    \<and> h1 = h @ ClCreateContext (cc_platform ctx) (cc_device ctx) CL_SUCCESS (cc_context ctx) # refused
         @ [ClCreateQueue (cc_context ctx) (cc_device ctx) (refused = []) CL_SUCCESS (cc_queue ctx)]
    \<and> (refused = [] \<or> (\<exists>e q. e \<noteq> CL_SUCCESS \<and> refused = [ClCreateQueue (cc_context ctx) (cc_device ctx) True e q]))
    \<and> ctx = ctx0\<lparr>cc_mem_manager := Some mm, cc_platform := cc_platform ctx, cc_device := cc_device ctx,
               cc_context := cc_context ctx, cc_queue := cc_queue ctx\<rparr>"
proof -
  let ?n = "snd (ce_platforms env)" and ?L = "listed_devices env (snd (ce_platforms env))"
  let ?score = "\<lambda>c. ([0, 10, 20, 50, 100] :: int list) ! rank_at env c"
  obtain score platform dev where sel: "select_device env ?n = (score, platform, dev)" by (metis prod_cases3)
  from assms sel obtain d where dev: "dev = Some d"
    by (cases dev) (auto simp: kbx_cl_init_def Let_def split: prod.splits if_splits)
  have chosen: "cc_platform ctx = platform \<and> cc_device ctx = Some d"
    using assms sel dev by (auto simp: kbx_cl_init_def Let_def split: prod.splits if_splits)
  have made: "\<exists>refused. h1 = h @ ClCreateContext (cc_platform ctx) (cc_device ctx) CL_SUCCESS (cc_context ctx) # refused
         @ [ClCreateQueue (cc_context ctx) (cc_device ctx) (refused = []) CL_SUCCESS (cc_queue ctx)]
    \<and> (refused = [] \<or> (\<exists>e q. e \<noteq> CL_SUCCESS \<and> refused = [ClCreateQueue (cc_context ctx) (cc_device ctx) True e q]))"
    using assms sel dev by (auto simp: kbx_cl_init_def Let_def split: prod.splits if_splits)
  have rest: "ctx = ctx0\<lparr>cc_mem_manager := Some mm, cc_platform := cc_platform ctx, cc_device := cc_device ctx,
      cc_context := cc_context ctx, cc_queue := cc_queue ctx\<rparr>"
    using assms sel dev by (auto simp: kbx_cl_init_def Let_def split: prod.splits if_splits)
  obtain k where k: "k < length ?L" "candidates env ?n ! k = (score, platform, Some d)"
    "\<forall>c \<in> set (candidates env ?n). fst c \<le> score" "\<forall>j < k. fst (candidates env ?n ! j) < score"
    using select_device_best [of env ?n score platform d] sel dev by (auto simp: candidates_listed)
  obtain i j where ij: "?L ! k = (i, j)" by fastforce
  have at: "listed env (i, j)" using k(1) ij nth_mem [of k ?L] by (simp add: listed_devices_set)
  have eq: "score = ?score (i, j)" "platform = ce_platform env i" "Some d = ce_device env platform j"
    using k(1,2) ij by (auto simp: candidates_listed)
  have rank4: "rank_at env c \<le> 4" for c by (simp add: rank_at_def rank_le)
  have best: "rank_at env c \<le> rank_at env (i, j)
      \<and> (fst c < i \<or> fst c = i \<and> snd c < j \<longrightarrow> rank_at env c < rank_at env (i, j))" if "listed env c" for c
  proof -
    from that obtain m where m: "m < length ?L" "?L ! m = c" by (metis listed_devices_set in_set_conv_nth mem_Collect_eq)
    have "?score c \<le> score" using k(3) m by (force simp: candidates_listed)
    then have "rank_at env c \<le> rank_at env (i, j)" using score_less_iff [OF rank4 rank4, of "(i, j)" c] eq(1) by linarith
    moreover have "m < k" if "fst c < i \<or> fst c = i \<and> snd c < j"
    proof (rule ccontr)
      assume "\<not> m < k"
      then consider "m = k" | "k < m" by linarith
      then show False using that listed_devices_order [of k m env ?n] m ij by cases auto
    qed
    moreover have "?score c < score" if "m < k" using k(1,4) m that by (auto simp: candidates_listed)
    ultimately show ?thesis using score_less_iff [OF rank4 rank4, of c "(i, j)"] eq(1) by auto
  qed
  from made obtain refused where "h1 = h @ ClCreateContext (cc_platform ctx) (cc_device ctx) CL_SUCCESS (cc_context ctx) # refused
         @ [ClCreateQueue (cc_context ctx) (cc_device ctx) (refused = []) CL_SUCCESS (cc_queue ctx)]"
    "refused = [] \<or> (\<exists>e q. e \<noteq> CL_SUCCESS \<and> refused = [ClCreateQueue (cc_context ctx) (cc_device ctx) True e q])" by blast
  then show ?thesis using at best eq(2,3) chosen rest by (intro exI [of _ i] exI [of _ j] exI [of _ refused]) simp
qed

lemma two_platforms_init:
  "kbx_cl_init two_platforms (Some blank_ctx) (Some (demo_mgr [False] 0)) []
   = (KBX_STATUS_SUCCESS,
      Some (blank_ctx\<lparr>cc_mem_manager := Some (demo_mgr [False] 0), cc_platform := Some 2, cc_device := Some 18,
        cc_context := Some 32, cc_queue := Some 33\<rparr>),
      [ClCreateContext (Some 2) (Some 18) 0 (Some 32), ClCreateQueue (Some 32) (Some 18) True (-35) None,
       ClCreateQueue (Some 32) (Some 18) False 0 (Some 33)])"
  by code_simp

theorem cl_init_selects_best_device_witness:
  "\<exists>i j. listed two_platforms (i, j) \<and> rank_at two_platforms (1, 0) \<le> rank_at two_platforms (i, j)"
  using cl_init_selects_best_device [OF two_platforms_init]
  by (auto simp: listed_def two_platforms_def)

text \<open>
  \<open>kbx_cl_init\<close> that fails leaves no OpenCL object alive: a context created for the chosen
  device is released again when no queue can be created for it, and no queue exists; of the
  caller's struct only \<open>mem_manager\<close> can have changed.
\<close>

theorem cl_init_failure_releases_context:
  assumes "kbx_cl_init env ctx_p mm h = (status, ctx1, h1)" "status \<noteq> KBX_STATUS_SUCCESS"
  shows "\<exists>new. h1 = h @ new \<and> collect ev_release_context new = collect ev_context new
    \<and> collect ev_new_queue new = []
    \<and> status = KBX_STATUS_ERR_IO
    \<and> (ctx1 = ctx_p \<or> (\<exists>ctx m. ctx_p = Some ctx \<and> mm = Some m \<and> ctx1 = Some (ctx\<lparr>cc_mem_manager := Some m\<rparr>)))"
  using assms
  by (auto simp: kbx_cl_init_def Let_def split: prod.splits option.splits if_splits)

lemma two_platforms_no_queue:
  "kbx_cl_init (two_platforms\<lparr>ce_queue := \<lambda>h ooo. (-6, None)\<rparr>) (Some blank_ctx) (Some (demo_mgr [False] 0)) []
   = (KBX_STATUS_ERR_IO, Some (blank_ctx\<lparr>cc_mem_manager := Some (demo_mgr [False] 0)\<rparr>),
      [ClCreateContext (Some 2) (Some 18) 0 (Some 32), ClCreateQueue (Some 32) (Some 18) True (-6) None,
       ClCreateQueue (Some 32) (Some 18) False (-6) None, ClReleaseContext (Some 32)])"
  by code_simp

theorem cl_init_failure_releases_context_witness:
  "\<exists>new. snd (snd (kbx_cl_init (two_platforms\<lparr>ce_queue := \<lambda>h ooo. (-6, None)\<rparr>) (Some blank_ctx)
      (Some (demo_mgr [False] 0)) [])) = new \<and> collect ev_release_context new = [Some 32]"
  using cl_init_failure_releases_context [OF two_platforms_no_queue] two_platforms_no_queue by auto

end
