(* ===== verification/Float_Rounding.thy ===== *)
theory Float_Rounding
  imports Complex_Main KBX_Prelude
begin

text \<open>
  Binary floating point for the colour conversions: a finite number is a pair \<open>(m, e)\<close> standing
  for \<open>m * 2 ^ e\<close>, and every operation computes exactly and rounds once, to nearest, ties to
  even, to \<open>p\<close> significant bits (\<open>p = 53\<close> is \<open>double\<close>, \<open>p = 24\<close> is \<open>float\<close>). Exponent range,
  signed zeros and NaN are not represented: the conversions stay between -1000 and 1000 and
  produce no subnormal that matters for an integer result, which the error bounds show.
\<close>

type_synonym flt = "int \<times> int"

fun nbits :: "nat \<Rightarrow> nat" where
  "nbits n = (if n = 0 then 0 else Suc (nbits (n div 2)))"

declare nbits.simps [simp del]

text \<open>\<open>n / d\<close> rounded to the nearest integer, ties to even, for \<open>0 < d\<close>.\<close>

definition round_div :: "int \<Rightarrow> int \<Rightarrow> int" where
  "round_div n d =
     (let q = n div d; r = n mod d
      in if 2 * r < d then q else if d < 2 * r then q + 1 else if even q then q else q + 1)"

definition fround :: "nat \<Rightarrow> flt \<Rightarrow> flt" where
  "fround p x =
     (let b = nbits (nat \<bar>fst x\<bar>)
      in if b \<le> p then x else (round_div (fst x) (2 ^ (b - p)), snd x + int (b - p)))"

definition fof_int :: "int \<Rightarrow> flt" where
  "fof_int i = (i, 0)"

definition fexact_add :: "flt \<Rightarrow> flt \<Rightarrow> flt" where
  "fexact_add x y =
     (let e = min (snd x) (snd y)
      in (fst x * 2 ^ nat (snd x - e) + fst y * 2 ^ nat (snd y - e), e))"

definition fneg :: "flt \<Rightarrow> flt" where
  "fneg x = (- fst x, snd x)"

definition fexact_mul :: "flt \<Rightarrow> flt \<Rightarrow> flt" where
  "fexact_mul x y = (fst x * fst y, snd x + snd y)"

definition fadd :: "nat \<Rightarrow> flt \<Rightarrow> flt \<Rightarrow> flt" where
  "fadd p x y = fround p (fexact_add x y)"

definition fsub :: "nat \<Rightarrow> flt \<Rightarrow> flt \<Rightarrow> flt" where
  "fsub p x y = fround p (fexact_add x (fneg y))"

definition fmul :: "nat \<Rightarrow> flt \<Rightarrow> flt \<Rightarrow> flt" where
  "fmul p x y = fround p (fexact_mul x y)"

text \<open>The fused operation rounds once.\<close>

definition ffma :: "nat \<Rightarrow> flt \<Rightarrow> flt \<Rightarrow> flt \<Rightarrow> flt" where
  "ffma p x y z = fround p (fexact_add (fexact_mul x y) z)"

text \<open>Conversion to an integer: truncating (a C++ cast) and to nearest even.\<close>

definition ftrunc :: "flt \<Rightarrow> int" where
  "ftrunc x = (if 0 \<le> snd x then fst x * 2 ^ nat (snd x)
     else if 0 \<le> fst x then fst x div 2 ^ nat (- snd x) else - ((- fst x) div 2 ^ nat (- snd x)))"

definition frint :: "flt \<Rightarrow> int" where
  "frint x = (if 0 \<le> snd x then fst x * 2 ^ nat (snd x) else round_div (fst x) (2 ^ nat (- snd x)))"

text \<open>A decimal literal \<open>num / den\<close> (both positive) of a program, rounded once to \<open>p\<close> bits.\<close>

definition fliteral :: "nat \<Rightarrow> nat \<Rightarrow> nat \<Rightarrow> flt" where
  "fliteral p num den =
     (let s = p + nbits den; t = nbits (num * 2 ^ s div den) - p
      in (round_div (int num * 2 ^ s) (int den * 2 ^ t), int t - int s))"

section \<open>Values and errors\<close>

definition fval :: "flt \<Rightarrow> real" where
  "fval x = of_int (fst x) * 2 powi snd x"

lemma nbits_upper: "n < 2 ^ nbits n"
proof (induction n rule: nbits.induct)
  case (1 n)
  show ?case
  proof (cases "n = 0")
    case False
    with 1 have "n div 2 < 2 ^ nbits (n div 2)" by simp
    then have "n < 2 * 2 ^ nbits (n div 2)" by linarith
    with False show ?thesis by (subst nbits.simps) simp
  qed simp
qed

lemma nbits_lower: "0 < n \<Longrightarrow> 2 ^ nbits n \<le> 2 * n"
proof (induction n rule: nbits.induct)
  case (1 n)
  show ?case
  proof (cases "n div 2 = 0")
    case True
    with 1(2) have "n = 1" by simp
    then show ?thesis by (subst nbits.simps, subst nbits.simps) simp
  next
    case False
    with 1 have "2 ^ nbits (n div 2) \<le> 2 * (n div 2)" by simp
    then have "2 * 2 ^ nbits (n div 2) \<le> 2 * n" by linarith
    with 1(2) show ?thesis by (subst nbits.simps) simp
  qed
qed

lemma round_div_error:
  assumes "0 < d"
  shows "2 * \<bar>round_div n d * d - n\<bar> \<le> d"
proof -
  have r: "0 \<le> n mod d" "n mod d < d" using assms by simp_all
  define q r where "q = n div d" and "r = n mod d"
  have "round_div n d = q \<and> 2 * r \<le> d \<or> round_div n d = q + 1 \<and> d \<le> 2 * r"
    by (auto simp: round_div_def Let_def q_def r_def)
  then show ?thesis
  proof
    assume *: "round_div n d = q \<and> 2 * r \<le> d"
    have "q * d - n = - r" using div_mult_mod_eq [of n d] unfolding q_def r_def by linarith
    with * r show ?thesis by (simp add: r_def)
  next
    assume *: "round_div n d = q + 1 \<and> d \<le> 2 * r"
    have "(q + 1) * d - n = d - r"
      using div_mult_mod_eq [of n d] distrib_right [of q 1 d] unfolding q_def r_def by linarith
    with * r show ?thesis by (simp add: r_def)
  qed
qed

lemma fval_int [simp]: "fval (fof_int i) = of_int i"
  by (simp add: fval_def fof_int_def)

lemma fval_neg [simp]: "fval (fneg x) = - fval x"
  by (simp add: fval_def fneg_def)

lemma fval_mul: "fval (fexact_mul x y) = fval x * fval y"
  by (simp add: fval_def fexact_mul_def power_int_add)

lemma fval_shift: "e \<le> snd x \<Longrightarrow> of_int (fst x * 2 ^ nat (snd x - e)) * 2 powi e = fval x"
proof -
  assume e: "e \<le> snd x"
  then have "(2 :: real) ^ nat (snd x - e) * 2 powi e = 2 powi (snd x - e) * 2 powi e"
    by (simp add: power_int_def)
  also have "\<dots> = 2 powi snd x" by (simp add: power_int_add [symmetric])
  finally show ?thesis by (simp add: fval_def)
qed

lemma fval_add: "fval (fexact_add x y) = fval x + fval y"
proof -
  let ?e = "min (snd x) (snd y)"
  have "fval (fexact_add x y) = of_int (fst x * 2 ^ nat (snd x - ?e)) * 2 powi ?e
      + of_int (fst y * 2 ^ nat (snd y - ?e)) * 2 powi ?e"
    by (simp add: fval_def fexact_add_def Let_def algebra_simps)
  then show ?thesis by (simp only: fval_shift min.cobounded1 min.cobounded2)
qed

lemma fround_error: "\<bar>fval (fround p x) - fval x\<bar> \<le> \<bar>fval x\<bar> / 2 ^ p"
proof -
  define b where "b = nbits (nat \<bar>fst x\<bar>)"
  show ?thesis
  proof (cases "b \<le> p")
    case True
    then show ?thesis by (simp add: fround_def b_def)
  next
    case False
    define k where "k = b - p"
    define q where "q = round_div (fst x) (2 ^ k)"
    have m: "fst x \<noteq> 0" using False by (auto simp: b_def nbits.simps)
    have "2 ^ b \<le> 2 * nat \<bar>fst x\<bar>" using nbits_lower [of "nat \<bar>fst x\<bar>"] m by (simp add: b_def)
    then have "int (2 ^ b) \<le> int (2 * nat \<bar>fst x\<bar>)" by (simp only: of_nat_le_iff)
    then have low: "(2 :: int) ^ b \<le> 2 * \<bar>fst x\<bar>" by simp
    have err: "2 * \<bar>q * 2 ^ k - fst x\<bar> \<le> 2 ^ k" unfolding q_def by (rule round_div_error) simp
    have kb: "(2 :: int) ^ k * 2 ^ p = 2 ^ b" using False by (simp add: k_def power_add [symmetric])
    have "2 * \<bar>q * 2 ^ k - fst x\<bar> * 2 ^ p \<le> 2 ^ k * 2 ^ p" by (rule mult_right_mono [OF err]) simp
    also have "\<dots> \<le> 2 * \<bar>fst x\<bar>" using low kb by simp
    finally have i: "\<bar>q * 2 ^ k - fst x\<bar> * 2 ^ p \<le> \<bar>fst x\<bar>" by simp
    have "real_of_int (\<bar>q * 2 ^ k - fst x\<bar> * 2 ^ p) \<le> of_int \<bar>fst x\<bar>" using i by (simp only: of_int_le_iff)
    then have r: "\<bar>of_int (q * 2 ^ k - fst x)\<bar> * 2 ^ p \<le> \<bar>of_int (fst x) :: real\<bar>" by simp
    have "fval (fround p x) = of_int q * 2 powi (snd x + int k)"
      using False by (simp add: fround_def fval_def Let_def b_def k_def q_def)
    also have "\<dots> = of_int (q * 2 ^ k) * 2 powi snd x"
      by (simp add: power_int_add mult.commute mult.left_commute)
    finally have "fval (fround p x) - fval x = of_int (q * 2 ^ k - fst x) * 2 powi snd x"
      by (simp add: fval_def algebra_simps)
    then have "\<bar>fval (fround p x) - fval x\<bar> * 2 ^ p = \<bar>of_int (q * 2 ^ k - fst x)\<bar> * 2 ^ p * 2 powi snd x"
      by (simp add: abs_mult)
    also have "\<dots> \<le> \<bar>of_int (fst x)\<bar> * 2 powi snd x" by (rule mult_right_mono [OF r]) simp
    also have "\<dots> = \<bar>fval x\<bar>" by (simp add: fval_def abs_mult)
    finally show ?thesis by (simp add: field_simps)
  qed
qed

lemma fround_bound:
  assumes "\<bar>fval x\<bar> \<le> B"
  shows "\<bar>fval (fround p x) - fval x\<bar> \<le> B / 2 ^ p"
  using fround_error [of p x] divide_right_mono [OF assms, of "2 ^ p"] by simp

lemma fadd_bound:
  "\<bar>fval x + fval y\<bar> \<le> B \<Longrightarrow> \<bar>fval (fadd p x y) - (fval x + fval y)\<bar> \<le> B / 2 ^ p"
  using fround_bound [of "fexact_add x y" B p] by (simp add: fadd_def fval_add)

lemma fsub_bound:
  "\<bar>fval x - fval y\<bar> \<le> B \<Longrightarrow> \<bar>fval (fsub p x y) - (fval x - fval y)\<bar> \<le> B / 2 ^ p"
  using fround_bound [of "fexact_add x (fneg y)" B p] by (simp add: fsub_def fval_add)

lemma fmul_bound:
  "\<bar>fval x * fval y\<bar> \<le> B \<Longrightarrow> \<bar>fval (fmul p x y) - fval x * fval y\<bar> \<le> B / 2 ^ p"
  using fround_bound [of "fexact_mul x y" B p] by (simp add: fmul_def fval_mul)

lemma ffma_bound:
  "\<bar>fval x * fval y + fval z\<bar> \<le> B \<Longrightarrow>
     \<bar>fval (ffma p x y z) - (fval x * fval y + fval z)\<bar> \<le> B / 2 ^ p"
  using fround_bound [of "fexact_add (fexact_mul x y) z" B p] by (simp add: ffma_def fval_add fval_mul)

lemma fval_split:
  assumes "snd x < 0"
  shows "fval x = of_int (fst x) / 2 ^ nat (- snd x)"
  using assms by (simp add: fval_def power_int_def field_simps)

lemma div_real_bounds:
  assumes "0 < (d :: int)"
  shows "of_int (n div d) \<le> (of_int n / of_int d :: real)" "of_int n / of_int d < (of_int (n div d) + 1 :: real)"
proof -
  have "n div d * d \<le> n" "n < (n div d + 1) * d"
    using assms div_mult_mod_eq [of n d] pos_mod_bound [of d n] pos_mod_sign [of d n]
      distrib_right [of "n div d" 1 d]
    by linarith+
  then have "real_of_int (n div d * d) \<le> of_int n" "real_of_int n < of_int ((n div d + 1) * d)"
    by (simp_all only: of_int_le_iff of_int_less_iff)
  with assms show "of_int (n div d) \<le> (of_int n / of_int d :: real)"
    "of_int n / of_int d < (of_int (n div d) + 1 :: real)"
    by (simp_all add: field_simps)
qed

lemma powi_two_pos: "0 < (2 :: real) powi e"
  by simp

lemma ftrunc_nonneg:
  assumes "0 \<le> fval x"
  shows "of_int (ftrunc x) \<le> fval x" "fval x < of_int (ftrunc x) + 1"
proof -
  have m: "0 \<le> fst x" using assms powi_two_pos [of "snd x"]
    unfolding fval_def zero_le_mult_iff by linarith
  show "of_int (ftrunc x) \<le> fval x"
  proof (cases "0 \<le> snd x")
    case False
    with m fval_split [of x] div_real_bounds(1) [of "2 ^ nat (- snd x)" "fst x"] show ?thesis
      by (simp add: ftrunc_def)
  qed (simp add: ftrunc_def fval_def power_int_def)
  show "fval x < of_int (ftrunc x) + 1"
  proof (cases "0 \<le> snd x")
    case False
    with m fval_split [of x] div_real_bounds(2) [of "2 ^ nat (- snd x)" "fst x"] show ?thesis
      by (simp add: ftrunc_def)
  qed (simp add: ftrunc_def fval_def power_int_def)
qed

lemma ftrunc_neg:
  assumes "fval x < 0"
  shows "ftrunc x \<le> 0"
proof -
  have m: "fst x < 0" using assms powi_two_pos [of "snd x"]
    unfolding fval_def mult_less_0_iff by linarith
  then show ?thesis
    by (simp add: ftrunc_def mult_le_0_iff pos_imp_zdiv_nonneg_iff)
qed

lemma frint_error: "\<bar>of_int (frint x) - fval x\<bar> \<le> 1 / 2"
proof (cases "0 \<le> snd x")
  case True
  then show ?thesis by (simp add: frint_def fval_def power_int_def)
next
  case False
  define d :: int where "d = 2 ^ nat (- snd x)"
  have d: "0 < d" by (simp add: d_def)
  have "real_of_int (2 * \<bar>round_div (fst x) d * d - fst x\<bar>) \<le> of_int d"
    using round_div_error [OF d, of "fst x"] by (simp only: of_int_le_iff)
  then have "2 * \<bar>of_int (round_div (fst x) d) * of_int d - of_int (fst x)\<bar> \<le> real_of_int d" by simp
  moreover have "(of_int (round_div (fst x) d) - of_int (fst x) / of_int d) * of_int d
      = of_int (round_div (fst x) d) * of_int d - (of_int (fst x) :: real)"
    using d by (simp add: left_diff_distrib)
  ultimately have "2 * (\<bar>of_int (round_div (fst x) d) - of_int (fst x) / of_int d\<bar> * real_of_int d) \<le> of_int d"
    using d by (metis abs_mult abs_of_pos of_int_0_less_iff)
  then have "\<bar>of_int (round_div (fst x) d) - of_int (fst x) / of_int d\<bar> \<le> (1 / 2 :: real)"
    using d by (simp add: field_simps)
  with False fval_split [of x] show ?thesis by (simp add: frint_def d_def)
qed

lemma fliteral_error:
  assumes "0 < num" "0 < den"
  shows "\<bar>fval (fliteral p num den) - of_nat num / of_nat den\<bar> \<le> of_nat num / of_nat den / 2 ^ p"
proof -
  define s where "s = p + nbits den"
  define t where "t = nbits (num * 2 ^ s div den) - p"
  define d where "d = int den * 2 ^ t"
  define n where "n = int num * 2 ^ s"
  have d: "0 < d" using assms by (simp add: d_def)
  have val: "fval (fliteral p num den) = of_int (round_div n d) * 2 ^ t / 2 ^ s"
    by (simp add: fval_def fliteral_def Let_def s_def [symmetric] t_def [symmetric] n_def d_def power_int_diff)
  have "real_of_int (2 * \<bar>round_div n d * d - n\<bar>) \<le> of_int d"
    using round_div_error [OF d, of n] by (simp only: of_int_le_iff)
  then have e: "2 * \<bar>of_int (round_div n d) * of_int d - real_of_int n\<bar> \<le> of_int d" by simp
  have "of_int (round_div n d) * of_int d - real_of_int n
      = (fval (fliteral p num den) - of_nat num / of_nat den) * (of_nat den * 2 ^ s)"
    using assms by (simp add: val d_def n_def field_simps)
  with e have e1: "2 * (\<bar>fval (fliteral p num den) - of_nat num / of_nat den\<bar> * (of_nat den * 2 ^ s)) \<le> of_int d"
    using assms by (simp add: abs_mult)
  have "2 ^ t * 2 ^ p * den \<le> 2 * (num * 2 ^ s)"
  proof (cases "nbits (num * 2 ^ s div den) \<le> p")
    case True
    have "den < 2 ^ nbits den" by (rule nbits_upper)
    then have "2 ^ p * den \<le> 2 ^ p * 2 ^ nbits den" by simp
    also have "\<dots> \<le> num * 2 ^ s" using assms by (simp add: s_def power_add)
    finally show ?thesis using True by (simp add: t_def)
  next
    case False
    then have pos: "0 < num * 2 ^ s div den" by (cases "num * 2 ^ s div den = 0") (auto simp: nbits.simps)
    have "2 ^ t * 2 ^ p = (2 :: nat) ^ nbits (num * 2 ^ s div den)"
      using False by (simp add: t_def power_add [symmetric])
    also have "\<dots> \<le> 2 * (num * 2 ^ s div den)" by (rule nbits_lower [OF pos])
    finally have "2 ^ t * 2 ^ p * den \<le> 2 * (num * 2 ^ s div den) * den" by simp
    also have "\<dots> \<le> 2 * (num * 2 ^ s)" by (simp add: mult.assoc)
    finally show ?thesis .
  qed
  then have "real (2 ^ t * 2 ^ p * den) \<le> real (2 * (num * 2 ^ s))" by (simp only: of_nat_le_iff)
  then have "of_int d * 2 ^ p \<le> 2 * (real num * 2 ^ s)" by (simp add: d_def mult.commute mult.left_commute)
  then have "of_int d \<le> 2 * (of_nat num * 2 ^ s / 2 ^ p :: real)" by (simp add: field_simps)
  with e1 have "\<bar>fval (fliteral p num den) - of_nat num / of_nat den\<bar> * (of_nat den * 2 ^ s) \<le> of_nat num * 2 ^ s / 2 ^ p"
    by linarith
  then show ?thesis using assms by (simp add: field_simps)
qed

end
