(* ===== verification/NV12_Pixel.thy ===== *)
theory NV12_Pixel
  imports Float_Rounding
begin

text \<open>
  The colour arithmetic of one pixel: of the CPU reference \<open>ManualNV12ToRGB\<close>
  (\<open>src/compute/lo_engine.cc\<close>, \<open>double\<close> and truncation) and of the OpenCL kernel \<open>nv12_to_rgb\<close>
  (\<open>src/kernels/nv12_to_rgb.cl\<close>, \<open>float\<close> and rounding to nearest even), operation by operation
  with the rounding of each, and how far the two are apart.
\<close>

section \<open>The CPU reference\<close>

definition clamp8 :: "int \<Rightarrow> u8" where
  "clamp8 i = word_of_int (max 0 (min 255 i))"

definition manual_rgb :: "u8 \<times> u8 \<times> u8 \<Rightarrow> u8 \<times> u8 \<times> u8" where
  "manual_rgb yuv =
     (let Y = uint (fst yuv);
          U = uint (fst (snd yuv)) - 128;
          V = uint (snd (snd yuv)) - 128;
          luma = fmul 53 (fliteral 53 1164 1000) (fof_int (Y - 16));
          r = ftrunc (fadd 53 luma (fmul 53 (fliteral 53 1596 1000) (fof_int V)));
          g = ftrunc (fsub 53 (fsub 53 luma (fmul 53 (fliteral 53 813 1000) (fof_int V)))
                       (fmul 53 (fliteral 53 391 1000) (fof_int U)));
          b = ftrunc (fadd 53 luma (fmul 53 (fliteral 53 2018 1000) (fof_int U)))
      in (clamp8 r, clamp8 g, clamp8 b))"

section \<open>The kernel\<close>

definition K_Y :: flt where "K_Y = fliteral 24 1164383 1000000"
definition K_RV :: flt where "K_RV = fliteral 24 1596027 1000000"
definition K_GU :: flt where "K_GU = fliteral 24 391762 1000000"
definition K_GV :: flt where "K_GV = fliteral 24 812968 1000000"
definition K_BU :: flt where "K_BU = fliteral 24 2017232 1000000"
definition Y_OFF :: flt where "Y_OFF = fof_int 16"
definition UV_OFF :: flt where "UV_OFF = fof_int 128"

text \<open>
  OpenCL C lets the compiler contract a product and a sum into one fused operation: \<open>contract\<close>
  says whether it did, and both are covered.
\<close>

definition mul_add :: "bool \<Rightarrow> flt \<Rightarrow> flt \<Rightarrow> flt \<Rightarrow> flt" where
  "mul_add contract x y z = (if contract then ffma 24 x y z else fadd 24 z (fmul 24 x y))"

definition mul_sub :: "bool \<Rightarrow> flt \<Rightarrow> flt \<Rightarrow> flt \<Rightarrow> flt" where
  "mul_sub contract z x y = (if contract then ffma 24 (fneg x) y z else fsub 24 z (fmul 24 x y))"

definition kernel_rgb :: "bool \<Rightarrow> u8 \<times> u8 \<times> u8 \<Rightarrow> u8 \<times> u8 \<times> u8" where
  "kernel_rgb contract yuv =
     (let Y = fof_int (uint (fst yuv));
          U = fof_int (uint (fst (snd yuv)));
          V = fof_int (uint (snd (snd yuv)));
          Y_p = fmul 24 K_Y (fsub 24 Y Y_OFF);
          U_p = fsub 24 U UV_OFF;
          V_p = fsub 24 V UV_OFF;
          r = mul_add contract K_RV V_p Y_p;
          g = mul_sub contract (mul_sub contract Y_p K_GU U_p) K_GV V_p;
          b = mul_add contract K_BU U_p Y_p
      in (clamp8 (frint r), clamp8 (frint g), clamp8 (frint b)))"

section \<open>Error bounds\<close>

lemma nbits_le: "n < 2 ^ k \<Longrightarrow> nbits n \<le> k"
proof -
  assume n: "n < 2 ^ k"
  show "nbits n \<le> k"
  proof (cases "n = 0")
    case True
    then show ?thesis by (simp add: nbits.simps)
  next
    case False
    then have "2 ^ nbits n \<le> 2 * n" by (simp add: nbits_lower)
    also have "\<dots> < 2 * 2 ^ k" using n by simp
    finally have "(2 :: nat) ^ nbits n < 2 ^ Suc k" by simp
    then show ?thesis by (simp only: power_strict_increasing_iff)
  qed
qed

lemma fsub_int_exact:
  assumes "\<bar>a - b\<bar> < 2 ^ p"
  shows "fsub p (fof_int a) (fof_int b) = fof_int (a - b)"
proof -
  have "nat \<bar>a - b\<bar> < 2 ^ p" using assms by (simp add: nat_less_iff)
  then have "nbits (nat \<bar>a - b\<bar>) \<le> p" by (rule nbits_le)
  then show ?thesis
    by (simp add: fsub_def fround_def fexact_add_def fneg_def fof_int_def Let_def)
qed

lemma power24: "24 \<le> p \<Longrightarrow> 1 / 2 ^ p \<le> (1 / 16777216 :: real)"
  using power_increasing [of 24 p "2 :: real"] by (simp add: field_simps)

lemma rounding_small: "24 \<le> p \<Longrightarrow> 1501 / 2 ^ p \<le> (1 / 10000 :: real)"
  using power_increasing [of 24 p "2 :: real"] by (simp add: divide_le_eq)

lemma literal_close:
  assumes "0 < num" "0 < den" "num \<le> 3 * den"
  shows "\<bar>fval (fliteral p num den) - of_nat num / of_nat den\<bar> \<le> 3 / 2 ^ p"
    and "of_nat num / of_nat den \<le> (3 :: real)" "0 \<le> (of_nat num / of_nat den :: real)"
proof -
  have "of_nat num \<le> (of_nat (3 * den) :: real)" using assms by (simp only: of_nat_le_iff)
  then show k: "of_nat num / of_nat den \<le> (3 :: real)" using assms by (simp add: field_simps)
  then have "of_nat num / of_nat den / 2 ^ p \<le> (3 / 2 ^ p :: real)" by (rule divide_right_mono) simp
  with fliteral_error [OF assms(1,2), of p]
  show "\<bar>fval (fliteral p num den) - of_nat num / of_nat den\<bar> \<le> 3 / 2 ^ p" by linarith
  show "0 \<le> (of_nat num / of_nat den :: real)" by simp
qed

lemma literal_product:
  assumes "0 < num" "0 < den" "num \<le> 3 * den" "\<bar>a\<bar> \<le> 256" "24 \<le> p"
  shows "\<bar>fval (fliteral p num den) * of_int a - of_nat num / of_nat den * of_int a\<bar> \<le> 768 / 2 ^ p"
    and "\<bar>fval (fliteral p num den) * of_int a\<bar> \<le> 769"
proof -
  let ?c = "fval (fliteral p num den)" and ?k = "of_nat num / of_nat den :: real" and ?a = "real_of_int a"
  have a: "\<bar>?a\<bar> \<le> 256" using assms(4) by linarith
  have "\<bar>?c * ?a - ?k * ?a\<bar> = \<bar>?c - ?k\<bar> * \<bar>?a\<bar>" by (simp add: abs_mult [symmetric] left_diff_distrib)
  also have "\<dots> \<le> 3 / 2 ^ p * 256" by (rule mult_mono [OF literal_close(1) [OF assms(1-3)] a]) simp_all
  finally show 1: "\<bar>?c * ?a - ?k * ?a\<bar> \<le> 768 / 2 ^ p" by simp
  have "\<bar>?k * ?a\<bar> = ?k * \<bar>?a\<bar>" using literal_close(3) [OF assms(1-3)] by (simp add: abs_mult)
  also have "\<dots> \<le> 3 * 256"
    by (rule mult_mono [OF literal_close(2) [OF assms(1-3)] a]) simp_all
  finally have "\<bar>?k * ?a\<bar> \<le> 768" by simp
  with 1 power24 [OF assms(5)] show "\<bar>?c * ?a\<bar> \<le> 769" by linarith
qed

lemma product_error:
  assumes "0 < num" "0 < den" "num \<le> 3 * den" "\<bar>a\<bar> \<le> 256" "24 \<le> p"
  shows "\<bar>fval (fmul p (fliteral p num den) (fof_int a)) - of_nat num / of_nat den * of_int a\<bar> \<le> 1600 / 2 ^ p"
proof -
  have "\<bar>fval (fmul p (fliteral p num den) (fof_int a)) - fval (fliteral p num den) * of_int a\<bar> \<le> 769 / 2 ^ p"
    using fmul_bound [of "fliteral p num den" "fof_int a" 769 p] literal_product(2) [OF assms] by simp
  moreover have "769 / 2 ^ p + 768 / 2 ^ p \<le> (1600 / 2 ^ p :: real)"
    by (simp add: add_divide_distrib [symmetric] divide_right_mono)
  moreover have "\<bar>x - z\<bar> \<le> \<bar>x - y\<bar> + \<bar>y - z\<bar>" for x y z :: real by linarith
  ultimately show ?thesis
    by (meson literal_product(1) [OF assms] add_mono order_trans)
qed

lemma add_error:
  assumes "\<bar>fval x - X\<bar> \<le> ex" "\<bar>fval y - Y\<bar> \<le> ey" "\<bar>X + Y\<bar> \<le> 1500" "ex + ey \<le> 1" "24 \<le> p"
  shows "\<bar>fval (fadd p x y) - (X + Y)\<bar> \<le> ex + ey + 1501 / 2 ^ p"
proof -
  have "\<bar>fval x + fval y\<bar> \<le> 1501" using assms by linarith
  from fadd_bound [OF this, of p] assms show ?thesis by linarith
qed

lemma sub_error:
  assumes "\<bar>fval x - X\<bar> \<le> ex" "\<bar>fval y - Y\<bar> \<le> ey" "\<bar>X - Y\<bar> \<le> 1500" "ex + ey \<le> 1" "24 \<le> p"
  shows "\<bar>fval (fsub p x y) - (X - Y)\<bar> \<le> ex + ey + 1501 / 2 ^ p"
proof -
  have "\<bar>fval x - fval y\<bar> \<le> 1501" using assms by linarith
  from fsub_bound [OF this, of p] assms show ?thesis by linarith
qed

lemma fma_error:
  assumes "\<bar>fval x * fval y - M\<bar> \<le> em" "\<bar>fval z - Z\<bar> \<le> ez" "\<bar>M + Z\<bar> \<le> 1500" "em + ez \<le> 1" "24 \<le> p"
  shows "\<bar>fval (ffma p x y z) - (M + Z)\<bar> \<le> em + ez + 1501 / 2 ^ p"
proof -
  have "\<bar>fval x * fval y + fval z\<bar> \<le> 1501" using assms by linarith
  from ffma_bound [OF this, of p] assms show ?thesis by linarith
qed

lemma clamp_rounding:
  assumes "\<bar>fval s - fval s'\<bar> \<le> 1 / 4"
  shows "uint (clamp8 (ftrunc s)) \<le> uint (clamp8 (frint s'))
    \<and> uint (clamp8 (frint s')) \<le> uint (clamp8 (ftrunc s)) + 1"
proof -
  have c: "uint (clamp8 i) = max 0 (min 255 i)" for i
    by (simp add: clamp8_def uint_word_of_int)
  show ?thesis
  proof (cases "0 \<le> fval s")
    case True
    from ftrunc_nonneg [OF True] frint_error [of s'] assms
    have "real_of_int (ftrunc s) < of_int (frint s') + 1" "real_of_int (frint s') < of_int (ftrunc s) + 2"
      by linarith+
    then have "ftrunc s < frint s' + 1" "frint s' < ftrunc s + 2" by linarith+
    then show ?thesis by (auto simp: c min_def max_def)
  next
    case False
    then have "ftrunc s \<le> 0" by (simp add: ftrunc_neg)
    moreover from False frint_error [of s'] assms have "real_of_int (frint s') < 1" by linarith
    then have "frint s' < 1" by linarith
    ultimately show ?thesis by (simp add: c)
  qed
qed

section \<open>The two against the exact formula\<close>

text \<open>A value close to \<open>k_y * a + k_1 * x + k_2 * y\<close>.\<close>

definition near :: "real \<Rightarrow> flt \<Rightarrow> real \<Rightarrow> bool" where
  "near e x X \<longleftrightarrow> \<bar>fval x - X\<bar> \<le> e"

lemma near_product:
  assumes "0 < num" "0 < den" "num \<le> 3 * den" "\<bar>a\<bar> \<le> 256"
  shows "near (1 / 10000) (fmul 53 (fliteral 53 num den) (fof_int a)) (of_nat num / of_nat den * of_int a)"
    and "near (1 / 10000) (fmul 24 (fliteral 24 num den) (fof_int a)) (of_nat num / of_nat den * of_int a)"
  using product_error [OF assms, of 53] product_error [OF assms, of 24] by (simp_all add: near_def)

lemma near_add:
  assumes "near ex x X" "near ey y Y" "\<bar>X + Y\<bar> \<le> 1500" "ex + ey \<le> 1" "24 \<le> p"
  shows "near (ex + ey + 1 / 10000) (fadd p x y) (X + Y)"
  using add_error [of x X ex y Y ey p] rounding_small [OF assms(5)] assms unfolding near_def by linarith

lemma near_sub:
  assumes "near ex x X" "near ey y Y" "\<bar>X - Y\<bar> \<le> 1500" "ex + ey \<le> 1" "24 \<le> p"
  shows "near (ex + ey + 1 / 10000) (fsub p x y) (X - Y)"
  using sub_error [of x X ex y Y ey p] rounding_small [OF assms(5)] assms unfolding near_def by linarith

lemma near_fma:
  assumes "\<bar>fval x * fval y - M\<bar> \<le> 1 / 10000" "near ez z Z" "\<bar>M + Z\<bar> \<le> 1500" "ez \<le> 1 / 2"
  shows "near (ez + 2 / 10000) (ffma 24 x y z) (M + Z)"
  using fma_error [OF assms(1), of z Z ez 24] assms(2-4) by (simp add: near_def)

lemma near_literal_fma:
  assumes "0 < num" "0 < den" "num \<le> 3 * den" "\<bar>a\<bar> \<le> 256" "near ez z Z" "ez \<le> 1 / 2"
  shows "\<bar>of_nat num / of_nat den * of_int a + Z\<bar> \<le> 1500 \<Longrightarrow> near (ez + 2 / 10000)
      (ffma 24 (fliteral 24 num den) (fof_int a) z) (of_nat num / of_nat den * of_int a + Z)"
    and "\<bar>Z - of_nat num / of_nat den * of_int a\<bar> \<le> 1500 \<Longrightarrow> near (ez + 2 / 10000)
      (ffma 24 (fneg (fliteral 24 num den)) (fof_int a) z) (Z - of_nat num / of_nat den * of_int a)"
proof -
  have p: "\<bar>fval (fliteral 24 num den) * of_int a - of_nat num / of_nat den * of_int a\<bar> \<le> 1 / 10000"
    using literal_product(1) [OF assms(1-4), of 24] by simp
  show "near (ez + 2 / 10000) (ffma 24 (fliteral 24 num den) (fof_int a) z) (of_nat num / of_nat den * of_int a + Z)"
    if "\<bar>of_nat num / of_nat den * of_int a + Z\<bar> \<le> 1500"
    by (rule near_fma [OF _ assms(5) that assms(6)]) (use p in simp)
  have n: "\<bar>fval (fneg (fliteral 24 num den)) * fval (fof_int a) - (- (of_nat num / of_nat den * of_int a))\<bar> \<le> 1 / 10000"
    using p by (simp add: abs_minus_commute)
  show "near (ez + 2 / 10000) (ffma 24 (fneg (fliteral 24 num den)) (fof_int a) z) (Z - of_nat num / of_nat den * of_int a)"
    if "\<bar>Z - of_nat num / of_nat den * of_int a\<bar> \<le> 1500"
    using near_fma [OF n assms(5) _ assms(6)] that by simp
qed

text \<open>The exact formulas, with the reference's and with the kernel's constants.\<close>

definition exact_rgb :: "real \<times> real \<times> real \<times> real \<times> real \<Rightarrow> u8 \<times> u8 \<times> u8 \<Rightarrow> real \<times> real \<times> real" where
  "exact_rgb k yuv =
     (let (ky, krv, kgu, kgv, kbu) = k;
          a = of_int (uint (fst yuv) - 16);
          u = of_int (uint (fst (snd yuv)) - 128);
          v = of_int (uint (snd (snd yuv)) - 128)
      in (ky * a + krv * v, ky * a - kgu * u - kgv * v, ky * a + kbu * u))"

definition reference_constants :: "real \<times> real \<times> real \<times> real \<times> real" where
  "reference_constants = (1164 / 1000, 1596 / 1000, 391 / 1000, 813 / 1000, 2018 / 1000)"

definition kernel_constants :: "real \<times> real \<times> real \<times> real \<times> real" where
  "kernel_constants = (1164383 / 1000000, 1596027 / 1000000, 391762 / 1000000, 812968 / 1000000, 2017232 / 1000000)"

definition manual_floats :: "u8 \<times> u8 \<times> u8 \<Rightarrow> flt \<times> flt \<times> flt" where
  "manual_floats yuv =
     (let U = uint (fst (snd yuv)) - 128; V = uint (snd (snd yuv)) - 128;
          luma = fmul 53 (fliteral 53 1164 1000) (fof_int (uint (fst yuv) - 16))
      in (fadd 53 luma (fmul 53 (fliteral 53 1596 1000) (fof_int V)),
          fsub 53 (fsub 53 luma (fmul 53 (fliteral 53 813 1000) (fof_int V))) (fmul 53 (fliteral 53 391 1000) (fof_int U)),
          fadd 53 luma (fmul 53 (fliteral 53 2018 1000) (fof_int U))))"

definition kernel_floats :: "bool \<Rightarrow> u8 \<times> u8 \<times> u8 \<Rightarrow> flt \<times> flt \<times> flt" where
  "kernel_floats contract yuv =
     (let U = uint (fst (snd yuv)) - 128; V = uint (snd (snd yuv)) - 128;
          luma = fmul 24 K_Y (fof_int (uint (fst yuv) - 16))
      in (mul_add contract K_RV (fof_int V) luma,
          mul_sub contract (mul_sub contract luma K_GU (fof_int U)) K_GV (fof_int V),
          mul_add contract K_BU (fof_int U) luma))"

definition map3 :: "('a \<Rightarrow> 'b) \<Rightarrow> 'a \<times> 'a \<times> 'a \<Rightarrow> 'b \<times> 'b \<times> 'b" where
  "map3 f t = (f (fst t), f (fst (snd t)), f (snd (snd t)))"

definition all3 :: "('a \<Rightarrow> 'b \<Rightarrow> bool) \<Rightarrow> 'a \<times> 'a \<times> 'a \<Rightarrow> 'b \<times> 'b \<times> 'b \<Rightarrow> bool" where
  "all3 P s t \<longleftrightarrow> P (fst s) (fst t) \<and> P (fst (snd s)) (fst (snd t)) \<and> P (snd (snd s)) (snd (snd t))"

lemma byte_bounds: "0 \<le> uint (b :: u8)" "uint b \<le> 255"
  using uint_bounded [of b] by simp_all

lemma manual_rgb_floats: "manual_rgb yuv = map3 (\<lambda>s. clamp8 (ftrunc s)) (manual_floats yuv)"
  unfolding manual_rgb_def manual_floats_def map3_def Let_def by (simp only: fst_conv snd_conv)

lemma kernel_rgb_floats: "kernel_rgb contract yuv = map3 (\<lambda>s. clamp8 (frint s)) (kernel_floats contract yuv)"
proof -
  have "\<bar>uint b - 16\<bar> < 16777216" "\<bar>uint b - 128\<bar> < 16777216" for b :: u8
    using byte_bounds [of b] by linarith+
  then have "fsub 24 (fof_int (uint b)) Y_OFF = fof_int (uint b - 16)"
    and "fsub 24 (fof_int (uint b)) UV_OFF = fof_int (uint b - 128)" for b :: u8
    by (simp_all add: Y_OFF_def UV_OFF_def fsub_int_exact)
  then show ?thesis
    unfolding kernel_rgb_def kernel_floats_def map3_def Let_def by (simp only: fst_conv snd_conv)
qed

lemma chroma_bounds:
  "\<bar>uint (b :: u8) - 16\<bar> \<le> 239" "\<bar>uint (b :: u8) - 128\<bar> \<le> 128"
  using byte_bounds [of b] by linarith+

lemma near_weaken: "near e x X \<Longrightarrow> e \<le> e' \<Longrightarrow> near e' x X"
  by (simp add: near_def)

lemma near_floats:
  fixes a u v :: int
  assumes "\<bar>a\<bar> \<le> 239" "\<bar>u\<bar> \<le> 128" "\<bar>v\<bar> \<le> 128"
    and k: "0 < ky" "0 < kx" "0 < kz" "0 < d" "ky \<le> 3 * d" "kx \<le> 3 * d" "kz \<le> 3 * d" and p: "p = 53 \<or> p = 24"
  defines "luma \<equiv> fmul p (fliteral p ky d) (fof_int a)"
  shows "near (1 / 1000) (fadd p luma (fmul p (fliteral p kx d) (fof_int v)))
      (of_nat ky / of_nat d * of_int a + of_nat kx / of_nat d * of_int v)"
    and "near (1 / 1000) (fsub p (fsub p luma (fmul p (fliteral p kx d) (fof_int v))) (fmul p (fliteral p kz d) (fof_int u)))
      (of_nat ky / of_nat d * of_int a - of_nat kx / of_nat d * of_int v - of_nat kz / of_nat d * of_int u)"
proof -
  have p24: "24 \<le> p" using p by auto
  have y: "near (1 / 10000) luma (of_nat ky / of_nat d * of_int a)"
    and x: "near (1 / 10000) (fmul p (fliteral p kx d) (fof_int v)) (of_nat kx / of_nat d * of_int v)"
    and z: "near (1 / 10000) (fmul p (fliteral p kz d) (fof_int u)) (of_nat kz / of_nat d * of_int u)"
    unfolding luma_def using p near_product assms by auto
  have m: "\<bar>of_nat n / of_nat d * of_int i :: real\<bar> \<le> 3 * B" if "0 < n" "n \<le> 3 * d" "\<bar>of_int i :: real\<bar> \<le> B" for n i B
    using mult_mono [OF literal_close(2) [OF that(1) k(4) that(2)] that(3)] literal_close(3) [OF that(1) k(4) that(2)]
    by (simp add: abs_mult)
  have r: "\<bar>real_of_int a\<bar> \<le> 239" "\<bar>real_of_int u\<bar> \<le> 128" "\<bar>real_of_int v\<bar> \<le> 128" using assms(1-3) by linarith+
  note ma = m [OF k(1) k(5) r(1)] and mv = m [OF k(2) k(6) r(3)] and mu = m [OF k(3) k(7) r(2)]
  have 1: "near (1 / 10000 + 1 / 10000 + 1 / 10000) (fadd p luma (fmul p (fliteral p kx d) (fof_int v)))
      (of_nat ky / of_nat d * of_int a + of_nat kx / of_nat d * of_int v)"
    by (rule near_add [OF y x _ _ p24]) (use ma mv in linarith)+
  then show "near (1 / 1000) (fadd p luma (fmul p (fliteral p kx d) (fof_int v)))
      (of_nat ky / of_nat d * of_int a + of_nat kx / of_nat d * of_int v)" by (rule near_weaken) simp
  have 2: "near (1 / 10000 + 1 / 10000 + 1 / 10000) (fsub p luma (fmul p (fliteral p kx d) (fof_int v)))
      (of_nat ky / of_nat d * of_int a - of_nat kx / of_nat d * of_int v)"
    by (rule near_sub [OF y x _ _ p24]) (use ma mv in linarith)+
  have "near ((1 / 10000 + 1 / 10000 + 1 / 10000) + 1 / 10000 + 1 / 10000)
      (fsub p (fsub p luma (fmul p (fliteral p kx d) (fof_int v))) (fmul p (fliteral p kz d) (fof_int u)))
      (of_nat ky / of_nat d * of_int a - of_nat kx / of_nat d * of_int v - of_nat kz / of_nat d * of_int u)"
    by (rule near_sub [OF 2 z _ _ p24]) (use ma mv mu in linarith)+
  then show "near (1 / 1000) (fsub p (fsub p luma (fmul p (fliteral p kx d) (fof_int v))) (fmul p (fliteral p kz d) (fof_int u)))
      (of_nat ky / of_nat d * of_int a - of_nat kx / of_nat d * of_int v - of_nat kz / of_nat d * of_int u)"
    by (rule near_weaken) simp
qed

lemma manual_floats_near:
  "all3 (near (1 / 1000)) (manual_floats yuv) (exact_rgb reference_constants yuv)"
proof -
  define a u v where "a = uint (fst yuv) - 16" and "u = uint (fst (snd yuv)) - 128"
    and "v = uint (snd (snd yuv)) - 128"
  have i: "\<bar>a\<bar> \<le> 239" "\<bar>u\<bar> \<le> 128" "\<bar>v\<bar> \<le> 128"
    unfolding a_def u_def v_def by (rule chroma_bounds)+
  note n = near_floats [where p = 53 and d = 1000 and ky = 1164, OF i(1)]
  show ?thesis
    unfolding all3_def manual_floats_def exact_rgb_def reference_constants_def Let_def prod.case fst_conv snd_conv
      a_def [symmetric] u_def [symmetric] v_def [symmetric]
    using n(1) [of u v 1596 1] n(2) [of u v 813 391] n(1) [of v u 2018 1] i
    by (simp add: diff_diff_eq add.commute)
qed

lemma kernel_floats_near:
  "all3 (near (1 / 1000)) (kernel_floats contract yuv) (exact_rgb kernel_constants yuv)"
proof -
  define a u v where "a = uint (fst yuv) - 16" and "u = uint (fst (snd yuv)) - 128"
    and "v = uint (snd (snd yuv)) - 128"
  have i: "\<bar>a\<bar> \<le> 239" "\<bar>u\<bar> \<le> 128" "\<bar>v\<bar> \<le> 128"
    unfolding a_def u_def v_def by (rule chroma_bounds)+
  show ?thesis
  proof (cases contract)
    case False
    note n = near_floats [where p = 24 and d = 1000000 and ky = 1164383, OF i(1)]
    show ?thesis using False
      unfolding all3_def kernel_floats_def exact_rgb_def kernel_constants_def Let_def prod.case fst_conv snd_conv
        a_def [symmetric] u_def [symmetric] v_def [symmetric] mul_add_def mul_sub_def
        K_Y_def K_RV_def K_GU_def K_GV_def K_BU_def
      using n(1) [of u v 1596027 1] n(2) [of v u 391762 812968] n(1) [of v u 2017232 1] i by simp
  next
    case True
    have r: "\<bar>real_of_int a\<bar> \<le> 239" "\<bar>real_of_int u\<bar> \<le> 128" "\<bar>real_of_int v\<bar> \<le> 128" using i by linarith+
    let ?l = "fmul 24 (fliteral 24 1164383 1000000) (fof_int a)"
    let ?y = "1164383 / 1000000 * real_of_int a"
    have y: "near (1 / 10000) ?l ?y" using near_product(2) [of 1164383 1000000 a] i by simp
    have 1: "near (1 / 10000 + 2 / 10000) (ffma 24 (fliteral 24 1596027 1000000) (fof_int v) ?l)
        (1596027 / 1000000 * real_of_int v + ?y)"
      using near_literal_fma(1) [of 1596027 1000000 v, OF _ _ _ _ y] r i by simp
    have 2: "near (1 / 10000 + 2 / 10000) (ffma 24 (fliteral 24 2017232 1000000) (fof_int u) ?l)
        (2017232 / 1000000 * real_of_int u + ?y)"
      using near_literal_fma(1) [of 2017232 1000000 u, OF _ _ _ _ y] r i by simp
    have 3: "near (1 / 10000 + 2 / 10000) (ffma 24 (fneg (fliteral 24 391762 1000000)) (fof_int u) ?l)
        (?y - 391762 / 1000000 * real_of_int u)"
      using near_literal_fma(2) [of 391762 1000000 u, OF _ _ _ _ y] r i by simp
    have 4: "near (1 / 10000 + 2 / 10000 + 2 / 10000) (ffma 24 (fneg (fliteral 24 812968 1000000)) (fof_int v)
        (ffma 24 (fneg (fliteral 24 391762 1000000)) (fof_int u) ?l))
        (?y - 391762 / 1000000 * real_of_int u - 812968 / 1000000 * real_of_int v)"
      using near_literal_fma(2) [of 812968 1000000 v, OF _ _ _ _ 3] r i by simp
    show ?thesis using True
      unfolding all3_def kernel_floats_def exact_rgb_def kernel_constants_def Let_def prod.case fst_conv snd_conv
        a_def [symmetric] u_def [symmetric] v_def [symmetric] mul_add_def mul_sub_def
        K_Y_def K_RV_def K_GU_def K_GV_def K_BU_def if_P [OF True]
      using near_weaken [OF 1, of "1 / 1000"] near_weaken [OF 2, of "1 / 1000"] near_weaken [OF 4, of "1 / 1000"]
      by (simp add: add.commute)
  qed
qed

lemma formula_close:
  fixes a u v :: real
  assumes "\<bar>a\<bar> \<le> 239" "\<bar>u\<bar> \<le> 128" "\<bar>v\<bar> \<le> 128"
  shows "\<bar>(1164 / 1000 * a + 1596 / 1000 * v) - (1164383 / 1000000 * a + 1596027 / 1000000 * v)\<bar> \<le> 1 / 5"
    and "\<bar>(1164 / 1000 * a - 391 / 1000 * u - 813 / 1000 * v)
        - (1164383 / 1000000 * a - 391762 / 1000000 * u - 812968 / 1000000 * v)\<bar> \<le> 1 / 5"
    and "\<bar>(1164 / 1000 * a + 2018 / 1000 * u) - (1164383 / 1000000 * a + 2017232 / 1000000 * u)\<bar> \<le> 1 / 5"
  using assms by linarith+

lemma exact_close:
  "all3 (\<lambda>x y. \<bar>x - y\<bar> \<le> 1 / 5) (exact_rgb reference_constants yuv) (exact_rgb kernel_constants yuv)"
proof -
  have "\<bar>uint (fst yuv) - 16\<bar> \<le> 239" "\<bar>uint (fst (snd yuv)) - 128\<bar> \<le> 128" "\<bar>uint (snd (snd yuv)) - 128\<bar> \<le> 128"
    by (rule chroma_bounds)+
  then have "\<bar>real_of_int (uint (fst yuv) - 16)\<bar> \<le> 239" "\<bar>real_of_int (uint (fst (snd yuv)) - 128)\<bar> \<le> 128"
    "\<bar>real_of_int (uint (snd (snd yuv)) - 128)\<bar> \<le> 128"
    by linarith+
  from formula_close [OF this] show ?thesis
    unfolding all3_def exact_rgb_def reference_constants_def kernel_constants_def Let_def prod.case fst_conv snd_conv
    by blast
qed

lemma near_close:
  "near (1 / 1000) s X \<Longrightarrow> near (1 / 1000) t Y \<Longrightarrow> \<bar>X - Y\<bar> \<le> 1 / 5 \<Longrightarrow> \<bar>fval s - fval t\<bar> \<le> 1 / 4"
  unfolding near_def by linarith

lemma manual_rgb_kernel_rgb:
  "\<exists>r g b r' g' b'. manual_rgb yuv = (r, g, b) \<and> kernel_rgb contract yuv = (r', g', b')
     \<and> uint r \<le> uint r' \<and> uint r' \<le> uint r + 1
     \<and> uint g \<le> uint g' \<and> uint g' \<le> uint g + 1
     \<and> uint b \<le> uint b' \<and> uint b' \<le> uint b + 1"
proof -
  obtain s1 s2 s3 where m: "manual_floats yuv = (s1, s2, s3)" using prod_cases3 by blast
  obtain t1 t2 t3 where k: "kernel_floats contract yuv = (t1, t2, t3)" using prod_cases3 by blast
  have "\<bar>fval s1 - fval t1\<bar> \<le> 1 / 4" "\<bar>fval s2 - fval t2\<bar> \<le> 1 / 4" "\<bar>fval s3 - fval t3\<bar> \<le> 1 / 4"
    using manual_floats_near [of yuv] kernel_floats_near [of contract yuv] exact_close [of yuv]
    unfolding all3_def m k fst_conv snd_conv by (blast intro: near_close)+
  note c = this [THEN clamp_rounding]
  show ?thesis
    unfolding manual_rgb_floats kernel_rgb_floats map3_def m k fst_conv snd_conv
    by (intro exI conjI, (rule refl)+) (use c in \<open>simp_all only:\<close>)
qed

text \<open>
  C15: for every pixel and whether or not the compiler fuses multiply and add, each channel the
  OpenCL kernel computes is the one the CPU reference computes or one more, never anything else.
\<close>

theorem kernel_pixel_agrees_with_reference:
  "\<exists>r g b r' g' b'. manual_rgb yuv = (r, g, b) \<and> kernel_rgb contract yuv = (r', g', b')
     \<and> uint r \<le> uint r' \<and> uint r' \<le> uint r + 1
     \<and> uint g \<le> uint g' \<and> uint g' \<le> uint g + 1
     \<and> uint b \<le> uint b' \<and> uint b' \<le> uint b + 1"
  by (rule manual_rgb_kernel_rgb)

lemma clamp_accuracy:
  assumes "near (1 / 1000) t E"
  shows "\<bar>of_int (uint (clamp8 (frint t))) - max 0 (min 255 E)\<bar> \<le> 501 / 1000"
proof -
  have c: "real_of_int (uint (clamp8 i)) = max 0 (min 255 (real_of_int i))" for i
    by (simp add: clamp8_def uint_word_of_int max_def min_def)
  have "\<bar>real_of_int (frint t) - E\<bar> \<le> 501 / 1000"
    using frint_error [of t] assms unfolding near_def by linarith
  then show ?thesis unfolding c by (simp add: max_def min_def abs_if split: if_splits)
qed

text \<open>
  the kernel's bytes are accurate: each channel is within 0.501 of the exact value of the
  documented BT.601 limited-range formula (with the kernel's constants), clamped to [0, 255]; the
  \<open>float\<close> arithmetic costs at most a thousandth beyond the rounding to an integer.
\<close>

theorem kernel_pixel_accuracy:
  "all3 (\<lambda>c E. \<bar>of_int (uint c) - max 0 (min 255 E)\<bar> \<le> 501 / 1000)
     (kernel_rgb contract yuv) (exact_rgb kernel_constants yuv)"
  using kernel_floats_near [of contract yuv]
  unfolding kernel_rgb_floats all3_def map3_def fst_conv snd_conv by (blast intro: clamp_accuracy)

end
