(* ===== verification/NV12_Image.thy ===== *)
theory NV12_Image
  imports NV12_Pixel
begin

text \<open>
  Whole frames: \<open>ManualNV12ToRGB\<close> of \<open>src/compute/lo_engine.cc\<close> and the work-items of the kernel
  \<open>nv12_to_rgb\<close> of \<open>src/kernels/nv12_to_rgb.cl\<close>. The byte buffers are lists; an access outside one,
  and a signed \<open>int\<close> overflow of the reference, is undefined (\<open>None\<close>).
\<close>

unbundle bit_operations_syntax

section \<open>The CPU reference\<close>

definition int32 :: "int \<Rightarrow> int option" where
  "int32 i = (if - 2147483648 \<le> i \<and> i < 2147483648 then Some i else None)"

definition load_at :: "u8 list \<Rightarrow> int \<Rightarrow> u8 option" where
  "load_at xs i = (if 0 \<le> i then arr_get xs (nat i) else None)"

definition store_at :: "u8 list \<Rightarrow> int \<Rightarrow> u8 \<Rightarrow> u8 list option" where
  "store_at xs i v = (if 0 \<le> i then arr_set xs (nat i) v else None)"

definition manual_pixel :: "u8 list \<Rightarrow> int \<Rightarrow> int \<Rightarrow> int \<Rightarrow> int \<Rightarrow> u8 list \<Rightarrow> u8 list option" where
  "manual_pixel nv12 width height y x rgb = do {
     uv_plane \<leftarrow> int32 (width * height);
     row \<leftarrow> int32 (y * width);
     y_idx \<leftarrow> int32 (row + x);
     uv_row \<leftarrow> int32 ((y div 2) * width);
     uv_idx \<leftarrow> int32 (uv_row + (x AND NOT 1));
     Y \<leftarrow> load_at nv12 y_idx;
     U \<leftarrow> load_at nv12 (uv_plane + uv_idx);
     uv_next \<leftarrow> int32 (uv_idx + 1);
     V \<leftarrow> load_at nv12 (uv_plane + uv_next);
     last_idx \<leftarrow> int32 (y_idx * 3 + 2);
     rgb \<leftarrow> store_at rgb (y_idx * 3) (fst (manual_rgb (Y, U, V)));
     rgb \<leftarrow> store_at rgb (y_idx * 3 + 1) (fst (snd (manual_rgb (Y, U, V))));
     store_at rgb last_idx (snd (snd (manual_rgb (Y, U, V))))
   }"

function manual_cols :: "u8 list \<Rightarrow> int \<Rightarrow> int \<Rightarrow> int \<Rightarrow> int \<Rightarrow> u8 list \<Rightarrow> u8 list option" where
  "manual_cols nv12 width height y x rgb =
     (if x < width then do {
        rgb \<leftarrow> manual_pixel nv12 width height y x rgb;
        manual_cols nv12 width height y (x + 1) rgb }
      else Some rgb)"
  by auto
termination by (relation "measure (\<lambda>(nv12, width, height, y, x, rgb). nat (width - x))") auto

function manual_rows :: "u8 list \<Rightarrow> int \<Rightarrow> int \<Rightarrow> int \<Rightarrow> u8 list \<Rightarrow> u8 list option" where
  "manual_rows nv12 width height y rgb =
     (if y < height then do {
        rgb \<leftarrow> manual_cols nv12 width height y 0 rgb;
        manual_rows nv12 width height (y + 1) rgb }
      else Some rgb)"
  by auto
termination by (relation "measure (\<lambda>(nv12, width, height, y, rgb). nat (height - y))") auto

declare manual_cols.simps [simp del] manual_rows.simps [simp del]

definition ManualNV12ToRGB :: "u8 list \<Rightarrow> u8 list \<Rightarrow> int \<Rightarrow> int \<Rightarrow> u8 list option" where
  "ManualNV12ToRGB nv12 rgb width height = do {
     _ \<leftarrow> int32 (width * height);
     manual_rows nv12 width height 0 rgb
   }"

section \<open>The kernel\<close>

text \<open>
  One work-item at global id \<open>(gx, gy)\<close>. The ids are kept in \<open>int\<close> (32 bits of the \<open>size_t\<close>), the
  comparisons and index sums are in \<open>uint\<close>; \<open>y >> 1\<close> is the shift of a signed value.
\<close>

definition kernel_item ::
  "bool \<Rightarrow> u8 list \<Rightarrow> u32 \<Rightarrow> u32 \<Rightarrow> u64 \<times> u64 \<Rightarrow> u8 list \<Rightarrow> u8 list option" where
  "kernel_item contract nv12 width height gid rgb =
     (let x = ucast (fst gid) :: u32; y = ucast (snd gid) :: u32 in
      if width \<le> x \<or> height \<le> y then Some rgb
      else do {
        let y_idx = y * width + x;
        Y \<leftarrow> arr_get nv12 (unat y_idx);
        let uv_base = width * height;
        let uv_row = signed_drop_bit 1 y;
        let uv_col = x AND NOT 1;
        let uv_idx = uv_base + uv_row * width + uv_col;
        U \<leftarrow> arr_get nv12 (unat uv_idx);
        V \<leftarrow> arr_get nv12 (unat (uv_idx + 1));
        let out = kernel_rgb contract (Y, U, V);
        let pixel_idx = y * width + x;
        rgb \<leftarrow> arr_set rgb (unat pixel_idx * 3) (fst out);
        rgb \<leftarrow> arr_set rgb (unat pixel_idx * 3 + 1) (fst (snd out));
        arr_set rgb (unat pixel_idx * 3 + 2) (snd (snd out))
      })"

text \<open>A launch runs the work-items of the range, in the order the device takes.\<close>

fun nd_range :: "bool \<Rightarrow> u8 list \<Rightarrow> u32 \<Rightarrow> u32 \<Rightarrow> (u64 \<times> u64) list \<Rightarrow> u8 list \<Rightarrow> u8 list option" where
  "nd_range contract nv12 width height [] rgb = Some rgb"
| "nd_range contract nv12 width height (gid # gids) rgb = do {
     rgb \<leftarrow> kernel_item contract nv12 width height gid rgb;
     nd_range contract nv12 width height gids rgb
   }"

section \<open>Writing pixels\<close>

definition write_pixel :: "nat \<Rightarrow> u8 \<times> u8 \<times> u8 \<Rightarrow> u8 list \<Rightarrow> u8 list" where
  "write_pixel k out rgb = rgb[3 * k := fst out, 3 * k + 1 := fst (snd out), 3 * k + 2 := snd (snd out)]"

definition write_pixels :: "(nat \<Rightarrow> u8 \<times> u8 \<times> u8) \<Rightarrow> nat list \<Rightarrow> u8 list \<Rightarrow> u8 list" where
  "write_pixels f ks rgb = fold (\<lambda>k. write_pixel k (f k)) ks rgb"

definition channel :: "nat \<Rightarrow> u8 \<times> u8 \<times> u8 \<Rightarrow> u8" where
  "channel c out = (if c = 0 then fst out else if c = 1 then fst (snd out) else snd (snd out))"

lemma length_write_pixel [simp]: "length (write_pixel k out rgb) = length rgb"
  by (simp add: write_pixel_def)

lemma length_write_pixels [simp]: "length (write_pixels f ks rgb) = length rgb"
  by (induction ks arbitrary: rgb) (simp_all add: write_pixels_def)

lemma write_pixels_simps [simp]:
  "write_pixels f [] rgb = rgb"
  "write_pixels f (k # ks) rgb = write_pixels f ks (write_pixel k (f k) rgb)"
  "write_pixels f (ks @ ls) rgb = write_pixels f ls (write_pixels f ks rgb)"
  by (simp_all add: write_pixels_def)

lemma nth_write_pixel:
  assumes "i < length rgb"
  shows "write_pixel k out rgb ! i = (if i div 3 = k then channel (i mod 3) out else rgb ! i)"
proof -
  have "i = 3 * (i div 3) + i mod 3" "i mod 3 < 3" by simp_all
  then have "i = 3 * k \<longleftrightarrow> i div 3 = k \<and> i mod 3 = 0" "i = 3 * k + 1 \<longleftrightarrow> i div 3 = k \<and> i mod 3 = 1"
    "i = 3 * k + 2 \<longleftrightarrow> i div 3 = k \<and> i mod 3 = 2" by presburger+
  moreover have "i mod 3 = 0 \<or> i mod 3 = 1 \<or> i mod 3 = 2" by presburger
  ultimately show ?thesis
    using assms by (auto simp: write_pixel_def channel_def nth_list_update)
qed

text \<open>Whatever the order of the writes, each byte holds its pixel's channel.\<close>

lemma nth_write_pixels:
  "i < length rgb \<Longrightarrow> write_pixels f ks rgb ! i
     = (if i div 3 \<in> set ks then channel (i mod 3) (f (i div 3)) else rgb ! i)"
  by (induction ks arbitrary: rgb) (auto simp: nth_write_pixel)

text \<open>The result therefore depends on the set of pixels written only.\<close>

lemma write_pixels_set:
  "set ks = set ls \<Longrightarrow> write_pixels f ks rgb = write_pixels f ls rgb"
  by (rule nth_equalityI) (simp_all add: nth_write_pixels)

section \<open>Index arithmetic of NV12\<close>

definition chroma_index :: "nat \<Rightarrow> nat \<Rightarrow> nat \<Rightarrow> nat" where
  "chroma_index w h k = w * h + (k div w div 2) * w + 2 * ((k mod w) div 2)"

definition sample :: "u8 list \<Rightarrow> nat \<Rightarrow> nat \<Rightarrow> nat \<Rightarrow> u8 \<times> u8 \<times> u8" where
  "sample nv12 w h k = (nv12 ! k, nv12 ! chroma_index w h k, nv12 ! (chroma_index w h k + 1))"

text \<open>The bytes a conversion reads: one past the last chroma pair of the last pixel.\<close>

definition nv12_size :: "nat \<Rightarrow> nat \<Rightarrow> nat" where
  "nv12_size w h = w * h + ((h - 1) div 2) * w + 2 * ((w - 1) div 2) + 2"

lemma pixel_lt: "x < w \<Longrightarrow> y < h \<Longrightarrow> y * w + x < w * (h :: nat)"
proof -
  assume x: "x < w" and y: "y < h"
  then have "y * w + x < (y + 1) * w" by simp
  also have "\<dots> \<le> h * w" using y by (intro mult_le_mono1) simp
  finally show ?thesis by (simp add: mult.commute)
qed

lemma chroma_pixel: "x < w \<Longrightarrow> chroma_index w h (y * w + x) = w * h + (y div 2) * w + 2 * (x div 2)"
  by (simp add: chroma_index_def)

lemma chroma_bound:
  fixes x y w h :: nat
  assumes "x < w" "y < h"
  shows "(y div 2) * w + 2 * (x div 2) \<le> ((h - 1) div 2) * w + 2 * ((w - 1) div 2)"
proof -
  have "(y div 2) * w \<le> ((h - 1) div 2) * w" using assms by (intro mult_le_mono1 div_le_mono) simp
  moreover have "x div 2 \<le> (w - 1) div 2" using assms by (intro div_le_mono) simp
  ultimately show ?thesis by (intro add_mono mult_le_mono2)
qed

lemma chroma_small:
  fixes x y w h :: nat
  assumes "x < w" "y < h"
  shows "(y div 2) * w + 2 * (x div 2) + 1 \<le> 2 * (w * h)"
proof -
  have "(y div 2) * w + 2 * (x div 2) \<le> y * w + x" by (intro add_mono mult_le_mono1) simp_all
  with pixel_lt [OF assms] show ?thesis by simp
qed

lemma nv12_size_even: "even w \<Longrightarrow> even h \<Longrightarrow> 0 < w \<Longrightarrow> 0 < h \<Longrightarrow> 2 * nv12_size w h = 3 * (w * h)"
  by (elim evenE) (auto simp: nv12_size_def algebra_simps Suc_diff_Suc dest!: gr0_implies_Suc)

lemma int_even_down: "int x AND -2 = int (2 * (x div 2))"
  by (subst and_rec) (simp add: zdiv_int)

section \<open>The reference computes every pixel\<close>

lemma int32_in: "i < 2147483648 \<Longrightarrow> int32 (int i) = Some (int i)"
  by (simp add: int32_def)

lemma load_at_int [simp]: "load_at xs (int i) = arr_get xs i"
  by (simp add: load_at_def)

lemma store_at_int [simp]: "store_at xs (int i) v = arr_set xs i v"
  by (simp add: store_at_def)

lemma manual_pixel_write:
  assumes x: "x < w" and y: "y < h" and len: "nv12_size w h \<le> length nv12" "3 * (w * h) \<le> length rgb"
    and small: "3 * (w * h) < 2147483648"
  shows "manual_pixel nv12 (int w) (int h) (int y) (int x) rgb
    = Some (write_pixel (y * w + x) (manual_rgb (sample nv12 w h (y * w + x))) rgb)"
proof -
  define k c where "k = y * w + x" and "c = (y div 2) * w + 2 * (x div 2)"
  have k: "k < w * h" unfolding k_def by (rule pixel_lt [OF x y])
  have cs: "c + 1 \<le> 2 * (w * h)" unfolding c_def by (rule chroma_small [OF x y])
  have cb: "w * h + c + 1 < length nv12"
    using chroma_bound [OF x y] len(1) by (simp add: c_def nv12_size_def)
  have kl: "k < length nv12" using k cb by simp
  have i: "int w * int h = int (w * h)" "int y * int w = int (y * w)" "int (y * w) + int x = int k"
    "int y div 2 * int w = int ((y div 2) * w)" "int ((y div 2) * w) + (int x AND -2) = int c"
    "int (w * h) + int c = int (w * h + c)" "int c + 1 = int (c + 1)" "int (w * h) + int (c + 1) = int (w * h + c + 1)"
    "int k * 3 = int (3 * k)" "int (3 * k) + 1 = int (3 * k + 1)" "int (3 * k) + 2 = int (3 * k + 2)"
    by (simp_all add: k_def c_def zdiv_int int_even_down)
  have s: "y * w < 2147483648" "k < 2147483648" "w * h < 2147483648" "(y div 2) * w < 2147483648"
    "c < 2147483648" "c + 1 < 2147483648" "3 * k + 2 < 2147483648"
  proof -
    show "k < 2147483648" "w * h < 2147483648" "3 * k + 2 < 2147483648" "c < 2147483648" "c + 1 < 2147483648"
      using k cs small by linarith+
    show "y * w < 2147483648" "(y div 2) * w < 2147483648"
      using k cs small unfolding k_def c_def by linarith+
  qed
  have smp: "sample nv12 w h k = (nv12 ! k, nv12 ! (w * h + c), nv12 ! (w * h + c + 1))"
    using x by (simp add: sample_def k_def chroma_pixel c_def add.assoc)
  have r: "3 * k < length rgb" "3 * k + 1 < length rgb" "3 * k + 2 < length rgb" using k len(2) by linarith+
  have one: "NOT 1 = (-2 :: int)" by simp
  note i32 = s [THEN int32_in]
  have loads: "arr_get nv12 k = Some (nv12 ! k)" "arr_get nv12 (w * h + c) = Some (nv12 ! (w * h + c))"
    "arr_get nv12 (w * h + c + 1) = Some (nv12 ! (w * h + c + 1))"
    using kl cb by simp_all
  have stores: "arr_set rgb (3 * k) a = Some (rgb[3 * k := a])"
    "arr_set (rgb[3 * k := a]) (3 * k + 1) b = Some (rgb[3 * k := a, 3 * k + 1 := b])"
    "arr_set (rgb[3 * k := a, 3 * k + 1 := b]) (3 * k + 2) d = Some (rgb[3 * k := a, 3 * k + 1 := b, 3 * k + 2 := d])"
    for a b d
    using r by simp_all
  show ?thesis
    by (simp only: manual_pixel_def one i i32 k_def [symmetric] load_at_int store_at_int loads stores
        Option.bind.simps smp write_pixel_def)
qed

lemma manual_cols_write:
  assumes y: "y < h" and len: "nv12_size w h \<le> length nv12" and small: "3 * (w * h) < 2147483648"
  shows "3 * (w * h) \<le> length rgb \<Longrightarrow> manual_cols nv12 (int w) (int h) (int y) (int x) rgb
    = Some (write_pixels (\<lambda>k. manual_rgb (sample nv12 w h k)) (map (\<lambda>x. y * w + x) [x..<w]) rgb)"
proof (induction "w - x" arbitrary: x rgb)
  case 0
  then show ?case by (subst manual_cols.simps) simp
next
  case (Suc n)
  then have x: "x < w" by simp
  let ?f = "\<lambda>k. manual_rgb (sample nv12 w h k)"
  let ?rgb = "write_pixel (y * w + x) (?f (y * w + x)) rgb"
  have "manual_cols nv12 (int w) (int h) (int y) (int (Suc x)) ?rgb
      = Some (write_pixels ?f (map (\<lambda>x. y * w + x) [Suc x..<w]) ?rgb)"
    by (rule Suc.hyps(1)) (use Suc in simp_all)
  moreover have succ: "int x + 1 = int (Suc x)" by simp
  moreover have "[x..<w] = x # [Suc x..<w]" using x by (simp add: upt_conv_Cons)
  ultimately show ?case
    using x by (subst manual_cols.simps)
      (simp add: manual_pixel_write [OF x y len Suc.prems small] succ del: upt_Suc of_nat_Suc)
qed

lemma manual_rows_write:
  assumes len: "nv12_size w h \<le> length nv12" and small: "3 * (w * h) < 2147483648"
  shows "3 * (w * h) \<le> length rgb \<Longrightarrow> manual_rows nv12 (int w) (int h) (int y) rgb
    = Some (write_pixels (\<lambda>k. manual_rgb (sample nv12 w h k))
        (concat (map (\<lambda>y. map (\<lambda>x. y * w + x) [0..<w]) [y..<h])) rgb)"
proof (induction "h - y" arbitrary: y rgb)
  case 0
  then show ?case by (subst manual_rows.simps) simp
next
  case (Suc n)
  then have y: "y < h" by simp
  let ?f = "\<lambda>k. manual_rgb (sample nv12 w h k)"
  let ?rgb = "write_pixels ?f (map (\<lambda>x. y * w + x) [0..<w]) rgb"
  have c: "manual_cols nv12 (int w) (int h) (int y) 0 rgb = Some ?rgb"
    using manual_cols_write [OF y len small Suc.prems, of 0] by simp
  have "manual_rows nv12 (int w) (int h) (int (Suc y)) ?rgb
      = Some (write_pixels ?f (concat (map (\<lambda>y. map (\<lambda>x. y * w + x) [0..<w]) [Suc y..<h])) ?rgb)"
    by (rule Suc.hyps(1)) (use Suc in simp_all)
  moreover have succ: "int y + 1 = int (Suc y)" by simp
  moreover have "[y..<h] = y # [Suc y..<h]" using y by (simp add: upt_conv_Cons)
  ultimately show ?case
    using y c by (subst manual_rows.simps) (simp add: succ del: upt_Suc of_nat_Suc)
qed

lemma raster_set: "set (concat (map (\<lambda>y. map (\<lambda>x. y * w + x) [0..<w]) [0..<h])) = set [0..<w * h]"
proof (rule set_eqI)
  fix k
  have "k \<in> set (concat (map (\<lambda>y. map (\<lambda>x. y * w + x) [0..<w]) [0..<h]))
      \<longleftrightarrow> (\<exists>y<h. y * w \<le> k \<and> k < w + y * w)" by (auto simp: Bex_def)
  also have "\<dots> \<longleftrightarrow> k < w * h"
  proof
    assume "\<exists>y<h. y * w \<le> k \<and> k < w + y * w"
    then obtain y where "y < h" "y * w \<le> k" "k < w + y * w" by blast
    with pixel_lt [of "k - y * w" w y h] show "k < w * h" by simp
  next
    assume k: "k < w * h"
    then have w: "0 < w" by (cases w) auto
    then have "k div w < h" using k by (simp add: div_less_iff_less_mult mult.commute)
    moreover have "k div w * w \<le> k" "k < w + k div w * w"
      using div_mult_mod_eq [of k w] mod_less_divisor [OF w, of k] by linarith+
    ultimately show "\<exists>y<h. y * w \<le> k \<and> k < w + y * w" by blast
  qed
  finally show "k \<in> set (concat (map (\<lambda>y. map (\<lambda>x. y * w + x) [0..<w]) [0..<h])) \<longleftrightarrow> k \<in> set [0..<w * h]"
    by simp
qed

lemma manual_write:
  assumes "nv12_size w h \<le> length nv12" "3 * (w * h) < 2147483648" "3 * (w * h) \<le> length rgb"
  shows "ManualNV12ToRGB nv12 rgb (int w) (int h)
    = Some (write_pixels (\<lambda>k. manual_rgb (sample nv12 w h k)) [0..<w * h] rgb)"
proof -
  have "int w * int h = int (w * h)" by simp
  then have "int32 (int w * int h) = Some (int w * int h)" using assms(2) int32_in [of "w * h"] by simp
  then have "ManualNV12ToRGB nv12 rgb (int w) (int h) = manual_rows nv12 (int w) (int h) 0 rgb"
    by (simp add: ManualNV12ToRGB_def)
  with manual_rows_write [OF assms, of 0]
  have "ManualNV12ToRGB nv12 rgb (int w) (int h) = Some (write_pixels (\<lambda>k. manual_rgb (sample nv12 w h k))
      (concat (map (\<lambda>y. map (\<lambda>x. y * w + x) [0..<w]) [0..<h])) rgb)" by simp
  also have "\<dots> = Some (write_pixels (\<lambda>k. manual_rgb (sample nv12 w h k)) [0..<w * h] rgb)"
    by (simp only: write_pixels_set [OF raster_set])
  finally show ?thesis .
qed

section \<open>Out of bounds\<close>

lemma manual_pixel_length:
  "manual_pixel nv12 width height y x rgb = Some r \<Longrightarrow> length r = length rgb"
  by (auto simp: manual_pixel_def store_at_def arr_set_def bind_eq_Some_conv split: if_splits)

lemma int32_Some: "int32 i = Some j \<longleftrightarrow> j = i \<and> - 2147483648 \<le> i \<and> i < 2147483648"
  by (auto simp: int32_def)

lemma load_at_less: "load_at xs i = Some v \<Longrightarrow> i < int (length xs)"
  by (auto simp: load_at_def arr_get_def split: if_splits)

lemma store_at_less: "store_at xs i v = Some ys \<Longrightarrow> i < int (length xs)"
  by (auto simp: store_at_def arr_set_def split: if_splits)

lemma store_at_length: "store_at xs i v = Some ys \<Longrightarrow> length ys = length xs"
  by (auto simp: store_at_def arr_set_def split: if_splits)

lemma manual_pixel_bounds:
  assumes run: "manual_pixel nv12 (int w) (int h) (int y) (int x) rgb = Some r" and x: "x < w"
  shows "chroma_index w h (y * w + x) + 1 < length nv12 \<and> 3 * (y * w + x) + 2 < length rgb"
proof -
  have c: "chroma_index w h (y * w + x) = w * h + ((y div 2) * w + 2 * (x div 2))"
    using x by (simp add: chroma_pixel add.assoc)
  from run obtain a b0 b1 v0 v1 v2 where
    "load_at nv12 (int w * int h + ((int y div 2 * int w + (int x AND -2)) + 1)) = Some a"
    "store_at rgb ((int y * int w + int x) * 3) v0 = Some b0" "store_at b0 ((int y * int w + int x) * 3 + 1) v1 = Some b1"
    "store_at b1 ((int y * int w + int x) * 3 + 2) v2 = Some r"
    by (auto simp: manual_pixel_def int32_Some bind_eq_Some_conv)
  moreover from this have "length b1 = length rgb" by (metis store_at_length)
  ultimately have "int w * int h + ((int y div 2 * int w + (int x AND -2)) + 1) < int (length nv12)"
    "(int y * int w + int x) * 3 + 2 < int (length rgb)"
    by (metis load_at_less, metis store_at_less)
  then have "int (w * h + ((y div 2) * w + 2 * (x div 2)) + 1) < int (length nv12)"
    "int (3 * (y * w + x) + 2) < int (length rgb)"
    by (simp_all add: zdiv_int int_even_down algebra_simps)
  then show ?thesis unfolding c by (simp only: of_nat_less_iff)
qed

lemma manual_cols_step:
  "x < width \<Longrightarrow> manual_cols nv12 width height y x rgb = Some r \<longleftrightarrow> (\<exists>a. manual_pixel nv12 width height y x rgb = Some a
     \<and> manual_cols nv12 width height y (x + 1) a = Some r)"
  by (subst manual_cols.simps) (auto simp: bind_eq_Some_conv)

lemma manual_cols_done: "\<not> x < width \<Longrightarrow> manual_cols nv12 width height y x rgb = Some rgb"
  by (subst manual_cols.simps) simp

lemma manual_cols_length:
  "manual_cols nv12 width height y x rgb = Some r \<Longrightarrow> length r = length rgb"
proof (induction nv12 width height y x rgb rule: manual_cols.induct)
  case (1 nv12 width height y x rgb)
  show ?case
  proof (cases "x < width")
    case True
    with 1(2) obtain a where "manual_pixel nv12 width height y x rgb = Some a"
      "manual_cols nv12 width height y (x + 1) a = Some r" by (auto simp: manual_cols_step)
    with 1(1) [OF True, of a] manual_pixel_length show ?thesis by metis
  qed (use 1(2) in \<open>simp add: manual_cols_done\<close>)
qed

lemma manual_cols_reaches:
  "manual_cols nv12 width height y x rgb = Some r \<Longrightarrow> x \<le> x' \<Longrightarrow> x' < width \<Longrightarrow>
     \<exists>a b. length a = length rgb \<and> manual_pixel nv12 width height y x' a = Some b"
proof (induction nv12 width height y x rgb rule: manual_cols.induct)
  case (1 nv12 width height y x rgb)
  then have x: "x < width" by simp
  with 1(2) obtain a where a: "manual_pixel nv12 width height y x rgb = Some a"
    "manual_cols nv12 width height y (x + 1) a = Some r" by (auto simp: manual_cols_step)
  show ?case
  proof (cases "x' = x")
    case True
    with a show ?thesis by blast
  next
    case False
    with 1(1) [OF x a] 1(3,4) manual_pixel_length [OF a(1)] show ?thesis by auto
  qed
qed

lemma manual_rows_step:
  "y < height \<Longrightarrow> manual_rows nv12 width height y rgb = Some r \<longleftrightarrow> (\<exists>a. manual_cols nv12 width height y 0 rgb = Some a
     \<and> manual_rows nv12 width height (y + 1) a = Some r)"
  by (subst manual_rows.simps) (auto simp: bind_eq_Some_conv)

lemma manual_rows_reaches:
  "manual_rows nv12 width height y rgb = Some r \<Longrightarrow> y \<le> y' \<Longrightarrow> y' < height \<Longrightarrow>
     \<exists>a b. length a = length rgb \<and> manual_cols nv12 width height y' 0 a = Some b"
proof (induction nv12 width height y rgb rule: manual_rows.induct)
  case (1 nv12 width height y rgb)
  then have y: "y < height" by simp
  with 1(2) obtain a where a: "manual_cols nv12 width height y 0 rgb = Some a"
    "manual_rows nv12 width height (y + 1) a = Some r" by (auto simp: manual_rows_step)
  show ?case
  proof (cases "y' = y")
    case True
    with a show ?thesis by blast
  next
    case False
    with 1(1) [OF y a] 1(3,4) manual_cols_length [OF a(1)] show ?thesis by auto
  qed
qed

lemma manual_bounds:
  assumes run: "ManualNV12ToRGB nv12 rgb (int w) (int h) = Some r" and "0 < w" "0 < h"
  shows "nv12_size w h \<le> length nv12 \<and> 3 * (w * h) \<le> length rgb"
proof -
  from run have "manual_rows nv12 (int w) (int h) 0 rgb = Some r"
    by (auto simp: ManualNV12ToRGB_def bind_eq_Some_conv)
  from manual_rows_reaches [OF this, of "int (h - 1)"] assms(3) obtain a b where
    a: "length a = length rgb" "manual_cols nv12 (int w) (int h) (int (h - 1)) 0 a = Some b" by auto
  from manual_cols_reaches [OF a(2), of "int (w - 1)"] assms(2) obtain c d where
    c: "length c = length a" "manual_pixel nv12 (int w) (int h) (int (h - 1)) (int (w - 1)) c = Some d" by auto
  have w: "w - 1 < w" using assms(2) by simp
  from manual_pixel_bounds [OF c(2) w] have b:
    "w * h + ((h - 1) div 2) * w + 2 * ((w - 1) div 2) + 1 < length nv12" "3 * ((h - 1) * w + (w - 1)) + 2 < length c"
    unfolding chroma_pixel [OF w] by simp_all
  have "(h - 1) * w + (w - 1) + 1 = w * h"
    using assms(2,3) by (cases h) (simp_all add: mult.commute)
  with b a(1) c(1) show ?thesis by (simp add: nv12_size_def)
qed

section \<open>The work-items compute every pixel\<close>

lemma unat_mult_u32: "unat x * unat y < 4294967296 \<Longrightarrow> unat (x * y :: u32) = unat x * unat y"
  by (simp add: unat_word_ariths)

lemma unat_add_u32: "unat x + unat y < 4294967296 \<Longrightarrow> unat (x + y :: u32) = unat x + unat y"
  by (simp add: unat_word_ariths)

lemma unat_even_down: "unat (x AND -2 :: u32) = 2 * (unat x div 2)"
proof -
  have "x AND -2 = word_of_int (int (unat x)) AND word_of_int (-2)" by simp
  also have "\<dots> = word_of_int (int (unat x) AND -2)" by (simp only: word_wi_log_defs)
  also have "\<dots> = of_nat (2 * (unat x div 2))" by (simp only: int_even_down of_int_of_nat_eq)
  finally have "x AND -2 = of_nat (2 * (unat x div 2))" .
  moreover have "2 * (unat x div 2) < 4294967296" using unat_u32_bound [of x] by linarith
  ultimately show ?thesis by (simp only: unat_of_nat_u32)
qed

lemma unat_signed_shift: "unat y < 2147483648 \<Longrightarrow> unat (signed_drop_bit 1 (y :: u32)) = unat y div 2"
proof -
  assume y: "unat y < 2147483648"
  have top: "\<not> bit y 31"
    using y by (simp add: bit_iff_odd_drop_bit drop_bit_eq_div word_arith_nat_defs(6) flip: unat_drop_bit_eq)
  have "signed_drop_bit 1 y = drop_bit 1 y"
    using top by (intro bit_word_eqI) (auto simp: bit_signed_drop_bit_iff bit_drop_bit_eq dest: bit_imp_le_length)
  then show ?thesis by (simp add: drop_bit_eq_div unat_div_distrib)
qed

lemma kernel_item_write:
  fixes width height :: u32 and gid :: "u64 \<times> u64"
  defines "w \<equiv> unat width" and "h \<equiv> unat height" and "x \<equiv> unat (fst gid)" and "y \<equiv> unat (snd gid)"
  assumes len: "nv12_size w h \<le> length nv12" "3 * (w * h) \<le> length rgb"
    and small: "nv12_size w h < 2147483648" and gid: "x < 4294967296" "y < 4294967296"
  shows "kernel_item contract nv12 width height gid rgb = Some (if x < w \<and> y < h
     then write_pixel (y * w + x) (kernel_rgb contract (sample nv12 w h (y * w + x))) rgb else rgb)"
proof -
  define xw yw :: u32 where "xw = ucast (fst gid)" and "yw = ucast (snd gid)"
  have xy: "unat xw = x" "unat yw = y"
    using gid unfolding xw_def yw_def x_def y_def by (simp_all add: unsigned_ucast_eq take_bit_eq_mod)
  show ?thesis
  proof (cases "x < w \<and> y < h")
    case False
    then have "width \<le> xw \<or> height \<le> yw" using xy by (auto simp: word_le_nat_alt w_def h_def)
    with False show ?thesis
      unfolding kernel_item_def Let_def xw_def [symmetric] yw_def [symmetric] by (auto simp only: if_True if_False)
  next
    case True
    define k c where "k = y * w + x" and "c = (y div 2) * w + 2 * (x div 2)"
    from True have lt: "\<not> (width \<le> xw \<or> height \<le> yw)"
      using xy by (auto simp: word_le_nat_alt w_def h_def)
    have k: "k < w * h" unfolding k_def using True by (intro pixel_lt) simp_all
    have cb: "w * h + c + 2 \<le> nv12_size w h"
      using chroma_bound [of x w y h] True by (simp add: c_def nv12_size_def)
    have "y * 1 \<le> y * w" using True by (intro mult_le_mono2) simp
    then have ys: "y < 2147483648" using k cb small unfolding k_def by linarith
    have u1: "unat (yw * width) = y * w"
      using xy k cb small unfolding k_def w_def by (subst unat_mult_u32) simp_all
    then have u2: "unat (yw * width + xw) = k"
      using xy k cb small unfolding k_def by (subst unat_add_u32) simp_all
    have u3: "unat (width * height) = w * h"
      using cb small unfolding w_def h_def by (subst unat_mult_u32) simp_all
    have u4: "unat (signed_drop_bit 1 yw) = y div 2" using unat_signed_shift [of yw] xy ys by simp
    have u5: "unat (signed_drop_bit 1 yw * width) = (y div 2) * w"
      using u4 cb small unfolding c_def w_def by (subst unat_mult_u32) simp_all
    have u6: "unat (xw AND -2) = 2 * (x div 2)" using xy by (simp only: unat_even_down)
    have u7: "unat (width * height + signed_drop_bit 1 yw * width) = w * h + (y div 2) * w"
      using u3 u5 cb small unfolding c_def by (subst unat_add_u32) simp_all
    have u8: "unat (width * height + signed_drop_bit 1 yw * width + (xw AND -2)) = w * h + c"
      using u6 u7 cb small unfolding c_def by (subst unat_add_u32) simp_all
    have u9: "unat (width * height + signed_drop_bit 1 yw * width + (xw AND -2) + 1) = w * h + c + 1"
      using u8 cb small by (subst unat_add_u32) simp_all
    have smp: "sample nv12 w h k = (nv12 ! k, nv12 ! (w * h + c), nv12 ! (w * h + c + 1))"
      using True by (simp add: sample_def k_def chroma_pixel c_def add.assoc)
    have loads: "arr_get nv12 k = Some (nv12 ! k)" "arr_get nv12 (w * h + c) = Some (nv12 ! (w * h + c))"
      "arr_get nv12 (w * h + c + 1) = Some (nv12 ! (w * h + c + 1))"
      using k cb len(1) by simp_all
    have kr: "3 * k + 2 < length rgb" using k len(2) by linarith
    have stores: "arr_set rgb (k * 3) a = Some (rgb[3 * k := a])"
      "arr_set (rgb[3 * k := a]) (k * 3 + 1) b = Some (rgb[3 * k := a, 3 * k + 1 := b])"
      "arr_set (rgb[3 * k := a, 3 * k + 1 := b]) (k * 3 + 2) d = Some (rgb[3 * k := a, 3 * k + 1 := b, 3 * k + 2 := d])"
      for a b d
      using kr by (simp_all add: mult.commute)
    have one: "NOT 1 = (-2 :: u32)" by simp
    show ?thesis
      unfolding kernel_item_def Let_def xw_def [symmetric] yw_def [symmetric] if_not_P [OF lt] if_P [OF True]
        k_def [symmetric]
      by (simp only: one u2 u8 u9 loads stores smp Option.bind.simps write_pixel_def)
  qed
qed

lemma nd_range_write:
  fixes width height :: u32
  defines "w \<equiv> unat width" and "h \<equiv> unat height"
  assumes len: "nv12_size w h \<le> length nv12" and small: "nv12_size w h < 2147483648"
  shows "\<forall>gid \<in> set gids. unat (fst gid) < 4294967296 \<and> unat (snd gid) < 4294967296 \<Longrightarrow>
    3 * (w * h) \<le> length rgb \<Longrightarrow>
    nd_range contract nv12 width height gids rgb = Some (write_pixels (\<lambda>k. kernel_rgb contract (sample nv12 w h k))
      (map (\<lambda>gid. unat (snd gid) * w + unat (fst gid))
        (filter (\<lambda>gid. unat (fst gid) < w \<and> unat (snd gid) < h) gids)) rgb)"
proof (induction gids arbitrary: rgb)
  case Nil
  then show ?case by simp
next
  case (Cons gid gids)
  have "kernel_item contract nv12 width height gid rgb = Some (if unat (fst gid) < w \<and> unat (snd gid) < h
     then write_pixel (unat (snd gid) * w + unat (fst gid))
        (kernel_rgb contract (sample nv12 w h (unat (snd gid) * w + unat (fst gid)))) rgb else rgb)"
    using kernel_item_write [of width height nv12 rgb gid contract] len small Cons.prems
    by (simp only: w_def h_def list.set_intros)
  moreover have "\<forall>gid \<in> set gids. unat (fst gid) < 4294967296 \<and> unat (snd gid) < 4294967296"
    using Cons.prems by simp
  ultimately show ?case using Cons.IH Cons.prems(2) by simp
qed

section \<open>Properties\<close>

text \<open>
  the CPU reference is memory safe exactly when the input holds the Y plane and every chroma
  pair it addresses (for even sizes the 12 bits per pixel of NV12) and the output three bytes per
  pixel; then it writes each pixel's three channels from its own luma and its 2x2 block's chroma,
  and no other byte. With an odd width or height it needs more than 12 bits per pixel.
\<close>

theorem manual_nv12_converts_iff:
  assumes "0 < w" "0 < h" "3 * (w * h) < 2147483648"
  shows "(ManualNV12ToRGB nv12 rgb (int w) (int h) \<noteq> None
      \<longleftrightarrow> nv12_size w h \<le> length nv12 \<and> 3 * (w * h) \<le> length rgb)
    \<and> (\<forall>r. ManualNV12ToRGB nv12 rgb (int w) (int h) = Some r \<longrightarrow> length r = length rgb
         \<and> (\<forall>i < length rgb. r ! i = (if i div 3 < w * h
              then channel (i mod 3) (manual_rgb (sample nv12 w h (i div 3))) else rgb ! i)))
    \<and> (even w \<and> even h \<longrightarrow> 2 * nv12_size w h = 3 * (w * h))"
proof -
  have b: "nv12_size w h \<le> length nv12 \<and> 3 * (w * h) \<le> length rgb"
    if "ManualNV12ToRGB nv12 rgb (int w) (int h) = Some r" for r
    using manual_bounds [OF that assms(1,2)] .
  have m: "ManualNV12ToRGB nv12 rgb (int w) (int h)
      = Some (write_pixels (\<lambda>k. manual_rgb (sample nv12 w h k)) [0..<w * h] rgb)"
    if "nv12_size w h \<le> length nv12 \<and> 3 * (w * h) \<le> length rgb"
    using manual_write [of w h nv12 rgb] that assms(3) by simp
  have e: "even w \<and> even h \<longrightarrow> 2 * nv12_size w h = 3 * (w * h)" using nv12_size_even assms by blast
  show ?thesis
  proof (cases "nv12_size w h \<le> length nv12 \<and> 3 * (w * h) \<le> length rgb")
    case True
    from m [OF this] True e show ?thesis by (simp add: nth_write_pixels)
  next
    case False
    then have "ManualNV12ToRGB nv12 rgb (int w) (int h) = None"
      using b by (cases "ManualNV12ToRGB nv12 rgb (int w) (int h)") simp_all
    with False e show ?thesis by simp
  qed
qed

theorem manual_nv12_converts_iff_witness:
  "ManualNV12ToRGB (replicate 9 0) (replicate 18 0) 3 2 = None
   \<and> ManualNV12ToRGB (replicate 10 0) (replicate 18 0) 3 2 \<noteq> None"
  using manual_nv12_converts_iff [of 3 2 "replicate 9 0" "replicate 18 0"]
    manual_nv12_converts_iff [of 3 2 "replicate 10 0" "replicate 18 0"]
  by (simp add: nv12_size_def)

text \<open>The work-items of a launch, each global id of the range once or more, in any order.\<close>

definition covers_range :: "nat \<Rightarrow> nat \<Rightarrow> (u64 \<times> u64) list \<Rightarrow> bool" where
  "covers_range gw gh gids \<longleftrightarrow> (\<forall>gx gy. (gx, gy) \<in> set gids \<longleftrightarrow> unat gx < gw \<and> unat gy < gh)"

lemma covers_pixels:
  assumes "covers_range gw gh gids" "w \<le> gw" "h \<le> gh" "gw \<le> 4294967296" "gh \<le> 4294967296"
  shows "set (map (\<lambda>gid. unat (snd gid) * w + unat (fst gid))
      (filter (\<lambda>gid. unat (fst gid) < w \<and> unat (snd gid) < h) gids)) = set [0..<w * h]"
proof (rule set_eqI)
  fix k
  have "k \<in> set (map (\<lambda>gid. unat (snd gid) * w + unat (fst gid))
      (filter (\<lambda>gid. unat (fst gid) < w \<and> unat (snd gid) < h) gids))
    \<longleftrightarrow> (\<exists>(gx :: u64) (gy :: u64). unat gx < w \<and> unat gy < h \<and> k = unat gy * w + unat gx)"
  proof
    assume "k \<in> set (map (\<lambda>gid. unat (snd gid) * w + unat (fst gid))
        (filter (\<lambda>gid. unat (fst gid) < w \<and> unat (snd gid) < h) gids))"
    then obtain gid :: "u64 \<times> u64" where "gid \<in> set (filter (\<lambda>gid. unat (fst gid) < w \<and> unat (snd gid) < h) gids)"
      and "k = unat (snd gid) * w + unat (fst gid)" unfolding set_map by (rule imageE)
    then have "unat (fst gid) < w \<and> unat (snd gid) < h \<and> k = unat (snd gid) * w + unat (fst gid)" by simp
    then show "\<exists>(gx :: u64) (gy :: u64). unat gx < w \<and> unat gy < h \<and> k = unat gy * w + unat gx" by blast
  next
    assume "\<exists>(gx :: u64) (gy :: u64). unat gx < w \<and> unat gy < h \<and> k = unat gy * w + unat gx"
    then obtain gx gy :: u64 where g: "unat gx < w" "unat gy < h" "k = unat gy * w + unat gx" by blast
    with assms(1-3) have "(gx, gy) \<in> set gids" by (simp add: covers_range_def)
    then have "(gx, gy) \<in> set (filter (\<lambda>gid. unat (fst gid) < w \<and> unat (snd gid) < h) gids)" using g by simp
    then show "k \<in> set (map (\<lambda>gid. unat (snd gid) * w + unat (fst gid))
        (filter (\<lambda>gid. unat (fst gid) < w \<and> unat (snd gid) < h) gids))"
      unfolding set_map by (rule rev_image_eqI) (simp add: g)
  qed
  also have "\<dots> \<longleftrightarrow> k < w * h"
  proof
    assume k: "k < w * h"
    then have w: "0 < w" by (cases w) auto
    have d: "k div w < h" "k mod w < w" using k w by (simp_all add: div_less_iff_less_mult mult.commute)
    have "unat (of_nat (k mod w) :: u64) = k mod w" "unat (of_nat (k div w) :: u64) = k div w"
      using d assms by (simp_all add: unat_of_nat_u64)
    with d show "\<exists>(gx :: u64) (gy :: u64). unat gx < w \<and> unat gy < h \<and> k = unat gy * w + unat gx"
      by (intro exI [of _ "of_nat (k mod w)"] exI [of _ "of_nat (k div w)"]) simp
  qed (use pixel_lt in blast)
  finally show "k \<in> set (map (\<lambda>gid. unat (snd gid) * w + unat (fst gid))
      (filter (\<lambda>gid. unat (fst gid) < w \<and> unat (snd gid) < h) gids)) \<longleftrightarrow> k \<in> set [0..<w * h]" by simp
qed

lemma nd_range_pixels:
  fixes width height :: u32
  defines "w \<equiv> unat width" and "h \<equiv> unat height"
  assumes len: "nv12_size w h \<le> length nv12" "3 * (w * h) \<le> length rgb" and small: "nv12_size w h < 2147483648"
    and cov: "covers_range gw gh gids" "w \<le> gw" "h \<le> gh" "gw \<le> 4294967296" "gh \<le> 4294967296"
  shows "nd_range contract nv12 width height gids rgb
    = Some (write_pixels (\<lambda>k. kernel_rgb contract (sample nv12 w h k)) [0..<w * h] rgb)"
proof -
  have g: "\<forall>gid \<in> set gids. unat (fst gid) < 4294967296 \<and> unat (snd gid) < 4294967296"
    using cov unfolding covers_range_def by fastforce
  show ?thesis
    using nd_range_write [of width height nv12 gids rgb contract] len small g
    unfolding w_def [symmetric] h_def [symmetric]
    by (simp only: write_pixels_set [OF covers_pixels [OF cov]])
qed

end
