(* ===== verification/CL_Engine.thy ===== *)
theory CL_Engine
  imports CL_Init NV12_Image
begin

text \<open>
  The rest of \<open>src/compute/lo_engine.cc\<close>: \<open>kbx_cl_load_kernels\<close> over the CPU page pool,
  \<open>kbx_cl_import_dmabuf\<close> and \<open>kbx_cl_convert_nv12_to_rgb\<close>. The OpenCL library is the parameter
  \<open>cl_lib\<close>, whose answers may depend on the calls made so far; device memory maps a buffer
  to its bytes. A launch whose kernel accesses memory outside its buffers, or reads and writes
  one buffer through its two \<open>restrict\<close> arguments, is undefined (\<open>None\<close>).
\<close>

section \<open>The library\<close>

type_synonym device_memory = "ptr \<rightharpoonup> u8 list"

record cl_lib =
  cl_max_node :: int \<comment> \<open>\<open>numa_max_node()\<close>\<close>
  cl_cpu_node :: "cl_event list \<Rightarrow> int" \<comment> \<open>\<open>numa_node_of_cpu(sched_getcpu())\<close>\<close>
  cl_create_program :: "cl_event list \<Rightarrow> string \<Rightarrow> int \<times> handle"
  cl_build :: "cl_event list \<Rightarrow> int"
  cl_log_size :: "cl_event list \<Rightarrow> u64"
  cl_create_kernel :: "cl_event list \<Rightarrow> int \<times> handle"
  cl_extensions_size :: "int \<times> u64"
  cl_extensions_query :: int
  cl_import_entry :: bool \<comment> \<open>\<open>clImportMemoryARM\<close> was found\<close>
  cl_import :: "cl_event list \<Rightarrow> int \<times> handle"
  cl_set_arg :: "cl_event list \<Rightarrow> int"
  cl_enqueue :: "cl_event list \<Rightarrow> int \<times> handle"
  cl_order :: "cl_event list \<Rightarrow> u64 \<times> u64 \<Rightarrow> (u64 \<times> u64) list" \<comment> \<open>the order of a launch's work-items\<close>
  cl_contract :: bool \<comment> \<open>the compiler fuses multiply and add\<close>
  cl_finish :: "cl_event list \<Rightarrow> int"
  cl_unfinished :: "cl_event list \<Rightarrow> device_memory \<Rightarrow> device_memory" \<comment> \<open>memory after a failed \<open>clFinish\<close>\<close>
  cl_wait :: "cl_event list \<Rightarrow> int"

section \<open>kbx_cl_load_kernels\<close>

text \<open>
  \<open>memcpy\<close> fills the allocated bytes with the source, which is what the program is created from.
\<close>

definition report_build_log ::
  "cl_lib \<Rightarrow> kbx_mem_manager \<Rightarrow> cl_event list \<Rightarrow> kbx_mem_manager option" where
  "report_build_log lib mm h = do {
     let log_size = cl_log_size lib h;
     (log, mm) \<leftarrow> kbx_mem_alloc (cl_max_node lib) (cl_cpu_node lib h) mm (log_size + 1);
     (case log of
        None \<Rightarrow> Some mm
      | Some a \<Rightarrow> kbx_mem_free (cl_max_node lib) mm (Some a))
   }"

definition kbx_cl_load_kernels ::
  "cl_lib \<Rightarrow> kbx_cl_ctx option \<Rightarrow> string option \<Rightarrow> cl_event list
     \<Rightarrow> (kbx_status_t \<times> kbx_cl_ctx option \<times> cl_event list) option" where
  "kbx_cl_load_kernels lib ctx_p source_p h =
     (case (ctx_p, source_p, Option.bind ctx_p cc_mem_manager) of
        (Some ctx, Some source, Some mm) \<Rightarrow> do {
          (source_str, mm) \<leftarrow> kbx_mem_alloc (cl_max_node lib) (cl_cpu_node lib h) mm (of_nat (length source) + 1);
          if source_str = None then Some (KBX_STATUS_ERR_NOMEM, Some (ctx\<lparr>cc_mem_manager := Some mm\<rparr>), h)
          else do {
            let (ret, program) = cl_create_program lib h source;
            let h1 = h @ [ClCreateProgram source ret program];
            let ctx = ctx\<lparr>cc_program := program\<rparr>;
            if ret \<noteq> CL_SUCCESS then do {
              mm \<leftarrow> kbx_mem_free (cl_max_node lib) mm source_str;
              Some (KBX_STATUS_ERR_GPU, Some (ctx\<lparr>cc_mem_manager := Some mm\<rparr>), h1)
            }
            else do {
              let ret = cl_build lib h1;
              let h2 = h1 @ [ClBuildProgram program ret];
              if ret \<noteq> CL_SUCCESS then do {
                mm \<leftarrow> report_build_log lib mm h2;
                mm \<leftarrow> kbx_mem_free (cl_max_node lib) mm source_str;
                Some (KBX_STATUS_ERR_GPU, Some (ctx\<lparr>cc_mem_manager := Some mm, cc_program := None\<rparr>),
                      h2 @ [ClReleaseProgram program])
              }
              else do {
                let (ret, krn) = cl_create_kernel lib h2;
                let h3 = h2 @ [ClCreateKernel program ret krn];
                mm \<leftarrow> kbx_mem_free (cl_max_node lib) mm source_str;
                Some (KBX_STATUS_SUCCESS,
                      Some (ctx\<lparr>cc_mem_manager := Some mm, cc_kernel_nv12_to_rgb := krn\<rparr>), h3)
              }
            }
          }
        }
      | _ \<Rightarrow> Some (KBX_STATUS_ERR_IO, ctx_p, h))"

section \<open>kbx_cl_import_dmabuf\<close>

text \<open>
  The two import calls the source can be compiled to use; without either the source names a
  status that \<open>kbx_types.h\<close> does not define. The extension string only selects messages. The
  result is the status, the context, what was written to \<open>*out_buf\<close>, and the calls.
\<close>

datatype import_variant = ArmImportMemory | KhrExternalMemory

definition kbx_cl_import_dmabuf ::
  "import_variant \<Rightarrow> cl_lib \<Rightarrow> kbx_cl_ctx option \<Rightarrow> int \<Rightarrow> u64 \<Rightarrow> bool \<Rightarrow> cl_event list
     \<Rightarrow> (kbx_status_t \<times> kbx_cl_ctx option \<times> handle option \<times> cl_event list) option" where
  "kbx_cl_import_dmabuf variant lib ctx_p dmabuf_fd sz out_ok h =
     (case ctx_p of
        None \<Rightarrow> Some (KBX_STATUS_ERR_IO, ctx_p, None, h)
      | Some ctx \<Rightarrow>
          if dmabuf_fd < 0 \<or> sz = 0 \<or> \<not> out_ok then Some (KBX_STATUS_ERR_IO, ctx_p, None, h)
          else
            let (ret, ext_size) = cl_extensions_size lib
            in if ret \<noteq> CL_SUCCESS then Some (KBX_STATUS_ERR_GPU, ctx_p, None, h)
               else if cl_extensions_query lib \<noteq> CL_SUCCESS then Some (KBX_STATUS_ERR_GPU, ctx_p, None, h)
               else if 1024 \<le> ext_size then None \<comment> \<open>\<open>exts[ext_size]\<close> is outside \<open>exts\<close>\<close>
               else if variant = ArmImportMemory \<and> \<not> cl_import_entry lib
                    then Some (KBX_STATUS_ERR_IO, ctx_p, None, h)
               else
                 let (err, buf) = cl_import lib h;
                     h1 = h @ [ClImport (cc_context ctx) dmabuf_fd sz err buf]
                 in if err \<noteq> CL_SUCCESS \<or> buf = None then Some (KBX_STATUS_CL_ERROR, ctx_p, None, h1)
                    else
                      let h2 = (if cc_imported_image ctx \<noteq> None
                                then h1 @ [ClReleaseMem (cc_imported_image ctx)] else h1)
                      in Some (KBX_STATUS_SUCCESS, Some (ctx\<lparr>cc_imported_image := buf\<rparr>), Some buf, h2))"

section \<open>kbx_cl_convert_nv12_to_rgb\<close>

text \<open>The kernel's four arguments, set one by one; the first refusal ends it.\<close>

fun set_args :: "cl_lib \<Rightarrow> handle \<Rightarrow> nat \<Rightarrow> cl_arg list \<Rightarrow> cl_event list \<Rightarrow> bool \<times> cl_event list" where
  "set_args lib krn i [] h = (True, h)"
| "set_args lib krn i (a # as) h =
     (let ret = cl_set_arg lib h;
          h1 = h @ [ClSetArg krn i a ret]
      in if ret \<noteq> CL_SUCCESS then (False, h1) else set_args lib krn (Suc i) as h1)"

definition round_up16 :: "u32 \<Rightarrow> u64" where
  "round_up16 n = ((ucast n + 16 - 1) div 16) * 16"

text \<open>
  What the enqueued launch does to the device memory by the time the queue is finished. The kernel \<open>nv12_to_rgb\<close>
  runs with its arguments (input, output, width, height) as \<open>clSetKernelArg\<close> has last set them for this kernel
  object; a kernel whose arguments are missing or of another kind is not run by the model.
\<close>

fun args_step :: "handle \<Rightarrow> cl_event \<Rightarrow> (nat \<rightharpoonup> cl_arg) \<Rightarrow> (nat \<rightharpoonup> cl_arg)" where
  "args_step krn (ClSetArg k i a ret) args = (if k = krn \<and> ret = CL_SUCCESS then args(i \<mapsto> a) else args)"
| "args_step krn _ args = args"

definition kernel_args :: "handle \<Rightarrow> cl_event list \<Rightarrow> (nat \<rightharpoonup> cl_arg)" where
  "kernel_args krn h = fold (args_step krn) h Map.empty"

definition run_launch ::
  "bool \<Rightarrow> (u64 \<times> u64) list \<Rightarrow> (nat \<rightharpoonup> cl_arg) \<Rightarrow> device_memory \<Rightarrow> device_memory option" where
  "run_launch contract gids args m =
     (case (args 0, args 1, args 2, args 3) of
        (Some (ArgMem (Some nv12_buf)), Some (ArgMem (Some rgb_buf)), Some (ArgUint width), Some (ArgUint height)) \<Rightarrow>
          if nv12_buf = rgb_buf then None
          else do {
            nv12 \<leftarrow> m nv12_buf;
            rgb \<leftarrow> m rgb_buf;
            rgb \<leftarrow> nd_range contract nv12 width height gids rgb;
            Some (m(rgb_buf \<mapsto> rgb))
          }
      | _ \<Rightarrow> None)"

definition kbx_cl_convert_nv12_to_rgb ::
  "cl_lib \<Rightarrow> kbx_cl_ctx option \<Rightarrow> handle \<Rightarrow> handle \<Rightarrow> u32 \<Rightarrow> u32 \<Rightarrow> device_memory \<Rightarrow> cl_event list
     \<Rightarrow> (kbx_status_t \<times> device_memory \<times> cl_event list) option" where
  "kbx_cl_convert_nv12_to_rgb lib ctx_p nv12_buf rgb_buf width height m h =
     (case (ctx_p, nv12_buf, rgb_buf) of
        (Some ctx, Some _, Some _) \<Rightarrow>
          if width = 0 \<or> height = 0 then Some (KBX_STATUS_ERR_IO, m, h)
          else if cc_kernel_nv12_to_rgb ctx = None then Some (KBX_STATUS_ERR_GPU, m, h)
          else
            let krn = cc_kernel_nv12_to_rgb ctx;
                (ok, h1) = set_args lib krn 0
                  [ArgMem nv12_buf, ArgMem rgb_buf, ArgUint width, ArgUint height] h
            in if \<not> ok then Some (KBX_STATUS_ERR_GPU, m, h1)
               else
                 let global = (round_up16 width, round_up16 height);
                     (ret, event) = cl_enqueue lib h1;
                     h2 = h1 @ [ClEnqueue (cc_queue ctx) krn global (16, 16) ret event]
                 in if ret \<noteq> CL_SUCCESS then Some (KBX_STATUS_ERR_GPU, m, h2)
                    else
                      let ret = cl_finish lib h2;
                          h3 = h2 @ [ClFinish (cc_queue ctx) ret]
                      in if ret \<noteq> CL_SUCCESS then Some (KBX_STATUS_ERR_GPU, cl_unfinished lib h3 m, h3)
                         else do {
                           m1 \<leftarrow> run_launch (cl_contract lib) (cl_order lib h2 global) (kernel_args krn h2) m;
                           let h4 = h3 @ [ClWait event (cl_wait lib h3), ClReleaseEvent event];
                           Some (KBX_STATUS_SUCCESS, m1, h4)
                         }
      | _ \<Rightarrow> Some (KBX_STATUS_ERR_IO, m, h))"

section \<open>Programs\<close>

fun ev_program :: "cl_event \<Rightarrow> handle list" where
  "ev_program (ClCreateProgram src ret p) = (if ret = CL_SUCCESS then [p] else [])" | "ev_program _ = []"

fun ev_release_program :: "cl_event \<Rightarrow> handle list" where
  "ev_release_program (ClReleaseProgram p) = [p]" | "ev_release_program _ = []"

fun ev_kernel :: "cl_event \<Rightarrow> (int \<times> handle) list" where
  "ev_kernel (ClCreateKernel p ret k) = [(ret, k)]" | "ev_kernel _ = []"

lemma build_log_safe:
  "mgr_inv (cl_max_node lib) mm \<Longrightarrow> \<exists>mm'. report_build_log lib mm h = Some mm' \<and> mgr_inv (cl_max_node lib) mm'"
  using cpu_alloc_spec [of "cl_max_node lib" mm "cl_cpu_node lib h" "cl_log_size lib h + 1"]
  by (auto simp: report_build_log_def Let_def cpu_free_spec split: option.split)

text \<open>
  \<open>kbx_cl_load_kernels\<close> on a sound memory manager always returns and keeps the manager sound.
  When it reports success exactly one program is alive and is the context's, and the context's
  kernel is whatever \<open>clCreateKernel\<close> answered, even when that call failed; when it reports
  anything else every program it created has been released.
\<close>

theorem cl_load_kernels_safe:
  assumes "cc_mem_manager ctx = Some mm" "mgr_inv (cl_max_node lib) mm"
  shows "\<exists>status ctx1 mm1 new. kbx_cl_load_kernels lib (Some ctx) (Some source) h
      = Some (status, Some ctx1, h @ new)
    \<and> cc_mem_manager ctx1 = Some mm1 \<and> mgr_inv (cl_max_node lib) mm1
    \<and> (if status = KBX_STATUS_SUCCESS
       then collect ev_program new = [cc_program ctx1] \<and> collect ev_release_program new = []
         \<and> map snd (collect ev_kernel new) = [cc_kernel_nv12_to_rgb ctx1]
         \<and> ctx1 = ctx\<lparr>cc_mem_manager := Some mm1, cc_program := cc_program ctx1,
                      cc_kernel_nv12_to_rgb := cc_kernel_nv12_to_rgb ctx1\<rparr>
       else collect ev_release_program new = collect ev_program new
         \<and> ctx1 = ctx\<lparr>cc_mem_manager := Some mm1, cc_program := cc_program ctx1\<rparr>)"
proof -
  let ?mx = "cl_max_node lib"
  obtain r mm1 where al: "kbx_mem_alloc ?mx (cl_cpu_node lib h) mm (of_nat (length source) + 1) = Some (r, mm1)"
    and i1: "mgr_inv ?mx mm1" using cpu_alloc_spec [OF assms(2)] by blast
  show ?thesis
  proof (cases r)
    case None
    then show ?thesis using al i1 assms(1) by (simp add: kbx_cl_load_kernels_def)
  next
    case (Some a)
    obtain mm2 where fr: "kbx_mem_free ?mx mm1 (Some a) = Some mm2" and i2: "mgr_inv ?mx mm2"
      using cpu_free_spec [OF i1] by blast
    obtain ret program where cp: "cl_create_program lib h source = (ret, program)" by fastforce
    define h1 where "h1 = h @ [ClCreateProgram source ret program]"
    define h2 where "h2 = h1 @ [ClBuildProgram program (cl_build lib h1)]"
    obtain mm3 where lg: "report_build_log lib mm1 h2 = Some mm3" and i3: "mgr_inv ?mx mm3"
      using build_log_safe [OF i1] by blast
    obtain mm4 where fl: "kbx_mem_free ?mx mm3 (Some a) = Some mm4" and i4: "mgr_inv ?mx mm4"
      using cpu_free_spec [OF i3] by blast
    obtain kr krn where ck: "cl_create_kernel lib h2 = (kr, krn)" by fastforce
    note run = kbx_cl_load_kernels_def al Some fr cp lg fl ck
    have hs: "h1 = h @ [ClCreateProgram source ret program]"
      "h2 = h @ [ClCreateProgram source ret program, ClBuildProgram program (cl_build lib h1)]"
      by (simp_all add: h1_def h2_def)
    consider (create) "ret \<noteq> CL_SUCCESS" | (build) "ret = CL_SUCCESS" "cl_build lib h1 \<noteq> CL_SUCCESS"
      | (ok) "ret = CL_SUCCESS" "cl_build lib h1 = CL_SUCCESS" by blast
    then show ?thesis
    proof cases
      case create
      then have "kbx_cl_load_kernels lib (Some ctx) (Some source) h
        = Some (KBX_STATUS_ERR_GPU, Some (ctx\<lparr>cc_program := program, cc_mem_manager := Some mm2\<rparr>), h1)"
        using assms(1) by (simp add: run h1_def)
      then show ?thesis using create i2 by (simp add: hs(1))
    next
      case build
      then have "kbx_cl_load_kernels lib (Some ctx) (Some source) h
        = Some (KBX_STATUS_ERR_GPU, Some (ctx\<lparr>cc_program := None, cc_mem_manager := Some mm4\<rparr>),
            h2 @ [ClReleaseProgram program])"
        using assms(1) lg by (simp add: run h1_def h2_def)
      then show ?thesis using build i4 by (simp add: hs(2))
    next
      case ok
      then have "kbx_cl_load_kernels lib (Some ctx) (Some source) h
        = Some (KBX_STATUS_SUCCESS, Some (ctx\<lparr>cc_program := program, cc_mem_manager := Some mm2,
            cc_kernel_nv12_to_rgb := krn\<rparr>), h2 @ [ClCreateKernel program kr krn])"
        using assms(1) ck by (simp add: run h1_def h2_def)
      then show ?thesis using ok i2 by (simp add: hs(2))
    qed
  qed
qed

section \<open>A concrete library\<close>

definition raster :: "u64 \<times> u64 \<Rightarrow> (u64 \<times> u64) list" where
  "raster g = concat (map (\<lambda>y. map (\<lambda>x. (of_nat x, of_nat y)) [0..<unat (fst g)]) [0..<unat (snd g)])"

definition demo_lib :: cl_lib where
  "demo_lib = \<lparr>cl_max_node = 0, cl_cpu_node = (\<lambda>h. 0), cl_create_program = (\<lambda>h src. (0, Some 40)),
     cl_build = (\<lambda>h. 0), cl_log_size = (\<lambda>h. 10), cl_create_kernel = (\<lambda>h. (-46, None)),
     cl_extensions_size = (0, 200), cl_extensions_query = 0, cl_import_entry = True,
     cl_import = (\<lambda>h. (0, Some (of_nat (100 + length h)))), cl_set_arg = (\<lambda>h. 0),
     cl_enqueue = (\<lambda>h. (0, Some 60)), cl_order = (\<lambda>h. raster), cl_contract = False,
     cl_finish = (\<lambda>h. 0), cl_unfinished = (\<lambda>h m. m), cl_wait = (\<lambda>h. 0)\<rparr>"

lemma raster_covers: "covers_range (unat (fst g)) (unat (snd g)) (raster g)"
proof -
  have "(gx, gy) \<in> set (raster g) \<longleftrightarrow> unat gx < unat (fst g) \<and> unat gy < unat (snd g)" for gx gy
  proof
    assume "(gx, gy) \<in> set (raster g)"
    then obtain x y where "x < unat (fst g)" "y < unat (snd g)" "gx = of_nat x" "gy = of_nat y"
      by (auto simp: raster_def)
    then show "unat gx < unat (fst g) \<and> unat gy < unat (snd g)"
      using unat_u64_bound [of "fst g"] unat_u64_bound [of "snd g"]
      by (simp add: unat_of_nat_u64)
  next
    assume "unat gx < unat (fst g) \<and> unat gy < unat (snd g)"
    then show "(gx, gy) \<in> set (raster g)"
      by (auto simp: raster_def intro!: bexI [of _ "unat gy"] image_eqI [of _ _ "unat gx"])
  qed
  then show ?thesis by (simp add: covers_range_def)
qed

definition demo_ctx :: kbx_cl_ctx where
  "demo_ctx = blank_ctx\<lparr>cc_mem_manager := Some (demo_mgr [False, False, False] 0), cc_device := Some 18,
     cc_context := Some 32, cc_queue := Some 33\<rparr>"

theorem cl_load_kernels_safe_witness:
  "\<exists>status ctx1 new. kbx_cl_load_kernels demo_lib (Some demo_ctx) (Some ''__kernel'') [] = Some (status, Some ctx1, new)
    \<and> (\<exists>mm1. cc_mem_manager ctx1 = Some mm1 \<and> mgr_inv 0 mm1)"
proof -
  have mm: "cc_mem_manager demo_ctx = Some (demo_mgr [False, False, False] 0)" by (simp add: demo_ctx_def)
  have inv: "mgr_inv (cl_max_node demo_lib) (demo_mgr [False, False, False] 0)"
    using demo_mgr_inv(2) by (simp add: demo_lib_def)
  have mx: "cl_max_node demo_lib = 0" by (simp add: demo_lib_def)
  show ?thesis using cl_load_kernels_safe [OF mm inv, of "''__kernel''" "[]"] unfolding mx append_Nil by blast
qed

section \<open>Imports\<close>

fun ev_image :: "cl_event \<Rightarrow> handle list" where
  "ev_image (ClImport c fd sz err b) = (if err = CL_SUCCESS \<and> b \<noteq> None then [b] else [])" | "ev_image _ = []"

fun ev_release_image :: "cl_event \<Rightarrow> handle list" where
  "ev_release_image (ClReleaseMem b) = [b]" | "ev_release_image _ = []"

fun import_run :: "import_variant \<Rightarrow> cl_lib \<Rightarrow> kbx_cl_ctx \<Rightarrow> (int \<times> u64) list \<Rightarrow> cl_event list
    \<Rightarrow> (kbx_cl_ctx \<times> cl_event list) option" where
  "import_run variant lib ctx [] h = Some (ctx, h)"
| "import_run variant lib ctx ((fd, sz) # reqs) h = do {
     (status, ctx1, out, h1) \<leftarrow> kbx_cl_import_dmabuf variant lib (Some ctx) fd sz True h;
     ctx1 \<leftarrow> ctx1;
     import_run variant lib ctx1 reqs h1
   }"

definition held_image :: "kbx_cl_ctx \<Rightarrow> handle list" where
  "held_image ctx = (if cc_imported_image ctx = None then [] else [cc_imported_image ctx])"

lemma import_step:
  assumes "kbx_cl_import_dmabuf variant lib (Some ctx) fd sz ok h = Some (status, ctx_p, out, h1)"
  shows "\<exists>ctx1 new. ctx_p = Some ctx1 \<and> h1 = h @ new
    \<and> held_image ctx @ collect ev_image new = collect ev_release_image new @ held_image ctx1
    \<and> (status = KBX_STATUS_SUCCESS \<longleftrightarrow> out \<noteq> None)
    \<and> (out \<noteq> None \<longrightarrow> out = Some (cc_imported_image ctx1) \<and> held_image ctx1 = [cc_imported_image ctx1])
    \<and> (out = None \<longrightarrow> ctx1 = ctx)"
  using assms
  by (auto simp: kbx_cl_import_dmabuf_def Let_def held_image_def split: prod.splits if_splits)

text \<open>
  however often buffers are imported, the images created and not yet released are, in order,
  exactly the one the context holds: every import that succeeds releases its predecessor, and one
  that fails changes nothing.
\<close>

theorem cl_import_keeps_one_image:
  assumes "cc_imported_image ctx = None" "import_run variant lib ctx reqs h = Some (ctx1, h1)"
  shows "\<exists>new. h1 = h @ new \<and> collect ev_image new = collect ev_release_image new @ held_image ctx1"
proof -
  have "import_run variant lib c reqs h = Some (ctx1, h1) \<Longrightarrow>
    \<exists>new. h1 = h @ new \<and> held_image c @ collect ev_image new = collect ev_release_image new @ held_image ctx1" for c
  proof (induction reqs arbitrary: c h)
    case Nil
    then show ?case by simp
  next
    case (Cons r reqs)
    obtain fd sz where r: "r = (fd, sz)" by fastforce
    from Cons.prems r obtain status ctx_p out h2 c2 where
      st: "kbx_cl_import_dmabuf variant lib (Some c) fd sz True h = Some (status, ctx_p, out, h2)"
      and c2: "ctx_p = Some c2" and run: "import_run variant lib c2 reqs h2 = Some (ctx1, h1)"
      by (auto split: Option.bind_splits)
    from import_step [OF st] c2 obtain n1 where n1: "h2 = h @ n1"
      "held_image c @ collect ev_image n1 = collect ev_release_image n1 @ held_image c2" by auto
    from Cons.IH [OF run] obtain n2 where n2: "h1 = h2 @ n2"
      "held_image c2 @ collect ev_image n2 = collect ev_release_image n2 @ held_image ctx1" by blast
    show ?case using n1 n2 by (intro exI [of _ "n1 @ n2"]) (metis append_assoc collect_simps(3))
  qed
  from this [OF assms(2)] assms(1) show ?thesis by (simp add: held_image_def)
qed

theorem cl_import_keeps_one_image_witness:
  "\<exists>ctx1 new. import_run KhrExternalMemory demo_lib demo_ctx [(5, 4096), (-1, 4096), (6, 4096)] [] = Some (ctx1, new)
    \<and> held_image ctx1 = [Some 101]
    \<and> collect ev_image new = collect ev_release_image new @ held_image ctx1"
proof -
  have n: "cc_imported_image demo_ctx = None" by (simp add: demo_ctx_def blank_ctx_def)
  have r: "import_run KhrExternalMemory demo_lib demo_ctx [(5, 4096), (-1, 4096), (6, 4096)] []
    = Some (demo_ctx\<lparr>cc_imported_image := Some 101\<rparr>,
        [ClImport (Some 32) 5 4096 0 (Some 100), ClImport (Some 32) 6 4096 0 (Some 101), ClReleaseMem (Some 100)])"
    by code_simp
  show ?thesis using cl_import_keeps_one_image [OF n r] r by (simp add: held_image_def)
qed

text \<open>
  with valid arguments the import is undefined exactly when the device reports 1024 or more
  bytes of extension names: \<open>exts\<close> has 1024 bytes and a terminator is stored behind them.
\<close>

theorem cl_import_undefined_iff:
  "kbx_cl_import_dmabuf variant lib ctx_p fd sz ok h = None \<longleftrightarrow>
     ctx_p \<noteq> None \<and> 0 \<le> fd \<and> sz \<noteq> 0 \<and> ok \<and> fst (cl_extensions_size lib) = CL_SUCCESS
     \<and> cl_extensions_query lib = CL_SUCCESS \<and> 1024 \<le> unat (snd (cl_extensions_size lib))"
  by (cases ctx_p) (auto simp: kbx_cl_import_dmabuf_def Let_def word_le_nat_alt split: prod.splits)

section \<open>Conversion of a frame\<close>

lemma unat_round_up16: "unat (round_up16 n) = (unat n + 15) div 16 * 16"
proof -
  have b: "unat n < 4294967296" by (rule unat_u32_bound)
  have c: "unat (ucast n :: u64) = unat n"
    using b by (simp add: unsigned_ucast_eq take_bit_nat_eq_self)
  have e: "(ucast n :: u64) + 16 - 1 = ucast n + 15" by simp
  have a: "unat ((ucast n :: u64) + 15) = unat n + 15"
    using b c by (subst unat_add_u64) simp_all
  have d: "unat (((ucast n :: u64) + 15) div 16) = (unat n + 15) div 16"
    using a by (simp add: unat_div_u64)
  have "(unat n + 15) div 16 * 16 < 18446744073709551616" using b by simp
  then show ?thesis
    unfolding round_up16_def e by (subst unat_mult_u64) (simp_all add: d)
qed

lemma round_up16_bounds: "unat n \<le> unat (round_up16 n)" "unat (round_up16 n) \<le> 4294967296"
proof -
  have "(unat n + 15) div 16 < 268435457"
    using unat_u32_bound [of n] by (simp add: div_less_iff_less_mult)
  then show "unat (round_up16 n) \<le> 4294967296" unfolding unat_round_up16 by simp
  show "unat n \<le> unat (round_up16 n)" unfolding unat_round_up16 by linarith
qed

lemma nv12_size_le:
  assumes "0 < w" "0 < h"
  shows "nv12_size w h \<le> 3 * (w * h)"
proof -
  define a where "a = ((h - 1) div 2) * w"
  define b where "b = (w - 1) div 2"
  have "2 * a \<le> (h - 1) * w" by (simp add: a_def)
  moreover have "(h - 1) * w + w = w * h" using assms(2) by (cases h) (simp_all add: mult.commute)
  moreover have "w \<le> w * h" using assms(2) by (cases h) simp_all
  moreover have "2 * b + 1 \<le> w" using assms(1) unfolding b_def by linarith
  moreover have "nv12_size w h = w * h + a + 2 * b + 2" by (simp add: nv12_size_def a_def b_def)
  ultimately show ?thesis by linarith
qed

lemma channel_agrees:
  "uint (channel c (manual_rgb yuv)) \<le> uint (channel c (kernel_rgb contract yuv))
   \<and> uint (channel c (kernel_rgb contract yuv)) \<le> uint (channel c (manual_rgb yuv)) + 1"
  using manual_rgb_kernel_rgb [of yuv contract] by (auto simp: channel_def)

text \<open>The launch computes the conversion, whatever the order of the work-items.\<close>

lemma run_launch_reference:
  fixes width height :: u32
  defines "w \<equiv> unat width" and "h \<equiv> unat height"
  assumes m: "m nv12_buf = Some src" "m rgb_buf = Some dst" "nv12_buf \<noteq> rgb_buf"
    and len: "nv12_size w h \<le> length src" "3 * (w * h) \<le> length dst" and small: "3 * (w * h) < 2147483648"
    and pos: "0 < w" "0 < h"
    and cov: "covers_range (unat (round_up16 width)) (unat (round_up16 height)) gids"
    and args: "args 0 = Some (ArgMem (Some nv12_buf))" "args 1 = Some (ArgMem (Some rgb_buf))"
      "args 2 = Some (ArgUint width)" "args 3 = Some (ArgUint height)"
  shows "\<exists>out ref. run_launch contract gids args m = Some (m(rgb_buf \<mapsto> out))
    \<and> ManualNV12ToRGB src dst (int w) (int h) = Some ref
    \<and> length out = length dst \<and> length ref = length dst
    \<and> (\<forall>i < length dst. uint (ref ! i) \<le> uint (out ! i) \<and> uint (out ! i) \<le> uint (ref ! i) + 1)
    \<and> (\<forall>i < length dst. 3 * (w * h) \<le> i \<longrightarrow> out ! i = dst ! i)"
proof -
  let ?out = "write_pixels (\<lambda>k. kernel_rgb contract (sample src w h k)) [0..<w * h] dst"
  let ?ref = "write_pixels (\<lambda>k. manual_rgb (sample src w h k)) [0..<w * h] dst"
  have "nd_range contract src width height gids dst = Some ?out"
    unfolding w_def h_def
    by (rule nd_range_pixels [OF _ _ _ cov])
      (use len small nv12_size_le [OF pos] round_up16_bounds in \<open>simp_all add: w_def h_def\<close>)
  then have "run_launch contract gids args m = Some (m(rgb_buf \<mapsto> ?out))"
    using m args by (simp add: run_launch_def)
  moreover have "ManualNV12ToRGB src dst (int w) (int h) = Some ?ref"
    by (rule manual_write [OF len(1) small len(2)])
  moreover have "uint (?ref ! i) \<le> uint (?out ! i) \<and> uint (?out ! i) \<le> uint (?ref ! i) + 1"
    if "i < length dst" for i
    using that channel_agrees by (simp add: nth_write_pixels)
  moreover have "?out ! i = dst ! i" if "i < length dst" "3 * (w * h) \<le> i" for i
  proof -
    have "w * h \<le> i div 3" using that(2) by (simp add: less_eq_div_iff_mult_less_eq mult.commute)
    then show ?thesis using that by (simp add: nth_write_pixels)
  qed
  ultimately show ?thesis by (intro exI [of _ ?out] exI [of _ ?ref]) simp
qed

lemma set_args_extends:
  "\<exists>new. set_args lib krn i args h = (fst (set_args lib krn i args h), h @ new)
    \<and> length new \<le> length args \<and> (\<forall>e \<in> set new. \<exists>j a ret. e = ClSetArg krn j a ret)"
proof (induction args arbitrary: i h)
  case Nil
  then show ?case by simp
next
  case (Cons a args)
  let ?h = "h @ [ClSetArg krn i a (cl_set_arg lib h)]"
  show ?case
  proof (cases "cl_set_arg lib h = CL_SUCCESS")
    case True
    from Cons [of "Suc i" ?h] obtain new where
      "set_args lib krn (Suc i) args ?h = (fst (set_args lib krn (Suc i) args ?h), ?h @ new)"
      "length new \<le> length args" "\<forall>e \<in> set new. \<exists>j a ret. e = ClSetArg krn j a ret" by blast
    with True show ?thesis
      by (intro exI [of _ "ClSetArg krn i a (cl_set_arg lib h) # new"]) (simp add: Let_def)
  next
    case False
    then show ?thesis by (intro exI [of _ "[ClSetArg krn i a (cl_set_arg lib h)]"]) (simp add: Let_def)
  qed
qed

text \<open>After four successful calls the kernel has the four arguments.\<close>

lemma set_args_sets:
  "fst (set_args lib krn i args h) \<Longrightarrow> kernel_args krn (snd (set_args lib krn i args h)) j
    = (if i \<le> j \<and> j < i + length args then Some (args ! (j - i)) else kernel_args krn h j)"
proof (induction args arbitrary: i h)
  case (Cons a args)
  let ?h = "h @ [ClSetArg krn i a (cl_set_arg lib h)]"
  have ok: "cl_set_arg lib h = CL_SUCCESS" using Cons.prems by (auto simp: Let_def split: if_splits)
  then have "fst (set_args lib krn (Suc i) args ?h)" using Cons.prems by (simp add: Let_def)
  note ih = Cons.IH [OF this]
  have step: "kernel_args krn ?h j = (if j = i then Some a else kernel_args krn h j)"
    using ok by (simp add: kernel_args_def)
  show ?case
  proof (cases "j = i")
    case True
    then show ?thesis using ih ok step by (simp add: Let_def)
  next
    case False
    then show ?thesis using ih ok step by (auto simp: Let_def nth_Cons' Suc_le_eq)
  qed
qed auto

fun ev_event :: "cl_event \<Rightarrow> handle list" where
  "ev_event (ClEnqueue q k g l ret e) = (if ret = CL_SUCCESS then [e] else [])" | "ev_event _ = []"

fun ev_release_event :: "cl_event \<Rightarrow> handle list" where
  "ev_release_event (ClReleaseEvent e) = [e]" | "ev_release_event _ = []"

text \<open>
  C5: a conversion that reports success has run the kernel over the whole frame: the RGB buffer
  holds, byte for byte, what the CPU reference \<open>ManualNV12ToRGB\<close> computes from the same frame or one
  more, bytes behind the frame are untouched, and no other buffer has changed; in whatever order
  the device runs the work-items of the rounded-up range.
\<close>

theorem cl_convert_matches_reference:
  fixes width height :: u32
  defines "w \<equiv> unat width" and "h \<equiv> unat height"
  assumes "kbx_cl_convert_nv12_to_rgb lib (Some ctx) (Some nv12_buf) (Some rgb_buf) width height m evs
      = Some (KBX_STATUS_SUCCESS, m1, evs1)"
    and "m nv12_buf = Some src" "m rgb_buf = Some dst"
    and "nv12_size w h \<le> length src" "3 * (w * h) \<le> length dst" "3 * (w * h) < 2147483648"
    and "\<forall>e. covers_range (unat (round_up16 width)) (unat (round_up16 height))
          (cl_order lib e (round_up16 width, round_up16 height))"
  shows "\<exists>out ref. m1 = m(rgb_buf \<mapsto> out) \<and> ManualNV12ToRGB src dst (int w) (int h) = Some ref
    \<and> length out = length dst \<and> length ref = length dst
    \<and> (\<forall>i < length dst. uint (ref ! i) \<le> uint (out ! i) \<and> uint (out ! i) \<le> uint (ref ! i) + 1)
    \<and> (\<forall>i < length dst. 3 * (w * h) \<le> i \<longrightarrow> out ! i = dst ! i)"
proof -
  let ?args = "[ArgMem (Some nv12_buf), ArgMem (Some rgb_buf), ArgUint width, ArgUint height]" and ?krn = "cc_kernel_nv12_to_rgb ctx"
  obtain ok h1 where sa: "set_args lib ?krn 0 ?args evs = (ok, h1)" by fastforce
  from assms(3) sa obtain e q g l ret ev where
    r: "run_launch (cl_contract lib) (cl_order lib e (round_up16 width, round_up16 height))
      (kernel_args ?krn (h1 @ [ClEnqueue q ?krn g l ret ev])) m = Some m1"
    and nz: "width \<noteq> 0" "height \<noteq> 0" and ok: ok
    by (auto simp: kbx_cl_convert_nv12_to_rgb_def Let_def simp del: set_args.simps
        split: prod.splits if_splits Option.bind_splits)
  have "kernel_args ?krn (h1 @ [ClEnqueue q ?krn g l ret ev]) j = (if j < 4 then Some (?args ! j) else kernel_args ?krn evs j)" for j
    using set_args_sets [of lib ?krn 0 ?args evs j] sa ok by (simp add: kernel_args_def)
  then have args: "kernel_args ?krn (h1 @ [ClEnqueue q ?krn g l ret ev]) 0 = Some (ArgMem (Some nv12_buf))"
    "kernel_args ?krn (h1 @ [ClEnqueue q ?krn g l ret ev]) 1 = Some (ArgMem (Some rgb_buf))"
    "kernel_args ?krn (h1 @ [ClEnqueue q ?krn g l ret ev]) 2 = Some (ArgUint width)"
    "kernel_args ?krn (h1 @ [ClEnqueue q ?krn g l ret ev]) 3 = Some (ArgUint height)" by simp_all
  have ne: "nv12_buf \<noteq> rgb_buf" using r args by (auto simp: run_launch_def)
  have pos: "0 < unat width" "0 < unat height" using nz by (simp_all add: unat_gt_0)
  show ?thesis
    using run_launch_reference [OF assms(4,5) ne assms(6-8) [unfolded w_def h_def] pos spec [OF assms(9), of e] args,
        of "cl_contract lib"] r
    unfolding w_def h_def by auto
qed

lemma demo_kernel_ctx: "cc_kernel_nv12_to_rgb (demo_ctx\<lparr>cc_kernel_nv12_to_rgb := Some 41\<rparr>) = Some 41"
  by simp

theorem cl_convert_matches_reference_witness:
  "\<exists>m1 out evs. kbx_cl_convert_nv12_to_rgb demo_lib (Some (demo_ctx\<lparr>cc_kernel_nv12_to_rgb := Some 41\<rparr>))
      (Some 1) (Some 2) 2 2 [1 \<mapsto> [81, 90, 16, 235, 100, 200], 2 \<mapsto> replicate 14 7] [] = Some (KBX_STATUS_SUCCESS, m1, evs)
    \<and> m1 2 = Some out \<and> length out = 14 \<and> out ! 12 = 7"
proof -
  let ?src = "[81, 90, 16, 235, 100, 200] :: u8 list"
  let ?dst = "replicate 14 7 :: u8 list"
  let ?m = "[1 \<mapsto> ?src, 2 \<mapsto> ?dst] :: device_memory"
  let ?ctx = "demo_ctx\<lparr>cc_kernel_nv12_to_rgb := Some 41\<rparr>"
  have cov: "covers_range (unat (round_up16 2)) (unat (round_up16 2)) (cl_order demo_lib e (round_up16 2, round_up16 2))"
    for e using raster_covers [of "(round_up16 2, round_up16 2)"] by (simp add: demo_lib_def)
  have sz: "nv12_size (unat (2 :: u32)) (unat (2 :: u32)) \<le> length ?src"
    "3 * (unat (2 :: u32) * unat (2 :: u32)) \<le> length ?dst" "3 * (unat (2 :: u32) * unat (2 :: u32)) < 2147483648"
    by (simp_all add: nv12_size_def)
  have ne: "(1 :: ptr) \<noteq> 2" by simp
  have m: "?m 1 = Some ?src" "?m 2 = Some ?dst" by simp_all
  have pos: "0 < unat (2 :: u32)" by simp
  let ?args = "[0 \<mapsto> ArgMem (Some 1), 1 \<mapsto> ArgMem (Some 2), 2 \<mapsto> ArgUint 2, 3 \<mapsto> ArgUint 2] :: nat \<rightharpoonup> cl_arg"
  have a: "?args 0 = Some (ArgMem (Some 1))" "?args 1 = Some (ArgMem (Some 2))"
    "?args 2 = Some (ArgUint 2)" "?args 3 = Some (ArgUint 2)" by simp_all
  obtain out where "run_launch (cl_contract demo_lib)
      (cl_order demo_lib ([] @ map (\<lambda>(i, a). ClSetArg (Some 41) i a 0)
        [(0, ArgMem (Some 1)), (1, ArgMem (Some 2)), (2, ArgUint 2), (3, ArgUint 2)]) (round_up16 2, round_up16 2))
      ?args ?m = Some (?m(2 \<mapsto> out))"
    using run_launch_reference [OF m ne sz pos pos cov a, of "cl_contract demo_lib"] by blast
  then obtain evs where run: "kbx_cl_convert_nv12_to_rgb demo_lib (Some ?ctx) (Some 1) (Some 2) 2 2 ?m []
      = Some (KBX_STATUS_SUCCESS, ?m(2 \<mapsto> out), evs)"
    by (simp add: kbx_cl_convert_nv12_to_rgb_def demo_lib_def Let_def eval_nat_numeral kernel_args_def)
  have all: "\<forall>e. covers_range (unat (round_up16 2)) (unat (round_up16 2)) (cl_order demo_lib e (round_up16 2, round_up16 2))"
    using cov by blast
  obtain out2 where o2: "?m(2 \<mapsto> out) = ?m(2 \<mapsto> out2)" "length out2 = length ?dst"
    "\<forall>i < length ?dst. 3 * (unat (2 :: u32) * unat (2 :: u32)) \<le> i \<longrightarrow> out2 ! i = ?dst ! i"
    using cl_convert_matches_reference [OF run m sz all] by blast
  from fun_cong [OF o2(1), of 2] have "out2 = out" by simp
  with o2(2,3) have "length out = 14" "out ! 12 = 7" by simp_all
  with run show ?thesis by (intro exI [of _ "?m(2 \<mapsto> out)"] exI [of _ out] exI [of _ evs]) simp
qed

lemma collect_set_args:
  assumes "\<And>j a ret. f (ClSetArg krn j a ret) = []"
  obtains new where "snd (set_args lib krn i args h) = h @ new" "collect f new = []"
    "new = [] \<or> (\<forall>q r. last new \<noteq> ClFinish q r)"
proof -
  obtain new where new: "set_args lib krn i args h = (fst (set_args lib krn i args h), h @ new)"
    "\<forall>e \<in> set new. \<exists>j a ret. e = ClSetArg krn j a ret" using set_args_extends by blast
  from new(2) assms have "collect f new = []" by (induction new) fastforce+
  moreover have "new = [] \<or> (\<forall>q r. last new \<noteq> ClFinish q r)"
    using new(2) last_in_set [of new] by fastforce
  moreover have "snd (set_args lib krn i args h) = h @ new" using new(1) by (metis snd_conv)
  ultimately show ?thesis using that by blast
qed

text \<open>
  a conversion that fails has not touched device memory and holds no event, unless the failure
  is that of \<open>clFinish\<close>: then the launch's event is never released and the buffers hold what the
  unfinished launch left. On success the one event is released; what \<open>clWaitForEvents\<close> answers
  is ignored.
\<close>

theorem cl_convert_failure_effects:
  assumes "kbx_cl_convert_nv12_to_rgb lib ctx_p a b width height m h = Some (status, m1, h1)"
  shows "\<exists>new. h1 = h @ new
    \<and> (if status = KBX_STATUS_SUCCESS
       then length (collect ev_event new) = 1 \<and> collect ev_release_event new = collect ev_event new
       else collect ev_release_event new = []
         \<and> (m1 = m \<and> collect ev_event new = []
            \<or> length (collect ev_event new) = 1 \<and> (\<exists>q r. last new = ClFinish q r \<and> r \<noteq> CL_SUCCESS)))"
proof (cases "\<exists>ctx x y. ctx_p = Some ctx \<and> a = Some x \<and> b = Some y \<and> width \<noteq> 0 \<and> height \<noteq> 0
    \<and> cc_kernel_nv12_to_rgb ctx \<noteq> None")
  case False
  then show ?thesis using assms
    by (auto simp: kbx_cl_convert_nv12_to_rgb_def Let_def split: option.splits if_splits)
next
  case True
  then obtain ctx x y krn where p: "ctx_p = Some ctx" "a = Some x" "b = Some y" "width \<noteq> 0" "height \<noteq> 0"
    "cc_kernel_nv12_to_rgb ctx = Some krn" by blast
  let ?args = "[ArgMem (Some x), ArgMem (Some y), ArgUint width, ArgUint height]"
  obtain ok h2 where sa: "set_args lib (Some krn) 0 ?args h = (ok, h2)" by fastforce
  obtain n1 where n1: "h2 = h @ n1" "collect (\<lambda>e. ev_event e @ ev_release_event e) n1 = []"
    using collect_set_args [of "\<lambda>e. ev_event e @ ev_release_event e" "Some krn" lib 0 ?args h] sa by auto
  have c: "collect ev_event n1 = []" "collect ev_release_event n1 = []"
    using n1(2) by (induction n1) auto
  show ?thesis
    using assms p c
    by (auto simp: kbx_cl_convert_nv12_to_rgb_def sa n1(1) Let_def simp del: set_args.simps
        split: prod.splits if_splits Option.bind_splits)
qed

theorem cl_convert_failure_effects_witness:
  "\<exists>new. kbx_cl_convert_nv12_to_rgb (demo_lib\<lparr>cl_finish := \<lambda>h. -5\<rparr>)
      (Some (demo_ctx\<lparr>cc_kernel_nv12_to_rgb := Some 41\<rparr>)) (Some 1) (Some 2) 2 2 Map.empty [] =
        Some (KBX_STATUS_ERR_GPU, Map.empty, new)
    \<and> collect ev_release_event new = [] \<and> length (collect ev_event new) = 1"
proof -
  let ?lib = "demo_lib\<lparr>cl_finish := \<lambda>h. -5\<rparr>" and ?ctx = "demo_ctx\<lparr>cc_kernel_nv12_to_rgb := Some 41\<rparr>"
  obtain new where run: "kbx_cl_convert_nv12_to_rgb ?lib (Some ?ctx) (Some 1) (Some 2) 2 2 Map.empty []
      = Some (KBX_STATUS_ERR_GPU, Map.empty, new)" and ev: "collect ev_event new \<noteq> []"
    by (simp add: kbx_cl_convert_nv12_to_rgb_def demo_lib_def Let_def eval_nat_numeral)
  show ?thesis using cl_convert_failure_effects [OF run] run ev by auto
qed

end
