(* ===== verification/Vulkan_Renderer.thy ===== *)
theory Vulkan_Renderer
  imports KBX_Types
begin

text \<open>
  The Vulkan context of \<open>src/gfx/drm_vk_renderer.cc\<close> and \<open>include/kbx_vulkan.h\<close>: creation and
  release of the instance, device, command pool and command buffer. The driver is the parameter
  \<open>vk_env\<close>; a creation answers whether it succeeded and the handle it stored, which is unspecified
  when it failed. A null handle is \<open>None\<close>. The calls that create, use and destroy objects are
  recorded as events, and \<open>vk_replay\<close> is the lifetime rule they have to obey.
\<close>

unbundle bit_operations_syntax

section \<open>Data\<close>

type_synonym vk_handle = "ptr option"

record kbx_bbox_t =
  bb_x1 :: u32
  bb_y1 :: u32
  bb_x2 :: u32
  bb_y2 :: u32

record kbx_vulkan_context_t =
  vk_instance :: vk_handle
  vk_device :: vk_handle
  vk_physical_device :: vk_handle
  vk_graphics_queue :: vk_handle
  vk_cmd_pool :: vk_handle
  vk_cmd_buffer :: vk_handle
  vk_imported_dmabuf_image :: vk_handle
  vk_imported_memory :: vk_handle

datatype vk_event =
    VkCreateInstance "string list" bool vk_handle
  | VkDestroyInstance vk_handle
  | VkCreateDevice vk_handle nat "string list" bool vk_handle
  | VkDestroyDevice vk_handle
  | VkGetQueue vk_handle nat vk_handle
  | VkWaitIdle vk_handle
  | VkCreatePool vk_handle nat bool vk_handle
  | VkDestroyPool vk_handle vk_handle
  | VkAllocBuffer vk_handle vk_handle bool vk_handle
  | VkFreeBuffer vk_handle vk_handle vk_handle

datatype vk_device_type = VkOther | VkIntegratedGpu | VkDiscreteGpu | VkVirtualGpu | VkCpu

record vk_env =
  ve_ndebug :: bool
  ve_layers :: "string list"
  ve_instance :: "string list \<Rightarrow> bool \<times> vk_handle"
  ve_physical :: "(vk_handle \<times> vk_device_type) list"
  ve_families :: "vk_handle \<Rightarrow> (u32 \<times> u32) list" \<comment> \<open>\<open>queueCount\<close> and \<open>queueFlags\<close>\<close>
  ve_device :: "vk_handle \<Rightarrow> nat \<Rightarrow> bool \<times> vk_handle"
  ve_queue :: "vk_handle \<Rightarrow> nat \<Rightarrow> vk_handle"
  ve_pool :: "vk_handle \<Rightarrow> nat \<Rightarrow> bool \<times> vk_handle"
  ve_buffer :: "vk_handle \<Rightarrow> vk_handle \<Rightarrow> bool \<times> vk_handle"

section \<open>Selection\<close>

definition validation_layer :: string where
  "validation_layer = ''VK_LAYER_KHRONOS_validation''"

definition device_extensions :: "string list" where
  "device_extensions =
     [''VK_KHR_swapchain'', ''VK_KHR_external_memory'', ''VK_KHR_external_memory_fd'',
      ''VK_KHR_external_semaphore'', ''VK_KHR_external_semaphore_fd'', ''VK_EXT_image_drm_format_modifier'']"

fun layer_supported :: "string list \<Rightarrow> bool" where
  "layer_supported [] = False"
| "layer_supported (l # ls) = (if l = validation_layer then True else layer_supported ls)"

definition enabled_layers :: "bool \<Rightarrow> string list \<Rightarrow> string list" where
  "enabled_layers ndebug layers =
     (if \<not> ndebug \<and> layer_supported layers then [validation_layer] else [])"

fun pick_gpu :: "(vk_handle \<times> vk_device_type) list \<Rightarrow> vk_handle" where
  "pick_gpu [] = None"
| "pick_gpu ((d, t) # ds) = (if t = VkDiscreteGpu \<or> t = VkIntegratedGpu then d else pick_gpu ds)"

abbreviation VK_QUEUE_GRAPHICS_BIT :: u32 where "VK_QUEUE_GRAPHICS_BIT \<equiv> 1"

fun pick_family :: "nat \<Rightarrow> (u32 \<times> u32) list \<Rightarrow> nat option" where
  "pick_family i [] = None"
| "pick_family i ((count, flags) # fs) =
     (if 0 < count \<and> flags AND VK_QUEUE_GRAPHICS_BIT \<noteq> 0 then Some i else pick_family (Suc i) fs)"

section \<open>Initialisation and release\<close>

text \<open>\<open>device_stage\<close>, \<open>pool_stage\<close> and \<open>buffer_stage\<close> are the last three steps of the function.\<close>

definition buffer_stage :: "vk_env \<Rightarrow> kbx_vulkan_context_t \<Rightarrow> vk_event list
    \<Rightarrow> kbx_status_t \<times> kbx_vulkan_context_t \<times> vk_event list" where
  "buffer_stage env ctx h =
     (let (ok, b) = ve_buffer env (vk_device ctx) (vk_cmd_pool ctx);
          ctx = ctx\<lparr>vk_cmd_buffer := b\<rparr>;
          h = h @ [VkAllocBuffer (vk_device ctx) (vk_cmd_pool ctx) ok b]
      in if \<not> ok
         then (KBX_STATUS_ERR_GFX, ctx,
               h @ [VkDestroyPool (vk_device ctx) (vk_cmd_pool ctx), VkDestroyDevice (vk_device ctx),
                    VkDestroyInstance (vk_instance ctx)])
         else (KBX_STATUS_SUCCESS, ctx, h))"

definition pool_stage :: "vk_env \<Rightarrow> nat \<Rightarrow> kbx_vulkan_context_t \<Rightarrow> vk_event list
    \<Rightarrow> kbx_status_t \<times> kbx_vulkan_context_t \<times> vk_event list" where
  "pool_stage env family ctx h =
     (let q = ve_queue env (vk_device ctx) family;
          ctx = ctx\<lparr>vk_graphics_queue := q\<rparr>;
          h = h @ [VkGetQueue (vk_device ctx) family q];
          (ok, p) = ve_pool env (vk_device ctx) family;
          ctx = ctx\<lparr>vk_cmd_pool := p\<rparr>;
          h = h @ [VkCreatePool (vk_device ctx) family ok p]
      in if \<not> ok
         then (KBX_STATUS_ERR_GFX, ctx,
               h @ [VkDestroyDevice (vk_device ctx), VkDestroyInstance (vk_instance ctx)])
         else buffer_stage env ctx h)"

definition device_stage :: "vk_env \<Rightarrow> nat \<Rightarrow> kbx_vulkan_context_t \<Rightarrow> vk_event list
    \<Rightarrow> kbx_status_t \<times> kbx_vulkan_context_t \<times> vk_event list" where
  "device_stage env family ctx h =
     (let (ok, d) = ve_device env (vk_physical_device ctx) family;
          ctx = ctx\<lparr>vk_device := d\<rparr>;
          h = h @ [VkCreateDevice (vk_physical_device ctx) family device_extensions ok d]
      in if \<not> ok then (KBX_STATUS_ERR_GFX, ctx, h @ [VkDestroyInstance (vk_instance ctx)])
         else pool_stage env family ctx h)"

definition kbx_vulkan_init :: "vk_env \<Rightarrow> kbx_vulkan_context_t
    \<Rightarrow> kbx_status_t \<times> kbx_vulkan_context_t \<times> vk_event list" where
  "kbx_vulkan_init env ctx =
     (let layers = enabled_layers (ve_ndebug env) (ve_layers env);
          (ok, i) = ve_instance env layers;
          ctx = ctx\<lparr>vk_instance := i\<rparr>;
          h = [VkCreateInstance layers ok i]
      in if \<not> ok then (KBX_STATUS_ERR_GFX, ctx, h)
         else case ve_physical env of
           [] \<Rightarrow> (KBX_STATUS_ERR_GFX, ctx, h @ [VkDestroyInstance i])
         | first # rest \<Rightarrow>
             let gpu = pick_gpu (first # rest);
                 ctx = ctx\<lparr>vk_physical_device := if gpu = None then fst first else gpu\<rparr>
             in case pick_family 0 (ve_families env (vk_physical_device ctx)) of
                  None \<Rightarrow> (KBX_STATUS_ERR_GFX, ctx, h @ [VkDestroyInstance i])
                | Some family \<Rightarrow> device_stage env family ctx h)"

definition kbx_vulkan_deinit :: "kbx_vulkan_context_t \<Rightarrow> kbx_status_t \<times> vk_event list" where
  "kbx_vulkan_deinit ctx =
     (KBX_STATUS_SUCCESS,
      (if vk_device ctx \<noteq> None then [VkWaitIdle (vk_device ctx)] else [])
      @ (if vk_cmd_pool ctx \<noteq> None \<and> vk_cmd_buffer ctx \<noteq> None
         then [VkFreeBuffer (vk_device ctx) (vk_cmd_pool ctx) (vk_cmd_buffer ctx)] else [])
      @ (if vk_cmd_pool ctx \<noteq> None then [VkDestroyPool (vk_device ctx) (vk_cmd_pool ctx)] else [])
      @ (if vk_device ctx \<noteq> None then [VkDestroyDevice (vk_device ctx)] else [])
      @ (if vk_instance ctx \<noteq> None then [VkDestroyInstance (vk_instance ctx)] else []))"

section \<open>Lifetimes\<close>

text \<open>
  Objects alive, the youngest first. An object is created from a live parent and destroyed only
  while it is alive and all its children are gone; anything else is a violation (\<open>None\<close>).
\<close>

datatype vk_object = VkInstanceObj vk_handle | VkDeviceObj vk_handle | VkPoolObj vk_handle | VkBufferObj vk_handle

fun vk_destroy :: "vk_object \<Rightarrow> vk_object list \<Rightarrow> vk_object list option" where
  "vk_destroy x [] = None"
| "vk_destroy x (y # live) = (if x = y then Some live else None)"

fun vk_effect :: "vk_event \<Rightarrow> vk_object list \<Rightarrow> vk_object list option" where
  "vk_effect (VkCreateInstance ls ok i) live = Some (if ok then VkInstanceObj i # live else live)"
| "vk_effect (VkDestroyInstance i) live = vk_destroy (VkInstanceObj i) live"
| "vk_effect (VkCreateDevice p f es ok d) live = Some (if ok then VkDeviceObj d # live else live)"
| "vk_effect (VkDestroyDevice d) live = vk_destroy (VkDeviceObj d) live"
| "vk_effect (VkGetQueue d f q) live = (if VkDeviceObj d \<in> set live then Some live else None)"
| "vk_effect (VkWaitIdle d) live = (if VkDeviceObj d \<in> set live then Some live else None)"
| "vk_effect (VkCreatePool d f ok p) live =
     (if VkDeviceObj d \<in> set live then Some (if ok then VkPoolObj p # live else live) else None)"
| "vk_effect (VkDestroyPool d p) live =
     (if VkDeviceObj d \<in> set live then vk_destroy (VkPoolObj p) live else None)"
| "vk_effect (VkAllocBuffer d p ok b) live =
     (if VkPoolObj p \<in> set live then Some (if ok then VkBufferObj b # live else live) else None)"
| "vk_effect (VkFreeBuffer d p b) live =
     (if VkPoolObj p \<in> set live then vk_destroy (VkBufferObj b) live else None)"

fun vk_replay :: "vk_event list \<Rightarrow> vk_object list \<Rightarrow> vk_object list option" where
  "vk_replay [] live = Some live"
| "vk_replay (e # es) live = do { live \<leftarrow> vk_effect e live; vk_replay es live }"

definition vk_objects :: "kbx_vulkan_context_t \<Rightarrow> vk_object list" where
  "vk_objects ctx = [VkBufferObj (vk_cmd_buffer ctx), VkPoolObj (vk_cmd_pool ctx), VkDeviceObj (vk_device ctx),
     VkInstanceObj (vk_instance ctx)]"

lemmas vk_stages = kbx_vulkan_init_def device_stage_def pool_stage_def buffer_stage_def

lemma vulkan_init_replay:
  "kbx_vulkan_init env ctx = (status, ctx1, evs) \<Longrightarrow>
   vk_replay evs [] = Some (if status = KBX_STATUS_SUCCESS then vk_objects ctx1 else [])"
  by (auto simp: vk_stages Let_def vk_objects_def split: prod.splits if_splits list.splits option.splits)

lemmas vulkan_init_live = vulkan_init_replay [where status = KBX_STATUS_SUCCESS, simplified]

lemma vulkan_init_clean:
  "kbx_vulkan_init env ctx = (status, ctx1, evs) \<Longrightarrow> status \<noteq> KBX_STATUS_SUCCESS \<Longrightarrow> vk_replay evs [] = Some []"
  by (simp add: vulkan_init_replay)

text \<open>
  C12: \<open>kbx_vulkan_init\<close> obeys the object lifetime rules on every path: when it fails every object
  it created has been destroyed, children before parents, and when it succeeds exactly the four
  objects of the context are alive.
\<close>

theorem vulkan_init_lifetimes:
  assumes "kbx_vulkan_init env ctx = (status, ctx1, evs)"
  shows "vk_replay evs [] = Some (if status = KBX_STATUS_SUCCESS then vk_objects ctx1 else [])"
  using assms by (rule vulkan_init_replay)

lemma vulkan_init_success:
  assumes "kbx_vulkan_init env ctx = (KBX_STATUS_SUCCESS, ctx1, evs)"
  shows "\<exists>family first rest. ve_physical env = first # rest
    \<and> vk_physical_device ctx1 = (if pick_gpu (first # rest) = None then fst first else pick_gpu (first # rest))
    \<and> pick_family 0 (ve_families env (vk_physical_device ctx1)) = Some family
    \<and> ve_instance env (enabled_layers (ve_ndebug env) (ve_layers env)) = (True, vk_instance ctx1)
    \<and> ve_device env (vk_physical_device ctx1) family = (True, vk_device ctx1)
    \<and> vk_graphics_queue ctx1 = ve_queue env (vk_device ctx1) family
    \<and> ve_pool env (vk_device ctx1) family = (True, vk_cmd_pool ctx1)
    \<and> ve_buffer env (vk_device ctx1) (vk_cmd_pool ctx1) = (True, vk_cmd_buffer ctx1)"
  using assms
  by (cases "ve_physical env")
    (auto simp: vk_stages Let_def simp del: pick_gpu.simps split: prod.splits if_splits option.splits)

definition is_gpu :: "vk_handle \<times> vk_device_type \<Rightarrow> bool" where
  "is_gpu d \<longleftrightarrow> snd d = VkDiscreteGpu \<or> snd d = VkIntegratedGpu"

definition has_graphics :: "u32 \<times> u32 \<Rightarrow> bool" where
  "has_graphics f \<longleftrightarrow> 0 < fst f \<and> snd f AND VK_QUEUE_GRAPHICS_BIT \<noteq> 0"

lemma pick_gpu_find: "pick_gpu ds = (case find is_gpu ds of None \<Rightarrow> None | Some d \<Rightarrow> fst d)"
  by (induction ds rule: pick_gpu.induct) (simp_all add: is_gpu_def)

lemma pick_family_least:
  "pick_family i fs = Some f \<Longrightarrow> i \<le> f \<and> f - i < length fs \<and> has_graphics (fs ! (f - i))
     \<and> (\<forall>j < f - i. \<not> has_graphics (fs ! j))"
proof (induction i fs rule: pick_family.induct)
  case (1 i)
  then show ?case by simp
next
  case (2 i count flags fs)
  show ?case
  proof (cases "has_graphics (count, flags)")
    case True
    with "2.prems" show ?thesis by (simp add: has_graphics_def)
  next
    case False
    with "2.prems" have r: "pick_family (Suc i) fs = Some f" by (simp add: has_graphics_def split: if_splits)
    with "2.IH" False have "Suc i \<le> f \<and> f - Suc i < length fs \<and> has_graphics (fs ! (f - Suc i))
      \<and> (\<forall>j < f - Suc i. \<not> has_graphics (fs ! j))" by (simp add: has_graphics_def)
    with False show ?thesis by (auto simp: nth_Cons' Suc_diff_Suc)
  qed
qed

lemma pick_family_none: "pick_family i fs = None \<longleftrightarrow> (\<forall>f \<in> set fs. \<not> has_graphics f)"
  by (induction i fs rule: pick_family.induct) (auto simp: has_graphics_def)

text \<open>
  a successful \<open>kbx_vulkan_init\<close> runs on the first discrete or integrated GPU the instance
  lists, on the first device when there is none, and takes its queue from the first queue family
  of that device that has queues and can draw.
\<close>

theorem vulkan_init_selects:
  assumes "kbx_vulkan_init env ctx = (KBX_STATUS_SUCCESS, ctx1, evs)"
    and "\<forall>d \<in> set (ve_physical env). fst d \<noteq> None"
  shows "\<exists>family. vk_physical_device ctx1
      = fst (case find is_gpu (ve_physical env) of Some d \<Rightarrow> d | None \<Rightarrow> hd (ve_physical env))
    \<and> family < length (ve_families env (vk_physical_device ctx1))
    \<and> has_graphics (ve_families env (vk_physical_device ctx1) ! family)
    \<and> (\<forall>j < family. \<not> has_graphics (ve_families env (vk_physical_device ctx1) ! j))
    \<and> vk_graphics_queue ctx1 = ve_queue env (vk_device ctx1) family"
proof -
  obtain family first rest where s: "ve_physical env = first # rest"
    "vk_physical_device ctx1 = (if pick_gpu (first # rest) = None then fst first else pick_gpu (first # rest))"
    "pick_family 0 (ve_families env (vk_physical_device ctx1)) = Some family"
    "vk_graphics_queue ctx1 = ve_queue env (vk_device ctx1) family"
    using vulkan_init_success [OF assms(1)] by blast
  have "fst d \<noteq> None" if "find is_gpu (first # rest) = Some d" for d
    using that assms(2) unfolding s(1) by (metis find_Some_iff nth_mem)
  then have "vk_physical_device ctx1
      = fst (case find is_gpu (ve_physical env) of Some d \<Rightarrow> d | None \<Rightarrow> hd (ve_physical env))"
    unfolding s(1) s(2) pick_gpu_find by (auto split: option.split)
  with pick_family_least [OF s(3)] s(4) show ?thesis by auto
qed

lemma vk_replay_append: "vk_replay (es @ fs) live = Option.bind (vk_replay es live) (vk_replay fs)"
  by (induction es arbitrary: live) (auto split: Option.bind_splits)

text \<open>
  after a successful \<open>kbx_vulkan_init\<close>, whose driver stores no null handle when a creation
  succeeds, \<open>kbx_vulkan_deinit\<close> destroys every object, in an order the lifetime rules allow.
\<close>

theorem vulkan_deinit_undoes_init:
  assumes "kbx_vulkan_init env ctx = (KBX_STATUS_SUCCESS, ctx1, evs)"
    and "\<forall>ls. ve_instance env ls \<noteq> (True, None)" "\<forall>p f. ve_device env p f \<noteq> (True, None)"
    and "\<forall>d f. ve_pool env d f \<noteq> (True, None)" "\<forall>d p. ve_buffer env d p \<noteq> (True, None)"
  shows "vk_replay (evs @ snd (kbx_vulkan_deinit ctx1)) [] = Some []"
proof -
  have nn: "vk_instance ctx1 \<noteq> None" "vk_device ctx1 \<noteq> None" "vk_cmd_pool ctx1 \<noteq> None" "vk_cmd_buffer ctx1 \<noteq> None"
    using vulkan_init_success [OF assms(1)] assms(2-) by metis+
  have "vk_replay (snd (kbx_vulkan_deinit ctx1)) (vk_objects ctx1) = Some []"
    using nn by (simp add: kbx_vulkan_deinit_def vk_objects_def)
  moreover have "vk_replay evs [] = Some (vk_objects ctx1)"
    using assms(1) by (rule vulkan_init_live)
  ultimately show ?thesis by (simp add: vk_replay_append)
qed

definition demo_vk :: "bool \<Rightarrow> vk_env" where
  "demo_vk pool_ok = \<lparr>ve_ndebug = False, ve_layers = [''VK_LAYER_a'', validation_layer],
     ve_instance = (\<lambda>ls. (True, Some 1)), ve_physical = [(Some 2, VkCpu), (Some 3, VkIntegratedGpu)],
     ve_families = (\<lambda>d. [(0, 1), (4, 2), (1, 3)]), ve_device = (\<lambda>p f. (True, Some 4)),
     ve_queue = (\<lambda>d f. Some 5), ve_pool = (\<lambda>d f. (pool_ok, Some 6)), ve_buffer = (\<lambda>d p. (True, Some 7))\<rparr>"

definition blank_vk :: kbx_vulkan_context_t where
  "blank_vk = \<lparr>vk_instance = None, vk_device = None, vk_physical_device = None, vk_graphics_queue = None,
     vk_cmd_pool = None, vk_cmd_buffer = None, vk_imported_dmabuf_image = None, vk_imported_memory = None\<rparr>"

lemma demo_vk_init:
  "kbx_vulkan_init (demo_vk True) blank_vk
   = (KBX_STATUS_SUCCESS, \<lparr>vk_instance = Some 1, vk_device = Some 4, vk_physical_device = Some 3,
        vk_graphics_queue = Some 5, vk_cmd_pool = Some 6, vk_cmd_buffer = Some 7,
        vk_imported_dmabuf_image = None, vk_imported_memory = None\<rparr>,
      [VkCreateInstance [validation_layer] True (Some 1), VkCreateDevice (Some 3) 2 device_extensions True (Some 4),
       VkGetQueue (Some 4) 2 (Some 5), VkCreatePool (Some 4) 2 True (Some 6),
       VkAllocBuffer (Some 4) (Some 6) True (Some 7)])"
  by code_simp

theorem vulkan_init_lifetimes_witness:
  "vk_replay (snd (snd (kbx_vulkan_init (demo_vk True) blank_vk))) []
   = Some [VkBufferObj (Some 7), VkPoolObj (Some 6), VkDeviceObj (Some 4), VkInstanceObj (Some 1)]"
  using vulkan_init_lifetimes [OF demo_vk_init] demo_vk_init by (simp add: vk_objects_def)

theorem vulkan_init_selects_witness:
  "\<exists>ctx1 evs. kbx_vulkan_init (demo_vk True) blank_vk = (KBX_STATUS_SUCCESS, ctx1, evs)
    \<and> vk_physical_device ctx1 = Some 3"
  using vulkan_init_selects [OF demo_vk_init] demo_vk_init by (simp add: demo_vk_def is_gpu_def)

theorem vulkan_deinit_undoes_init_witness:
  "\<exists>ctx1 evs. kbx_vulkan_init (demo_vk True) blank_vk = (KBX_STATUS_SUCCESS, ctx1, evs)
    \<and> vk_replay (evs @ snd (kbx_vulkan_deinit ctx1)) [] = Some []"
  using vulkan_deinit_undoes_init [OF demo_vk_init] demo_vk_init by (simp add: demo_vk_def)

text \<open>
  the context keeps the handles of what a failed \<open>kbx_vulkan_init\<close> has destroyed, so a
  \<open>kbx_vulkan_deinit\<close> after it breaks the lifetime rules: it uses the destroyed device or
  destroys the instance again.
\<close>

theorem vulkan_deinit_after_failed_init:
  assumes "kbx_vulkan_init env ctx = (status, ctx1, evs)" "status \<noteq> KBX_STATUS_SUCCESS"
    and "vk_instance ctx1 \<noteq> None"
  shows "vk_replay (evs @ snd (kbx_vulkan_deinit ctx1)) [] = None"
proof -
  have "vk_replay (snd (kbx_vulkan_deinit ctx1)) [] = None"
    using assms(3) by (simp add: kbx_vulkan_deinit_def)
  moreover have "vk_replay evs [] = Some []"
    using assms(1,2) by (rule vulkan_init_clean)
  ultimately show ?thesis by (simp add: vk_replay_append)
qed

lemma demo_vk_failed:
  "kbx_vulkan_init (demo_vk False) blank_vk
   = (KBX_STATUS_ERR_GFX, \<lparr>vk_instance = Some 1, vk_device = Some 4, vk_physical_device = Some 3,
        vk_graphics_queue = Some 5, vk_cmd_pool = Some 6, vk_cmd_buffer = None,
        vk_imported_dmabuf_image = None, vk_imported_memory = None\<rparr>,
      [VkCreateInstance [validation_layer] True (Some 1), VkCreateDevice (Some 3) 2 device_extensions True (Some 4),
       VkGetQueue (Some 4) 2 (Some 5), VkCreatePool (Some 4) 2 False (Some 6),
       VkDestroyDevice (Some 4), VkDestroyInstance (Some 1)])"
  by code_simp

theorem vulkan_deinit_after_failed_init_witness:
  "\<exists>ctx1 evs. kbx_vulkan_init (demo_vk False) blank_vk = (KBX_STATUS_ERR_GFX, ctx1, evs)
    \<and> vk_replay (evs @ snd (kbx_vulkan_deinit ctx1)) [] = None"
  using vulkan_deinit_after_failed_init [OF demo_vk_failed] demo_vk_failed by simp

end
