(* ===== verification/Main_Program.thy ===== *)
theory Main_Program
  imports CL_Engine Mem_Pool_Init
begin

text \<open>
  \<open>main\<close> of \<open>main.cc\<close> as it is compiled: the argument check, the memory pools, the OpenCL context,
  a reactor loop that is never entered, and the return. The two structs are locals that are not
  initialised; \<open>mgr0\<close>, \<open>junk\<close> and \<open>ctx0\<close> are what they hold on entry. \<open>exit\<close> and the return
  from \<open>main\<close> are the exit code.
\<close>

record process =
  pr_exit :: int
  pr_pool_status :: "kbx_status_t option"
  pr_cl_status :: "kbx_status_t option"
  pr_numa :: numa_log
  pr_cl :: "cl_event list"
  pr_ctx :: "kbx_cl_ctx option"
  pr_loops :: nat \<comment> \<open>rounds of the reactor loop\<close>

fun reactor :: "bool \<Rightarrow> process \<Rightarrow> process" where
  "reactor False p = p"
| "reactor True p = p\<lparr>pr_loops := pr_loops p + 1\<rparr>"

definition kbx_main ::
  "numa_alloc \<Rightarrow> int \<Rightarrow> (nat \<Rightarrow> kbx_mem_pool) \<Rightarrow> cl_env \<Rightarrow> kbx_mem_manager \<Rightarrow> kbx_cl_ctx
     \<Rightarrow> string list \<Rightarrow> process" where
  "kbx_main numa_alloc_onnode max_node junk env mgr0 ctx0 argv =
     (if length argv < 5
      then \<lparr>pr_exit = 1, pr_pool_status = None, pr_cl_status = None, pr_numa = [], pr_cl = [],
            pr_ctx = None, pr_loops = 0\<rparr>
      else
        let (st, mem_manager, lg) = kbx_mem_pool_init numa_alloc_onnode max_node junk mgr0 1024 [];
            (st2, ctx, h) = kbx_cl_init env (Some ctx0) (Some mem_manager) []
        in reactor False
             \<lparr>pr_exit = 0, pr_pool_status = Some st, pr_cl_status = Some st2, pr_numa = lg, pr_cl = h,
              pr_ctx = ctx, pr_loops = 0\<rparr>)"

section \<open>What a run leaves behind\<close>

fun numa_free_of :: "numa_event \<Rightarrow> bool" where
  "numa_free_of (NumaAlloc b n r) = False"
| "numa_free_of (NumaFree p b) = True"

lemma init_pools_no_free:
  "init_pools na bytes is pools lg = (st, pools', lg') \<Longrightarrow>
   \<exists>new. lg' = lg @ new \<and> (\<forall>e \<in> set new. \<not> numa_free_of e)"
proof (induction "is" arbitrary: pools lg)
  case Nil
  then show ?case by simp
next
  case (Cons i "is")
  show ?case
  proof (cases "na lg bytes 0")
    case None
    with Cons.prems show ?thesis by (auto simp: Let_def)
  next
    case (Some buf)
    let ?lg1 = "lg @ [NumaAlloc bytes 0 (Some buf)]"
    let ?bb = "sizeof_mem_block * (bytes div KBX_PAGE_SIZE)"
    show ?thesis
    proof (cases "na ?lg1 ?bb 0")
      case None
      with Some Cons.prems show ?thesis by (auto simp: Let_def)
    next
      case blocks: (Some cp)
      from Cons.prems Some blocks obtain pools1 where
        "init_pools na bytes is pools1 (?lg1 @ [NumaAlloc ?bb 0 (Some cp)]) = (st, pools', lg')"
        by (auto simp: Let_def)
      from Cons.IH [OF this] obtain new where
        "lg' = (?lg1 @ [NumaAlloc ?bb 0 (Some cp)]) @ new" "\<forall>e \<in> set new. \<not> numa_free_of e" by blast
      then show ?thesis
        by (intro exI [of _ "NumaAlloc bytes 0 (Some buf) # NumaAlloc ?bb 0 (Some cp) # new"]) simp
    qed
  qed
qed

lemma pool_init_no_free:
  assumes "kbx_mem_pool_init na mx junk mgr sz [] = (st, mgr', lg)"
  shows "\<forall>e \<in> set lg. \<not> numa_free_of e"
proof (cases "na [] (sizeof_mem_pool * of_nat (nat (mx + 1))) 0")
  case None
  with assms show ?thesis by (auto simp: kbx_mem_pool_init_def Let_def)
next
  case (Some pp)
  let ?lg = "[NumaAlloc (sizeof_mem_pool * of_nat (nat (mx + 1))) 0 (Some pp)]"
  obtain st1 pools lg2 where ip: "init_pools na (sz * 1024 * 1024) [0..<nat (mx + 1)]
      (map junk [0..<nat (mx + 1)]) ?lg = (st1, pools, lg2)" using prod_cases3 by blast
  then have "lg = lg2" using assms Some by (auto simp: kbx_mem_pool_init_def Let_def split: if_splits)
  with init_pools_no_free [OF ip] show ?thesis by auto
qed

text \<open>
  the program runs its reactor loop zero times and exits with 0 whenever it is given at least
  four arguments, whatever the memory and OpenCL initialisation report; it releases none of the
  memory it allocated, and the OpenCL context it created stays unreleased.
\<close>

theorem main_ignores_failures:
  assumes "5 \<le> length argv" "kbx_main na mx junk env mgr0 ctx0 argv = p"
  shows "pr_exit p = 0 \<and> pr_loops p = 0
    \<and> (\<exists>mm lg. kbx_mem_pool_init na mx junk mgr0 1024 [] = (the (pr_pool_status p), mm, lg)
        \<and> pr_numa p = lg \<and> (\<forall>e \<in> set lg. \<not> numa_free_of e)
        \<and> kbx_cl_init env (Some ctx0) (Some mm) [] = (the (pr_cl_status p), pr_ctx p, pr_cl p))
    \<and> (pr_cl_status p = Some KBX_STATUS_SUCCESS \<longrightarrow> collect ev_release_context (pr_cl p) = [])"
proof -
  obtain st mm lg where pi: "kbx_mem_pool_init na mx junk mgr0 1024 [] = (st, mm, lg)" using prod_cases3 by blast
  obtain st2 ctx h where ci: "kbx_cl_init env (Some ctx0) (Some mm) [] = (st2, ctx, h)" using prod_cases3 by blast
  have p: "p = \<lparr>pr_exit = 0, pr_pool_status = Some st, pr_cl_status = Some st2, pr_numa = lg, pr_cl = h,
      pr_ctx = ctx, pr_loops = 0\<rparr>"
    using assms pi ci by (simp add: kbx_main_def)
  have "collect ev_release_context h = []" if "st2 = KBX_STATUS_SUCCESS"
    using ci that by (auto simp: kbx_cl_init_def Let_def split: prod.splits if_splits)
  with p pi ci pool_init_no_free [OF pi] show ?thesis by simp
qed

theorem main_ignores_failures_witness:
  "pr_exit (kbx_main (\<lambda>lg b n. None) 0 (\<lambda>_. demo_junk_pool) (two_platforms\<lparr>ce_platforms := (-1, 0)\<rparr>)
      (demo_mgr [] 0) blank_ctx [''kbx'', ''/dev/video0'', ''640'', ''480'', ''10'']) = 0
   \<and> pr_pool_status (kbx_main (\<lambda>lg b n. None) 0 (\<lambda>_. demo_junk_pool) (two_platforms\<lparr>ce_platforms := (-1, 0)\<rparr>)
      (demo_mgr [] 0) blank_ctx [''kbx'', ''/dev/video0'', ''640'', ''480'', ''10'']) = Some KBX_STATUS_ERR_NOMEM"
  using main_ignores_failures [of "[''kbx'', ''/dev/video0'', ''640'', ''480'', ''10'']", OF _ refl]
  by (simp add: kbx_main_def kbx_mem_pool_init_def Let_def kbx_cl_init_def two_platforms_def)

end
