(* ===== verification/Ov_Parallel.thy ===== *)
theory Ov_Parallel
  imports KBX_Prelude "HOL-Library.Multiset"
begin

text \<open>
  The parallel loops of \<open>openvino/core/parallel.hpp\<close>: the work splitter, the index iteration,
  the loops \<open>for_1d\<close> to \<open>for_6d\<close> one thread runs and the \<open>parallel_for\<close> family over the four
  threading back ends. Loop bounds are \<open>size_t\<close>, thread counts \<open>int\<close>. A thread's run is the list
  of the argument lists its body is called with; a division by zero, or a body of an arity the
  templates do not accept, is \<open>None\<close>.
\<close>

section \<open>Splitting and stepping\<close>

definition splitter :: "u64 \<Rightarrow> int \<Rightarrow> int \<Rightarrow> u64 \<times> u64" where
  "splitter n team tid =
     (let (n_start, n_end) =
        (if team \<le> 1 \<or> n = 0 then (0, n)
         else
           let n1 = (n + of_int team - 1) div of_int team;
               n2 = n1 - 1;
               T1 = n - n2 * of_int team;
               n_end = (if of_int tid < T1 then n1 else n2);
               n_start = (if of_int tid \<le> T1 then of_int tid * n1 else T1 * n1 + (of_int tid - T1) * n2)
           in (n_start, n_end))
      in (n_start, n_end + n_start))"

text \<open>The variadic templates take the counters and bounds from the outermost loop inwards.\<close>

fun parallel_it_init :: "u64 \<Rightarrow> u64 list \<Rightarrow> (u64 \<times> u64 list) option" where
  "parallel_it_init start [] = Some (start, [])"
| "parallel_it_init start (X # Xs) = do {
     (start, xs) \<leftarrow> parallel_it_init start Xs;
     if X = 0 then None else Some (start div X, start mod X # xs)
   }"

fun parallel_it_step :: "u64 list \<Rightarrow> u64 list \<Rightarrow> bool \<times> u64 list" where
  "parallel_it_step (x # xs) (X # Xs) =
     (let (carry, xs) = parallel_it_step xs Xs
      in if carry then
           (let x = x + 1 in if x - X = 0 then (True, 0 # xs) else (False, x # xs))
         else (False, x # xs))"
| "parallel_it_step xs Xs = (True, [])"

text \<open>The body gets the thread and work numbers if it has room for them: \<open>n_args\<close> is its arity.\<close>

definition call_with_args :: "nat \<Rightarrow> int \<Rightarrow> u64 \<Rightarrow> u64 list \<Rightarrow> u64 list option" where
  "call_with_args n_args g_id iwork args =
     (if n_args = length args + 2 then Some (of_int g_id # iwork # args)
      else if n_args = length args + 1 then Some (of_int g_id # args)
      else if n_args = length args then Some args
      else None)"

section \<open>The loop of one thread\<close>

function work_loop :: "nat \<Rightarrow> int \<Rightarrow> u64 list \<Rightarrow> u64 \<Rightarrow> u64 \<Rightarrow> u64 list \<Rightarrow> u64 list list option" where
  "work_loop n_args ithr Ds end iwork ds =
     (if iwork < end then do {
        call \<leftarrow> call_with_args n_args ithr iwork ds;
        rest \<leftarrow> work_loop n_args ithr Ds end (iwork + 1) (snd (parallel_it_step ds Ds));
        Some (call # rest)
      }
      else Some [])"
  by pat_completeness auto
termination
proof (relation "measure (\<lambda>(n_args, ithr, Ds, end, iwork, ds). unat end - unat iwork)")
  fix n_args ithr Ds ds and e i :: u64 and call
  assume "i < e"
  then have "unat i < unat e" by (simp add: word_less_nat_alt)
  moreover have "unat (i + 1) = unat i + 1"
    using \<open>unat i < unat e\<close> unat_u64_bound [of e] by (subst unat_add_u64) simp_all
  ultimately show "((n_args, ithr, Ds, e, i + 1, snd (parallel_it_step ds Ds)), (n_args, ithr, Ds, e, i, ds))
      \<in> measure (\<lambda>(n_args, ithr, Ds, e, iwork, ds). unat e - unat iwork)" by simp
qed simp

declare work_loop.simps [simp del]

definition work_amount :: "u64 list \<Rightarrow> u64" where
  "work_amount Ds = foldl (*) (hd Ds) (tl Ds)"

definition for_nd :: "nat \<Rightarrow> int \<Rightarrow> int \<Rightarrow> u64 list \<Rightarrow> u64 list list option" where
  "for_nd n_args ithr nthr Ds =
     (if work_amount Ds = 0 then Some []
      else do {
        let (start, end) = splitter (work_amount Ds) nthr ithr;
        (_, ds) \<leftarrow> parallel_it_init start Ds;
        work_loop n_args ithr Ds end start ds
      })"

text \<open>One dimension needs no index arithmetic: the counter is the work number.\<close>

function loop_1d :: "nat \<Rightarrow> int \<Rightarrow> u64 \<Rightarrow> u64 \<Rightarrow> u64 list list option" where
  "loop_1d n_args ithr end d0 =
     (if d0 < end then do {
        call \<leftarrow> call_with_args n_args ithr d0 [d0];
        rest \<leftarrow> loop_1d n_args ithr end (d0 + 1);
        Some (call # rest)
      }
      else Some [])"
  by pat_completeness auto
termination
proof (relation "measure (\<lambda>(n_args, ithr, end, d0). unat end - unat d0)")
  fix n_args ithr and e i :: u64 and call
  assume "i < e"
  then have "unat i < unat e" by (simp add: word_less_nat_alt)
  moreover have "unat (i + 1) = unat i + 1"
    using \<open>unat i < unat e\<close> unat_u64_bound [of e] by (subst unat_add_u64) simp_all
  ultimately show "((n_args, ithr, e, i + 1), (n_args, ithr, e, i))
      \<in> measure (\<lambda>(n_args, ithr, e, d0). unat e - unat d0)" by simp
qed simp

declare loop_1d.simps [simp del]

definition for_1d :: "nat \<Rightarrow> int \<Rightarrow> int \<Rightarrow> u64 \<Rightarrow> u64 list list option" where
  "for_1d n_args ithr nthr D0 =
     (let (d0, end) = splitter D0 nthr ithr in loop_1d n_args ithr end d0)"

definition for_2d :: "nat \<Rightarrow> int \<Rightarrow> int \<Rightarrow> u64 \<Rightarrow> u64 \<Rightarrow> u64 list list option" where
  "for_2d n_args ithr nthr D0 D1 = for_nd n_args ithr nthr [D0, D1]"

definition for_3d :: "nat \<Rightarrow> int \<Rightarrow> int \<Rightarrow> u64 \<Rightarrow> u64 \<Rightarrow> u64 \<Rightarrow> u64 list list option" where
  "for_3d n_args ithr nthr D0 D1 D2 = for_nd n_args ithr nthr [D0, D1, D2]"

definition for_4d :: "nat \<Rightarrow> int \<Rightarrow> int \<Rightarrow> u64 \<Rightarrow> u64 \<Rightarrow> u64 \<Rightarrow> u64 \<Rightarrow> u64 list list option" where
  "for_4d n_args ithr nthr D0 D1 D2 D3 = for_nd n_args ithr nthr [D0, D1, D2, D3]"

definition for_5d :: "nat \<Rightarrow> int \<Rightarrow> int \<Rightarrow> u64 \<Rightarrow> u64 \<Rightarrow> u64 \<Rightarrow> u64 \<Rightarrow> u64 \<Rightarrow> u64 list list option" where
  "for_5d n_args ithr nthr D0 D1 D2 D3 D4 = for_nd n_args ithr nthr [D0, D1, D2, D3, D4]"

definition for_6d :: "nat \<Rightarrow> int \<Rightarrow> int \<Rightarrow> u64 \<Rightarrow> u64 \<Rightarrow> u64 \<Rightarrow> u64 \<Rightarrow> u64 \<Rightarrow> u64 \<Rightarrow> u64 list list option" where
  "for_6d n_args ithr nthr D0 D1 D2 D3 D4 D5 = for_nd n_args ithr nthr [D0, D1, D2, D3, D4, D5]"

section \<open>The threads of a parallel loop\<close>

datatype threading = OV_THREAD_TBB | OV_THREAD_OMP | OV_THREAD_SEQ | OV_THREAD_TBB_AUTO

text \<open>
  \<open>threads\<close> is the back end's concurrency: the arena's for TBB, the team's for OpenMP. The result
  has the run of every thread; what the program does is some interleaving of them.
\<close>

definition run_threads :: "(int \<Rightarrow> int \<Rightarrow> u64 list list option) \<Rightarrow> int \<Rightarrow> u64 list list list option" where
  "run_threads body nthr = those (map (\<lambda>i. body (int i) nthr) [0..<nat nthr])"

definition parallel_loop ::
  "threading \<Rightarrow> int \<Rightarrow> u64 \<Rightarrow> (int \<Rightarrow> int \<Rightarrow> u64 list list option) \<Rightarrow> u64 list list list option" where
  "parallel_loop mode threads amount body =
     (case mode of
        OV_THREAD_TBB \<Rightarrow>
          (let nthr = threads;
               nthr = (if amount < of_int nthr then sint (ucast amount :: 32 word) else nthr)
           in if nthr = 1 then those [body 0 1] else run_threads body nthr)
      | OV_THREAD_TBB_AUTO \<Rightarrow> run_threads body threads
      | OV_THREAD_OMP \<Rightarrow> run_threads body threads
      | OV_THREAD_SEQ \<Rightarrow> those [body 0 1])"

definition parallel_for :: "threading \<Rightarrow> int \<Rightarrow> nat \<Rightarrow> u64 \<Rightarrow> u64 list list list option" where
  "parallel_for mode threads n_args D0 =
     parallel_loop mode threads D0 (\<lambda>ithr nthr. for_1d n_args ithr nthr D0)"

definition parallel_for2d :: "threading \<Rightarrow> int \<Rightarrow> nat \<Rightarrow> u64 \<Rightarrow> u64 \<Rightarrow> u64 list list list option" where
  "parallel_for2d mode threads n_args D0 D1 =
     parallel_loop mode threads (D0 * D1) (\<lambda>ithr nthr. for_2d n_args ithr nthr D0 D1)"

definition parallel_for3d :: "threading \<Rightarrow> int \<Rightarrow> nat \<Rightarrow> u64 \<Rightarrow> u64 \<Rightarrow> u64 \<Rightarrow> u64 list list list option" where
  "parallel_for3d mode threads n_args D0 D1 D2 =
     parallel_loop mode threads (D0 * D1 * D2) (\<lambda>ithr nthr. for_3d n_args ithr nthr D0 D1 D2)"

definition parallel_for4d ::
  "threading \<Rightarrow> int \<Rightarrow> nat \<Rightarrow> u64 \<Rightarrow> u64 \<Rightarrow> u64 \<Rightarrow> u64 \<Rightarrow> u64 list list list option" where
  "parallel_for4d mode threads n_args D0 D1 D2 D3 =
     parallel_loop mode threads (D0 * D1 * D2 * D3) (\<lambda>ithr nthr. for_4d n_args ithr nthr D0 D1 D2 D3)"

definition parallel_for5d ::
  "threading \<Rightarrow> int \<Rightarrow> nat \<Rightarrow> u64 \<Rightarrow> u64 \<Rightarrow> u64 \<Rightarrow> u64 \<Rightarrow> u64 \<Rightarrow> u64 list list list option" where
  "parallel_for5d mode threads n_args D0 D1 D2 D3 D4 =
     parallel_loop mode threads (D0 * D1 * D2 * D3 * D4) (\<lambda>ithr nthr. for_5d n_args ithr nthr D0 D1 D2 D3 D4)"

definition parallel_for6d ::
  "threading \<Rightarrow> int \<Rightarrow> nat \<Rightarrow> u64 \<Rightarrow> u64 \<Rightarrow> u64 \<Rightarrow> u64 \<Rightarrow> u64 \<Rightarrow> u64 \<Rightarrow> u64 list list list option" where
  "parallel_for6d mode threads n_args D0 D1 D2 D3 D4 D5 =
     parallel_loop mode threads (D0 * D1 * D2 * D3 * D4 * D5)
       (\<lambda>ithr nthr. for_6d n_args ithr nthr D0 D1 D2 D3 D4 D5)"

section \<open>Index arithmetic\<close>

text \<open>The index list of a work number: the digits of a mixed-radix number, the last the fastest.\<close>

fun unrank :: "nat list \<Rightarrow> nat \<Rightarrow> nat list" where
  "unrank [] i = []"
| "unrank (N # Ns) i = (i div prod_list Ns) mod N # unrank Ns i"

definition index_lists :: "nat list \<Rightarrow> nat list list" where
  "index_lists Ns = product_lists (map (\<lambda>N. [0..<N]) Ns)"

lemma unrank_periodic: "unrank Ns (i + k * prod_list Ns) = unrank Ns i"
proof (induction Ns arbitrary: k)
  case Nil
  then show ?case by simp
next
  case (Cons N Ns)
  have e: "k * prod_list (N # Ns) = (k * N) * prod_list Ns" by simp
  show ?case
  proof (cases "prod_list Ns = 0")
    case True
    then show ?thesis using Cons [of 0] by simp
  next
    case False
    then have "(i + (k * N) * prod_list Ns) div prod_list Ns = i div prod_list Ns + k * N"
      by (simp add: add.commute)
    then show ?thesis unfolding e using Cons [of "k * N"] by simp
  qed
qed

lemma upt_blocks: "[0..<N * P] = concat (map (\<lambda>x. map (\<lambda>i. x * P + i) [0..<P]) [0..<N])"
proof (induction N)
  case 0
  then show ?case by simp
next
  case (Suc N)
  have "[0..<Suc N * P] = [0..<N * P] @ [N * P..<N * P + P]"
    by (subst upt_add_eq_append [symmetric]) (simp_all add: add.commute)
  moreover have "[N * P..<N * P + P] = map (\<lambda>i. N * P + i) [0..<P]"
    by (rule nth_equalityI) simp_all
  ultimately show ?case using Suc by simp
qed

lemma index_lists_unrank: "index_lists Ns = map (unrank Ns) [0..<prod_list Ns]"
proof (induction Ns)
  case Nil
  then show ?case by (simp add: index_lists_def)
next
  case (Cons N Ns)
  let ?P = "prod_list Ns"
  have "unrank (N # Ns) (x * ?P + i) = x # unrank Ns i" if "x < N" "i < ?P" for x i
  proof -
    have "(x * ?P + i) div ?P = x" using that by simp
    then show ?thesis using that unrank_periodic [of Ns i x] by (simp add: add.commute)
  qed
  then have "map (unrank (N # Ns)) [0..<N * ?P] = concat (map (\<lambda>x. map (\<lambda>i. x # unrank Ns i) [0..<?P]) [0..<N])"
    unfolding upt_blocks map_concat by (auto simp: comp_def intro!: arg_cong [where f = concat])
  then show ?case using Cons by (simp add: index_lists_def comp_def del: unrank.simps)
qed

lemma length_unrank [simp]: "length (unrank Ns i) = length Ns"
  by (induction Ns) simp_all

lemma distinct_index_lists: "distinct (index_lists Ns)"
  unfolding index_lists_def by (rule distinct_product_lists) auto

lemma it_init_unrank:
  assumes "\<forall>D \<in> set Ds. D \<noteq> 0"
  shows "\<exists>s xs. parallel_it_init start Ds = Some (s, xs)
    \<and> unat s = unat start div prod_list (map unat Ds) \<and> map unat xs = unrank (map unat Ds) (unat start)"
  using assms
proof (induction Ds)
  case Nil
  then show ?case by simp
next
  case (Cons D Ds)
  then obtain s xs where i: "parallel_it_init start Ds = Some (s, xs)"
    "unat s = unat start div prod_list (map unat Ds)" "map unat xs = unrank (map unat Ds) (unat start)" by auto
  have "unat (s div D) = unat start div prod_list (map unat (D # Ds))"
    using i(2) by (simp add: unat_div_u64 div_mult2_eq [symmetric] mult.commute)
  then show ?case using i Cons.prems by (simp add: unat_mod_distrib)
qed

text \<open>Stepping counts: the carry out is set exactly when the counters wrap to zero.\<close>

lemma it_step_unrank:
  assumes "\<forall>D \<in> set Ds. D \<noteq> 0" "map unat xs = unrank (map unat Ds) i"
  shows "map unat (snd (parallel_it_step xs Ds)) = unrank (map unat Ds) (i + 1)
    \<and> (fst (parallel_it_step xs Ds) \<longleftrightarrow> (i + 1) mod prod_list (map unat Ds) = 0)"
  using assms
proof (induction Ds arbitrary: xs)
  case Nil
  then show ?case by simp
next
  case (Cons D Ds)
  let ?P = "prod_list (map unat Ds)"
  obtain x ys where xs: "xs = x # ys" "unat x = (i div ?P) mod unat D" "map unat ys = unrank (map unat Ds) i"
    using Cons.prems(2) by (cases xs) simp_all
  obtain c zs where st: "parallel_it_step ys Ds = (c, zs)" by fastforce
  from Cons.IH [OF _ xs(3)] Cons.prems(1) st have
    zs: "map unat zs = unrank (map unat Ds) (i + 1)" and c: "c \<longleftrightarrow> (i + 1) mod ?P = 0" by simp_all
  have D: "0 < unat D" using Cons.prems(1) by (simp add: unat_gt_0)
  have P: "0 < ?P" using Cons.prems(1) by (induction Ds) (simp_all add: unat_gt_0)
  have xD: "unat x < unat D" using xs(2) D by simp
  have x1: "unat (x + 1) = unat x + 1"
    using xD unat_u64_bound [of D] by (subst unat_add_u64) simp_all
  have eqD: "x + 1 - D = 0 \<longleftrightarrow> unat x + 1 = unat D" using x1 by (metis eq_iff_diff_eq_0 word_unat_eq_iff)
  show ?case
  proof (cases c)
    case False
    then have nz: "(i + 1) mod ?P \<noteq> 0" using c by simp
    then have "(i + 1) div ?P = i div ?P" by (simp add: div_Suc)
    moreover have "(i + 1) mod (unat D * ?P) \<noteq> 0"
      using nz by (metis mod_mod_cancel dvd_triv_right mod_0)
    ultimately show ?thesis using False xs st zs by (simp add: Let_def)
  next
    case True
    then have z: "(i + 1) mod ?P = 0" using c by simp
    then have d: "(i + 1) div ?P = i div ?P + 1" by (simp add: div_Suc)
    have m: "(i + 1) mod (unat D * ?P) = 0 \<longleftrightarrow> (i div ?P + 1) mod unat D = 0"
    proof -
      have "i + 1 = (i div ?P + 1) * ?P" using z d by (metis div_mult_mod_eq add.right_neutral)
      then have "(i + 1) mod (unat D * ?P) = ((i div ?P + 1) mod unat D) * ?P"
        by (metis mult_mod_left)
      then show ?thesis using P by simp
    qed
    have s: "(i div ?P + 1) mod unat D = (if unat x + 1 = unat D then 0 else unat x + 1)"
      using xs(2) D by (simp add: mod_Suc)
    show ?thesis
      using True xs st zs d m s eqD x1 by (simp add: Let_def)
  qed
qed

section \<open>What one thread runs\<close>

definition valid_arity :: "nat \<Rightarrow> nat \<Rightarrow> bool" where
  "valid_arity n_args dims \<longleftrightarrow> n_args = dims \<or> n_args = dims + 1 \<or> n_args = dims + 2"

definition call_of :: "nat \<Rightarrow> int \<Rightarrow> nat list \<Rightarrow> nat \<Rightarrow> u64 list" where
  "call_of n_args ithr Ns i = the (call_with_args n_args ithr (of_nat i) (map of_nat (unrank Ns i)))"

lemma map_of_nat_unat [simp]: "map (\<lambda>x. word_of_nat (unat x)) xs = (xs :: u64 list)"
  by (induction xs) simp_all

lemma call_with_args_valid:
  "valid_arity n_args (length ds) \<Longrightarrow> \<exists>c. call_with_args n_args g i ds = Some c \<and> drop (n_args - length ds) c = ds"
  by (auto simp: valid_arity_def call_with_args_def)

lemma call_of_index:
  "valid_arity n_args (length Ns) \<Longrightarrow> drop (n_args - length Ns) (call_of n_args g Ns i) = map of_nat (unrank Ns i)"
  using call_with_args_valid [of n_args "map of_nat (unrank Ns i)" g "of_nat i"] by (auto simp: call_of_def)

lemma unat_Suc_less: "i < (e :: u64) \<Longrightarrow> unat (i + 1) = unat i + 1"
proof -
  assume "i < e"
  then have "unat i < unat e" by (simp add: word_less_nat_alt)
  then show ?thesis using unat_u64_bound [of e] by (subst unat_add_u64) simp_all
qed

lemma work_loop_calls:
  assumes "\<forall>D \<in> set Ds. D \<noteq> 0" "valid_arity n_args (length Ds)"
  shows "map unat ds = unrank (map unat Ds) (unat i) \<Longrightarrow>
    work_loop n_args ithr Ds e i ds = Some (map (call_of n_args ithr (map unat Ds)) [unat i..<unat e])"
proof (induction "unat e - unat i" arbitrary: i ds)
  case 0
  then show ?case by (subst work_loop.simps) (simp add: word_less_nat_alt)
next
  case (Suc n)
  then have lt: "i < e" by (simp add: word_less_nat_alt)
  then have s: "unat (i + 1) = unat i + 1" by (rule unat_Suc_less)
  have ds: "ds = map of_nat (unrank (map unat Ds) (unat i))"
  proof -
    have "map of_nat (unrank (map unat Ds) (unat i)) = map (\<lambda>x. of_nat (unat x) :: u64) ds"
      unfolding Suc.prems [symmetric] map_map comp_def by (rule refl)
    then show ?thesis unfolding map_of_nat_unat by (rule sym)
  qed
  have len: "length ds = length Ds" using arg_cong [OF Suc.prems, of length] by simp
  obtain c where c: "call_with_args n_args ithr i ds = Some c"
    using call_with_args_valid [of n_args ds] assms(2) len by metis
  then have "call_of n_args ithr (map unat Ds) (unat i) = c" by (simp add: call_of_def ds [symmetric])
  moreover have "work_loop n_args ithr Ds e (i + 1) (snd (parallel_it_step ds Ds))
      = Some (map (call_of n_args ithr (map unat Ds)) [unat i + 1..<unat e])"
    using Suc.hyps(1) [of "i + 1" "snd (parallel_it_step ds Ds)"] Suc.hyps(2) s
      it_step_unrank [OF assms(1) Suc.prems] by simp
  moreover have "[unat i..<unat e] = unat i # [unat i + 1..<unat e]"
    using lt by (simp add: upt_conv_Cons word_less_nat_alt)
  ultimately show ?case using lt c by (subst work_loop.simps) simp
qed

text \<open>Where the chunk of thread \<open>t\<close> starts, over natural numbers.\<close>

definition chunk_start :: "nat \<Rightarrow> nat \<Rightarrow> nat \<Rightarrow> nat" where
  "chunk_start N M t =
     (if M \<le> 1 \<or> N = 0 then (if t = 0 then 0 else N)
      else let q = (N + M - 1) div M; r = N - (q - 1) * M
           in if t \<le> r then t * q else r * q + (t - r) * (q - 1))"

lemma ceil_div:
  fixes N M :: nat
  assumes "0 < N" "0 < M"
  defines "q \<equiv> (N + M - 1) div M" and "r \<equiv> N - ((N + M - 1) div M - 1) * M"
  shows "1 \<le> q" "1 \<le> r" "r \<le> M" "(q - 1) * M + r = N" "r * q + (M - r) * (q - 1) = N"
proof -
  have "N + M - 1 = q * M + (N + M - 1) mod M" by (simp add: q_def)
  moreover have "(N + M - 1) mod M < M" using assms(2) by simp
  ultimately have b: "q * M \<le> N + M - 1" "N + M - 1 < q * M + M" by linarith+
  show q1: "1 \<le> q"
  proof (rule ccontr)
    assume "\<not> 1 \<le> q"
    then have "q = 0" by simp
    then show False using b(2) assms(1) by simp
  qed
  then have e: "(q - 1) * M + M = q * M" by (cases q) simp_all
  have r: "r = N - (q - 1) * M" by (simp add: r_def q_def)
  then show "1 \<le> r" "r \<le> M" "(q - 1) * M + r = N" using b e assms by linarith+
  then have "r * q + (M - r) * (q - 1) = (q - 1) * M + r"
  proof -
    obtain p where p: "q = Suc p" using q1 by (cases q) simp_all
    obtain d where d: "M = r + d" using \<open>r \<le> M\<close> le_Suc_ex by blast
    show ?thesis unfolding p d by (simp add: algebra_simps)
  qed
  with \<open>(q - 1) * M + r = N\<close> show "r * q + (M - r) * (q - 1) = N" by simp
qed

lemma chunk_start_many:
  assumes "1 < M" "N \<noteq> 0"
  shows "\<exists>q r. 1 \<le> q \<and> r \<le> M \<and> r * q + (M - r) * (q - 1) = N
    \<and> (\<forall>t. chunk_start N M t = (if t \<le> r then t * q else r * q + (t - r) * (q - 1)))"
proof -
  define q where "q = (N + M - 1) div M"
  define r where "r = N - (q - 1) * M"
  have pos: "0 < N" "0 < M" using assms by simp_all
  note cd = ceil_div [OF pos, folded q_def, folded r_def]
  have "\<not> (M \<le> 1 \<or> N = 0)" using assms by simp
  then have "chunk_start N M t = (if t \<le> r then t * q else r * q + (t - r) * (q - 1))" for t
    by (simp only: chunk_start_def Let_def q_def [symmetric] r_def [symmetric] if_False)
  with cd(1,3,5) show ?thesis by blast
qed

lemma chunk_ends:
  assumes "0 < M"
  shows "chunk_start N M 0 = 0" and "chunk_start N M M = N"
proof -
  have "chunk_start N M 0 = 0 \<and> chunk_start N M M = N"
  proof (cases "M \<le> 1 \<or> N = 0")
    case True
    then show ?thesis using assms by (auto simp: chunk_start_def)
  next
    case False
    then have m: "1 < M" "N \<noteq> 0" by simp_all
    obtain q r where "r \<le> M" "r * q + (M - r) * (q - 1) = N"
      and c: "\<And>t. chunk_start N M t = (if t \<le> r then t * q else r * q + (t - r) * (q - 1))"
      using chunk_start_many [OF m] by blast
    then have z: "chunk_start N M 0 = 0" by simp
    have "chunk_start N M M = N"
    proof (cases "M \<le> r")
      case True
      with \<open>r \<le> M\<close> have "r = M" by simp
      then show ?thesis using c \<open>r * q + (M - r) * (q - 1) = N\<close> by simp
    next
      case False
      then show ?thesis using c \<open>r * q + (M - r) * (q - 1) = N\<close> by (simp only: if_False)
    qed
    with z show ?thesis by blast
  qed
  then show "chunk_start N M 0 = 0" "chunk_start N M M = N" by simp_all
qed

lemma chunk_mono:
  assumes "t < M"
  shows "chunk_start N M t \<le> chunk_start N M (t + 1)" and "chunk_start N M (t + 1) \<le> N"
proof -
  have "chunk_start N M t \<le> chunk_start N M (t + 1) \<and> chunk_start N M (t + 1) \<le> N"
  proof (cases "M \<le> 1 \<or> N = 0")
    case True
    then show ?thesis by (auto simp: chunk_start_def)
  next
    case False
    then have m: "1 < M" "N \<noteq> 0" by simp_all
    obtain q r where e: "r \<le> M" "r * q + (M - r) * (q - 1) = N"
      and c: "\<And>t. chunk_start N M t = (if t \<le> r then t * q else r * q + (t - r) * (q - 1))"
      using chunk_start_many [OF m] by blast
    have mono: "chunk_start N M t \<le> chunk_start N M (t + 1)"
    proof -
      consider "t < r" | "t = r" | "r < t" by linarith
      then show ?thesis
      proof cases
        case 3
        then have "t + 1 - r = Suc (t - r)" by simp
        then show ?thesis using 3 by (simp add: c)
      qed (simp_all add: c)
    qed
    have "chunk_start N M (t + 1) \<le> N"
    proof (cases "t + 1 \<le> r")
      case True
      then have "(t + 1) * q \<le> r * q" by (rule mult_le_mono1)
      then show ?thesis using True e(2) unfolding c by simp
    next
      case r: False
      have "(t + 1 - r) * (q - 1) \<le> (M - r) * (q - 1)" using assms by (intro mult_le_mono1) simp
      then show ?thesis using r e(2) unfolding c if_not_P [OF r] by linarith
    qed
    with mono show ?thesis by blast
  qed
  then show "chunk_start N M t \<le> chunk_start N M (t + 1)" "chunk_start N M (t + 1) \<le> N" by simp_all
qed

lemma unat_mult_le: "unat x * unat y \<le> unat (b :: u64) \<Longrightarrow> unat (x * y :: u64) = unat x * unat y"
  using unat_u64_bound [of b] by (intro unat_mult_u64) simp

lemma splitter_chunk:
  assumes m: "0 < m" "m < 2147483648" and t: "t < m" and n: "unat n + m < 18446744073709551616"
  shows "unat (fst (splitter n (int m) (int t))) = chunk_start (unat n) m t
    \<and> unat (snd (splitter n (int m) (int t))) = chunk_start (unat n) m (t + 1)"
proof (cases "m \<le> 1 \<or> n = 0")
  case True
  then show ?thesis using t by (auto simp: splitter_def chunk_start_def)
next
  case False
  define N where "N = unat n"
  define q where "q = (N + m - 1) div m"
  define r where "r = N - (q - 1) * m"
  have pos: "0 < N" "0 < m" using False m by (simp_all add: N_def unat_gt_0)
  note cd = ceil_div [OF pos, folded q_def, folded r_def]
  define team where "team = (of_nat m :: u64)"
  define tid where "tid = (of_nat t :: u64)"
  have tm: "unat team = m" "unat tid = t" using m t by (simp_all add: team_def tid_def unat_of_nat_u64)
  define n1 where "n1 = (n + team - 1) div team"
  define n2 where "n2 = n1 - 1"
  define T1 where "T1 = n - n2 * team"
  have "unat (n + team) = N + m" using n tm by (simp add: unat_add_u64 N_def)
  moreover have "1 \<le> n + team"
    using calculation pos by (simp add: word_le_nat_alt)
  ultimately have "unat (n + team - 1) = N + m - 1" by (simp add: unat_diff_u64)
  then have n1: "unat n1 = q" by (simp add: n1_def unat_div_u64 tm q_def)
  then have n2: "unat n2 = q - 1" using cd(1) by (simp add: n2_def unat_diff_u64 word_le_nat_alt)
  have "unat (n2 * team) = (q - 1) * m"
    using cd(4) n2 tm by (subst unat_mult_le [of _ _ n]) (simp_all add: N_def)
  moreover have "n2 * team \<le> n" using calculation cd(4) by (simp add: word_le_nat_alt N_def)
  ultimately have T1: "unat T1 = r" by (simp add: T1_def unat_diff_u64 r_def N_def)
  have rq: "r * q \<le> N" using cd(5) by linarith
  define s where "s = (if tid \<le> T1 then tid * n1 else T1 * n1 + (tid - T1) * n2)"
  have chunk: "chunk_start N m u = (if u \<le> r then u * q else r * q + (u - r) * (q - 1))" for u
    using False pos by (simp only: chunk_start_def Let_def q_def [symmetric] r_def [symmetric] if_False)
      simp
  have us: "unat s = chunk_start N m t"
  proof (cases "t \<le> r")
    case True
    then have "t * q \<le> unat n" using rq by (metis N_def le_trans mult_le_mono1)
    then have "unat (tid * n1) = t * q" using tm n1 by (subst unat_mult_le [of _ _ n]) simp_all
    moreover have "tid \<le> T1" using True tm T1 by (simp add: word_le_nat_alt)
    ultimately show ?thesis using True by (simp add: s_def chunk)
  next
    case False
    then have le: "T1 \<le> tid" "\<not> tid \<le> T1" using tm T1 by (simp_all add: word_le_nat_alt)
    have d: "unat (tid - T1) = t - r" using le tm T1 by (simp add: unat_diff_u64)
    have b: "r * q + (t - r) * (q - 1) \<le> N"
      using le_trans [OF chunk_mono [OF t, of N]] unfolding chunk [of t] if_not_P [OF False] .
    have u1: "unat (T1 * n1) = r * q" using rq T1 n1 by (subst unat_mult_le [of _ _ n]) (simp_all add: N_def)
    have u2: "unat ((tid - T1) * n2) = (t - r) * (q - 1)"
      using b d n2 by (subst unat_mult_le [of _ _ n]) (simp_all add: N_def)
    have "unat (T1 * n1 + (tid - T1) * n2) = r * q + (t - r) * (q - 1)"
      using b u1 u2 n by (subst unat_add_u64) (simp_all add: N_def)
    then show ?thesis using False le by (simp add: s_def chunk)
  qed
  define len where "len = (if tid < T1 then n1 else n2)"
  have ul: "unat len = (if t < r then q else q - 1)"
    using tm T1 n1 n2 by (simp add: len_def word_less_nat_alt)
  have nxt: "chunk_start N m t + (if t < r then q else q - 1) = chunk_start N m (t + 1)"
  proof -
    consider "t < r" | "t = r" | "r < t" by linarith
    then show ?thesis
    proof cases
      case 3
      then have "t + 1 - r = Suc (t - r)" by simp
      then show ?thesis using 3 by (simp add: chunk)
    qed (simp_all add: chunk)
  qed
  have "chunk_start N m (t + 1) \<le> N" by (rule chunk_mono(2) [OF t])
  then have e: "unat (len + s) = chunk_start N m (t + 1)"
    using us ul nxt n by (subst unat_add_u64) (simp_all add: N_def)
  have "splitter n (int m) (int t) = (s, len + s)"
    using False by (simp add: splitter_def Let_def s_def len_def n1_def n2_def T1_def team_def tid_def)
  then show ?thesis using us e by (simp add: N_def)
qed

lemma work_amount_prod: "Ds \<noteq> [] \<Longrightarrow> work_amount Ds = of_nat (prod_list (map unat Ds))"
proof -
  have f: "foldl (*) a Ds = a * of_nat (prod_list (map unat Ds))" for a :: u64 and Ds
    by (induction Ds arbitrary: a) (simp_all add: mult.assoc)
  assume "Ds \<noteq> []"
  then show ?thesis by (cases Ds) (simp_all add: work_amount_def f)
qed

lemma nonzero_dims: "prod_list (map unat Ds) \<noteq> 0 \<Longrightarrow> \<forall>D \<in> set Ds. D \<noteq> (0 :: u64)"
  by (induction Ds) auto

text \<open>Thread \<open>t\<close> of \<open>m\<close> runs its chunk of the work numbers, in order.\<close>

lemma for_nd_calls:
  assumes m: "0 < m" "m < 2147483648" and t: "t < m" and Ds: "Ds \<noteq> []" "valid_arity n_args (length Ds)"
    and n: "prod_list (map unat Ds) + m < 18446744073709551616"
  shows "for_nd n_args (int t) (int m) Ds = Some (map (call_of n_args (int t) (map unat Ds))
      [chunk_start (prod_list (map unat Ds)) m t..<chunk_start (prod_list (map unat Ds)) m (t + 1)])"
proof -
  let ?N = "prod_list (map unat Ds)"
  have w: "unat (work_amount Ds) = ?N"
    using n by (simp add: work_amount_prod [OF Ds(1)] unat_of_nat_u64)
  show ?thesis
  proof (cases "work_amount Ds = 0")
    case True
    then have "?N = 0" using w by simp
    then show ?thesis using True by (simp add: for_nd_def chunk_start_def)
  next
    case False
    then have "?N \<noteq> 0" unfolding w [symmetric] by (simp add: unat_eq_zero)
    then have nz: "\<forall>D \<in> set Ds. D \<noteq> 0" by (rule nonzero_dims)
    obtain s e where se: "splitter (work_amount Ds) (int m) (int t) = (s, e)" by fastforce
    have c: "unat s = chunk_start ?N m t" "unat e = chunk_start ?N m (t + 1)"
      using splitter_chunk [OF m t, of "work_amount Ds"] n w se by simp_all
    obtain x ds where i: "parallel_it_init s Ds = Some (x, ds)" "map unat ds = unrank (map unat Ds) (unat s)"
      using it_init_unrank [OF nz, of s] by blast
    show ?thesis using False se i(1) work_loop_calls [OF nz Ds(2) i(2), of "int t" e] c by (simp add: for_nd_def)
  qed
qed

lemma loop_1d_calls:
  assumes "valid_arity n_args 1"
  shows "unat e \<le> unat D \<Longrightarrow>
    loop_1d n_args ithr e i = Some (map (call_of n_args ithr [unat D]) [unat i..<unat e])"
proof (induction "unat e - unat i" arbitrary: i)
  case 0
  then show ?case by (subst loop_1d.simps) (simp add: word_less_nat_alt)
next
  case (Suc n)
  then have lt: "i < e" by (simp add: word_less_nat_alt)
  then have s: "unat (i + 1) = unat i + 1" by (rule unat_Suc_less)
  obtain c where c: "call_with_args n_args ithr i [i] = Some c"
    using call_with_args_valid [of n_args "[i]"] assms by auto
  have "unat i < unat D" using lt Suc.prems by (simp add: word_less_nat_alt)
  then have "call_of n_args ithr [unat D] (unat i) = c" using c by (simp add: call_of_def)
  moreover have "loop_1d n_args ithr e (i + 1) = Some (map (call_of n_args ithr [unat D]) [unat i + 1..<unat e])"
    using Suc.hyps(1) [of "i + 1"] Suc.hyps(2) Suc.prems s by simp
  moreover have "[unat i..<unat e] = unat i # [unat i + 1..<unat e]"
    using lt by (simp add: upt_conv_Cons word_less_nat_alt)
  ultimately show ?case using lt c by (subst loop_1d.simps) simp
qed

lemma for_1d_calls:
  assumes m: "0 < m" "m < 2147483648" and t: "t < m" and a: "valid_arity n_args 1"
    and n: "unat D + m < 18446744073709551616"
  shows "for_1d n_args (int t) (int m) D = Some (map (call_of n_args (int t) [unat D])
      [chunk_start (unat D) m t..<chunk_start (unat D) m (t + 1)])"
proof -
  obtain s e where se: "splitter D (int m) (int t) = (s, e)" by fastforce
  have c: "unat s = chunk_start (unat D) m t" "unat e = chunk_start (unat D) m (t + 1)"
    using splitter_chunk [OF m t n] se by simp_all
  moreover have "unat e \<le> unat D" using chunk_mono(2) [OF t, of "unat D"] c(2) by simp
  ultimately show ?thesis using se loop_1d_calls [OF a, of e D "int t" s] by (simp add: for_1d_def)
qed

section \<open>What a parallel loop runs\<close>

text \<open>The executions of several threads: their runs, interleaved in any way.\<close>

inductive interleaves :: "'a list list \<Rightarrow> 'a list \<Rightarrow> bool" where
  idle: "\<forall>ts \<in> set tss. ts = [] \<Longrightarrow> interleaves tss []"
| advance: "i < length tss \<Longrightarrow> tss ! i = x # ts \<Longrightarrow> interleaves (tss[i := ts]) run \<Longrightarrow> interleaves tss (x # run)"

lemma interleaves_mset: "interleaves tss run \<Longrightarrow> mset run = mset (concat tss)"
proof (induction rule: interleaves.induct)
  case (idle tss)
  then show ?case by (induction tss) auto
next
  case (advance i tss x ts run)
  have "mset (concat tss) = mset (concat (take i tss)) + mset (x # ts) + mset (concat (drop (Suc i) tss))"
    using advance(1,2) by (metis append.assoc concat.simps(2) concat_append id_take_nth_drop mset_append)
  moreover have "mset (concat (tss[i := ts]))
      = mset (concat (take i tss)) + mset ts + mset (concat (drop (Suc i) tss))"
    using advance(1) by (simp add: upd_conv_take_nth_drop)
  ultimately show ?case using advance.IH by simp
qed

lemma chunks_concat:
  "k \<le> m \<Longrightarrow> concat (map (\<lambda>t. [chunk_start N m t..<chunk_start N m (t + 1)]) [0..<k]) = [chunk_start N m 0..<chunk_start N m k]"
proof (induction k)
  case 0
  then show ?case by simp
next
  case (Suc k)
  have "chunk_start N m 0 \<le> chunk_start N m k"
  proof -
    have "j \<le> m \<Longrightarrow> chunk_start N m 0 \<le> chunk_start N m j" for j
      by (induction j) (use chunk_mono(1) [of _ m N] in \<open>auto intro: le_trans\<close>)
    then show ?thesis using Suc.prems by simp
  qed
  moreover have "chunk_start N m k \<le> chunk_start N m (k + 1)" using chunk_mono(1) [of k m N] Suc.prems by simp
  ultimately have "[chunk_start N m 0..<chunk_start N m k] @ [chunk_start N m k..<chunk_start N m (k + 1)]
      = [chunk_start N m 0..<chunk_start N m (k + 1)]"
    by (metis le_Suc_ex upt_add_eq_append)
  then show ?case using Suc by simp
qed

text \<open>A thread's body is good when thread \<open>t\<close> of \<open>m\<close> runs the calls of its chunk of \<open>N\<close> work numbers.\<close>

definition good_body :: "nat \<Rightarrow> nat \<Rightarrow> nat list \<Rightarrow> nat \<Rightarrow> (int \<Rightarrow> int \<Rightarrow> u64 list list option) \<Rightarrow> bool" where
  "good_body n_args T Ns N body \<longleftrightarrow> (\<forall>m t. 0 < m \<longrightarrow> m \<le> T \<longrightarrow> t < m \<longrightarrow>
     body (int t) (int m) = Some (map (call_of n_args (int t) Ns) [chunk_start N m t..<chunk_start N m (t + 1)]))"

lemma those_Some: "those (map (\<lambda>x. Some (f x)) xs) = Some (map f xs)"
  by (induction xs) simp_all

lemma run_threads_indices:
  assumes good: "good_body n_args T Ns N body" and m: "m \<le> T" "m = 0 \<longrightarrow> N = 0" and a: "valid_arity n_args (length Ns)"
  shows "\<exists>tss. run_threads body (int m) = Some tss
    \<and> map (drop (n_args - length Ns)) (concat tss) = map (\<lambda>i. map of_nat (unrank Ns i)) [0..<N]"
proof -
  let ?run = "\<lambda>t. map (call_of n_args (int t) Ns) [chunk_start N m t..<chunk_start N m (t + 1)]"
  have "map (\<lambda>t. body (int t) (int m)) [0..<m] = map (\<lambda>t. Some (?run t)) [0..<m]"
    using good m by (simp add: good_body_def)
  from this have "run_threads body (int m) = Some (map ?run [0..<m])" by (simp only: run_threads_def nat_int those_Some)
  moreover have "map (drop (n_args - length Ns)) (concat (map ?run [0..<m]))
      = map (\<lambda>i. map of_nat (unrank Ns i)) [0..<N]"
  proof -
    have "map (drop (n_args - length Ns)) (concat (map ?run [0..<m]))
      = concat (map (\<lambda>t. map (\<lambda>i. map of_nat (unrank Ns i)) [chunk_start N m t..<chunk_start N m (t + 1)]) [0..<m])"
      using a by (simp add: map_concat comp_def call_of_index)
    also have "\<dots> = map (\<lambda>i. map of_nat (unrank Ns i)) (concat (map (\<lambda>t. [chunk_start N m t..<chunk_start N m (t + 1)]) [0..<m]))"
      by (simp add: map_concat comp_def)
    also have "\<dots> = map (\<lambda>i. map of_nat (unrank Ns i)) [0..<N]"
      using chunks_concat [of m m N] m(2) chunk_ends [of m N] by (cases "m = 0") (simp_all add: chunk_start_def)
    finally show ?thesis .
  qed
  ultimately show ?thesis by blast
qed

lemma sint_ucast_small:
  assumes "unat (a :: u64) = n" "n < 2147483648"
  shows "sint (ucast a :: 32 word) = int n"
proof -
  have a: "uint a = int n" unfolding assms(1) [symmetric] by simp
  have "take_bit 32 (int n) = int n" using assms(2) by (intro take_bit_int_eq_self) simp_all
  then have "uint (ucast a :: 32 word) = int n" by (simp add: unsigned_ucast_eq a)
  then show ?thesis using assms(2) by (simp add: sint_uint signed_take_bit_int_eq_self)
qed

lemma parallel_loop_indices:
  assumes good: "good_body n_args T Ns N body" and T: "0 < T" "T < 2147483648"
    and a: "valid_arity n_args (length Ns)" and N: "unat amount = N"
  shows "\<exists>tss. parallel_loop mode (int T) amount body = Some tss
    \<and> map (drop (n_args - length Ns)) (concat tss) = map (\<lambda>i. map of_nat (unrank Ns i)) [0..<N]"
proof -
  have one: "those [body 0 1] = run_threads body 1" by (simp add: run_threads_def)
  have all: "\<exists>tss. run_threads body (int m) = Some tss
    \<and> map (drop (n_args - length Ns)) (concat tss) = map (\<lambda>i. map of_nat (unrank Ns i)) [0..<N]"
    if "m \<le> T" "m = 0 \<longrightarrow> N = 0" for m
    by (rule run_threads_indices [OF good that a])
  have uT: "unat (of_nat T :: u64) = T" using T by (simp add: unat_of_nat_u64)
  define m where "m = (if N < T then N else T)"
  have "(if amount < of_int (int T) then sint (ucast amount :: 32 word) else int T) = int m"
  proof (cases "N < T")
    case True
    then have "N < 2147483648" using T by simp
    then have "sint (ucast amount :: 32 word) = int N" using N by (intro sint_ucast_small)
    then show ?thesis using True uT N by (simp add: m_def word_less_nat_alt)
  next
    case False
    then show ?thesis using uT N by (simp add: m_def word_less_nat_alt)
  qed
  then have tbb: "parallel_loop OV_THREAD_TBB (int T) amount body = run_threads body (int m)"
    using one by (simp add: parallel_loop_def Let_def)
  have m: "m \<le> T" "m = 0 \<longrightarrow> N = 0" using T by (auto simp: m_def)
  show ?thesis
  proof (cases mode)
    case OV_THREAD_TBB
    then show ?thesis using all [OF m] tbb by simp
  next
    case OV_THREAD_SEQ
    then show ?thesis using all [of 1] T one by (simp add: parallel_loop_def)
  qed (use all [of T] T in \<open>simp_all add: parallel_loop_def\<close>)
qed

lemma good_for_nd:
  assumes "Ds \<noteq> []" "valid_arity n_args (length Ds)" "T < 2147483648"
    "prod_list (map unat Ds) + T < 18446744073709551616"
  shows "good_body n_args T (map unat Ds) (prod_list (map unat Ds)) (\<lambda>ithr nthr. for_nd n_args ithr nthr Ds)"
  unfolding good_body_def by (intro allI impI for_nd_calls) (use assms in simp_all)

lemma good_for_1d:
  assumes "valid_arity n_args 1" "T < 2147483648" "unat D + T < 18446744073709551616"
  shows "good_body n_args T [unat D] (unat D) (\<lambda>ithr nthr. for_1d n_args ithr nthr D)"
  unfolding good_body_def by (intro allI impI for_1d_calls) (use assms in simp_all)

text \<open>The family, by the number of bounds.\<close>

definition parallel_for_nd :: "threading \<Rightarrow> int \<Rightarrow> nat \<Rightarrow> u64 list \<Rightarrow> u64 list list list option" where
  "parallel_for_nd mode threads n_args Ds =
     (case Ds of
        [D0] \<Rightarrow> parallel_for mode threads n_args D0
      | [D0, D1] \<Rightarrow> parallel_for2d mode threads n_args D0 D1
      | [D0, D1, D2] \<Rightarrow> parallel_for3d mode threads n_args D0 D1 D2
      | [D0, D1, D2, D3] \<Rightarrow> parallel_for4d mode threads n_args D0 D1 D2 D3
      | [D0, D1, D2, D3, D4] \<Rightarrow> parallel_for5d mode threads n_args D0 D1 D2 D3 D4
      | [D0, D1, D2, D3, D4, D5] \<Rightarrow> parallel_for6d mode threads n_args D0 D1 D2 D3 D4 D5
      | _ \<Rightarrow> None)"

lemmas parallel_for_defs =
  parallel_for_def parallel_for2d_def parallel_for3d_def parallel_for4d_def parallel_for5d_def parallel_for6d_def
  for_2d_def for_3d_def for_4d_def for_5d_def for_6d_def

lemma parallel_for_nd_loop:
  assumes "2 \<le> length Ds" "length Ds \<le> 6"
  shows "parallel_for_nd mode threads n_args Ds
    = parallel_loop mode threads (work_amount Ds) (\<lambda>ithr nthr. for_nd n_args ithr nthr Ds)"
  using assms
  by (auto simp: parallel_for_nd_def parallel_for_defs work_amount_def Suc_le_eq numeral_eq_Suc split: list.split)

lemma parallel_for_nd_indices:
  assumes "0 < T" "T < 2147483648" "1 \<le> length Ds" "length Ds \<le> 6" "valid_arity n_args (length Ds)"
    and N: "prod_list (map unat Ds) + T < 18446744073709551616"
  shows "\<exists>tss. parallel_for_nd mode (int T) n_args Ds = Some tss
    \<and> map (drop (n_args - length Ds)) (concat tss) = map (map of_nat) (index_lists (map unat Ds))"
proof (cases "length Ds = 1")
  case True
  then obtain D where D: "Ds = [D]" by (cases Ds) auto
  have a: "valid_arity n_args 1" using assms(5) D by simp
  have good: "good_body n_args T [unat D] (unat D) (\<lambda>ithr nthr. for_1d n_args ithr nthr D)"
    using assms(2) a N D by (intro good_for_1d) simp_all
  show ?thesis
    using parallel_loop_indices [OF good assms(1,2) _ refl, of mode] a
    by (simp add: D parallel_for_nd_def parallel_for_def index_lists_unrank comp_def)
next
  case False
  have len: "2 \<le> length Ds" using False assms(3) by simp
  have ne: "Ds \<noteq> []" using assms(3) by auto
  have w: "unat (work_amount Ds) = prod_list (map unat Ds)"
    using N by (simp add: work_amount_prod [OF ne] unat_of_nat_u64)
  have a: "valid_arity n_args (length (map unat Ds))" using assms(5) by simp
  show ?thesis
    using parallel_loop_indices [OF good_for_nd [OF ne assms(5,2) N] assms(1,2) a w, of mode]
    by (simp add: parallel_for_nd_loop [OF len assms(4)] index_lists_unrank comp_def)
qed

lemma index_lists_words:
  "distinct (map (map of_nat) (index_lists (map unat Ds)) :: u64 list list)"
  "set (map (map of_nat) (index_lists (map unat Ds))) = {is :: u64 list. list_all2 (<) is Ds}"
proof -
  have mem: "is \<in> set (index_lists (map unat Ds)) \<longleftrightarrow> list_all2 (\<lambda>i D. i < unat D) is Ds" for "is"
    by (simp add: index_lists_def product_lists_set list_all2_map2)
  have inv: "map unat (map of_nat is :: u64 list) = is" if "list_all2 (\<lambda>i D. i < unat D) is Ds" for "is"
    using that
  proof (induction rule: list_all2_induct)
    case Nil
    then show ?case by simp
  next
    case (Cons i "is" D Ds)
    then show ?case using unat_u64_bound [of D] by (simp add: unat_of_nat_u64)
  qed
  have "inj_on (map of_nat :: nat list \<Rightarrow> u64 list) (set (index_lists (map unat Ds)))"
    by (rule inj_on_inverseI [of _ "map unat"]) (use inv mem in blast)
  then show "distinct (map (map of_nat) (index_lists (map unat Ds)) :: u64 list list)"
    using distinct_index_lists by (simp add: distinct_map)
  show "set (map (map of_nat) (index_lists (map unat Ds))) = {is :: u64 list. list_all2 (<) is Ds}"
  proof (intro set_eqI iffI)
    fix xs :: "u64 list"
    assume "xs \<in> set (map (map of_nat) (index_lists (map unat Ds)))"
    then obtain "is" where i: "list_all2 (\<lambda>i D. i < unat D) is Ds" "xs = map of_nat is" using mem by auto
    have "map unat xs = is" unfolding i(2) by (rule inv [OF i(1)])
    with i(1) have "list_all2 (\<lambda>i D. i < unat D) (map unat xs) Ds" by (simp only:)
    then have "list_all2 (\<lambda>x D. unat x < unat D) xs Ds" by (simp only: list_all2_map1)
    then show "xs \<in> {is. list_all2 (<) is Ds}" by (simp add: list_all2_conv_all_nth word_less_nat_alt)
  next
    fix xs :: "u64 list"
    assume "xs \<in> {is. list_all2 (<) is Ds}"
    then have "list_all2 (\<lambda>i D. i < unat D) (map unat xs) Ds"
      by (simp add: list_all2_conv_all_nth word_less_nat_alt)
    moreover have "xs = map of_nat (map unat xs)" by (simp add: comp_def)
    ultimately show "xs \<in> set (map (map of_nat) (index_lists (map unat Ds)))"
      using mem by (metis image_eqI set_map)
  qed
qed

text \<open>
  C2: on every back end, with any number of threads and in every interleaving of their runs, a
  \<open>parallel_for\<close> over one to six bounds calls its body with each list of indices inside the
  bounds exactly once and with no other; taken thread by thread the calls are in row-major
  order. The number of work items and threads together have to fit \<open>size_t\<close>.
\<close>

theorem parallel_for_visits_each_index_once:
  assumes "0 < T" "T < 2147483648" "1 \<le> length Ds" "length Ds \<le> 6" "valid_arity n_args (length Ds)"
    and "prod_list (map unat Ds) + T < 18446744073709551616"
  shows "\<exists>tss. parallel_for_nd mode (int T) n_args Ds = Some tss
    \<and> map (drop (n_args - length Ds)) (concat tss) = map (map of_nat) (index_lists (map unat Ds))
    \<and> (\<forall>run is. interleaves tss run \<longrightarrow>
         count (mset (map (drop (n_args - length Ds)) run)) is = (if list_all2 (<) is Ds then 1 else 0))"
proof -
  obtain tss where r: "parallel_for_nd mode (int T) n_args Ds = Some tss"
    and ord: "map (drop (n_args - length Ds)) (concat tss) = map (map of_nat) (index_lists (map unat Ds))"
    using parallel_for_nd_indices [OF assms, of mode] by blast
  have "count (mset (map (drop (n_args - length Ds)) run)) is = (if list_all2 (<) is Ds then 1 else 0)"
    if "interleaves tss run" for run "is"
  proof -
    have "mset (map (drop (n_args - length Ds)) run) = mset (map (drop (n_args - length Ds)) (concat tss))"
      using interleaves_mset [OF that] by simp
    also have "\<dots> = mset (map (map of_nat) (index_lists (map unat Ds)))" by (simp only: ord)
    finally show ?thesis
      using index_lists_words [of Ds] by (simp only: distinct_count_atmost_1 mem_Collect_eq)
  qed
  with r ord show ?thesis by blast
qed

theorem parallel_for_visits_each_index_once_witness:
  "\<exists>tss. parallel_for_nd OV_THREAD_TBB (int 4) 3 [2, 3] = Some tss
    \<and> map (drop 1) (concat tss) = [[0, 0], [0, 1], [0, 2], [1, 0], [1, 1], [1, 2]]"
proof -
  have p: "prod_list (map unat [2, 3 :: u64]) + 4 < 18446744073709551616" by simp
  have a: "valid_arity 3 (length [2, 3 :: u64])" by (simp add: valid_arity_def)
  have "map (map of_nat) (index_lists (map unat [2, 3 :: u64]))
      = [[0, 0], [0, 1], [0, 2], [1, 0], [1, 1], [1, 2 :: u64]]"
    by (simp add: index_lists_def upt_rec)
  with parallel_for_visits_each_index_once [OF _ _ _ _ a p, of OV_THREAD_TBB] show ?thesis by auto
qed

section \<open>Whole teams\<close>

text \<open>
  \<open>parallel_nt\<close> and \<open>parallel_nt_static\<close> call their body with the thread's number and the number of
  threads. For OpenMP \<open>team\<close> is the team the run time provides, of whatever size was asked for;
  its dynamic adjustment is switched off for the call and restored.
\<close>

record omp_state =
  omp_dynamic :: int

definition omp_set_dynamic :: "int \<Rightarrow> omp_state \<Rightarrow> omp_state" where
  "omp_set_dynamic v s = s\<lparr>omp_dynamic := if v \<noteq> 0 then 1 else 0\<rparr>"

definition team_calls :: "int \<Rightarrow> (int \<times> int) list list" where
  "team_calls nthr = map (\<lambda>i. [(int i, nthr)]) [0..<nat nthr]"

definition omp_team :: "(int \<Rightarrow> omp_state \<Rightarrow> int) \<Rightarrow> int \<Rightarrow> omp_state \<Rightarrow> (int \<times> int) list list \<times> omp_state" where
  "omp_team team nthr s =
     (let origin_dyn_val = omp_dynamic s;
          s1 = (if origin_dyn_val \<noteq> 0 then omp_set_dynamic 0 s else s);
          calls = team_calls (team nthr s1);
          s2 = (if origin_dyn_val \<noteq> 0 then omp_set_dynamic origin_dyn_val s1 else s1)
      in (calls, s2))"

definition parallel_nt ::
  "threading \<Rightarrow> int \<Rightarrow> (int \<Rightarrow> omp_state \<Rightarrow> int) \<Rightarrow> int \<Rightarrow> omp_state \<Rightarrow> (int \<times> int) list list \<times> omp_state" where
  "parallel_nt mode max_threads team nthr s =
     (case mode of
        OV_THREAD_TBB \<Rightarrow>
          (let nthr = (if nthr = 0 then max_threads else nthr)
           in if nthr = 1 then ([[(0, 1)]], s) else (team_calls nthr, s))
      | OV_THREAD_TBB_AUTO \<Rightarrow>
          (let nthr = (if nthr = 0 then max_threads else nthr)
           in if nthr = 1 then ([[(0, 1)]], s) else (team_calls nthr, s))
      | OV_THREAD_OMP \<Rightarrow> if nthr = 1 then ([[(0, 1)]], s) else omp_team team nthr s
      | OV_THREAD_SEQ \<Rightarrow> ([[(0, 1)]], s))"

definition parallel_nt_static ::
  "threading \<Rightarrow> int \<Rightarrow> (int \<Rightarrow> omp_state \<Rightarrow> int) \<Rightarrow> int \<Rightarrow> omp_state \<Rightarrow> (int \<times> int) list list \<times> omp_state" where
  "parallel_nt_static mode max_threads team nthr s =
     (let serial = (mode = OV_THREAD_SEQ)
      in if serial \<or> nthr = 1 then ([[(0, 1)]], s)
         else
           let nthr = (if nthr = 0 then max_threads else nthr)
           in case mode of
                OV_THREAD_OMP \<Rightarrow> omp_team team nthr s
              | _ \<Rightarrow> (team_calls nthr, s))"

text \<open>Outside OpenMP both forms run the same calls; the static one never differs from the other there.\<close>

lemma parallel_nt_static_same:
  "mode \<noteq> OV_THREAD_OMP \<Longrightarrow> nthr \<noteq> 0 \<Longrightarrow>
   parallel_nt_static mode mx team nthr s = parallel_nt mode mx team nthr s"
  by (cases mode) (simp_all add: parallel_nt_static_def parallel_nt_def Let_def)

lemma parallel_nt_restores_dynamic:
  "omp_dynamic s \<in> {0, 1} \<Longrightarrow> snd (parallel_nt mode mx team nthr s) = s"
  by (cases mode) (auto simp: parallel_nt_def omp_team_def omp_set_dynamic_def Let_def)

end
