(* ===== verification/Ov_Reduce.thy ===== *)
theory Ov_Reduce
  imports Ov_Parallel
begin

text \<open>
  The reductions and the dynamically scheduled loops of \<open>openvino/core/parallel.hpp\<close>. TBB splits a
  range into a tree of sub-ranges as it likes; the tree is a parameter. A sub-range is either
  reduced from the identity the caller passed or continues the value of its left neighbour. The
  summed type is \<open>size_t\<close>.
\<close>

section \<open>Ranges\<close>

type_synonym box = "(u64 \<times> u64) list"

datatype range_tree = Leaf | Split nat u64 bool range_tree range_tree

definition word_range :: "u64 \<times> u64 \<Rightarrow> u64 list" where
  "word_range r = map of_nat [unat (fst r)..<unat (snd r)]"

text \<open>The nested loops over a blocked range, outermost bound first.\<close>

definition box_indices :: "box \<Rightarrow> u64 list list" where
  "box_indices box = product_lists (map word_range box)"

definition whole :: "u64 list \<Rightarrow> box" where
  "whole Ds = map (\<lambda>D. (0, D)) Ds"

fun tree_ok :: "range_tree \<Rightarrow> box \<Rightarrow> bool" where
  "tree_ok Leaf box = True"
| "tree_ok (Split d m cont l r) box \<longleftrightarrow>
     d < length box \<and> fst (box ! d) \<le> m \<and> m \<le> snd (box ! d)
     \<and> tree_ok l (box[d := (fst (box ! d), m)]) \<and> tree_ok r (box[d := (m, snd (box ! d))])"

section \<open>Reductions\<close>

definition sum_body :: "(u64 list \<Rightarrow> u64) \<Rightarrow> box \<Rightarrow> u64 \<Rightarrow> u64" where
  "sum_body f box init = fold (\<lambda>is sum. sum + f is) (box_indices box) init"

fun tbb_reduce :: "range_tree \<Rightarrow> box \<Rightarrow> (box \<Rightarrow> u64 \<Rightarrow> u64) \<Rightarrow> u64 \<Rightarrow> u64 \<Rightarrow> u64" where
  "tbb_reduce Leaf box body identity init = body box init"
| "tbb_reduce (Split d m cont l r) box body identity init =
     (let left = tbb_reduce l (box[d := (fst (box ! d), m)]) body identity init
      in if cont then tbb_reduce r (box[d := (m, snd (box ! d))]) body identity left
         else left + tbb_reduce r (box[d := (m, snd (box ! d))]) body identity identity)"

text \<open>
  The three sums differ in the number of loops only. An OpenMP reduction gives each thread of the
  static schedule a private sum from zero and adds these to the original.
\<close>

definition sum_loop ::
  "threading \<Rightarrow> range_tree \<Rightarrow> (u64 list list \<Rightarrow> u64 list list list) \<Rightarrow> u64 list \<Rightarrow> u64 \<Rightarrow> (u64 list \<Rightarrow> u64) \<Rightarrow> u64" where
  "sum_loop mode tree schedule Ds input f =
     (case mode of
        OV_THREAD_OMP \<Rightarrow>
          foldl (\<lambda>sum c. sum + fold (\<lambda>is sum. sum + f is) c 0) input (schedule (box_indices (whole Ds)))
      | OV_THREAD_SEQ \<Rightarrow> fold (\<lambda>is sum. sum + f is) (box_indices (whole Ds)) input
      | _ \<Rightarrow> tbb_reduce tree (whole Ds) (sum_body f) input input)"

definition parallel_sum where
  "parallel_sum mode tree schedule D0 input f = sum_loop mode tree schedule [D0] input f"

definition parallel_sum2d where
  "parallel_sum2d mode tree schedule D0 D1 input f = sum_loop mode tree schedule [D0, D1] input f"

definition parallel_sum3d where
  "parallel_sum3d mode tree schedule D0 D1 D2 input f = sum_loop mode tree schedule [D0, D1, D2] input f"

section \<open>Dynamic schedules\<close>

fun tree_runs :: "range_tree \<Rightarrow> box \<Rightarrow> u64 list list list" where
  "tree_runs Leaf box = [box_indices box]"
| "tree_runs (Split d m cont l r) box =
     tree_runs l (box[d := (fst (box ! d), m)]) @ tree_runs r (box[d := (m, snd (box ! d))])"

definition parallel_for2d_dynamic :: "threading \<Rightarrow> range_tree \<Rightarrow> int \<Rightarrow> u64 \<Rightarrow> u64 \<Rightarrow> u64 list list list option" where
  "parallel_for2d_dynamic mode tree threads D0 D1 =
     (if mode = OV_THREAD_TBB \<or> mode = OV_THREAD_TBB_AUTO then Some (tree_runs tree (whole [D0, D1]))
      else parallel_for2d mode threads 2 D0 D1)"

definition parallel_for3d_dynamic ::
  "threading \<Rightarrow> range_tree \<Rightarrow> int \<Rightarrow> u64 \<Rightarrow> u64 \<Rightarrow> u64 \<Rightarrow> u64 list list list option" where
  "parallel_for3d_dynamic mode tree threads D0 D1 D2 =
     (if mode = OV_THREAD_TBB \<or> mode = OV_THREAD_TBB_AUTO then Some (tree_runs tree (whole [D0, D1, D2]))
      else parallel_for3d mode threads 3 D0 D1 D2)"

section \<open>Splitting a range\<close>

lemma word_range_split:
  "lo \<le> m \<Longrightarrow> m \<le> hi \<Longrightarrow> word_range (lo, hi) = word_range (lo, m) @ word_range (m, hi)"
proof -
  assume "lo \<le> m" "m \<le> hi"
  then have "[unat lo..<unat hi] = [unat lo..<unat m] @ [unat m..<unat hi]"
    unfolding word_le_nat_alt by (metis le_Suc_ex upt_add_eq_append)
  then show ?thesis by (simp add: word_range_def)
qed

lemma mset_concat_add:
  "mset P = mset P1 + mset P2 \<Longrightarrow>
   mset (concat (map (\<lambda>x. map ((#) x) P) xs))
     = mset (concat (map (\<lambda>x. map ((#) x) P1) xs)) + mset (concat (map (\<lambda>x. map ((#) x) P2) xs))"
  by (induction xs) simp_all

lemma box_split:
  "d < length box \<Longrightarrow> fst (box ! d) \<le> m \<Longrightarrow> m \<le> snd (box ! d) \<Longrightarrow>
   mset (box_indices box)
     = mset (box_indices (box[d := (fst (box ! d), m)])) + mset (box_indices (box[d := (m, snd (box ! d))]))"
proof (induction box arbitrary: d)
  case Nil
  then show ?case by simp
next
  case (Cons b box)
  show ?case
  proof (cases d)
    case 0
    then show ?thesis
      using Cons.prems word_range_split [of "fst b" m "snd b"] by (simp add: box_indices_def)
  next
    case (Suc e)
    with Cons have "mset (box_indices box) = mset (box_indices (box[e := (fst (box ! e), m)]))
        + mset (box_indices (box[e := (m, snd (box ! e))]))" by simp
    from mset_concat_add [OF this] show ?thesis using Suc by (simp add: box_indices_def)
  qed
qed

lemma fold_sum: "fold (\<lambda>is sum. sum + f is) xs (a :: u64) = a + (\<Sum>x\<leftarrow>xs. f x)"
  by (induction xs arbitrary: a) (simp_all add: add.assoc)

lemma sum_mset_eq: "mset xs = mset ys + mset zs \<Longrightarrow> (\<Sum>x\<leftarrow>xs. f x) = (\<Sum>x\<leftarrow>ys. f x) + (\<Sum>x\<leftarrow>zs. f x :: u64)"
  by (metis image_mset_union mset_map sum_mset.union sum_mset_sum_list)

text \<open>The leaves that start again from the identity, beside the first.\<close>

fun restarts :: "range_tree \<Rightarrow> nat" where
  "restarts Leaf = 0"
| "restarts (Split d m cont l r) = restarts l + restarts r + (if cont then 0 else 1)"

lemma tbb_reduce_sum:
  "tree_ok tree box \<Longrightarrow> tbb_reduce tree box (sum_body f) identity init
     = init + of_nat (restarts tree) * identity + (\<Sum>is\<leftarrow>box_indices box. f is)"
proof (induction tree arbitrary: box init)
  case Leaf
  then show ?case by (simp add: sum_body_def fold_sum)
next
  case (Split d m cont l r)
  then have s: "(\<Sum>is\<leftarrow>box_indices box. f is)
      = (\<Sum>is\<leftarrow>box_indices (box[d := (fst (box ! d), m)]). f is)
      + (\<Sum>is\<leftarrow>box_indices (box[d := (m, snd (box ! d))]). f is)"
    by (intro sum_mset_eq box_split) simp_all
  show ?case using Split by (simp add: s Let_def algebra_simps)
qed

text \<open>
  the three sums add the caller's \<open>input\<close> once when they run serially or under OpenMP, whatever
  the schedule, but under TBB once more for every sub-range that is started afresh: with a
  non-zero \<open>input\<close> the result depends on how TBB splits the range.
\<close>

theorem parallel_sum_input_counted_per_split:
  assumes "tree_ok tree (whole [D0, D1, D2])" "\<forall>xs. concat (schedule xs) = xs"
  shows "parallel_sum3d OV_THREAD_SEQ tree schedule D0 D1 D2 input f
      = input + (\<Sum>is\<leftarrow>box_indices (whole [D0, D1, D2]). f is)
    \<and> parallel_sum3d OV_THREAD_OMP tree schedule D0 D1 D2 input f
      = parallel_sum3d OV_THREAD_SEQ tree schedule D0 D1 D2 input f
    \<and> parallel_sum3d OV_THREAD_TBB tree schedule D0 D1 D2 input f
      = parallel_sum3d OV_THREAD_SEQ tree schedule D0 D1 D2 input f + of_nat (restarts tree) * input"
proof -
  have "foldl (\<lambda>sum c. sum + (\<Sum>is\<leftarrow>c. f is)) a cs = a + (\<Sum>is\<leftarrow>concat cs. f is)" for a cs
    by (induction cs arbitrary: a) (simp_all add: add.assoc)
  with assms show ?thesis
    by (simp add: parallel_sum3d_def sum_loop_def fold_sum tbb_reduce_sum algebra_simps)
qed

theorem parallel_sum_input_counted_per_split_witness:
  "parallel_sum3d OV_THREAD_TBB (Split 2 1 False Leaf Leaf) (\<lambda>xs. [xs]) 1 1 2 5 (\<lambda>is. 1) = 12
   \<and> parallel_sum3d OV_THREAD_SEQ (Split 2 1 False Leaf Leaf) (\<lambda>xs. [xs]) 1 1 2 5 (\<lambda>is. 1) = 7"
proof -
  have ok: "tree_ok (Split 2 1 False Leaf Leaf) (whole [1, 1, 2])" by (simp add: whole_def)
  have c: "\<forall>xs. concat ((\<lambda>xs. [xs]) xs) = xs" by simp
  show ?thesis
    using parallel_sum_input_counted_per_split [OF ok c, of 5 "\<lambda>is. 1"]
    by (simp add: box_indices_def whole_def word_range_def upt_rec)
qed

lemma tree_runs_mset: "tree_ok tree box \<Longrightarrow> mset (concat (tree_runs tree box)) = mset (box_indices box)"
proof (induction tree arbitrary: box)
  case Leaf
  then show ?case by simp
next
  case (Split d m cont l r)
  then show ?case using box_split [of d box m] by simp
qed

lemma whole_indices: "box_indices (whole Ds) = map (map of_nat) (index_lists (map unat Ds))"
  by (induction Ds) (simp_all add: box_indices_def whole_def index_lists_def word_range_def map_concat comp_def)

text \<open>
  the dynamically scheduled loops call their body for every pair of indices inside the bounds
  exactly once, however TBB splits the range and in every interleaving of the sub-ranges.
\<close>

theorem parallel_for2d_dynamic_visits_once:
  assumes "tree_ok tree (whole [D0, D1])" "0 < T" "T < 2147483648"
    and "unat D0 * unat D1 + T < 18446744073709551616"
  shows "\<exists>tss. parallel_for2d_dynamic mode tree (int T) D0 D1 = Some tss
    \<and> (\<forall>run i j. interleaves tss run \<longrightarrow> count (mset run) [i, j] = (if i < D0 \<and> j < D1 then 1 else 0))"
proof -
  have c: "count (mset (map (map of_nat) (index_lists (map unat [D0, D1])))) [i, j]
      = (if i < D0 \<and> j < D1 then 1 else 0)" for i j
    using index_lists_words [of "[D0, D1]"] by (simp only: distinct_count_atmost_1) simp
  have "\<exists>tss. parallel_for2d_dynamic mode tree (int T) D0 D1 = Some tss
    \<and> mset (concat tss) = mset (map (map of_nat) (index_lists (map unat [D0, D1])))"
  proof (cases "mode = OV_THREAD_TBB \<or> mode = OV_THREAD_TBB_AUTO")
    case True
    then show ?thesis
      using tree_runs_mset [OF assms(1)] by (simp only: parallel_for2d_dynamic_def if_True whole_indices [symmetric]) simp
  next
    case False
    have "prod_list (map unat [D0, D1]) + T < 18446744073709551616" using assms(4) by simp
    from parallel_for_nd_indices [OF assms(2,3) _ _ _ this, of 2 mode] False
    show ?thesis by (auto simp: parallel_for2d_dynamic_def parallel_for_nd_def valid_arity_def)
  qed
  then obtain tss where tss: "parallel_for2d_dynamic mode tree (int T) D0 D1 = Some tss"
    "mset (concat tss) = mset (map (map of_nat) (index_lists (map unat [D0, D1])))" by blast
  have "count (mset run) [i, j] = (if i < D0 \<and> j < D1 then 1 else 0)" if "interleaves tss run" for run i j
    using interleaves_mset [OF that] tss(2) c [of i j] by simp
  with tss(1) show ?thesis by blast
qed

theorem parallel_for2d_dynamic_visits_once_witness:
  "\<exists>tss. parallel_for2d_dynamic OV_THREAD_TBB (Split 0 1 False Leaf Leaf) (int 2) 2 2 = Some tss \<and> length tss = 2
    \<and> (\<forall>run. interleaves tss run \<longrightarrow> count (mset run) [1, 1] = 1)"
proof -
  have ok: "tree_ok (Split 0 1 False Leaf Leaf) (whole [2, 2])" by (simp add: whole_def)
  have b: "unat (2 :: u64) * unat (2 :: u64) + 2 < 18446744073709551616" by simp
  from parallel_for2d_dynamic_visits_once [OF ok _ _ b, of OV_THREAD_TBB] obtain tss where
    t: "parallel_for2d_dynamic OV_THREAD_TBB (Split 0 1 False Leaf Leaf) (int 2) 2 2 = Some tss"
    "\<And>run. interleaves tss run \<Longrightarrow> count (mset run) [1, 1] = 1" by auto
  from t(1) have "length tss = 2" by (auto simp: parallel_for2d_dynamic_def)
  with t show ?thesis by blast
qed

end
