(* ===== verification/Ov_Stream.thy ===== *)
theory Ov_Stream
  imports KBX_Prelude "HOL-Library.Char_ord"
begin

text \<open>
  Text streams as the OpenVINO headers use them: white space, words, decimal and hexadecimal
  numbers of the C++ library, and the interface of a value that is printed as one word and read
  back from a stream. A reader gets what is left of the stream and returns its value and what it
  left; an exception is \<open>Inl\<close> with its message.
\<close>

type_synonym 'a result = "string + 'a"

section \<open>Words\<close>

definition is_space :: "char \<Rightarrow> bool" where
  "is_space c \<longleftrightarrow> of_char c = (32 :: nat) \<or> (9 \<le> (of_char c :: nat) \<and> of_char c \<le> (13 :: nat))"

definition skip_ws :: "string \<Rightarrow> string" where
  "skip_ws s = dropWhile is_space s"

definition get_word :: "string \<Rightarrow> string \<times> string" where
  "get_word s = (takeWhile (\<lambda>c. \<not> is_space c) (skip_ws s), dropWhile (\<lambda>c. \<not> is_space c) (skip_ws s))"

text \<open>A field width limits the word; \<open>std::setw(n)\<close> applies to the next extraction only.\<close>

definition get_word_w :: "nat \<Rightarrow> string \<Rightarrow> string \<times> string" where
  "get_word_w n s =
     (let w = take n (takeWhile (\<lambda>c. \<not> is_space c) (skip_ws s)) in (w, drop (length w) (skip_ws s)))"

definition is_word :: "string \<Rightarrow> bool" where
  "is_word w \<longleftrightarrow> w \<noteq> [] \<and> (\<forall>c \<in> set w. \<not> is_space c)"

definition ends_word :: "string \<Rightarrow> bool" where
  "ends_word rest \<longleftrightarrow> rest = [] \<or> is_space (hd rest)"

lemma get_word_word:
  assumes "is_word w" "ends_word rest"
  shows "get_word (w @ rest) = (w, rest)"
proof -
  have "skip_ws (w @ rest) = w @ rest"
    using assms(1) by (cases w) (auto simp: is_word_def skip_ws_def)
  moreover have "takeWhile (\<lambda>c. \<not> is_space c) (w @ rest) = w" "dropWhile (\<lambda>c. \<not> is_space c) (w @ rest) = rest"
    using assms by (cases rest; auto simp: is_word_def ends_word_def takeWhile_append dropWhile_append)+
  ultimately show ?thesis by (simp add: get_word_def)
qed

lemma get_word_skip: "is_space c \<Longrightarrow> get_word (c # s) = get_word s"
  by (simp add: get_word_def skip_ws_def)

lemma get_word_w_word:
  assumes "is_word w" "length w = n"
  shows "get_word_w n (w @ rest) = (w, rest)"
proof -
  have "skip_ws (w @ rest) = w @ rest"
    using assms(1) by (cases w) (auto simp: is_word_def skip_ws_def)
  moreover have "take n (takeWhile (\<lambda>c. \<not> is_space c) (w @ rest)) = w"
    using assms by (auto simp: is_word_def takeWhile_append)
  ultimately show ?thesis by (simp add: get_word_w_def Let_def)
qed

section \<open>Numbers\<close>

definition digit_char :: "nat \<Rightarrow> char" where
  "digit_char d = (if d < 10 then char_of (48 + d) else char_of (87 + d))"

definition digit_value :: "char \<Rightarrow> nat option" where
  "digit_value c =
     (let n = of_char c :: nat
      in if 48 \<le> n \<and> n \<le> 57 then Some (n - 48)
         else if 97 \<le> n \<and> n \<le> 102 then Some (n - 87)
         else if 65 \<le> n \<and> n \<le> 70 then Some (n - 55)
         else None)"

definition is_digit :: "nat \<Rightarrow> char \<Rightarrow> bool" where
  "is_digit base c \<longleftrightarrow> (case digit_value c of None \<Rightarrow> False | Some d \<Rightarrow> d < base)"

fun show_nat :: "nat \<Rightarrow> nat \<Rightarrow> string" where
  "show_nat base n =
     (if base < 2 \<or> n < base then [digit_char n] else show_nat base (n div base) @ [digit_char (n mod base)])"

declare show_nat.simps [simp del]

definition read_digits :: "nat \<Rightarrow> string \<Rightarrow> nat" where
  "read_digits base s = foldl (\<lambda>a c. a * base + the (digit_value c)) 0 s"

text \<open>The digits at the head of a stream; a number needs at least one.\<close>

definition get_nat :: "nat \<Rightarrow> string \<Rightarrow> (nat \<times> string) option" where
  "get_nat base s =
     (let ds = takeWhile (is_digit base) (skip_ws s)
      in if ds = [] then None else Some (read_digits base ds, dropWhile (is_digit base) (skip_ws s)))"

definition show_int :: "int \<Rightarrow> string" where
  "show_int i = (if i < 0 then CHR ''-'' # show_nat 10 (nat (- i)) else show_nat 10 (nat i))"

lemma digit_value_char: "d < 16 \<Longrightarrow> digit_value (digit_char d) = Some d"
  by (simp add: digit_value_def digit_char_def)

lemma digit_char_digit: "d < base \<Longrightarrow> base \<le> 16 \<Longrightarrow> is_digit base (digit_char d)"
  by (simp add: is_digit_def digit_value_char)

lemma digit_not_space: "is_digit base c \<Longrightarrow> \<not> is_space c"
  by (auto simp: is_digit_def digit_value_def is_space_def Let_def split: if_splits)

lemma show_nat_digits:
  assumes "2 \<le> base" "base \<le> 16"
  shows "show_nat base n \<noteq> [] \<and> (\<forall>c \<in> set (show_nat base n). is_digit base c)"
proof (induction n rule: less_induct)
  case (less n)
  show ?case
  proof (cases "n < base")
    case True
    then show ?thesis using assms by (subst (1 2) show_nat.simps) (simp add: digit_char_digit)
  next
    case False
    then have "n div base < n" using assms by (intro div_less_dividend) simp_all
    from less [OF this] False assms show ?thesis
      by (subst (1 2) show_nat.simps) (auto simp: digit_char_digit)
  qed
qed

lemma read_show_nat:
  assumes "2 \<le> base" "base \<le> 16"
  shows "read_digits base (show_nat base n) = n"
proof (induction n rule: less_induct)
  case (less n)
  show ?case
  proof (cases "n < base")
    case True
    then show ?thesis using assms by (subst show_nat.simps) (simp add: read_digits_def digit_value_char)
  next
    case False
    then have "n div base < n" using assms by (intro div_less_dividend) simp_all
    moreover have "n mod base < 16" using assms mod_less_divisor [of base n] by linarith
    ultimately show ?thesis using less False assms
      by (subst show_nat.simps) (simp add: read_digits_def digit_value_char)
  qed
qed

lemma get_nat_show:
  assumes "2 \<le> base" "base \<le> 16" "rest = [] \<or> \<not> is_digit base (hd rest)"
  shows "get_nat base (show_nat base n @ rest) = Some (n, rest)"
proof -
  note d = show_nat_digits [OF assms(1,2), of n]
  have "skip_ws (show_nat base n @ rest) = show_nat base n @ rest"
    using d digit_not_space by (cases "show_nat base n") (auto simp: skip_ws_def)
  moreover have "takeWhile (is_digit base) (show_nat base n @ rest) = show_nat base n"
    "dropWhile (is_digit base) (show_nat base n @ rest) = rest"
    using d assms(3) by (cases rest; auto simp: takeWhile_append dropWhile_append)+
  ultimately show ?thesis using d read_show_nat [OF assms(1,2)] by (simp add: get_nat_def Let_def)
qed

lemma show_nat_word: "2 \<le> base \<Longrightarrow> base \<le> 16 \<Longrightarrow> is_word (show_nat base n)"
  using show_nat_digits [of base n] digit_not_space by (auto simp: is_word_def)

section \<open>One-word values\<close>

locale word_codec =
  fixes show_value :: "'a \<Rightarrow> string"
    and read_value :: "string \<Rightarrow> ('a \<times> string) result"
  assumes shows_word: "is_word (show_value v)"
    and read_show: "ends_word rest \<Longrightarrow> read_value (show_value v @ rest) = Inr (v, rest)"
    and read_skip: "read_value (CHR '' '' # s) = read_value s"
begin

text \<open>A printed value is not a prefix of another one's text: printing is injective.\<close>

lemma show_inj: "show_value v = show_value w \<Longrightarrow> v = w"
proof -
  assume "show_value v = show_value w"
  then have "read_value (show_value v @ []) = read_value (show_value w @ [])" by simp
  then show "v = w" by (simp only: read_show ends_word_def simp_thms) simp
qed

fun show_values :: "'a list \<Rightarrow> string" where
  "show_values [] = []"
| "show_values (v # vs) = CHR '' '' # show_value v @ show_values vs"

fun read_values :: "nat \<Rightarrow> string \<Rightarrow> ('a list \<times> string) result" where
  "read_values 0 s = Inr ([], s)"
| "read_values (Suc n) s =
     (case read_value s of
        Inl e \<Rightarrow> Inl e
      | Inr (v, s1) \<Rightarrow>
          (case read_values n s1 of Inl e \<Rightarrow> Inl e | Inr (vs, s2) \<Rightarrow> Inr (v # vs, s2)))"

lemma space_ends: "ends_word (show_values vs @ rest) \<longleftrightarrow> vs \<noteq> [] \<or> ends_word rest"
  by (cases vs) (auto simp: ends_word_def is_space_def)

text \<open>Values written one after the other, each behind a space, are read back one by one.\<close>

lemma read_show_values:
  "ends_word rest \<Longrightarrow> read_values (length vs) (show_values vs @ rest) = Inr (vs, rest)"
proof (induction vs)
  case Nil
  then show ?case by simp
next
  case (Cons v vs)
  have e: "ends_word (show_values vs @ rest)" using Cons.prems space_ends by blast
  show ?case using Cons read_skip read_show [OF e, of v] by simp
qed

end

end
