(* ===== verification/Ov_Properties.thy ===== *)
theory Ov_Properties
  imports Ov_Stream
begin

text \<open>
  The property values of \<open>openvino/runtime/properties.hpp\<close>: property names and their mutability,
  the enumerations with the text each is printed as and read from, the number of streams, device
  identifiers and PCI addresses, and the device priority and device property names. An enumeration
  holds one of its enumerators; the \<open>default\<close> branch of a printer is for other integers.
\<close>

section \<open>Property names\<close>

datatype PropertyMutability = RO | RW | WO

record PropertyName =
  pn_name :: string
  pn_mutability :: PropertyMutability

definition is_mutable :: "PropertyName \<Rightarrow> bool" where
  "is_mutable p \<longleftrightarrow> pn_mutability p = RW"

text \<open>The concatenation of device names, and the name a device's own properties are filed under.\<close>

fun concat_priorities :: "string \<Rightarrow> string list \<Rightarrow> string" where
  "concat_priorities head [] = head"
| "concat_priorities head (h # tail) = head @ '','' @ concat_priorities h tail"

definition device_properties_name :: "string option \<Rightarrow> string" where
  "device_properties_name device_name =
     (case device_name of None \<Rightarrow> ''DEVICE_PROPERTIES'' | Some d \<Rightarrow> ''DEVICE_PROPERTIES'' @ ''_'' @ d)"

section \<open>Enumerations\<close>

text \<open>\<open>std::tolower\<close> of the C locale.\<close>

definition tolower :: "char \<Rightarrow> char" where
  "tolower c =
     (let n = of_char c :: nat in if 65 \<le> n \<and> n \<le> 90 then char_of (n + 32) else c)"

lemma tolower_chars:
  "tolower CHR ''D'' = CHR ''d''" "tolower CHR ''E'' = CHR ''e''" "tolower CHR ''F'' = CHR ''f''"
  "tolower CHR ''A'' = CHR ''a''" "tolower CHR ''U'' = CHR ''u''" "tolower CHR ''L'' = CHR ''l''"
  "tolower CHR ''T'' = CHR ''t''" "tolower CHR ''I'' = CHR ''i''" "tolower CHR ''C'' = CHR ''c''"
  "tolower CHR ''N'' = CHR ''n''"
  by code_simp+

lemmas word_simps = is_word_def is_space_def

lemma get_word_space: "get_word (CHR '' '' # s) = get_word s"
  by (rule get_word_skip) (simp add: is_space_def)

datatype Priority = Priority_LOW | Priority_MEDIUM | Priority_HIGH

abbreviation Priority_DEFAULT :: Priority where "Priority_DEFAULT \<equiv> Priority_MEDIUM"

fun show_Priority :: "Priority \<Rightarrow> string" where
  "show_Priority Priority_LOW = ''LOW''"
| "show_Priority Priority_MEDIUM = ''MEDIUM''"
| "show_Priority Priority_HIGH = ''HIGH''"

definition read_Priority :: "string \<Rightarrow> (Priority \<times> string) result" where
  "read_Priority is =
     (let (str, rest) = get_word is
      in if str = ''LOW'' then Inr (Priority_LOW, rest)
         else if str = ''MEDIUM'' then Inr (Priority_MEDIUM, rest)
         else if str = ''HIGH'' then Inr (Priority_HIGH, rest)
         else if str = ''DEFAULT'' then Inr (Priority_DEFAULT, rest)
         else Inl (''Unsupported model priority: '' @ str))"

interpretation priority: word_codec show_Priority read_Priority
proof
  show "is_word (show_Priority v)" for v by (cases v) (simp_all add: word_simps)
  then show "ends_word rest \<Longrightarrow> read_Priority (show_Priority v @ rest) = Inr (v, rest)" for v rest
    by (simp add: read_Priority_def get_word_word) (cases v; simp)
  show "read_Priority (CHR '' '' # s) = read_Priority s" for s
    by (simp add: read_Priority_def get_word_space)
qed

datatype PerformanceMode = LATENCY | THROUGHPUT | CUMULATIVE_THROUGHPUT

fun show_PerformanceMode :: "PerformanceMode \<Rightarrow> string" where
  "show_PerformanceMode LATENCY = ''LATENCY''"
| "show_PerformanceMode THROUGHPUT = ''THROUGHPUT''"
| "show_PerformanceMode CUMULATIVE_THROUGHPUT = ''CUMULATIVE_THROUGHPUT''"

definition read_PerformanceMode :: "string \<Rightarrow> (PerformanceMode \<times> string) result" where
  "read_PerformanceMode is =
     (let (str, rest) = get_word is
      in if str = ''LATENCY'' then Inr (LATENCY, rest)
         else if str = ''THROUGHPUT'' then Inr (THROUGHPUT, rest)
         else if str = ''CUMULATIVE_THROUGHPUT'' then Inr (CUMULATIVE_THROUGHPUT, rest)
         else Inl (''Unsupported performance mode: '' @ str))"

interpretation performancemode: word_codec show_PerformanceMode read_PerformanceMode
proof
  show "is_word (show_PerformanceMode v)" for v by (cases v) (simp_all add: word_simps)
  then show "ends_word rest \<Longrightarrow> read_PerformanceMode (show_PerformanceMode v @ rest) = Inr (v, rest)" for v rest
    by (simp add: read_PerformanceMode_def get_word_word) (cases v; simp)
  show "read_PerformanceMode (CHR '' '' # s) = read_PerformanceMode s" for s
    by (simp add: read_PerformanceMode_def get_word_space)
qed

datatype SchedulingCoreType = ANY_CORE | PCORE_ONLY | ECORE_ONLY

fun show_SchedulingCoreType :: "SchedulingCoreType \<Rightarrow> string" where
  "show_SchedulingCoreType ANY_CORE = ''ANY_CORE''"
| "show_SchedulingCoreType PCORE_ONLY = ''PCORE_ONLY''"
| "show_SchedulingCoreType ECORE_ONLY = ''ECORE_ONLY''"

definition read_SchedulingCoreType :: "string \<Rightarrow> (SchedulingCoreType \<times> string) result" where
  "read_SchedulingCoreType is =
     (let (str, rest) = get_word is
      in if str = ''ANY_CORE'' then Inr (ANY_CORE, rest)
         else if str = ''PCORE_ONLY'' then Inr (PCORE_ONLY, rest)
         else if str = ''ECORE_ONLY'' then Inr (ECORE_ONLY, rest)
         else Inl (''Unsupported core type: '' @ str))"

interpretation schedulingcoretype: word_codec show_SchedulingCoreType read_SchedulingCoreType
proof
  show "is_word (show_SchedulingCoreType v)" for v by (cases v) (simp_all add: word_simps)
  then show "ends_word rest \<Longrightarrow> read_SchedulingCoreType (show_SchedulingCoreType v @ rest) = Inr (v, rest)" for v rest
    by (simp add: read_SchedulingCoreType_def get_word_word) (cases v; simp)
  show "read_SchedulingCoreType (CHR '' '' # s) = read_SchedulingCoreType s" for s
    by (simp add: read_SchedulingCoreType_def get_word_space)
qed

datatype ModelDistributionPolicy = TENSOR_PARALLEL | PIPELINE_PARALLEL

fun show_ModelDistributionPolicy :: "ModelDistributionPolicy \<Rightarrow> string" where
  "show_ModelDistributionPolicy TENSOR_PARALLEL = ''TENSOR_PARALLEL''"
| "show_ModelDistributionPolicy PIPELINE_PARALLEL = ''PIPELINE_PARALLEL''"

definition read_ModelDistributionPolicy :: "string \<Rightarrow> (ModelDistributionPolicy \<times> string) result" where
  "read_ModelDistributionPolicy is =
     (let (str, rest) = get_word is
      in if str = ''TENSOR_PARALLEL'' then Inr (TENSOR_PARALLEL, rest)
         else if str = ''PIPELINE_PARALLEL'' then Inr (PIPELINE_PARALLEL, rest)
         else Inl (''Unsupported model distribution policy: '' @ str))"

interpretation modeldistributionpolicy: word_codec show_ModelDistributionPolicy read_ModelDistributionPolicy
proof
  show "is_word (show_ModelDistributionPolicy v)" for v by (cases v) (simp_all add: word_simps)
  then show "ends_word rest \<Longrightarrow> read_ModelDistributionPolicy (show_ModelDistributionPolicy v @ rest) = Inr (v, rest)" for v rest
    by (simp add: read_ModelDistributionPolicy_def get_word_word) (cases v; simp)
  show "read_ModelDistributionPolicy (CHR '' '' # s) = read_ModelDistributionPolicy s" for s
    by (simp add: read_ModelDistributionPolicy_def get_word_space)
qed

datatype ExecutionMode = PERFORMANCE | ACCURACY

fun show_ExecutionMode :: "ExecutionMode \<Rightarrow> string" where
  "show_ExecutionMode PERFORMANCE = ''PERFORMANCE''"
| "show_ExecutionMode ACCURACY = ''ACCURACY''"

definition read_ExecutionMode :: "string \<Rightarrow> (ExecutionMode \<times> string) result" where
  "read_ExecutionMode is =
     (let (str, rest) = get_word is
      in if str = ''PERFORMANCE'' then Inr (PERFORMANCE, rest)
         else if str = ''ACCURACY'' then Inr (ACCURACY, rest)
         else Inl (''Unsupported execution mode: '' @ str))"

interpretation executionmode: word_codec show_ExecutionMode read_ExecutionMode
proof
  show "is_word (show_ExecutionMode v)" for v by (cases v) (simp_all add: word_simps)
  then show "ends_word rest \<Longrightarrow> read_ExecutionMode (show_ExecutionMode v @ rest) = Inr (v, rest)" for v rest
    by (simp add: read_ExecutionMode_def get_word_word) (cases v; simp)
  show "read_ExecutionMode (CHR '' '' # s) = read_ExecutionMode s" for s
    by (simp add: read_ExecutionMode_def get_word_space)
qed

datatype Level = Level_NO | Level_ERR | Level_WARNING | Level_INFO | Level_DEBUG | Level_TRACE

fun show_Level :: "Level \<Rightarrow> string" where
  "show_Level Level_NO = ''LOG_NONE''"
| "show_Level Level_ERR = ''LOG_ERROR''"
| "show_Level Level_WARNING = ''LOG_WARNING''"
| "show_Level Level_INFO = ''LOG_INFO''"
| "show_Level Level_DEBUG = ''LOG_DEBUG''"
| "show_Level Level_TRACE = ''LOG_TRACE''"

definition read_Level :: "string \<Rightarrow> (Level \<times> string) result" where
  "read_Level is =
     (let (str, rest) = get_word is
      in if str = ''LOG_NONE'' then Inr (Level_NO, rest)
         else if str = ''LOG_ERROR'' then Inr (Level_ERR, rest)
         else if str = ''LOG_WARNING'' then Inr (Level_WARNING, rest)
         else if str = ''LOG_INFO'' then Inr (Level_INFO, rest)
         else if str = ''LOG_DEBUG'' then Inr (Level_DEBUG, rest)
         else if str = ''LOG_TRACE'' then Inr (Level_TRACE, rest)
         else Inl (''Unsupported log level: '' @ str))"

interpretation level: word_codec show_Level read_Level
proof
  show "is_word (show_Level v)" for v by (cases v) (simp_all add: word_simps)
  then show "ends_word rest \<Longrightarrow> read_Level (show_Level v @ rest) = Inr (v, rest)" for v rest
    by (simp add: read_Level_def get_word_word) (cases v; simp)
  show "read_Level (CHR '' '' # s) = read_Level s" for s
    by (simp add: read_Level_def get_word_space)
qed

datatype WorkloadType = WorkloadType_DEFAULT | EFFICIENT

fun show_WorkloadType :: "WorkloadType \<Rightarrow> string" where
  "show_WorkloadType WorkloadType_DEFAULT = ''DEFAULT''"
| "show_WorkloadType EFFICIENT = ''EFFICIENT''"

definition read_WorkloadType :: "string \<Rightarrow> (WorkloadType \<times> string) result" where
  "read_WorkloadType is =
     (let (str, rest) = get_word is;
          str = map tolower str
      in if str = ''default'' then Inr (WorkloadType_DEFAULT, rest)
         else if str = ''efficient'' then Inr (EFFICIENT, rest)
         else Inl (''Unsupported workload type: '' @ str))"

interpretation workloadtype: word_codec show_WorkloadType read_WorkloadType
proof
  show "is_word (show_WorkloadType v)" for v by (cases v) (simp_all add: word_simps)
  then show "ends_word rest \<Longrightarrow> read_WorkloadType (show_WorkloadType v @ rest) = Inr (v, rest)" for v rest
    by (simp add: read_WorkloadType_def get_word_word) (cases v; simp add: tolower_chars)
  show "read_WorkloadType (CHR '' '' # s) = read_WorkloadType s" for s
    by (simp add: read_WorkloadType_def get_word_space)
qed

datatype CacheMode = OPTIMIZE_SIZE | OPTIMIZE_SPEED

fun show_CacheMode :: "CacheMode \<Rightarrow> string" where
  "show_CacheMode OPTIMIZE_SIZE = ''optimize_size''"
| "show_CacheMode OPTIMIZE_SPEED = ''optimize_speed''"

definition read_CacheMode :: "string \<Rightarrow> (CacheMode \<times> string) result" where
  "read_CacheMode is =
     (let (str, rest) = get_word is
      in if str = ''OPTIMIZE_SIZE'' \<or> str = ''optimize_size'' then Inr (OPTIMIZE_SIZE, rest)
         else if str = ''OPTIMIZE_SPEED'' \<or> str = ''optimize_speed'' then Inr (OPTIMIZE_SPEED, rest)
         else Inl (''Unsupported cache mode: '' @ str))"

interpretation cachemode: word_codec show_CacheMode read_CacheMode
proof
  show "is_word (show_CacheMode v)" for v by (cases v) (simp_all add: word_simps)
  then show "ends_word rest \<Longrightarrow> read_CacheMode (show_CacheMode v @ rest) = Inr (v, rest)" for v rest
    by (simp add: read_CacheMode_def get_word_word) (cases v; simp)
  show "read_CacheMode (CHR '' '' # s) = read_CacheMode s" for s
    by (simp add: read_CacheMode_def get_word_space)
qed

datatype device_Type = DISCRETE | INTEGRATED

fun show_device_Type :: "device_Type \<Rightarrow> string" where
  "show_device_Type DISCRETE = ''discrete''"
| "show_device_Type INTEGRATED = ''integrated''"

definition read_device_Type :: "string \<Rightarrow> (device_Type \<times> string) result" where
  "read_device_Type is =
     (let (str, rest) = get_word is
      in if str = ''discrete'' then Inr (DISCRETE, rest)
         else if str = ''integrated'' then Inr (INTEGRATED, rest)
         else Inl (''Unsupported device type: '' @ str))"

interpretation device_type: word_codec show_device_Type read_device_Type
proof
  show "is_word (show_device_Type v)" for v by (cases v) (simp_all add: word_simps)
  then show "ends_word rest \<Longrightarrow> read_device_Type (show_device_Type v @ rest) = Inr (v, rest)" for v rest
    by (simp add: read_device_Type_def get_word_word) (cases v; simp)
  show "read_device_Type (CHR '' '' # s) = read_device_Type s" for s
    by (simp add: read_device_Type_def get_word_space)
qed

datatype Affinity = Affinity_NONE | CORE | Affinity_NUMA | HYBRID_AWARE

fun show_Affinity :: "Affinity \<Rightarrow> string" where
  "show_Affinity Affinity_NONE = ''NONE''"
| "show_Affinity CORE = ''CORE''"
| "show_Affinity Affinity_NUMA = ''NUMA''"
| "show_Affinity HYBRID_AWARE = ''HYBRID_AWARE''"

definition read_Affinity :: "string \<Rightarrow> (Affinity \<times> string) result" where
  "read_Affinity is =
     (let (str, rest) = get_word is
      in if str = ''NONE'' then Inr (Affinity_NONE, rest)
         else if str = ''CORE'' then Inr (CORE, rest)
         else if str = ''NUMA'' then Inr (Affinity_NUMA, rest)
         else if str = ''HYBRID_AWARE'' then Inr (HYBRID_AWARE, rest)
         else Inl (''Unsupported affinity pattern: '' @ str))"

interpretation affinity: word_codec show_Affinity read_Affinity
proof
  show "is_word (show_Affinity v)" for v by (cases v) (simp_all add: word_simps)
  then show "ends_word rest \<Longrightarrow> read_Affinity (show_Affinity v @ rest) = Inr (v, rest)" for v rest
    by (simp add: read_Affinity_def get_word_word) (cases v; simp)
  show "read_Affinity (CHR '' '' # s) = read_Affinity s" for s
    by (simp add: read_Affinity_def get_word_space)
qed

section \<open>Number of streams\<close>

definition AUTO :: int where "AUTO = -1"

definition NUMA :: int where "NUMA = -2"

definition in_int :: "int \<Rightarrow> bool" where
  "in_int i \<longleftrightarrow> - 2147483648 \<le> i \<and> i \<le> 2147483647"

fun strip_sign :: "string \<Rightarrow> bool \<times> string" where
  "strip_sign [] = (False, [])"
| "strip_sign (c # s) = (if c = CHR ''-'' then (True, s) else if c = CHR ''+'' then (False, s) else (False, c # s))"

text \<open>\<open>std::stoi\<close>: white space, a sign, decimal digits; what follows is ignored.\<close>

definition stoi :: "string \<Rightarrow> int result" where
  "stoi s =
     (let (neg, t) = strip_sign (skip_ws s);
          ds = takeWhile (is_digit 10) t
      in if ds = [] then Inl ''stoi''
         else
           let n = (if neg then - int (read_digits 10 ds) else int (read_digits 10 ds))
           in if in_int n then Inr n else Inl ''stoi'')"

definition show_Num :: "int \<Rightarrow> string" where
  "show_Num num_val =
     (if num_val = AUTO then ''AUTO'' else if num_val = NUMA then ''NUMA'' else show_int num_val)"

definition read_Num :: "string \<Rightarrow> (int \<times> string) result" where
  "read_Num is =
     (let (str, rest) = get_word is
      in if str = ''AUTO'' then Inr (AUTO, rest)
         else if str = ''NUMA'' then Inr (NUMA, rest)
         else case stoi str of
                Inr n \<Rightarrow> Inr (n, rest)
              | Inl e \<Rightarrow> Inl (''Could not read number of streams from str: '' @ str @ ''; '' @ e))"

lemma show_int_word: "is_word (show_int i)"
  using show_nat_word [of 10 "nat \<bar>i\<bar>"] by (auto simp: show_int_def is_word_def is_space_def)

lemma digit_not_sign: "is_digit base c \<Longrightarrow> c \<noteq> CHR ''-'' \<and> c \<noteq> CHR ''+''"
  by (auto simp: is_digit_def digit_value_def)

lemma strip_sign_digits:
  "s \<noteq> [] \<Longrightarrow> \<forall>c \<in> set s. is_digit base c \<Longrightarrow> strip_sign (s @ rest) = (False, s @ rest)"
  using digit_not_sign by (cases s) auto

lemma skip_word: "is_word w \<Longrightarrow> skip_ws (w @ rest) = w @ rest"
  by (cases w) (auto simp: is_word_def skip_ws_def)

lemma stoi_show_int:
  assumes "in_int i"
  shows "stoi (show_int i) = Inr i"
proof -
  have d: "show_nat 10 n \<noteq> []" "\<forall>c \<in> set (show_nat 10 n). is_digit 10 c" for n
    using show_nat_digits [of 10 n] by simp_all
  have t: "takeWhile (is_digit 10) (show_nat 10 n) = show_nat 10 n" for n
    using d(2) by (simp add: takeWhile_eq_all_conv)
  have s: "strip_sign (skip_ws (show_int i)) = (i < 0, show_nat 10 (nat \<bar>i\<bar>))"
    using skip_word [OF show_int_word, where rest = "[]"] strip_sign_digits [OF d, where rest = "[]"]
    by (simp add: show_int_def)
  show ?thesis
    unfolding stoi_def s using assms d(1) by (simp add: t read_show_nat Let_def)
qed

lemma show_int_not_name: "in_int i \<Longrightarrow> show_int i \<noteq> ''AUTO'' \<and> show_int i \<noteq> ''NUMA''"
proof -
  assume "in_int i"
  have "stoi ''AUTO'' = Inl ''stoi''" "stoi ''NUMA'' = Inl ''stoi''" by code_simp+
  with stoi_show_int [OF \<open>in_int i\<close>] show ?thesis by (metis sum.distinct(1))
qed

text \<open>
  the number of streams is read back as written for every \<open>int\<close>, named or not, whatever follows;
  and every number that is read without an exception is one of \<open>int\<close>.
\<close>

theorem num_streams_roundtrip:
  assumes "in_int n" "ends_word rest"
  shows "read_Num (show_Num n @ rest) = Inr (n, rest)"
proof -
  have w: "is_word (show_Num n)" using show_int_word by (simp add: show_Num_def word_simps)
  have n: "stoi (show_int n) = Inr n" "show_int n \<noteq> ''AUTO''" "show_int n \<noteq> ''NUMA''"
    using stoi_show_int show_int_not_name assms(1) by simp_all
  show ?thesis
    using n by (simp add: read_Num_def get_word_word [OF w assms(2)]) (simp add: show_Num_def AUTO_def NUMA_def)
qed

text \<open>
  whatever text it is given, the reader of a number of streams that does not throw returns a
  value of the \<open>int\<close> type the property is declared with.
\<close>

theorem num_streams_read_int:
  assumes "read_Num is = Inr (n, rest)"
  shows "in_int n"
  using assms
  by (auto simp: read_Num_def stoi_def Let_def AUTO_def NUMA_def in_int_def split: prod.splits if_splits sum.splits)

section \<open>Device identifiers\<close>

definition show_byte :: "u8 \<Rightarrow> string" where
  "show_byte b = (let s = show_nat 16 (unat b) in replicate (2 - length s) CHR ''0'' @ s)"

definition show_ID :: "u8 list \<Rightarrow> string" where
  "show_ID bytes = concat (map show_byte bytes)"

fun strip_0x :: "string \<Rightarrow> string" where
  "strip_0x (a # b # s) = (if a = CHR ''0'' \<and> (b = CHR ''x'' \<or> b = CHR ''X'') then s else a # b # s)"
| "strip_0x s = s"

text \<open>
  \<open>ss2 >> std::hex >> val\<close> on a word of at most two characters: nothing is stored when the word is
  empty, zero when it has no digits.
\<close>

definition read_hex_int :: "string \<Rightarrow> int option" where
  "read_hex_int s =
     (if s = [] then None
      else
        let (neg, t) = strip_sign s;
            n = int (read_digits 16 (takeWhile (is_digit 16) (strip_0x t)))
        in Some (if neg then - n else n))"

text \<open>
  The loop of the two readers. An extraction at the end of the stream fails and keeps the last
  word; \<open>None\<close> for the stream is its failed state, \<open>None\<close> for the result an uninitialised \<open>val\<close>.
\<close>

fun read_id_loop :: "nat \<Rightarrow> string \<Rightarrow> string option \<Rightarrow> (u8 list \<times> string option) option" where
  "read_id_loop 0 s is = Some ([], is)"
| "read_id_loop (Suc n) s is =
     (let (s, is) =
        (case is of
           None \<Rightarrow> (s, None)
         | Some t \<Rightarrow> if skip_ws t = [] then (s, None)
                    else (let (w, rest) = get_word_w 2 t in (w, Some rest)))
      in do {
        val \<leftarrow> read_hex_int s;
        (bs, is) \<leftarrow> read_id_loop n s is;
        Some (of_int val # bs, is)
      })"

abbreviation MAX_UUID_SIZE :: nat where "MAX_UUID_SIZE \<equiv> 16"
abbreviation MAX_LUID_SIZE :: nat where "MAX_LUID_SIZE \<equiv> 8"

definition show_UUID :: "u8 list \<Rightarrow> string" where "show_UUID uuid = show_ID uuid"

definition read_UUID :: "string \<Rightarrow> (u8 list \<times> string option) option" where
  "read_UUID is = read_id_loop MAX_UUID_SIZE [] (Some is)"

definition show_LUID :: "u8 list \<Rightarrow> string" where "show_LUID luid = show_ID luid"

definition read_LUID :: "string \<Rightarrow> (u8 list \<times> string option) option" where
  "read_LUID is = read_id_loop MAX_LUID_SIZE [] (Some is)"

lemma show_byte_digits: "show_byte b = [digit_char (unat b div 16), digit_char (unat b mod 16)]"
proof -
  have b: "unat b < 256" using unsigned_less [of b] by simp
  have z: "digit_char 0 = CHR ''0''" by code_simp
  show ?thesis
  proof (cases "unat b < 16")
    case True
    then show ?thesis by (simp add: show_byte_def show_nat.simps [of 16 "unat b"] z)
  next
    case False
    then have "unat b div 16 < 16" using b by (simp add: div_less_iff_less_mult)
    then show ?thesis using False
      by (simp add: show_byte_def show_nat.simps [of 16 "unat b"] show_nat.simps [of 16 "unat b div 16"])
  qed
qed

lemma read_hex_byte: "read_hex_int (show_byte b) = Some (int (unat b))"
proof -
  have b: "unat b < 256" using unsigned_less [of b] by simp
  then have h: "unat b div 16 < 16" "unat b mod 16 < 16" by (simp_all add: div_less_iff_less_mult)
  note d = h [THEN digit_char_digit [of _ 16], simplified]
  note v = h [THEN digit_value_char]
  have x: "c \<noteq> CHR ''x'' \<and> c \<noteq> CHR ''X''" if "is_digit 16 c" for c
    using that by (auto simp: is_digit_def digit_value_def)
  have s: "strip_sign (show_byte b) = (False, show_byte b)"
    unfolding show_byte_digits using digit_not_sign [OF d(1)] by simp
  have z: "strip_0x (show_byte b) = show_byte b"
    unfolding show_byte_digits using x [OF d(2)] by simp
  have t: "takeWhile (is_digit 16) (show_byte b) = show_byte b"
    unfolding show_byte_digits using d by simp
  have r: "read_digits 16 (show_byte b) = unat b"
    unfolding show_byte_digits by (simp add: read_digits_def v)
  have n: "show_byte b \<noteq> []" by (simp add: show_byte_digits)
  show ?thesis
    unfolding read_hex_int_def if_not_P [OF n] Let_def s case_prod_conv z t r by simp
qed

lemma show_byte_word: "is_word (show_byte b)" "length (show_byte b) = 2"
proof -
  have "unat b < 256" using unsigned_less [of b] by simp
  then have h: "unat b div 16 < 16" "unat b mod 16 < 16" by (simp_all add: div_less_iff_less_mult)
  have "\<not> is_space (digit_char d)" if "d < 16" for d
    using digit_char_digit [OF that] digit_not_space by blast
  with h show "is_word (show_byte b)" "length (show_byte b) = 2"
    by (simp_all add: show_byte_digits is_word_def)
qed

lemma read_id_show:
  "read_id_loop (length bs) w (Some (show_ID bs @ rest)) = Some (bs, Some rest)"
proof (induction bs arbitrary: w)
  case Nil
  then show ?case by (simp add: show_ID_def)
next
  case (Cons b bs)
  note w = show_byte_word [of b]
  have g: "get_word_w 2 (show_byte b @ show_ID bs @ rest) = (show_byte b, show_ID bs @ rest)"
    by (rule get_word_w_word [OF w])
  have n: "skip_ws (show_byte b @ show_ID bs @ rest) \<noteq> []"
    using skip_word [OF w(1)] w(2) by (metis append_is_Nil_conv is_word_def w(1))
  have e: "show_ID (b # bs) = show_byte b @ show_ID bs" by (simp add: show_ID_def)
  show ?case using n by (simp add: e g read_hex_byte Cons.IH)
qed

text \<open>
  a device's UUID and LUID are read back from the text they are printed as, byte for byte, and
  the readers stop right behind it.
\<close>

theorem device_id_roundtrip:
  assumes "length u = MAX_UUID_SIZE" "length l = MAX_LUID_SIZE"
  shows "read_UUID (show_UUID u @ rest) = Some (u, Some rest) \<and> read_LUID (show_LUID l @ rest) = Some (l, Some rest)"
  using read_id_show [of u _ rest] read_id_show [of l _ rest] assms
  by (simp add: read_UUID_def show_UUID_def read_LUID_def show_LUID_def)

text \<open>A truncated identifier is completed with its last byte; an empty one leaves \<open>val\<close> undefined.\<close>

lemma read_id_failed: "s \<noteq> [] \<Longrightarrow> read_hex_int s = Some v \<Longrightarrow> read_id_loop n s None = Some (replicate n (of_int v), None)"
  by (induction n) simp_all

lemma read_id_short:
  assumes "bs \<noteq> []"
  shows "read_id_loop (length bs + n) w (Some (show_ID bs)) = Some (bs @ replicate n (last bs), if n = 0 then Some [] else None)"
  using assms
proof (induction bs arbitrary: w)
  case Nil
  then show ?case by simp
next
  case (Cons b bs)
  note w = show_byte_word [of b]
  have g: "get_word_w 2 (show_byte b @ show_ID bs) = (show_byte b, show_ID bs)"
    by (rule get_word_w_word [OF w])
  have n: "skip_ws (show_byte b @ show_ID bs) \<noteq> []"
    using skip_word [OF w(1)] w(2) by (metis append_is_Nil_conv is_word_def w(1))
  have e: "show_ID (b # bs) = show_byte b @ show_ID bs" by (simp add: show_ID_def)
  show ?case
  proof (cases "bs = []")
    case False
    then show ?thesis using n Cons.IH [OF False] by (simp add: e g read_hex_byte)
  next
    case True
    have s: "show_byte b \<noteq> []" by (simp add: show_byte_digits)
    have sk: "skip_ws (show_byte b) = show_byte b" using skip_word [OF w(1), where rest = "[]"] by simp
    have skip_ws_Nil: "skip_ws [] = []" by (simp add: skip_ws_def)
    show ?thesis
    proof (cases n)
      case 0
      then show ?thesis using True n g e by (simp add: read_hex_byte show_ID_def)
    next
      case (Suc m)
      then show ?thesis
        using True g e sk s read_id_failed [OF s read_hex_byte, of m]
        by (simp add: read_hex_byte show_ID_def skip_ws_Nil)
    qed
  qed
qed

section \<open>PCI addresses\<close>

record PCIInfo =
  pci_domain :: u32
  pci_bus :: u32
  pci_device :: u32
  pci_function :: u32

definition show_PCIInfo :: "PCIInfo \<Rightarrow> string" where
  "show_PCIInfo p =
     ''{domain: '' @ show_nat 10 (unat (pci_domain p)) @ '' bus: '' @ show_nat 10 (unat (pci_bus p))
     @ '' device: 0x'' @ show_nat 16 (unat (pci_device p))
     @ '' function: '' @ show_nat 10 (unat (pci_function p)) @ ''}''"

text \<open>Extraction of an unsigned number: a sign wraps it, one that does not fit fails.\<close>

definition get_u32 :: "nat \<Rightarrow> string \<Rightarrow> (u32 \<times> string) option" where
  "get_u32 base is =
     (let (neg, t) = strip_sign (skip_ws is);
          t = (if base = 16 then strip_0x t else t);
          ds = takeWhile (is_digit base) t;
          n = read_digits base ds
      in if ds = [] \<or> 4294967296 \<le> n then None
         else Some (if neg then - of_nat n else of_nat n, dropWhile (is_digit base) t))"

definition get_delim :: "string \<Rightarrow> string option" where
  "get_delim is = (let (delim, rest) = get_word is in if delim = [] then None else Some rest)"

definition read_PCIInfo :: "string \<Rightarrow> (PCIInfo \<times> string) result" where
  "read_PCIInfo is =
     (case do {
        is \<leftarrow> get_delim is;
        (domain, is) \<leftarrow> get_u32 10 is;
        is \<leftarrow> get_delim is;
        (bus, is) \<leftarrow> get_u32 10 is;
        is \<leftarrow> get_delim is;
        (device, is) \<leftarrow> get_u32 16 is;
        is \<leftarrow> get_delim is;
        (function, is) \<leftarrow> get_u32 10 is;
        Some (\<lparr>pci_domain = domain, pci_bus = bus, pci_device = device, pci_function = function\<rparr>, is)
      } of
        None \<Rightarrow> Inl ''Could not deserialize PCIInfo. Invalid format!''
      | Some r \<Rightarrow> Inr r)"

lemma digits_take:
  assumes "2 \<le> base" "base \<le> 16" "rest = [] \<or> \<not> is_digit base (hd rest)"
  shows "takeWhile (is_digit base) (show_nat base n @ rest) = show_nat base n"
    and "dropWhile (is_digit base) (show_nat base n @ rest) = rest"
  using show_nat_digits [OF assms(1,2), of n] assms(3)
  by (cases rest; auto simp: takeWhile_append dropWhile_append)+

lemma get_u32_dec:
  assumes "rest = [] \<or> \<not> is_digit 10 (hd rest)"
  shows "get_u32 10 (CHR '' '' # show_nat 10 (unat a) @ rest) = Some (a, rest)"
proof -
  have d: "show_nat 10 (unat a) \<noteq> []" "\<forall>c \<in> set (show_nat 10 (unat a)). is_digit 10 c"
    using show_nat_digits [of 10] by simp_all
  have "skip_ws (CHR '' '' # show_nat 10 (unat a) @ rest) = skip_ws (show_nat 10 (unat a) @ rest)"
    by (simp add: skip_ws_def is_space_def)
  then have s: "strip_sign (skip_ws (CHR '' '' # show_nat 10 (unat a) @ rest)) = (False, show_nat 10 (unat a) @ rest)"
    using skip_word [OF show_nat_word, of 10] strip_sign_digits [OF d] by simp
  show ?thesis
    unfolding get_u32_def s using d(1) unat_u32_bound [of a] assms
    by (simp add: Let_def digits_take read_show_nat)
qed

lemma get_u32_hex:
  assumes "rest = [] \<or> \<not> is_digit 16 (hd rest)"
  shows "get_u32 16 (CHR '' '' # CHR ''0'' # CHR ''x'' # show_nat 16 (unat a) @ rest) = Some (a, rest)"
proof -
  have d: "show_nat 16 (unat a) \<noteq> []" using show_nat_digits [of 16] by simp
  have s: "strip_sign (skip_ws (CHR '' '' # CHR ''0'' # CHR ''x'' # show_nat 16 (unat a) @ rest))
      = (False, CHR ''0'' # CHR ''x'' # show_nat 16 (unat a) @ rest)"
    by (simp add: skip_ws_def is_space_def)
  show ?thesis
    unfolding get_u32_def s using d unat_u32_bound [of a] assms
    by (simp add: Let_def digits_take read_show_nat)
qed

lemma get_delim_word:
  assumes "is_word w" "ends_word rest"
  shows "get_delim (w @ rest) = Some rest" "get_delim (CHR '' '' # w @ rest) = Some rest"
  using assms get_word_word [OF assms] by (simp_all add: get_delim_def get_word_space is_word_def)

text \<open>
  a PCI address is read back from its own text; the closing brace stays in the stream.
\<close>

theorem pci_info_roundtrip: "read_PCIInfo (show_PCIInfo p @ rest) = Inr (p, CHR ''}'' # rest)"
proof -
  have sp: "ends_word (CHR '' '' # s)" for s by (simp add: ends_word_def is_space_def)
  have nd: "\<not> is_digit 10 CHR '' ''" "\<not> is_digit 16 CHR '' ''" "\<not> is_digit 10 CHR ''}''" by code_simp+
  have w: "is_word ''{domain:''" "is_word ''bus:''" "is_word ''device:''" "is_word ''function:''"
    by (simp_all add: word_simps)
  note words = w [THEN get_delim_word(1), OF sp, simplified] w [THEN get_delim_word(2), OF sp, simplified]
  show ?thesis
    by (simp add: read_PCIInfo_def show_PCIInfo_def words get_u32_dec get_u32_hex nd)
qed

section \<open>Round trips\<close>

text \<open>
  every property enumeration is read back from the text it is printed as, in any list of values
  separated by blanks, and no two enumerators are printed alike; the reader of \<open>WorkloadType\<close>
  ignores case.
\<close>

theorem property_values_roundtrip:
  assumes "ends_word rest"
  shows "read_Priority (show_Priority a @ rest) = Inr (a, rest)
    \<and> read_PerformanceMode (show_PerformanceMode b @ rest) = Inr (b, rest)
    \<and> read_SchedulingCoreType (show_SchedulingCoreType c @ rest) = Inr (c, rest)
    \<and> read_ModelDistributionPolicy (show_ModelDistributionPolicy d @ rest) = Inr (d, rest)
    \<and> read_ExecutionMode (show_ExecutionMode e @ rest) = Inr (e, rest)
    \<and> read_Level (show_Level f @ rest) = Inr (f, rest)
    \<and> read_WorkloadType (show_WorkloadType g @ rest) = Inr (g, rest)
    \<and> read_CacheMode (show_CacheMode i @ rest) = Inr (i, rest)
    \<and> read_device_Type (show_device_Type j @ rest) = Inr (j, rest)
    \<and> read_Affinity (show_Affinity k @ rest) = Inr (k, rest)
    \<and> modeldistributionpolicy.read_values (length ds) (modeldistributionpolicy.show_values ds @ rest) = Inr (ds, rest)"
  using assms
  by (simp add: priority.read_show performancemode.read_show schedulingcoretype.read_show
      modeldistributionpolicy.read_show executionmode.read_show level.read_show workloadtype.read_show
      cachemode.read_show device_type.read_show affinity.read_show modeldistributionpolicy.read_show_values)

theorem property_values_roundtrip_witness:
  "read_Level (''LOG_INFO'' @ '' LOG_NONE'') = Inr (Level_INFO, '' LOG_NONE'')
   \<and> read_CacheMode (''optimize_size'' @ '' LOG_NONE'') = Inr (OPTIMIZE_SIZE, '' LOG_NONE'')"
proof -
  have e: "ends_word '' LOG_NONE''" by (simp add: ends_word_def is_space_def)
  show ?thesis
    using property_values_roundtrip [OF e, of undefined undefined undefined undefined undefined Level_INFO
        undefined OPTIMIZE_SIZE] by simp
qed

theorem num_streams_roundtrip_witness: "read_Num (show_Num (-1) @ '' 4'') = Inr (-1, '' 4'') \<and> show_Num (-1) = ''AUTO''"
proof -
  have e: "ends_word '' 4''" "in_int (-1)" by (simp_all add: ends_word_def is_space_def in_int_def)
  show ?thesis using num_streams_roundtrip [OF e(2,1)] by (simp add: show_Num_def AUTO_def)
qed

theorem num_streams_read_int_witness: "read_Num ''12abc'' = Inr (12, []) \<and> in_int 12"
proof -
  have r: "read_Num ''12abc'' = Inr (12, [])" by code_simp
  show ?thesis using num_streams_read_int [OF r] r by simp
qed

theorem device_id_roundtrip_witness:
  "read_UUID (show_UUID (replicate 16 171) @ ''x'') = Some (replicate 16 171, Some ''x'')
   \<and> read_LUID (show_LUID (replicate 8 7) @ ''x'') = Some (replicate 8 7, Some ''x'')"
proof -
  have l: "length (replicate 16 (171 :: u8)) = MAX_UUID_SIZE" "length (replicate 8 (7 :: u8)) = MAX_LUID_SIZE" by simp_all
  show ?thesis using device_id_roundtrip [OF l] by blast
qed

end
