(* ===== verification/Std_Text.thy ===== *)
theory Std_Text
  imports Ov_Stream "HOL-Library.List_Lexorder"
begin

text \<open>
  The library of strings and maps the samples are written with. \<open>std::string::npos\<close> is \<open>None\<close>.
  A \<open>std::map\<close> is the list of its entries in the order of its keys, the order in which the code
  walks it; strings are ordered as \<open>char_traits\<close> orders them, by the codes of their characters.
\<close>

section \<open>Maps\<close>

fun map_assign :: "'k::linorder \<Rightarrow> 'v \<Rightarrow> ('k \<times> 'v) list \<Rightarrow> ('k \<times> 'v) list" where
  "map_assign k v [] = [(k, v)]"
| "map_assign k v ((k1, v1) # m) =
     (if k < k1 then (k, v) # (k1, v1) # m
      else if k = k1 then (k, v) # m
      else (k1, v1) # map_assign k v m)"

definition map_erase :: "'k \<Rightarrow> ('k \<times> 'v) list \<Rightarrow> ('k \<times> 'v) list" where
  "map_erase k m = filter (\<lambda>e. fst e \<noteq> k) m"

definition map_wf :: "('k::linorder \<times> 'v) list \<Rightarrow> bool" where
  "map_wf m \<longleftrightarrow> sorted_wrt (<) (map fst m)"

lemma keys_map_assign: "set (map fst (map_assign k v m)) = insert k (set (map fst m))"
  by (induction k v m rule: map_assign.induct) auto

lemma map_wf_assign: "map_wf m \<Longrightarrow> map_wf (map_assign k v m)"
proof (induction k v m rule: map_assign.induct)
  case (1 k v)
  then show ?case by (simp add: map_wf_def)
next
  case (2 k v k1 v1 m)
  then show ?case
    using keys_map_assign [of k v m] by (fastforce simp: map_wf_def)
qed

lemma map_of_assign: "map_of (map_assign k v m) = (map_of m)(k \<mapsto> v)"
  by (induction k v m rule: map_assign.induct) auto

lemma map_of_erase: "map_of (map_erase k m) = (map_of m)(k := None)"
  by (induction m) (auto simp: map_erase_def)

lemma map_wf_distinct: "map_wf m \<Longrightarrow> distinct (map fst m)"
  by (auto simp: map_wf_def strict_sorted_iff)

lemma map_wf_in: "map_wf m \<Longrightarrow> (k, v) \<in> set m \<longleftrightarrow> map_of m k = Some v"
  using map_wf_distinct [of m] by auto

text \<open>What a user of a map relies on: an assignment changes the one entry and keeps the map in order.\<close>

locale dictionary =
  fixes assign :: "'k \<Rightarrow> 'v \<Rightarrow> 'm \<Rightarrow> 'm"
    and erase :: "'k \<Rightarrow> 'm \<Rightarrow> 'm"
    and look :: "'m \<Rightarrow> 'k \<Rightarrow> 'v option"
    and wf :: "'m \<Rightarrow> bool"
  assumes look_assign: "look (assign k v m) = (look m)(k \<mapsto> v)"
    and look_erase: "look (erase k m) = (look m)(k := None)"
    and wf_assign: "wf m \<Longrightarrow> wf (assign k v m)"
    and wf_erase: "wf m \<Longrightarrow> wf (erase k m)"
begin

text \<open>A series of assignments keeps the last value of each key.\<close>

fun assigns :: "('k \<times> 'v) list \<Rightarrow> 'm \<Rightarrow> 'm" where
  "assigns [] m = m"
| "assigns ((k, v) # es) m = assigns es (assign k v m)"

lemma look_assigns: "look (assigns es m) = look m ++ map_of (rev es)"
proof (induction es arbitrary: m)
  case Nil
  then show ?case by simp
next
  case (Cons e es)
  obtain k v where e: "e = (k, v)" by (cases e)
  show ?case by (simp add: e Cons.IH look_assign map_add_def fun_eq_iff split: option.split)
qed

lemma wf_assigns: "wf m \<Longrightarrow> wf (assigns es m)"
  by (induction es m rule: assigns.induct) (simp_all add: wf_assign)

text \<open>Assigning one value to many keys.\<close>

lemma look_assigns_same: "look (assigns (map (\<lambda>k. (k, v)) ks) m) k = (if k \<in> set ks then Some v else look m k)"
proof -
  have "map_of (rev (map (\<lambda>k. (k, v)) ks)) k = (if k \<in> set ks then Some v else None)"
    using map_of_map_restrict [of "\<lambda>_. v" "rev ks"] by (simp add: rev_map restrict_map_def)
  then show ?thesis by (simp add: look_assigns map_add_def)
qed

end

interpretation std_map: dictionary map_assign map_erase map_of map_wf
  by unfold_locales
    (simp_all add: map_of_assign map_of_erase map_wf_assign, simp add: map_wf_def map_erase_def sorted_wrt_map sorted_wrt_filter)

section \<open>Positions\<close>

fun find_char :: "char \<Rightarrow> string \<Rightarrow> nat option" where
  "find_char d [] = None"
| "find_char d (c # s) = (if c = d then Some 0 else map_option Suc (find_char d s))"

fun find_last_char :: "char \<Rightarrow> string \<Rightarrow> nat option" where
  "find_last_char d [] = None"
| "find_last_char d (c # s) =
     (case find_last_char d s of Some p \<Rightarrow> Some (Suc p) | None \<Rightarrow> if c = d then Some 0 else None)"

definition is_prefix :: "string \<Rightarrow> string \<Rightarrow> bool" where
  "is_prefix p s \<longleftrightarrow> take (length p) s = p"

fun contains_str :: "string \<Rightarrow> string \<Rightarrow> bool" where
  "contains_str p [] \<longleftrightarrow> p = []"
| "contains_str p (c # s) \<longleftrightarrow> is_prefix p (c # s) \<or> contains_str p s"

lemma find_char_None: "find_char d s = None \<longleftrightarrow> d \<notin> set s"
  by (induction s) auto

lemma find_char_less: "find_char d s = Some p \<Longrightarrow> p < length s"
  by (induction s arbitrary: p) (auto split: if_splits)

lemma find_char_split: "d \<notin> set a \<Longrightarrow> find_char d (a @ d # b) = Some (length a)"
  by (induction a) auto

lemma find_last_char_None: "find_last_char d s = None \<longleftrightarrow> d \<notin> set s"
  by (induction s) (auto split: option.split)

lemma find_last_char_split: "d \<notin> set b \<Longrightarrow> find_last_char d (a @ d # b) = Some (length a)"
proof (induction a)
  case Nil
  then have "find_last_char d b = None" by (simp add: find_last_char_None)
  then show ?case by simp
next
  case (Cons c a)
  then show ?case by simp
qed

section \<open>Lines\<close>

text \<open>
  The items \<open>std::getline\<close> extracts from a string stream: each ends at a delimiter or at the end,
  and nothing is extracted from an exhausted stream, so a trailing delimiter adds no empty item.
\<close>

function getlines :: "char \<Rightarrow> string \<Rightarrow> string list" where
  "getlines d s =
     (if s = [] then []
      else takeWhile (\<lambda>c. c \<noteq> d) s # getlines d (drop 1 (dropWhile (\<lambda>c. c \<noteq> d) s)))"
  by pat_completeness auto

termination
proof (relation "measure (\<lambda>(d, s). length s)")
  show "wf (measure (\<lambda>(d, s). length s))" by simp
next
  fix d :: char and s :: string
  assume "s \<noteq> []"
  moreover have "length (dropWhile (\<lambda>c. c \<noteq> d) s) \<le> length s" by (rule length_dropWhile_le)
  ultimately have "length (dropWhile (\<lambda>c. c \<noteq> d) s) - 1 < length s" by (cases s) (auto simp: le_imp_less_Suc)
  then show "((d, drop 1 (dropWhile (\<lambda>c. c \<noteq> d) s)), (d, s)) \<in> measure (\<lambda>(d, s). length s)" by simp
qed

declare getlines.simps [simp del]

fun join_with :: "char \<Rightarrow> string list \<Rightarrow> string" where
  "join_with d [] = []"
| "join_with d [s] = s"
| "join_with d (s # t # ts) = s @ d # join_with d (t # ts)"

lemma getlines_Nil [simp]: "getlines d [] = []"
  by (subst getlines.simps) simp

lemma getlines_one: "s \<noteq> [] \<Longrightarrow> d \<notin> set s \<Longrightarrow> getlines d s = [s]"
proof -
  assume s: "s \<noteq> []" "d \<notin> set s"
  then have "takeWhile (\<lambda>c. c \<noteq> d) s = s" and e: "dropWhile (\<lambda>c. c \<noteq> d) s = []"
    by (auto simp: takeWhile_eq_all_conv dropWhile_eq_Nil_conv)
  then show ?thesis using s(1) by (subst getlines.simps) (simp only: e if_False drop_Nil getlines_Nil)
qed

lemma getlines_split: "d \<notin> set a \<Longrightarrow> getlines d (a @ d # b) = a # getlines d b"
proof -
  assume a: "d \<notin> set a"
  then have "takeWhile (\<lambda>c. c \<noteq> d) (a @ d # b) = a" "dropWhile (\<lambda>c. c \<noteq> d) (a @ d # b) = d # b"
    by (induction a) auto
  then show ?thesis by (subst getlines.simps) simp
qed

text \<open>Items that do not end in an empty one are split as they were joined.\<close>

lemma getlines_join:
  "\<forall>s \<in> set ss. d \<notin> set s \<Longrightarrow> ss \<noteq> [] \<Longrightarrow> last ss \<noteq> [] \<Longrightarrow> getlines d (join_with d ss) = ss"
  by (induction d ss rule: join_with.induct) (auto simp: getlines_one getlines_split)

lemma getlines_no_delim: "s \<in> set (getlines d t) \<Longrightarrow> d \<notin> set s"
proof (induction d t rule: getlines.induct)
  case (1 d t)
  show ?case
  proof (cases "t = []")
    case False
    then show ?thesis
      using 1 by (subst (asm) (2) getlines.simps) (auto dest: set_takeWhileD)
  qed (use 1 in simp)
qed

lemma join_filter: "P d \<Longrightarrow> filter P (join_with d ss) = join_with d (map (filter P) ss)"
  by (induction d ss rule: join_with.induct) simp_all

end
