(* ===== verification/Sample_Args.thy ===== *)
theory Sample_Args
  imports Std_Text
begin

text \<open>
  The command-line helpers of the samples (\<open>samples/cpp/common/utils/src/args_helper.cpp\<close>): input
  files, maps of names to values, element types, and the configuration of the pre- and
  post-processing. A thrown exception is \<open>Inl\<close> with its message; \<open>None\<close> is undefined behaviour.
  The file system is a function from paths to nodes. Of the runtime library the code uses
  \<open>ov::Layout\<close>, which parses a text or throws, and \<open>PrePostProcessor\<close>, which is told the settings
  one by one and then builds the model: both are parameters, the settings a list of calls.
  What is printed for information is not modelled.
\<close>

definition and_then :: "'a result \<Rightarrow> ('a \<Rightarrow> 'b result) \<Rightarrow> 'b result" where
  "and_then r f = (case r of Inl e \<Rightarrow> Inl e | Inr x \<Rightarrow> f x)"

lemma and_then_simps [simp]: "and_then (Inl e) f = Inl e" "and_then (Inr x) f = f x"
  by (simp_all add: and_then_def)

section \<open>Element types\<close>

datatype Type_t =
    ET_undefined | ET_dynamic | ET_boolean | ET_bf16 | ET_f16 | ET_f32 | ET_f64
  | ET_i4 | ET_i8 | ET_i16 | ET_i32 | ET_i64
  | ET_u1 | ET_u2 | ET_u3 | ET_u4 | ET_u6 | ET_u8 | ET_u16 | ET_u32 | ET_u64
  | ET_nf4 | ET_f8e4m3 | ET_f8e5m2 | ET_string | ET_f4e2m1 | ET_f8e8m0

section \<open>Input files\<close>

datatype fs_node = Regular_file | Directory "string list option"

definition readInputFilesArguments :: "(string \<Rightarrow> fs_node option) \<Rightarrow> string list \<Rightarrow> string \<Rightarrow> string list result" where
  "readInputFilesArguments fs files arg =
     (case fs arg of
        None \<Rightarrow> Inl (arg @ '' file or directory not found.'')
      | Some (Directory None) \<Rightarrow> Inl (arg @ '' directory cannot be opened!'')
      | Some (Directory (Some entries)) \<Rightarrow>
          let found = map (\<lambda>e. arg @ ''/'' @ e) (filter (\<lambda>e. e \<noteq> ''.'' \<and> e \<noteq> ''..'') entries)
          in if found = [] then Inl (''No files were found in directory '' @ arg) else Inr (files @ found)
      | Some Regular_file \<Rightarrow> Inr (files @ [arg]))"

fun read_files :: "(string \<Rightarrow> fs_node option) \<Rightarrow> string list \<Rightarrow> string list \<Rightarrow> string list result" where
  "read_files fs files [] = Inr files"
| "read_files fs files (img # imgs) =
     and_then (readInputFilesArguments fs files img) (\<lambda>files. read_files fs files imgs)"

definition is_image_arg :: "string \<Rightarrow> bool" where
  "is_image_arg s \<longleftrightarrow> s = ''-i'' \<or> s = ''--images''"

text \<open>The first character of an empty string does not exist.\<close>

definition is_arg :: "string \<Rightarrow> bool option" where
  "is_arg s = (case s of [] \<Rightarrow> None | c # _ \<Rightarrow> Some (c = CHR ''-''))"

fun split_images :: "string list \<Rightarrow> (string list \<times> string list) option" where
  "split_images [] = Some ([], [])"
| "split_images (s # ss) =
     (case is_arg s of
        None \<Rightarrow> None
      | Some True \<Rightarrow> Some ([], s # ss)
      | Some False \<Rightarrow> map_option (\<lambda>(imgs, rest). (s # imgs, rest)) (split_images ss))"

lemma split_images_length: "split_images ss = Some (imgs, rest) \<Longrightarrow> length rest \<le> length ss"
  by (induction ss arbitrary: imgs) (auto split: option.splits bool.splits intro: le_SucI)

function parse_images ::
    "(string \<Rightarrow> fs_node option) \<Rightarrow> string list \<Rightarrow> string list \<Rightarrow> (string list result) option" where
  "parse_images fs args files =
     (case dropWhile (\<lambda>s. \<not> is_image_arg s) args of
        [] \<Rightarrow> Some (Inr files)
      | _ # rest \<Rightarrow>
          (case split_images rest of
             None \<Rightarrow> None
           | Some (imgs, args1) \<Rightarrow>
               (case read_files fs files imgs of
                  Inl e \<Rightarrow> Some (Inl e)
                | Inr files1 \<Rightarrow> parse_images fs args1 files1)))"
  by pat_completeness auto

termination
proof (relation "measure (\<lambda>(fs, args, files). length args)")
  fix fs :: "string \<Rightarrow> fs_node option" and args files s rest x imgs args1 files1
  assume a: "dropWhile (\<lambda>s. \<not> is_image_arg s) args = s # rest" "split_images rest = Some x" "(imgs, args1) = x"
  have "length (s # rest) \<le> length args" unfolding a(1) [symmetric] by (rule length_dropWhile_le)
  moreover have "length args1 \<le> length rest" using split_images_length a by metis
  ultimately show "((fs, args1, files1), (fs, args, files)) \<in> measure (\<lambda>(fs, args, files). length args)" by simp
qed simp

declare parse_images.simps [simp del]

definition parseInputFilesArguments :: "(string \<Rightarrow> fs_node option) \<Rightarrow> string list \<Rightarrow> string list \<Rightarrow> (string list result) option" where
  "parseInputFilesArguments fs args files = parse_images fs args files"

section \<open>Maps of names to values\<close>

definition splitStringList :: "string \<Rightarrow> char \<Rightarrow> string list" where
  "splitStringList str delim = (if str = [] then [] else filter (\<lambda>elem. elem \<noteq> []) (getlines delim str))"

definition parse_pair :: "string \<Rightarrow> (string \<times> string) result" where
  "parse_pair pair =
     (let lastDelimPos = find_last_char CHR '':'' pair;
          key = (case lastDelimPos of None \<Rightarrow> pair | Some p \<Rightarrow> take p pair);
          value = (case lastDelimPos of None \<Rightarrow> pair | Some p \<Rightarrow> drop (p + 1) pair)
      in if lastDelimPos = None \<or> key = [] \<or> value = []
         then Inl (''Invalid key/value pair '' @ pair @ ''. Expected <layer_name>:<value>'')
         else Inr (key, value))"

fun parse_pairs :: "string list \<Rightarrow> (string \<times> string) list \<Rightarrow> (string \<times> string) list result" where
  "parse_pairs [] m = Inr m"
| "parse_pairs (p # ps) m = and_then (parse_pair p) (\<lambda>(key, value). parse_pairs ps (map_assign key value m))"

definition parseArgMap :: "string \<Rightarrow> (string \<times> string) list result" where
  "parseArgMap argMap = parse_pairs (splitStringList (filter (\<lambda>c. \<not> is_space c) argMap) CHR '','') []"

section \<open>Names of element types\<close>

definition toupper :: "char \<Rightarrow> char" where
  "toupper c = (let n = of_char c :: nat in if 97 \<le> n \<and> n \<le> 122 then char_of (n - 32) else c)"

definition getType_in :: "string \<Rightarrow> (string \<times> Type_t) list \<Rightarrow> Type_t result" where
  "getType_in value supported_precisions =
     (let value = map toupper value
      in case map_of supported_precisions value of
           None \<Rightarrow> Inl (CHR 0x22 # value @ CHR 0x22 # '' is not a valid precision'')
         | Some precision \<Rightarrow> Inr precision)"

definition supported_types :: "(string \<times> Type_t) list" where
  "supported_types =
     [(''FP32'', ET_f32), (''f32'', ET_f32), (''FP16'', ET_f16), (''f16'', ET_f16), (''BF16'', ET_bf16), (''bf16'', ET_bf16),
      (''U64'', ET_u64), (''u64'', ET_u64), (''I64'', ET_i64), (''i64'', ET_i64), (''U32'', ET_u32), (''u32'', ET_u32),
      (''I32'', ET_i32), (''i32'', ET_i32), (''U16'', ET_u16), (''u16'', ET_u16), (''I16'', ET_i16), (''i16'', ET_i16),
      (''U8'', ET_u8), (''u8'', ET_u8), (''I8'', ET_i8), (''i8'', ET_i8), (''BOOL'', ET_boolean), (''boolean'', ET_boolean)]"

definition getType :: "string \<Rightarrow> Type_t result" where
  "getType value = getType_in value supported_types"

definition getPrecision :: "string \<Rightarrow> (string \<times> Type_t) list \<Rightarrow> Type_t result" where
  "getPrecision value supported_precisions =
     (let value = map toupper value
      in case map_of supported_precisions value of
           None \<Rightarrow> Inl (CHR 0x22 # value @ CHR 0x22 # '' is not a valid precision'')
         | Some precision \<Rightarrow> Inr precision)"

definition getPrecision2 :: "string \<Rightarrow> Type_t result" where
  "getPrecision2 value = getPrecision value
     [(''F32'', ET_f32), (''F16'', ET_f16), (''BF16'', ET_bf16), (''U64'', ET_u64), (''I64'', ET_i64), (''U32'', ET_u32),
      (''I32'', ET_i32), (''U16'', ET_u16), (''I16'', ET_i16), (''U8'', ET_u8), (''I8'', ET_i8), (''BOOL'', ET_boolean)]"

section \<open>Pre- and post-processing\<close>

datatype 'l prep_call =
    Input_tensor_type nat Type_t | Output_tensor_type nat Type_t
  | Input_tensor_layout nat 'l | Output_tensor_layout nat 'l
  | Input_model_layout nat 'l | Output_model_layout nat 'l

text \<open>A port is the names of its tensor; the loops look for the first port that has the name.\<close>

fun find_port :: "string \<Rightarrow> string list list \<Rightarrow> nat option" where
  "find_port name [] = None"
| "find_port name (p # ps) = (if name \<in> set p then Some 0 else map_option Suc (find_port name ps))"

definition no_tensor :: "string \<Rightarrow> string" where
  "no_tensor name = ''Model doesn't have input/output with tensor name: '' @ name"

fun set_types :: "(nat \<Rightarrow> Type_t \<Rightarrow> 'l prep_call) \<Rightarrow> Type_t \<Rightarrow> nat list \<Rightarrow> 'l prep_call list \<Rightarrow> 'l prep_call list" where
  "set_types mk type [] calls = calls"
| "set_types mk type (i # is) calls = set_types mk type is (calls @ [mk i type])"

fun set_layouts ::
    "(string \<Rightarrow> 'l result) \<Rightarrow> (nat \<Rightarrow> 'l \<Rightarrow> 'l prep_call) \<Rightarrow> string \<Rightarrow> nat list \<Rightarrow> 'l prep_call list \<Rightarrow> 'l prep_call list result" where
  "set_layouts Layout mk l [] calls = Inr calls"
| "set_layouts Layout mk l (i # is) calls =
     and_then (Layout l) (\<lambda>x. set_layouts Layout mk l is (calls @ [mk i x]))"

text \<open>Settings by name: the assertion after the search is \<open>OPENVINO_ASSERT(!tensorFound, ...)\<close>.\<close>

fun set_types_by_name ::
    "string list list \<Rightarrow> string list list \<Rightarrow> (string \<times> string) list \<Rightarrow> 'l prep_call list \<Rightarrow> 'l prep_call list result" where
  "set_types_by_name inputs outputs [] calls = Inr calls"
| "set_types_by_name inputs outputs ((tensor_name, v) # items) calls =
     and_then (getType v) (\<lambda>type.
       let (tensorFound, calls) =
             (case find_port tensor_name inputs of
                Some i \<Rightarrow> (True, calls @ [Input_tensor_type i type])
              | None \<Rightarrow>
                  (case find_port tensor_name outputs of
                     Some i \<Rightarrow> (True, calls @ [Output_tensor_type i type])
                   | None \<Rightarrow> (False, calls)))
       in if \<not> tensorFound then set_types_by_name inputs outputs items calls else Inl (no_tensor tensor_name))"

fun set_layouts_by_name ::
    "(string \<Rightarrow> 'l result) \<Rightarrow> (nat \<Rightarrow> 'l \<Rightarrow> 'l prep_call) \<Rightarrow> (nat \<Rightarrow> 'l \<Rightarrow> 'l prep_call)
     \<Rightarrow> string list list \<Rightarrow> string list list \<Rightarrow> (string \<times> string) list \<Rightarrow> 'l prep_call list \<Rightarrow> 'l prep_call list result" where
  "set_layouts_by_name Layout mk_in mk_out inputs outputs [] calls = Inr calls"
| "set_layouts_by_name Layout mk_in mk_out inputs outputs ((tensor_name, v) # items) calls =
     and_then
       (case find_port tensor_name inputs of
          Some i \<Rightarrow> and_then (Layout v) (\<lambda>l. Inr (True, calls @ [mk_in i l]))
        | None \<Rightarrow>
            (case find_port tensor_name outputs of
               Some i \<Rightarrow> and_then (Layout v) (\<lambda>l. Inr (True, calls @ [mk_out i l]))
             | None \<Rightarrow> Inr (False, calls)))
       (\<lambda>(tensorFound, calls).
          if \<not> tensorFound then set_layouts_by_name Layout mk_in mk_out inputs outputs items calls
          else Inl (no_tensor tensor_name))"

text \<open>Each option is handled when it is given.\<close>

definition given :: "string \<Rightarrow> ('a \<Rightarrow> 'a result) \<Rightarrow> 'a \<Rightarrow> 'a result" where
  "given opt f x = (if opt \<noteq> [] then f x else Inr x)"

definition configurePrePostProcessing ::
    "(string \<Rightarrow> 'l result) \<Rightarrow> ('l prep_call list \<Rightarrow> 'm result) \<Rightarrow> string list list \<Rightarrow> string list list
     \<Rightarrow> string \<Rightarrow> string \<Rightarrow> string \<Rightarrow> string \<Rightarrow> string \<Rightarrow> string \<Rightarrow> string \<Rightarrow> string \<Rightarrow> string \<Rightarrow> 'm result" where
  "configurePrePostProcessing Layout build inputs outputs ip oprec iop il ol iol iml oml ioml =
     (let ins = [0..<length inputs]; outs = [0..<length outputs]
      in and_then (given ip (\<lambda>calls. and_then (getType ip) (\<lambda>type. Inr (set_types Input_tensor_type type ins calls))) []) (\<lambda>calls.
         and_then (given oprec (\<lambda>calls. and_then (getType oprec) (\<lambda>type. Inr (set_types Output_tensor_type type outs calls))) calls) (\<lambda>calls.
         and_then (given iop (\<lambda>calls. and_then (parseArgMap iop) (\<lambda>m. set_types_by_name inputs outputs m calls)) calls) (\<lambda>calls.
         and_then (given il (set_layouts Layout Input_tensor_layout il ins) calls) (\<lambda>calls.
         and_then (given ol (set_layouts Layout Output_tensor_layout ol outs) calls) (\<lambda>calls.
         and_then (given iol (\<lambda>calls. and_then (parseArgMap iol) (\<lambda>m.
             set_layouts_by_name Layout Input_tensor_layout Output_tensor_layout inputs outputs m calls)) calls) (\<lambda>calls.
         and_then (given iml (set_layouts Layout Input_model_layout iml ins) calls) (\<lambda>calls.
         and_then (given oml (set_layouts Layout Output_model_layout oml outs) calls) (\<lambda>calls.
         and_then (given ioml (\<lambda>calls. and_then (parseArgMap ioml) (\<lambda>m.
             set_layouts_by_name Layout Input_model_layout Output_model_layout inputs outputs m calls)) calls) (\<lambda>calls.
         build calls))))))))))"

section \<open>Maps of names to values, written and parsed\<close>

definition show_entries :: "(string \<times> string) list \<Rightarrow> string" where
  "show_entries es = join_with CHR '','' (map (\<lambda>(k, v). k @ CHR '':'' # v) es)"

definition entry_ok :: "string \<times> string \<Rightarrow> bool" where
  "entry_ok e \<longleftrightarrow> fst e \<noteq> [] \<and> snd e \<noteq> [] \<and> CHR '','' \<notin> set (fst e) \<and> CHR '','' \<notin> set (snd e) \<and> CHR '':'' \<notin> set (snd e)"

lemma parse_pair_entry: "entry_ok (k, v) \<Longrightarrow> parse_pair (k @ CHR '':'' # v) = Inr (k, v)"
  by (simp add: parse_pair_def find_last_char_split entry_ok_def)

lemma parse_pairs_entries:
  "\<forall>e \<in> set es. entry_ok e \<Longrightarrow>
   parse_pairs (map (\<lambda>(k, v). k @ CHR '':'' # v) es) m = Inr (std_map.assigns es m)"
proof (induction es arbitrary: m)
  case Nil
  then show ?case by simp
next
  case (Cons e es)
  obtain k v where e: "e = (k, v)" by (cases e)
  have "parse_pair (k @ CHR '':'' # v) = Inr (k, v)" using Cons.prems e parse_pair_entry by simp
  then show ?case using Cons.IH Cons.prems e by simp
qed

lemma split_entries:
  assumes "\<forall>e \<in> set es. entry_ok e"
  shows "splitStringList (show_entries es) CHR '','' = map (\<lambda>(k, v). k @ CHR '':'' # v) es"
proof (cases "es = []")
  case True
  then show ?thesis by (simp add: splitStringList_def show_entries_def)
next
  case False
  let ?ss = "map (\<lambda>(k, v). k @ CHR '':'' # v) es"
  have ok: "\<forall>s \<in> set ?ss. CHR '','' \<notin> set s \<and> s \<noteq> []" using assms by (auto simp: entry_ok_def)
  have "getlines CHR '','' (join_with CHR '','' ?ss) = ?ss"
  proof (rule getlines_join)
    show "last ?ss \<noteq> []" using ok False last_in_set [of ?ss] by blast
  qed (use ok False in auto)
  moreover have "filter (\<lambda>s. s \<noteq> []) ?ss = ?ss" by (subst filter_id_conv) (use ok in blast)
  ultimately show ?thesis
    by (auto simp: splitStringList_def show_entries_def)
qed

text \<open>
  a text that is, up to white space anywhere in it, a comma-separated list of \<open>name:value\<close>
  entries, where names may contain colons, is parsed into the map of the last value of each name;
  the map is in the order of the names.
\<close>

theorem parseArgMap_roundtrip:
  assumes "filter (\<lambda>c. \<not> is_space c) text = show_entries es" and "\<forall>e \<in> set es. entry_ok e"
  shows "\<exists>m. parseArgMap text = Inr m \<and> map_wf m \<and> map_of m = map_of (rev es)"
proof -
  have "parseArgMap text = Inr (std_map.assigns es [])"
    by (simp add: parseArgMap_def assms(1) split_entries [OF assms(2)] parse_pairs_entries [OF assms(2)])
  moreover have "map_wf (std_map.assigns es [])"
    by (rule std_map.wf_assigns) (simp add: map_wf_def)
  ultimately show ?thesis by (simp add: std_map.look_assigns)
qed

lemma parseArgMap_roundtrip_witness:
  "\<exists>m. parseArgMap ''a:b:NCHW, x : f32'' = Inr m \<and> map_wf m \<and> map_of m = map_of (rev [(''a:b'', ''NCHW''), (''x'', ''f32'')])"
  by (rule parseArgMap_roundtrip) (simp_all add: is_space_def show_entries_def entry_ok_def)

section \<open>The element types that can be named\<close>

definition upper_rows :: "(string \<times> Type_t) list" where
  "upper_rows =
     [(''FP32'', ET_f32), (''FP16'', ET_f16), (''BF16'', ET_bf16), (''U64'', ET_u64), (''I64'', ET_i64), (''U32'', ET_u32),
      (''I32'', ET_i32), (''U16'', ET_u16), (''I16'', ET_i16), (''U8'', ET_u8), (''I8'', ET_i8), (''BOOL'', ET_boolean)]"

lemma toupper_not_lower:
  "toupper c \<noteq> CHR ''f''" "toupper c \<noteq> CHR ''b''" "toupper c \<noteq> CHR ''u''" "toupper c \<noteq> CHR ''i''"
proof -
  let ?n = "of_char c :: nat"
  have "(?n - 32) mod 256 = ?n - 32" if "?n \<le> 122" using that by (intro mod_less) simp
  then have "\<not> (97 \<le> (of_char (toupper c) :: nat) \<and> of_char (toupper c) \<le> (122 :: nat))"
    by (auto simp: toupper_def Let_def)
  then show "toupper c \<noteq> CHR ''f''" "toupper c \<noteq> CHR ''b''" "toupper c \<noteq> CHR ''u''" "toupper c \<noteq> CHR ''i''"
    by auto
qed

lemma upper_not_row:
  "map toupper v \<noteq> CHR ''f'' # s" "map toupper v \<noteq> CHR ''b'' # s" "map toupper v \<noteq> CHR ''u'' # s" "map toupper v \<noteq> CHR ''i'' # s"
  using toupper_not_lower by (auto simp: Cons_eq_map_conv)

text \<open>
  the value is looked up in upper case, so of the rows of the table exactly the upper-case ones
  can be found; \<open>f32\<close>, \<open>f16\<close> and \<open>boolean\<close>, which have rows of their own, are rejected.
\<close>

theorem getType_accepts_upper_rows:
  "getType v = (case map_of upper_rows (map toupper v) of
       None \<Rightarrow> Inl (CHR 0x22 # map toupper v @ CHR 0x22 # '' is not a valid precision'')
     | Some t \<Rightarrow> Inr t)
   \<and> map_of supported_types ''f32'' = Some ET_f32 \<and> (\<exists>e. getType ''f32'' = Inl e)
   \<and> map_of supported_types ''f16'' = Some ET_f16 \<and> (\<exists>e. getType ''f16'' = Inl e)
   \<and> map_of supported_types ''boolean'' = Some ET_boolean \<and> (\<exists>e. getType ''boolean'' = Inl e)"
proof -
  have "map_of supported_types (map toupper v) = map_of upper_rows (map toupper v)"
    by (simp only: supported_types_def upper_rows_def map_of.simps fun_upd_def fst_conv snd_conv upper_not_row if_False)
  moreover have "getType ''f32'' = Inl (CHR 0x22 # ''F32'' @ CHR 0x22 # '' is not a valid precision'')"
    "getType ''f16'' = Inl (CHR 0x22 # ''F16'' @ CHR 0x22 # '' is not a valid precision'')"
    "getType ''boolean'' = Inl (CHR 0x22 # ''BOOLEAN'' @ CHR 0x22 # '' is not a valid precision'')"
    by code_simp+
  moreover have "map_of supported_types ''f32'' = Some ET_f32" "map_of supported_types ''f16'' = Some ET_f16"
    "map_of supported_types ''boolean'' = Some ET_boolean"
    by code_simp+
  ultimately show ?thesis
    by (auto simp: getType_def getType_in_def Let_def)
qed

section \<open>The input files that are found\<close>

text \<open>What the options mean: the arguments between an image option and the next option.\<close>

fun selected :: "bool \<Rightarrow> string list \<Rightarrow> string list" where
  "selected on [] = []"
| "selected on (s # ss) =
     (if is_image_arg s then selected True ss
      else if is_arg s = Some True then selected False ss
      else if on then s # selected on ss else selected on ss)"

lemma is_image_arg_is_arg: "is_image_arg s \<Longrightarrow> is_arg s = Some True"
  by (auto simp: is_image_arg_def is_arg_def)

lemma selected_off: "selected False (dropWhile (\<lambda>s. \<not> is_image_arg s) args) = selected False args"
  by (induction args) auto

lemma split_images_selected:
  "\<forall>s \<in> set ss. s \<noteq> [] \<Longrightarrow>
   \<exists>imgs rest. split_images ss = Some (imgs, rest) \<and> selected True ss = imgs @ selected False rest \<and> set imgs \<union> set rest \<subseteq> set ss"
proof (induction ss)
  case Nil
  then show ?case by simp
next
  case (Cons s ss)
  then obtain b where b: "is_arg s = Some b" by (cases s) (auto simp: is_arg_def)
  show ?case
  proof (cases b)
    case True
    then show ?thesis using b by simp
  next
    case False
    then have "\<not> is_image_arg s" using b is_image_arg_is_arg by force
    with Cons False b show ?thesis by auto
  qed
qed

lemma read_files_plain:
  "\<forall>f \<in> set imgs. fs f = Some Regular_file \<Longrightarrow> read_files fs files imgs = Inr (files @ imgs)"
  by (induction imgs arbitrary: files) (simp_all add: readInputFilesArguments_def)

text \<open>
  when every argument is a non-empty text and what follows an image option names plain files,
  the list of files grows by exactly the arguments that stand between \<open>-i\<close> or \<open>--images\<close> and the
  next option, in their order, for any number of image options.
\<close>

theorem parse_input_files_selects:
  assumes "\<forall>s \<in> set args. s \<noteq> []" and "\<forall>s \<in> set (selected False args). fs s = Some Regular_file"
  shows "parseInputFilesArguments fs args files = Some (Inr (files @ selected False args))"
  unfolding parseInputFilesArguments_def
  using assms
proof (induction fs args files rule: parse_images.induct)
  case (1 fs args files)
  let ?d = "dropWhile (\<lambda>s. \<not> is_image_arg s) args"
  show ?case
  proof (cases ?d)
    case Nil
    then have "selected False args = []" using selected_off [of args] by (simp only: selected.simps)
    then show ?thesis by (subst parse_images.simps) (simp add: Nil)
  next
    case (Cons s rest)
    have "is_image_arg s" using hd_dropWhile [of "\<lambda>s. \<not> is_image_arg s" args] Cons by simp
    then have sel: "selected False args = selected True rest" using selected_off [of args] Cons by simp
    have sub: "set rest \<subseteq> set args" using Cons set_dropWhileD [of _ "\<lambda>s. \<not> is_image_arg s" args] by fastforce
    then have "\<forall>s \<in> set rest. s \<noteq> []" using "1.prems"(1) by blast
    then obtain imgs args1 where sp: "split_images rest = Some (imgs, args1)"
      "selected True rest = imgs @ selected False args1" "set imgs \<union> set args1 \<subseteq> set rest"
      using split_images_selected by blast
    have rd: "read_files fs files imgs = Inr (files @ imgs)"
      by (rule read_files_plain) (use "1.prems"(2) sel sp(2) in auto)
    have "parse_images fs args1 (files @ imgs) = Some (Inr ((files @ imgs) @ selected False args1))"
      by (rule "1.IH" [OF Cons sp(1) refl rd]) (use "1.prems" sel sp sub in auto)
    then show ?thesis
      by (subst parse_images.simps) (simp add: Cons sp(1) rd sel sp(2))
  qed
qed

lemma parse_input_files_selects_witness:
  "parseInputFilesArguments (\<lambda>f. Some Regular_file) [''app'', ''-i'', ''a'', ''b'', ''-d'', ''CPU'', ''--images'', ''c''] [''z'']
   = Some (Inr ([''z''] @ selected False [''app'', ''-i'', ''a'', ''b'', ''-d'', ''CPU'', ''--images'', ''c'']))
   \<and> selected False [''app'', ''-i'', ''a'', ''b'', ''-d'', ''CPU'', ''--images'', ''c''] = [''a'', ''b'', ''c'']"
proof
  show "parseInputFilesArguments (\<lambda>f. Some Regular_file) [''app'', ''-i'', ''a'', ''b'', ''-d'', ''CPU'', ''--images'', ''c''] [''z'']
   = Some (Inr ([''z''] @ selected False [''app'', ''-i'', ''a'', ''b'', ''-d'', ''CPU'', ''--images'', ''c'']))"
    by (rule parse_input_files_selects) simp_all
qed (simp add: is_image_arg_def is_arg_def)

section \<open>Settings by name\<close>

lemma set_types_by_name_absent:
  "\<forall>e \<in> set m. \<exists>t. getType (snd e) = Inr t \<Longrightarrow>
   \<forall>e \<in> set m. find_port (fst e) inputs = None \<and> find_port (fst e) outputs = None \<Longrightarrow>
   set_types_by_name inputs outputs m calls = Inr calls"
proof (induction m)
  case Nil
  then show ?case by simp
next
  case (Cons e m)
  then show ?case by (cases e) auto
qed

lemma set_types_by_name_present:
  "\<forall>e \<in> set m. \<exists>t. getType (snd e) = Inr t \<Longrightarrow>
   \<exists>e \<in> set m. find_port (fst e) inputs \<noteq> None \<or> find_port (fst e) outputs \<noteq> None \<Longrightarrow>
   \<exists>e \<in> set m. (find_port (fst e) inputs \<noteq> None \<or> find_port (fst e) outputs \<noteq> None)
     \<and> set_types_by_name inputs outputs m calls = Inl (no_tensor (fst e))"
proof (induction m)
  case Nil
  then show ?case by simp
next
  case (Cons e m)
  obtain name v where e: "e = (name, v)" by (cases e)
  obtain t where t: "getType v = Inr t" using Cons.prems(1) e by auto
  show ?case
  proof (cases "find_port name inputs = None \<and> find_port name outputs = None")
    case True
    then show ?thesis using Cons t by (auto simp: e)
  next
    case False
    then have "set_types_by_name inputs outputs (e # m) calls = Inl (no_tensor name)"
      using t by (cases "find_port name inputs") (auto simp: e)
    then show ?thesis using False by (auto simp: e)
  qed
qed

lemma find_port_None: "find_port name ports = None \<longleftrightarrow> (\<forall>p \<in> set ports. name \<notin> set p)"
  by (induction ports) auto

text \<open>
  C14: types given by tensor name are refused, with the message that the model has no such tensor,
  exactly when one of the names does belong to an input or an output; when none does, the option
  changes nothing and the model is built.
\<close>

theorem configure_rejects_present_names:
  fixes Layout :: "string \<Rightarrow> 'l result"
  assumes "iop \<noteq> []" "parseArgMap iop = Inr m" "\<forall>e \<in> set m. \<exists>t. getType (snd e) = Inr t"
  shows "if \<exists>e \<in> set m. \<exists>p \<in> set (inputs @ outputs). fst e \<in> set p
         then \<exists>e \<in> set m. (\<exists>p \<in> set (inputs @ outputs). fst e \<in> set p)
           \<and> configurePrePostProcessing Layout build inputs outputs [] [] iop [] [] [] [] [] [] = Inl (no_tensor (fst e))
         else configurePrePostProcessing Layout build inputs outputs [] [] iop [] [] [] [] [] [] = build []"
proof (cases "\<exists>e \<in> set m. \<exists>p \<in> set (inputs @ outputs). fst e \<in> set p")
  case True
  then have "\<exists>e \<in> set m. find_port (fst e) inputs \<noteq> None \<or> find_port (fst e) outputs \<noteq> None"
    unfolding find_port_None by auto
  from set_types_by_name_present [OF assms(3) this, of "[] :: 'l prep_call list"]
  obtain e where e: "e \<in> set m" "find_port (fst e) inputs \<noteq> None \<or> find_port (fst e) outputs \<noteq> None"
    and r: "set_types_by_name inputs outputs m ([] :: 'l prep_call list) = Inl (no_tensor (fst e))" by blast
  have "\<exists>p \<in> set (inputs @ outputs). fst e \<in> set p" using e(2) unfolding find_port_None by auto
  moreover have "configurePrePostProcessing Layout build inputs outputs [] [] iop [] [] [] [] [] [] = Inl (no_tensor (fst e))"
    using assms(1,2) r by (simp add: configurePrePostProcessing_def given_def)
  ultimately show ?thesis using True e(1) by (simp only: if_True) blast
next
  case False
  then have "set_types_by_name inputs outputs m ([] :: 'l prep_call list) = Inr []"
    by (intro set_types_by_name_absent assms(3)) (auto simp: find_port_None)
  then show ?thesis
    using False assms(1,2) by (simp only: if_False) (simp add: configurePrePostProcessing_def given_def)
qed

lemma configure_rejects_present_names_witness:
  "if \<exists>e \<in> set [(''x'', ''FP16'')]. \<exists>p \<in> set ([[''x'']] @ [[''y'']]). fst e \<in> set p
   then \<exists>e \<in> set [(''x'', ''FP16'')]. (\<exists>p \<in> set ([[''x'']] @ [[''y'']]). fst e \<in> set p)
     \<and> configurePrePostProcessing (\<lambda>l. Inr l) (\<lambda>calls. Inr calls) [[''x'']] [[''y'']] [] [] ''x:FP16'' [] [] [] [] [] []
       = Inl (no_tensor (fst e))
   else configurePrePostProcessing (\<lambda>l. Inr l) (\<lambda>calls. Inr calls) [[''x'']] [[''y'']] [] [] ''x:FP16'' [] [] [] [] [] [] = Inr []"
proof -
  have "parseArgMap ''x:FP16'' = Inr [(''x'', ''FP16'')]" by code_simp
  moreover have "getType ''FP16'' = Inr ET_f16" by code_simp
  ultimately show ?thesis by (intro configure_rejects_present_names) simp_all
qed

end
