(* ===== verification/Sample_Devices.thy ===== *)
theory Sample_Devices
  imports Sample_Args
begin

text \<open>
  The device options of \<open>benchmark_app\<close> (\<open>samples/cpp/benchmark_app/utils.cpp\<close>): lists of devices,
  values per device, and the configuration of a virtual device, together with the reader of a map
  from a text in \<open>core/any.hpp\<close> that the configuration goes through. \<open>None\<close> is undefined behaviour or
  a call that does not return, \<open>Inl\<close> a thrown exception.
\<close>

section \<open>Splitting\<close>

definition split_str :: "string \<Rightarrow> char \<Rightarrow> string list" where
  "split_str s delim = getlines delim s"

section \<open>Devices\<close>

definition default_durations :: "(string \<times> u32) list" where
  "default_durations = [(''CPU'', 60), (''GPU'', 60), (''NPU'', 60), (''UNKNOWN'', 120)]"

fun max_duration :: "string \<Rightarrow> (string \<times> u32) list \<Rightarrow> u32 \<Rightarrow> u32" where
  "max_duration device [] duration = duration"
| "max_duration device ((name, d) # ds) duration =
     max_duration device ds (if contains_str name device then max duration d else duration)"

definition device_default_device_duration_in_seconds :: "string \<Rightarrow> u32 result" where
  "device_default_device_duration_in_seconds device =
     (let duration = max_duration device default_durations 0
      in if duration = 0 then
           (case find (\<lambda>d. fst d = ''UNKNOWN'') default_durations of
              None \<Rightarrow> Inl ''UNKNOWN device was not found in the device duration list''
            | Some (_, d) \<Rightarrow> Inr d)
         else Inr duration)"

definition meta_plugins :: "string list" where
  "meta_plugins = [''MULTI'', ''HETERO'', ''AUTO'']"

definition is_virtual_device :: "string \<Rightarrow> bool" where
  "is_virtual_device device_name \<longleftrightarrow> device_name \<in> set meta_plugins"

fun is_virtual_device_found :: "string list \<Rightarrow> bool" where
  "is_virtual_device_found [] \<longleftrightarrow> False"
| "is_virtual_device_found (d # ds) \<longleftrightarrow> (if is_virtual_device d then True else is_virtual_device_found ds)"

text \<open>\<open>substr(from, to - from)\<close> of \<open>size_t\<close> positions: with \<open>to\<close> absent or before \<open>from\<close> it takes the rest.\<close>

definition substr_to :: "string \<Rightarrow> nat \<Rightarrow> nat option \<Rightarrow> string" where
  "substr_to s from stop =
     (case stop of Some e \<Rightarrow> if from \<le> e then take (e - from) (drop from s) else drop from s | None \<Rightarrow> drop from s)"

fun strip_minus :: "string list \<Rightarrow> string list \<Rightarrow> string list option" where
  "strip_minus [] result = Some result"
| "strip_minus (device # devices) result =
     (case device of
        [] \<Rightarrow> None
      | c # cs \<Rightarrow> strip_minus devices (result @ [if c = CHR ''-'' then cs else device]))"

definition parse_devices :: "string \<Rightarrow> string list option" where
  "parse_devices device_string =
     (case find_char CHR '':'' device_string of
        None \<Rightarrow> strip_minus (split_str device_string CHR '','') []
      | Some colon \<Rightarrow>
          let target_device = take colon device_string;
              result = (if is_virtual_device target_device then [target_device] else []);
              bracket = find_char CHR ''('' device_string
          in strip_minus (split_str (substr_to device_string (colon + 1) bracket) CHR '','') result)"

section \<open>Values per device\<close>

fun assign_all :: "string list \<Rightarrow> string \<Rightarrow> (string \<times> string) list \<Rightarrow> (string \<times> string) list" where
  "assign_all [] value result = result"
| "assign_all (device # devices) value result = assign_all devices value (map_assign device value result)"

definition not_found_msg :: "string \<Rightarrow> string list \<Rightarrow> string" where
  "not_found_msg device_name devices =
     ''Failed to set property to '' @ CHR 0x27 # device_name @ CHR 0x27 #
     '' which is not found whthin the target devices list '' @ CHR 0x27 #
     butlast (concat (map (\<lambda>d. d @ '' '') devices)) @ CHR 0x27 # ''!''"

fun value_loop :: "string list \<Rightarrow> string \<Rightarrow> string list \<Rightarrow> (string \<times> string) list \<Rightarrow> ((string \<times> string) list result) option" where
  "value_loop devices values_string [] result = Some (Inr result)"
| "value_loop devices values_string (item # items) result =
     (case split_str item CHR '':'' of
        [device_name, value] \<Rightarrow>
          if device_name \<in> set devices then value_loop devices values_string items (map_assign device_name value result)
          else if devices = [] then None
          else Some (Inl (not_found_msg device_name devices))
      | [value] \<Rightarrow> value_loop devices values_string items (assign_all devices value result)
      | [] \<Rightarrow> value_loop devices values_string items result
      | _ \<Rightarrow> Some (Inl (''Unknown string format: '' @ values_string)))"

definition parse_value_per_device :: "string list \<Rightarrow> string \<Rightarrow> ((string \<times> string) list result) option" where
  "parse_value_per_device devices values_string =
     value_loop devices values_string (split_str values_string CHR '','') []"

text \<open>The entries of the other devices go, in the order of the map, into the text; that of \<open>device\<close> stays.\<close>

fun virtual_loop :: "string \<Rightarrow> (string \<times> string) list \<Rightarrow> string \<Rightarrow> (string \<times> string) list \<times> string" where
  "virtual_loop device [] ss = ([], ss)"
| "virtual_loop device ((k, v) # m) ss =
     (if k = device then (let (kept, ss) = virtual_loop device m ss in ((k, v) # kept, ss))
      else virtual_loop device m (ss @ (if ss = [] then ''{'' else '','') @ k @ '':'' @ v))"

definition parse_value_for_virtual_device :: "string \<Rightarrow> (string \<times> string) list \<Rightarrow> (string \<times> string) list" where
  "parse_value_for_virtual_device device values_string =
     (case map_of values_string device of
        Some value \<Rightarrow>
          if length values_string > 1 \<and> device \<noteq> ''MULTI'' \<and> (device = ''AUTO'' \<or> device = ''HETERO'') then [(device, value)]
          else
            let m = (if length values_string > 1 \<and> device = ''MULTI'' then map_erase device values_string else values_string);
                (kept, ss) = virtual_loop device m []
            in if ss \<noteq> [] then map_assign device (ss @ ''}'') kept else kept
      | None \<Rightarrow>
          let (kept, ss) = virtual_loop device values_string []
          in if ss \<noteq> [] then map_assign device (ss @ ''}'') kept else kept)"

section \<open>Reading a map\<close>

text \<open>
  The loops of \<open>Read<std::map<K, T>>\<close>: \<open>is >> c\<close> skips white space and, at the end of the stream,
  leaves \<open>c\<close> as it was and the stream bad. One character is taken into account at the nesting level
  it is met at; \<open>None\<close> ends the value.
\<close>

definition value_char :: "char \<Rightarrow> nat \<Rightarrow> string \<Rightarrow> (nat \<times> string) option" where
  "value_char c level value =
     (if c = CHR '','' \<and> level = 0 then None
      else
        let level = (if c = CHR ''{'' \<or> c = CHR ''['' then level + 1 else level)
        in if c = CHR ''}'' \<or> c = CHR '']'' then (if level = 0 then None else Some (level - 1, value @ [c]))
           else Some (level, value @ [c]))"

function read_value_chars :: "char \<Rightarrow> nat \<Rightarrow> string \<Rightarrow> string \<Rightarrow> char \<times> string \<times> string \<times> bool" where
  "read_value_chars c level value is =
     (case skip_ws is of
        [] \<Rightarrow> (c, (case value_char c level value of None \<Rightarrow> value | Some (_, v) \<Rightarrow> v), [], False)
      | c1 # is1 \<Rightarrow>
          (case value_char c1 level value of
             None \<Rightarrow> (c1, value, is1, True)
           | Some (level1, value1) \<Rightarrow> read_value_chars c1 level1 value1 is1))"
  by pat_completeness auto

termination
proof (relation "measure (\<lambda>(c, l, v, is). length is)")
  fix s c1 s1 and c :: char and level level1 :: nat and v v1 :: string
  assume "skip_ws s = c1 # s1"
  then have "length (c1 # s1) \<le> length s" unfolding skip_ws_def by (metis length_dropWhile_le)
  then show "((c1, level1, v1, s1), (c, level, v, s)) \<in> measure (\<lambda>(c, l, v, is). length is)" by simp
qed simp

declare read_value_chars.simps [simp del]

text \<open>\<open>std::getline(is, key, ':')\<close>: the key, what is left, and whether the stream is still good.\<close>

definition getline_key :: "string \<Rightarrow> bool \<Rightarrow> string \<times> string \<times> bool" where
  "getline_key is good =
     (if \<not> good then ([], is, False)
      else if CHR '':'' \<in> set is then
        (takeWhile (\<lambda>c. c \<noteq> CHR '':'') is, drop 1 (dropWhile (\<lambda>c. c \<noteq> CHR '':'') is), True)
      else (is, [], False))"

definition map_emplace :: "'k::linorder \<Rightarrow> 'v \<Rightarrow> ('k \<times> 'v) list \<Rightarrow> ('k \<times> 'v) list" where
  "map_emplace k v m = (if map_of m k = None then map_assign k v m else m)"

partial_function (option) read_map_loop ::
    "char \<Rightarrow> string \<Rightarrow> bool \<Rightarrow> (string \<times> string) list \<Rightarrow> (string \<times> string) list option" where
  "read_map_loop c is good m =
     (if c = CHR ''}'' then Some m
      else
        let (key, is1, good1) = getline_key is good;
            (c2, value, is2, good2) = (if good1 then read_value_chars c 0 [] is1 else (c, [], is1, False))
        in read_map_loop c2 is2 good2 (map_emplace key value m))"

text \<open>An empty stream leaves the local \<open>c\<close> uninitialised.\<close>

definition read_map :: "string \<Rightarrow> ((string \<times> string) list result) option" where
  "read_map is =
     (case skip_ws is of
        [] \<Rightarrow> None
      | c # is1 \<Rightarrow>
          if c \<noteq> CHR ''{'' then Some (Inl ''Failed to parse std::map<K, T>. Starting symbols is not '{'')
          else map_option Inr (read_map_loop c is1 True []))"

section \<open>Configuration of a device\<close>

datatype 'a any = Any_string string | Any_map "(string \<times> 'a any) list" | Any_other 'a

type_synonym 'a any_map = "(string \<times> 'a any) list"

text \<open>
  \<open>as<ov::AnyMap>()\<close>: the stored map itself, or, for a stored text, a temporary map read from it
  (\<open>read_any_map\<close> is the library's reader); the flag says whether writing to it reaches the value.
\<close>

definition as_any_map :: "(string \<Rightarrow> 'a any_map result) \<Rightarrow> 'a any \<Rightarrow> (bool \<times> 'a any_map) result" where
  "as_any_map read_any_map a =
     (case a of
        Any_map m \<Rightarrow> Inr (True, m)
      | Any_string s \<Rightarrow> and_then (read_any_map s) (\<lambda>m. Inr (False, m))
      | Any_other _ \<Rightarrow> Inl ''Bad cast'')"

definition DEVICE_PROPERTIES :: string where "DEVICE_PROPERTIES = ''DEVICE_PROPERTIES''"

definition update_device_properties_setting ::
    "(string \<Rightarrow> 'a any_map result) \<Rightarrow> string \<Rightarrow> 'a any_map \<Rightarrow> string \<times> 'a any \<Rightarrow> 'a any_map result" where
  "update_device_properties_setting read_any_map device_name config device_property =
     (case map_of config DEVICE_PROPERTIES of
        None \<Rightarrow> Inr (map_assign DEVICE_PROPERTIES (Any_map (map_emplace device_name (Any_map [device_property]) [])) config)
      | Some a \<Rightarrow>
          and_then (as_any_map read_any_map a) (\<lambda>(stored, device_properties).
          and_then
            (case map_of device_properties device_name of
               None \<Rightarrow> Inr (map_emplace device_name (Any_map [device_property]) device_properties)
             | Some b \<Rightarrow>
                 and_then (as_any_map read_any_map b) (\<lambda>(stored2, secondary_property).
                   let secondary_property = map_emplace (fst device_property) (snd device_property)
                         (map_erase (fst device_property) secondary_property)
                   in Inr (if stored2 then map_assign device_name (Any_map secondary_property) device_properties
                           else device_properties)))
            (\<lambda>device_properties. Inr (if stored then map_assign DEVICE_PROPERTIES (Any_map device_properties) config else config))))"

fun update_all ::
    "(string \<Rightarrow> 'a any_map result) \<Rightarrow> (string \<Rightarrow> (string \<times> 'a any) result) \<Rightarrow> (string \<times> string) list \<Rightarrow> 'a any_map
     \<Rightarrow> 'a any_map result" where
  "update_all read_any_map property [] config = Inr config"
| "update_all read_any_map property ((device_name, device_value) # it) config =
     and_then (property device_value) (\<lambda>p.
     and_then (update_device_properties_setting read_any_map device_name config p) (\<lambda>config.
     update_all read_any_map property it config))"

text \<open>A property is its name and the conversion of a text to its entry, which may throw.\<close>

definition update_device_config_for_virtual_device ::
    "(string \<Rightarrow> 'a any_map result) \<Rightarrow> string \<Rightarrow> 'a any_map \<Rightarrow> string \<Rightarrow> (string \<Rightarrow> (string \<times> 'a any) result)
     \<Rightarrow> ('a any_map result) option" where
  "update_device_config_for_virtual_device read_any_map value device_config name property =
     (if length (split_str value CHR '':'') = 1 then Some (Inr (map_assign name (Any_string value) device_config))
      else
        (case read_map value of
           None \<Rightarrow> None
         | Some (Inl e) \<Rightarrow> Some (Inl e)
         | Some (Inr devices_property) \<Rightarrow> Some (update_all read_any_map property devices_property device_config)))"

section \<open>Configuration files\<close>

text \<open>A JSON document is a map of maps; printing a value is a parameter.\<close>

type_synonym json = "(string \<times> (string \<times> string) list) list"

definition json_assign :: "string \<Rightarrow> string \<Rightarrow> string \<Rightarrow> json \<Rightarrow> json" where
  "json_assign d k v j = map_assign d (map_assign k v (case map_of j d of None \<Rightarrow> [] | Some m \<Rightarrow> m)) j"

fun dump_options :: "('a any \<Rightarrow> string) \<Rightarrow> string \<Rightarrow> 'a any_map \<Rightarrow> json \<Rightarrow> json" where
  "dump_options print deviceName [] j = j"
| "dump_options print deviceName ((k, v) # os) j = dump_options print deviceName os (json_assign deviceName k (print v) j)"

fun dump_devices :: "('a any \<Rightarrow> string) \<Rightarrow> (string \<times> 'a any_map) list \<Rightarrow> json \<Rightarrow> json" where
  "dump_devices print [] j = j"
| "dump_devices print ((d, os) # ds) j = dump_devices print ds (dump_options print d os j)"

definition dump_config :: "('a any \<Rightarrow> string) \<Rightarrow> (string \<Rightarrow> bool) \<Rightarrow> string \<Rightarrow> (string \<times> 'a any_map) list \<Rightarrow> json result" where
  "dump_config print can_open filename config =
     (let jsonConfig = dump_devices print config []
      in if \<not> can_open filename then Inl (''Can't load config file '' @ CHR 0x22 # filename @ CHR 0x22 # ''.'')
         else Inr jsonConfig)"

definition config_assign :: "string \<Rightarrow> string \<Rightarrow> string \<Rightarrow> (string \<times> 'a any_map) list \<Rightarrow> (string \<times> 'a any_map) list" where
  "config_assign d k v c = map_assign d (map_assign k (Any_string v) (case map_of c d of None \<Rightarrow> [] | Some m \<Rightarrow> m)) c"

fun load_options :: "string \<Rightarrow> (string \<times> string result) list \<Rightarrow> (string \<times> 'a any_map) list \<Rightarrow> (string \<times> 'a any_map) list result" where
  "load_options d [] c = Inr c"
| "load_options d ((k, v) # os) c = and_then v (\<lambda>s. load_options d os (config_assign d k s c))"

fun load_devices ::
    "(string \<times> (string \<times> string result) list) list \<Rightarrow> (string \<times> 'a any_map) list \<Rightarrow> (string \<times> 'a any_map) list result" where
  "load_devices [] c = Inr c"
| "load_devices ((d, os) # ds) c = and_then (load_options d os c) (\<lambda>c. load_devices ds c)"

text \<open>A file is \<open>None\<close> when it cannot be opened, else its document or what its parser reports.\<close>

definition load_config ::
    "string \<Rightarrow> (string \<times> (string \<times> string result) list) list result option \<Rightarrow> (string \<times> 'a any_map) list
     \<Rightarrow> (string \<times> 'a any_map) list result" where
  "load_config filename file config =
     (case file of
        None \<Rightarrow> Inl (''Can't load config file '' @ CHR 0x22 # filename @ CHR 0x22 # ''.'')
      | Some (Inl what) \<Rightarrow> Inl (''Can't parse config file '' @ CHR 0x22 # filename @ CHR 0x22 # ''.'' @ CHR 0x0A # what)
      | Some (Inr jsonConfig) \<Rightarrow> load_devices jsonConfig config)"

section \<open>Reading back a map that was written\<close>

definition plain_char :: "char \<Rightarrow> bool" where
  "plain_char c \<longleftrightarrow> \<not> is_space c \<and> c \<notin> set '',{}[]''"

definition entries_tail :: "(string \<times> string) list \<Rightarrow> string" where
  "entries_tail m = concat (map (\<lambda>(k, v). CHR '','' # k @ CHR '':'' # v) m)"

definition map_entry_ok :: "string \<times> string \<Rightarrow> bool" where
  "map_entry_ok e \<longleftrightarrow> CHR '':'' \<notin> set (fst e) \<and> snd e \<noteq> [] \<and> (\<forall>c \<in> set (snd e). plain_char c)"

lemma skip_ws_id: "s = [] \<or> \<not> is_space (hd s) \<Longrightarrow> skip_ws s = s"
  by (cases s) (auto simp: skip_ws_def)

lemma value_char_plain: "plain_char c \<Longrightarrow> value_char c level v = Some (level, v @ [c])"
  by (auto simp: plain_char_def value_char_def)

lemma read_value_chars_plain:
  "\<forall>c \<in> set v. plain_char c \<Longrightarrow> t = CHR '','' \<or> t = CHR ''}'' \<Longrightarrow>
   read_value_chars c 0 acc (v @ t # s) = (t, acc @ v, s, True)"
proof (induction v arbitrary: c acc)
  case Nil
  then have "skip_ws (t # s) = t # s" by (intro skip_ws_id) (auto simp: is_space_def)
  moreover have "value_char t 0 acc = None" using Nil by (auto simp: value_char_def)
  ultimately show ?case by (subst read_value_chars.simps) simp
next
  case (Cons x v)
  then have "skip_ws (x # v @ t # s) = x # v @ t # s" by (intro skip_ws_id) (simp add: plain_char_def)
  moreover have "value_char x 0 acc = Some (0, acc @ [x])" using Cons.prems by (simp add: value_char_plain)
  ultimately show ?case
    using Cons by (subst read_value_chars.simps) simp
qed

lemma getline_key_split: "CHR '':'' \<notin> set k \<Longrightarrow> getline_key (k @ CHR '':'' # s) True = (k, s, True)"
proof -
  assume k: "CHR '':'' \<notin> set k"
  then have "takeWhile (\<lambda>c. c \<noteq> CHR '':'') (k @ CHR '':'' # s) = k"
    "dropWhile (\<lambda>c. c \<noteq> CHR '':'') (k @ CHR '':'' # s) = CHR '':'' # s"
    by (induction k) auto
  then show ?thesis by (simp add: getline_key_def)
qed

lemma map_assign_append: "\<forall>e \<in> set m. fst e < k \<Longrightarrow> map_assign k v m = m @ [(k, v)]"
  by (induction k v m rule: map_assign.induct) (auto dest: less_asym)

lemma map_emplace_append: "\<forall>e \<in> set m. fst e < k \<Longrightarrow> map_emplace k v m = m @ [(k, v)]"
  by (auto simp: map_emplace_def map_assign_append map_of_eq_None_iff)

lemma map_wf_append:
  "map_wf (m @ (k, v) # m') \<Longrightarrow> (\<forall>e \<in> set m. fst e < k) \<and> map_wf ((m @ [(k, v)]) @ m')"
  by (auto simp: map_wf_def sorted_wrt_append)

lemma read_map_loop_entries:
  "c \<noteq> CHR ''}'' \<Longrightarrow> map_entry_ok (k, v) \<Longrightarrow> \<forall>e \<in> set m. map_entry_ok e \<Longrightarrow> map_wf (acc @ (k, v) # m) \<Longrightarrow>
   read_map_loop c (k @ CHR '':'' # v @ entries_tail m @ ''}'') True acc = Some (acc @ (k, v) # m)"
proof (induction m arbitrary: c k v acc)
  case Nil
  have "read_value_chars c 0 [] (v @ CHR ''}'' # []) = (CHR ''}'', [] @ v, [], True)"
    by (rule read_value_chars_plain) (use Nil.prems in \<open>simp_all add: map_entry_ok_def\<close>)
  moreover have "getline_key (k @ CHR '':'' # v @ ''}'') True = (k, v @ ''}'', True)"
    by (rule getline_key_split) (use Nil.prems in \<open>simp add: map_entry_ok_def\<close>)
  moreover have "map_emplace k v acc = acc @ [(k, v)]"
    using map_wf_append [OF Nil.prems(4)] by (intro map_emplace_append) simp
  ultimately show ?case
    using Nil.prems(1) by (subst read_map_loop.simps) (simp add: entries_tail_def read_map_loop.simps [of "CHR ''}''"])
next
  case (Cons e m)
  obtain k2 v2 where e: "e = (k2, v2)" by (cases e)
  let ?t = "k2 @ CHR '':'' # v2 @ entries_tail m @ ''}''"
  have tl: "entries_tail (e # m) @ ''}'' = CHR '','' # ?t" by (simp add: entries_tail_def e)
  have rv: "read_value_chars c 0 [] (v @ CHR '','' # ?t) = (CHR '','', [] @ v, ?t, True)"
    by (rule read_value_chars_plain) (use Cons.prems in \<open>simp_all add: map_entry_ok_def\<close>)
  have gl: "getline_key (k @ CHR '':'' # v @ CHR '','' # ?t) True = (k, v @ CHR '','' # ?t, True)"
    by (rule getline_key_split) (use Cons.prems in \<open>simp add: map_entry_ok_def\<close>)
  have em: "map_emplace k v acc = acc @ [(k, v)]"
    using map_wf_append [OF Cons.prems(4)] by (intro map_emplace_append) simp
  have "read_map_loop CHR '','' ?t True (acc @ [(k, v)]) = Some ((acc @ [(k, v)]) @ (k2, v2) # m)"
    by (rule Cons.IH) (use Cons.prems map_wf_append [OF Cons.prems(4)] e in simp_all)
  then show ?case
    unfolding tl using Cons.prems(1) by (subst read_map_loop.simps) (simp add: gl rv em e)
qed

definition show_map :: "(string \<times> string) list \<Rightarrow> string" where
  "show_map m = ''{'' @ tl (entries_tail m) @ ''}''"

lemma read_map_show:
  assumes "m \<noteq> []" "map_wf m" "\<forall>e \<in> set m. map_entry_ok e"
  shows "read_map (show_map m) = Some (Inr m)"
proof -
  obtain k v m' where m: "m = (k, v) # m'" using assms(1) by (metis list.exhaust surj_pair)
  have "skip_ws (show_map m) = show_map m" by (rule skip_ws_id) (simp add: show_map_def is_space_def)
  moreover have "read_map_loop CHR ''{'' (k @ CHR '':'' # v @ entries_tail m' @ ''}'') True [] = Some ([] @ (k, v) # m')"
    by (rule read_map_loop_entries) (use assms m in simp_all)
  moreover have "show_map m = CHR ''{'' # k @ CHR '':'' # v @ entries_tail m' @ ''}''"
    by (simp add: show_map_def entries_tail_def m)
  ultimately show ?thesis by (simp add: read_map_def m)
qed

section \<open>A map without its closing brace\<close>

lemma read_value_chars_sub:
  "read_value_chars c l v s = (c2, v2, s2, g2) \<Longrightarrow> c2 \<in> insert c (set s) \<and> set s2 \<subseteq> set s"
proof (induction c l v s rule: read_value_chars.induct)
  case (1 c l v s)
  have sk: "set (skip_ws s) \<subseteq> set s" by (auto simp: skip_ws_def dest: set_dropWhileD)
  show ?case
  proof (cases "skip_ws s")
    case Nil
    then show ?thesis using 1(2) by (subst (asm) read_value_chars.simps) simp
  next
    case (Cons c1 s1)
    show ?thesis
    proof (cases "value_char c1 l v")
      case None
      then show ?thesis using 1(2) Cons sk by (subst (asm) read_value_chars.simps) auto
    next
      case (Some p)
      obtain l1 v1 where p: "p = (l1, v1)" by (cases p)
      have r: "read_value_chars c1 l1 v1 s1 = (c2, v2, s2, g2)"
        using 1(2) Cons Some p by (subst (asm) read_value_chars.simps) simp
      have "c2 \<in> insert c1 (set s1) \<and> set s2 \<subseteq> set s1" using "1.IH" [OF Cons Some [unfolded p] refl r] .
      then show ?thesis using sk Cons by auto
    qed
  qed
qed

lemma read_map_loop_brace:
  assumes "read_map_loop c s good m = Some y"
  shows "c = CHR ''}'' \<or> (good \<and> CHR ''}'' \<in> set s)"
proof (rule read_map_loop.raw_induct [where P = "\<lambda>c s good m y. c = CHR ''}'' \<or> (good \<and> CHR ''}'' \<in> set s)", OF _ assms])
  fix loop c s good and m y :: "(string \<times> string) list"
  assume IH: "\<And>c s good m y. loop c s good m = Some y \<Longrightarrow> c = CHR ''}'' \<or> (good \<and> CHR ''}'' \<in> set s)"
    and body: "(if c = CHR ''}'' then Some m
      else let (key, is1, good1) = getline_key s good;
               (c2, v, is2, good2) = if good1 then read_value_chars c 0 [] is1 else (c, [], is1, False)
           in loop c2 is2 good2 (map_emplace key v m)) = Some y"
  show "c = CHR ''}'' \<or> (good \<and> CHR ''}'' \<in> set s)"
  proof (cases "c = CHR ''}''")
    case False
    obtain key s1 good1 where k: "getline_key s good = (key, s1, good1)" by (metis surj_pair)
    obtain c2 v s2 good2 where v: "(if good1 then read_value_chars c 0 [] s1 else (c, [], s1, False)) = (c2, v, s2, good2)"
      by (metis surj_pair)
    have "loop c2 s2 good2 (map_emplace key v m) = Some y" using body False k v by simp
    from IH [OF this] have ih: "c2 = CHR ''}'' \<or> (good2 \<and> CHR ''}'' \<in> set s2)" .
    then have g: "good1" using v False by (auto split: if_splits)
    have "set s1 \<subseteq> set s" "good"
      using k g by (auto simp: getline_key_def split: if_splits dest!: in_set_dropD set_dropWhileD)
    moreover have "c2 \<in> insert c (set s1) \<and> set s2 \<subseteq> set s1"
      by (rule read_value_chars_sub) (use v g in simp)
    ultimately show ?thesis using ih False by auto
  qed simp
qed

text \<open>
  a map is read only if the text closes it: when no closing brace follows the opening one the
  reader never returns, so the assertion about the closing brace after the loop can never fail. Nor
  does the reader return on the text of the empty map.
\<close>

theorem read_map_needs_close:
  assumes "skip_ws s = CHR ''{'' # t" "CHR ''}'' \<notin> set t"
  shows "read_map s = None \<and> read_map ''{}'' = None"
proof -
  have "read_map_loop CHR ''{'' t True [] = None"
    using read_map_loop_brace [of "CHR ''{''" t True "[]"] assms(2) by (cases "read_map_loop CHR ''{'' t True []") auto
  moreover have "read_map_loop CHR ''{'' ''}'' True [] = None"
  proof -
    have "read_map_loop CHR ''{'' [] False (map_emplace ''}'' [] []) = None"
      using read_map_loop_brace [of "CHR ''{''" "[]" False "map_emplace ''}'' [] []"]
      by (cases "read_map_loop CHR ''{'' [] False (map_emplace ''}'' [] [])") auto
    then show ?thesis by (subst read_map_loop.simps) (simp add: getline_key_def)
  qed
  moreover have "skip_ws ''{}'' = ''{}''" by (rule skip_ws_id) (simp add: is_space_def)
  ultimately show ?thesis using assms(1) by (simp add: read_map_def)
qed

lemma read_map_needs_close_witness: "read_map '' {CPU:4,GPU:2'' = None \<and> read_map ''{}'' = None"
  by (rule read_map_needs_close [where t = "''CPU:4,GPU:2''"]) (simp_all add: skip_ws_def is_space_def)

section \<open>Settings of the devices behind a virtual device\<close>

lemma virtual_loop_append:
  "device \<notin> set (map fst m) \<Longrightarrow> ss \<noteq> [] \<Longrightarrow> virtual_loop device m ss = ([], ss @ entries_tail m)"
  by (induction m arbitrary: ss) (auto simp: entries_tail_def)

lemma parse_virtual_show:
  assumes "m \<noteq> []" "device \<notin> set (map fst m)"
  shows "parse_value_for_virtual_device device m = [(device, show_map m)]"
proof -
  obtain k v m' where m: "m = (k, v) # m'" using assms(1) by (metis list.exhaust surj_pair)
  have "virtual_loop device m' (''{'' @ k @ '':'' @ v) = ([], (''{'' @ k @ '':'' @ v) @ entries_tail m')"
    by (rule virtual_loop_append) (use assms m in simp_all)
  then have vl: "virtual_loop device m [] = ([], ''{'' @ tl (entries_tail m))"
    using assms m by (auto simp: entries_tail_def)
  have none: "map_of m device = None" using assms(2) by (simp add: map_of_eq_None_iff)
  show ?thesis by (simp add: parse_value_for_virtual_device_def vl none show_map_def)
qed

lemma map_assign_twice: "map_assign k v (map_assign k w m) = map_assign k v m"
  by (induction k w m rule: map_assign.induct) auto

text \<open>
  What a configuration holds in \<open>DEVICE_PROPERTIES\<close>, and what that holds for one device; a missing entry
  counts as an empty map. The entries that are there have to be maps, not texts.
\<close>

fun is_map_value :: "'a any \<Rightarrow> bool" where
  "is_map_value (Any_map m) \<longleftrightarrow> True"
| "is_map_value _ \<longleftrightarrow> False"

fun entries_of :: "'a any option \<Rightarrow> 'a any_map" where
  "entries_of (Some (Any_map m)) = m"
| "entries_of _ = []"

definition properties_of :: "'a any_map \<Rightarrow> 'a any_map" where
  "properties_of config = entries_of (map_of config DEVICE_PROPERTIES)"

definition settings_of :: "'a any_map \<Rightarrow> string \<Rightarrow> 'a any_map" where
  "settings_of config device = entries_of (map_of (properties_of config) device)"

definition holds_maps :: "string set \<Rightarrow> 'a any_map \<Rightarrow> bool" where
  "holds_maps devices config \<longleftrightarrow> pred_option is_map_value (map_of config DEVICE_PROPERTIES)
     \<and> (\<forall>d \<in> devices. pred_option is_map_value (map_of (properties_of config) d))"

definition sets_for :: "'a any_map \<Rightarrow> 'a any_map \<Rightarrow> string \<Rightarrow> string \<Rightarrow> 'a any \<Rightarrow> bool" where
  "sets_for config dp device name x \<longleftrightarrow>
     (\<exists>settings. map_of dp device = Some (Any_map settings)
        \<and> map_of settings = (map_of (settings_of config device))(name \<mapsto> x))"

lemma is_map_iff: "is_map_value a \<longleftrightarrow> (\<exists>m. a = Any_map m)"
  by (cases a) simp_all

lemma properties_of_assign [simp]: "properties_of (map_assign DEVICE_PROPERTIES (Any_map dp) config) = dp"
  by (simp add: properties_of_def map_of_assign)

lemma map_of_emplace_erase: "map_of (map_emplace k v (map_erase k m)) = (map_of m)(k \<mapsto> v)"
  by (simp add: map_emplace_def map_of_assign map_of_erase)

lemma map_of_emplace_new: "map_of m k = None \<Longrightarrow> map_of (map_emplace k v m) = (map_of m)(k \<mapsto> v)"
  by (simp add: map_emplace_def map_of_assign)

lemma update_one:
  assumes "holds_maps {d} config"
  shows "\<exists>dp. update_device_properties_setting r d config (name, x) = Inr (map_assign DEVICE_PROPERTIES (Any_map dp) config)
    \<and> (\<forall>d'. d' \<noteq> d \<longrightarrow> map_of dp d' = map_of (properties_of config) d') \<and> sets_for config dp d name x"
proof (cases "map_of config DEVICE_PROPERTIES")
  case None
  then show ?thesis
    by (intro exI [of _ "[(d, Any_map [(name, x)])]"])
      (auto simp: update_device_properties_setting_def map_emplace_def sets_for_def settings_of_def properties_of_def)
next
  case (Some a)
  then obtain dp where dp: "map_of config DEVICE_PROPERTIES = Some (Any_map dp)"
    using assms by (auto simp: holds_maps_def is_map_iff)
  then have p: "properties_of config = dp" by (simp add: properties_of_def)
  show ?thesis
  proof (cases "map_of dp d")
    case None
    then show ?thesis
      by (intro exI [of _ "map_emplace d (Any_map [(name, x)]) dp"])
        (auto simp: update_device_properties_setting_def dp as_any_map_def sets_for_def settings_of_def p map_of_emplace_new)
  next
    case (Some b)
    then obtain s where s: "map_of dp d = Some (Any_map s)"
      using assms p by (auto simp: holds_maps_def is_map_iff)
    then show ?thesis
      by (intro exI [of _ "map_assign d (Any_map (map_emplace name x (map_erase name s))) dp"])
        (auto simp: update_device_properties_setting_def dp as_any_map_def sets_for_def settings_of_def p map_of_assign
          map_of_emplace_erase Let_def)
  qed
qed

lemma update_all_sets:
  assumes "m \<noteq> []" "distinct (map fst m)" "\<forall>e \<in> set m. property (snd e) = Inr (name, mk (snd e))"
    and "holds_maps (fst ` set m) config"
  shows "\<exists>dp. update_all r property m config = Inr (map_assign DEVICE_PROPERTIES (Any_map dp) config)
    \<and> (\<forall>d. d \<notin> fst ` set m \<longrightarrow> map_of dp d = map_of (properties_of config) d)
    \<and> (\<forall>(d, v) \<in> set m. sets_for config dp d name (mk v))"
  using assms
proof (induction m arbitrary: config)
  case (Cons e m)
  obtain d v where e: "e = (d, v)" by (cases e)
  have pv: "property v = Inr (name, mk v)" using Cons.prems(3) e by auto
  have "holds_maps {d} config" using Cons.prems(4) e by (simp add: holds_maps_def)
  from update_one [OF this, of r name "mk v"] obtain dp where
    one: "update_device_properties_setting r d config (name, mk v) = Inr (map_assign DEVICE_PROPERTIES (Any_map dp) config)"
      "\<forall>d'. d' \<noteq> d \<longrightarrow> map_of dp d' = map_of (properties_of config) d'" "sets_for config dp d name (mk v)" by blast
  let ?config = "map_assign DEVICE_PROPERTIES (Any_map dp) config"
  have fresh: "d \<notin> fst ` set m" using Cons.prems(2) e by simp
  show ?case
  proof (cases "m = []")
    case True
    with one show ?thesis by (intro exI [of _ dp]) (simp add: e pv)
  next
    case False
    have same: "map_of dp d' = map_of (properties_of config) d'" if "d' \<in> fst ` set m" for d'
      using one(2) fresh that by metis
    have "holds_maps (fst ` set m) ?config"
      using Cons.prems(4) same by (simp add: holds_maps_def map_of_assign e)
    from Cons.IH [OF False _ _ this] obtain dp2 where
      two: "update_all r property m ?config = Inr (map_assign DEVICE_PROPERTIES (Any_map dp2) ?config)"
        "\<forall>d. d \<notin> fst ` set m \<longrightarrow> map_of dp2 d = map_of dp d" "\<forall>(d, v) \<in> set m. sets_for ?config dp2 d name (mk v)"
      using Cons.prems(2,3) by auto
    have "sets_for config dp2 d' name (mk v')" if "(d', v') \<in> set m" for d' v'
    proof -
      have "sets_for ?config dp2 d' name (mk v')" using two(3) that by auto
      moreover have "d' \<in> fst ` set m" using that by force
      ultimately show ?thesis using same by (simp add: sets_for_def settings_of_def)
    qed
    moreover have "sets_for config dp2 d name (mk v)" using one(3) two(2) fresh by (simp add: sets_for_def)
    moreover have "map_of dp2 d' = map_of (properties_of config) d'" if "d' \<notin> fst ` set (e # m)" for d'
      using that one(2) two(2) by (simp add: e)
    ultimately show ?thesis using one(1) two(1)
      by (intro exI [of _ dp2]) (auto simp: e pv map_assign_twice)
  qed
qed simp

lemma getlines_two: "d \<in> set s \<Longrightarrow> last s \<noteq> d \<Longrightarrow> length (getlines d s) \<noteq> 1"
proof -
  assume d: "d \<in> set s" "last s \<noteq> d"
  obtain a b where s: "s = a @ d # b" "d \<notin> set a" using split_list_first [OF d(1)] by blast
  then have "b \<noteq> []" using d(2) by auto
  then have "getlines d b \<noteq> []" by (subst getlines.simps) simp
  then show ?thesis using getlines_split [OF s(2), of b] s(1) by simp
qed

text \<open>
  C6: Values given for the devices behind a virtual device, none of them for the virtual device itself, are first
  folded into one text of the virtual device and later taken apart again: in \<open>DEVICE_PROPERTIES\<close> each of these
  devices gets its own value, over what is already set for it, its other settings and those of every other device
  stay as they are, and so does the rest of the configuration. A device's name has no colon, its value is not empty
  and has no white space, comma or bracket, the property accepts the values, and what is already configured for
  \<open>DEVICE_PROPERTIES\<close> and for these devices, if anything, is a map and not a text.
\<close>

theorem virtual_device_values_configured:
  assumes "m \<noteq> []" "map_wf m" "\<forall>e \<in> set m. map_entry_ok e" "device \<notin> set (map fst m)"
    and "\<forall>e \<in> set m. property (snd e) = Inr (name, mk (snd e))" and "holds_maps (fst ` set m) config"
  shows "\<exists>text dp. parse_value_for_virtual_device device m = [(device, text)]
    \<and> update_device_config_for_virtual_device read_any_map text config name property
      = Some (Inr (map_assign DEVICE_PROPERTIES (Any_map dp) config))
    \<and> (\<forall>(d, v) \<in> set m. \<exists>settings. map_of dp d = Some (Any_map settings)
        \<and> map_of settings = (map_of (settings_of config d))(name \<mapsto> mk v))
    \<and> (\<forall>d. d \<notin> fst ` set m \<longrightarrow> map_of dp d = map_of (properties_of config) d)"
proof -
  obtain d v m' where m: "m = (d, v) # m'" using assms(1) by (metis list.exhaust surj_pair)
  have "CHR '':'' \<in> set (show_map m)" "last (show_map m) \<noteq> CHR '':''"
    by (simp_all add: show_map_def entries_tail_def m)
  then have two: "length (split_str (show_map m) CHR '':'') \<noteq> 1" unfolding split_str_def by (rule getlines_two)
  have "distinct (map fst m)" using assms(2) by (simp add: map_wf_def strict_sorted_iff)
  from update_all_sets [OF assms(1) this assms(5,6), of read_any_map] obtain dp where
    dp: "update_all read_any_map property m config = Inr (map_assign DEVICE_PROPERTIES (Any_map dp) config)"
      "\<forall>d. d \<notin> fst ` set m \<longrightarrow> map_of dp d = map_of (properties_of config) d"
      "\<forall>(d, v) \<in> set m. sets_for config dp d name (mk v)" by blast
  have "update_device_config_for_virtual_device read_any_map (show_map m) config name property
    = Some (Inr (map_assign DEVICE_PROPERTIES (Any_map dp) config))"
    using two read_map_show [OF assms(1-3)] dp(1) by (simp add: update_device_config_for_virtual_device_def)
  then show ?thesis using parse_virtual_show [OF assms(1,4)] dp(2,3)
    by (intro exI [of _ "show_map m"] exI [of _ dp]) (simp add: sets_for_def)
qed

definition configured_before :: "nat any_map" where
  "configured_before = [(DEVICE_PROPERTIES, Any_map [(''GPU'', Any_map [(''NUM_STREAMS'', Any_other 7), (''PERF'', Any_other 1)])])]"

lemma configured_before_maps: "holds_maps {''CPU'', ''GPU''} configured_before"
  by (simp add: configured_before_def holds_maps_def properties_of_def)

lemma virtual_device_values_configured_witness:
  "\<exists>text dp. parse_value_for_virtual_device ''AUTO'' [(''CPU'', ''4''), (''GPU'', ''22'')] = [(''AUTO'', text)]
    \<and> update_device_config_for_virtual_device (\<lambda>s. Inl s) text configured_before ''NUM_STREAMS''
        (\<lambda>v. if v = [] then Inl ''stoi'' else Inr (''NUM_STREAMS'', Any_other (length v)))
      = Some (Inr (map_assign DEVICE_PROPERTIES (Any_map dp) configured_before))
    \<and> (\<forall>(d, v) \<in> set [(''CPU'', ''4''), (''GPU'', ''22'')]. \<exists>settings. map_of dp d = Some (Any_map settings)
        \<and> map_of settings = (map_of (settings_of configured_before d))(''NUM_STREAMS'' \<mapsto> Any_other (length v)))
    \<and> (\<forall>d. d \<notin> fst ` set [(''CPU'', ''4''), (''GPU'', ''22'')] \<longrightarrow> map_of dp d = map_of (properties_of configured_before) d)"
  by (rule virtual_device_values_configured)
    (simp_all add: map_wf_def map_entry_ok_def plain_char_def is_space_def less_char_def configured_before_maps)

section \<open>Values per device, as given\<close>

definition show_item :: "string option \<times> string \<Rightarrow> string" where
  "show_item i = (case fst i of None \<Rightarrow> snd i | Some d \<Rightarrow> d @ CHR '':'' # snd i)"

definition item_ok :: "string list \<Rightarrow> string option \<times> string \<Rightarrow> bool" where
  "item_ok devices i \<longleftrightarrow> snd i \<noteq> [] \<and> CHR '','' \<notin> set (snd i) \<and> CHR '':'' \<notin> set (snd i)
     \<and> (case fst i of None \<Rightarrow> True | Some d \<Rightarrow> d \<in> set devices \<and> CHR '','' \<notin> set d \<and> CHR '':'' \<notin> set d)"

definition item_entries :: "string list \<Rightarrow> string option \<times> string \<Rightarrow> (string \<times> string) list" where
  "item_entries devices i = (case fst i of None \<Rightarrow> map (\<lambda>d. (d, snd i)) devices | Some d \<Rightarrow> [(d, snd i)])"

lemma assigns_append: "std_map.assigns (xs @ ys) m = std_map.assigns ys (std_map.assigns xs m)"
  by (induction xs m rule: std_map.assigns.induct) simp_all

lemma assign_all_assigns: "assign_all ds v m = std_map.assigns (map (\<lambda>d. (d, v)) ds) m"
  by (induction ds v m rule: assign_all.induct) simp_all

lemma value_loop_items:
  "\<forall>i \<in> set items. item_ok devices i \<Longrightarrow>
   value_loop devices text (map show_item items) m
   = Some (Inr (std_map.assigns (concat (map (item_entries devices) items)) m))"
proof (induction items arbitrary: m)
  case Nil
  then show ?case by simp
next
  case (Cons i items)
  have ok: "item_ok devices i" using Cons.prems by simp
  show ?case
  proof (cases "fst i")
    case None
    then have "split_str (show_item i) CHR '':'' = [snd i]"
      using ok by (simp add: split_str_def show_item_def item_ok_def getlines_one)
    then show ?thesis using Cons None by (simp add: item_entries_def assigns_append assign_all_assigns)
  next
    case (Some d)
    then have "split_str (show_item i) CHR '':'' = [d, snd i]"
      using ok by (simp add: split_str_def show_item_def item_ok_def getlines_one getlines_split)
    then show ?thesis using Cons Some ok by (simp add: item_entries_def item_ok_def)
  qed
qed

text \<open>
  an option \<open>d1:v1,v2,d3:v3\<close> gives each device the last value that was meant for it, a value
  without a device being meant for all of them; without any item no device gets one.
\<close>

theorem value_per_device_last_wins:
  assumes "\<forall>i \<in> set items. item_ok devices i"
  shows "\<exists>m. parse_value_per_device devices (join_with CHR '','' (map show_item items)) = Some (Inr m) \<and> map_wf m
    \<and> map_of m = map_of (rev (concat (map (item_entries devices) items)))"
proof -
  let ?es = "concat (map (item_entries devices) items)"
  have "split_str (join_with CHR '','' (map show_item items)) CHR '','' = map show_item items"
  proof (cases "items = []")
    case False
    have "\<forall>s \<in> set (map show_item items). CHR '','' \<notin> set s \<and> s \<noteq> []"
      using assms by (auto simp: item_ok_def show_item_def split: option.splits)
    then show ?thesis unfolding split_str_def
      using False by (intro getlines_join) (auto simp: last_map)
  qed (simp add: split_str_def)
  then have "parse_value_per_device devices (join_with CHR '','' (map show_item items)) = Some (Inr (std_map.assigns ?es []))"
    by (simp add: parse_value_per_device_def value_loop_items [OF assms])
  moreover have "map_wf (std_map.assigns ?es [])" by (rule std_map.wf_assigns) (simp add: map_wf_def)
  ultimately show ?thesis by (simp add: std_map.look_assigns)
qed

lemma value_per_device_last_wins_witness:
  "\<exists>m. parse_value_per_device [''CPU'', ''GPU''] (join_with CHR '','' (map show_item [(Some ''CPU'', ''4''), (None, ''2'')])) = Some (Inr m)
    \<and> map_wf m \<and> map_of m = map_of (rev (concat (map (item_entries [''CPU'', ''GPU'']) [(Some ''CPU'', ''4''), (None, ''2'')])))"
  by (rule value_per_device_last_wins) (simp add: item_ok_def)

text \<open>A device without a value is taken for a value of all devices.\<close>

lemma value_per_device_no_value:
  "parse_value_per_device [''CPU'', ''GPU''] ''CPU:'' = Some (Inr [(''CPU'', ''CPU''), (''GPU'', ''CPU'')])"
proof -
  have "getlines CHR '','' ''CPU:'' = [''CPU:'']" by (rule getlines_one) simp_all
  moreover have "getlines CHR '':'' (''CPU'' @ CHR '':'' # []) = ''CPU'' # getlines CHR '':'' []" by (rule getlines_split) simp
  ultimately show ?thesis by (simp add: parse_value_per_device_def split_str_def less_char_def)
qed

section \<open>Lists of devices\<close>

lemma strip_minus_names:
  "\<forall>(ex, n) \<in> set ds. n \<noteq> [] \<and> hd n \<noteq> CHR ''-'' \<Longrightarrow>
   strip_minus (map (\<lambda>(ex, n). if ex then CHR ''-'' # n else n) ds) r = Some (r @ map snd ds)"
proof (induction ds arbitrary: r)
  case Nil
  then show ?case by simp
next
  case (Cons d ds)
  obtain ex n where d: "d = (ex, n)" by (cases d)
  then obtain c cs where "n = c # cs" "c \<noteq> CHR ''-''" using Cons.prems by (cases n) auto
  then show ?case using Cons d by simp
qed

lemma find_char_append: "d \<notin> set a \<Longrightarrow> find_char d (a @ b) = map_option ((+) (length a)) (find_char d b)"
  by (cases "find_char d b"; induction a) auto

text \<open>
  of \<open>V:dev1,-dev2,...\<close>, with or without a parenthesis after the last device, a virtual device
  \<open>V\<close> is the first entry and the devices follow in their order, those excluded by a minus sign too.
\<close>

theorem parse_devices_virtual:
  assumes "V \<in> set meta_plugins" "ds \<noteq> []" "paren = [] \<or> hd paren = CHR ''(''"
    and "\<forall>(ex, n) \<in> set ds. n \<noteq> [] \<and> hd n \<noteq> CHR ''-'' \<and> CHR '','' \<notin> set n \<and> CHR ''('' \<notin> set n"
  shows "parse_devices (V @ CHR '':'' # join_with CHR '','' (map (\<lambda>(ex, n). if ex then CHR ''-'' # n else n) ds) @ paren)
    = Some (V # map snd ds)"
proof -
  let ?names = "map (\<lambda>(ex, n). if ex then CHR ''-'' # n else n) ds"
  let ?j = "join_with CHR '','' ?names"
  have V: "CHR '':'' \<notin> set V" "CHR ''('' \<notin> set V" using assms(1) by (auto simp: meta_plugins_def)
  have names: "\<forall>s \<in> set ?names. CHR '','' \<notin> set s \<and> CHR ''('' \<notin> set s \<and> s \<noteq> []"
  proof
    fix s assume "s \<in> set ?names"
    then obtain ex n where s: "(ex, n) \<in> set ds" "s = (if ex then CHR ''-'' # n else n)" by auto
    then have "n \<noteq> [] \<and> hd n \<noteq> CHR ''-'' \<and> CHR '','' \<notin> set n \<and> CHR ''('' \<notin> set n" using assms(4) by blast
    then show "CHR '','' \<notin> set s \<and> CHR ''('' \<notin> set s \<and> s \<noteq> []" using s(2) by simp
  qed
  have "set (join_with CHR '','' ss) \<subseteq> insert CHR '','' (\<Union> (set ` set ss))" for ss
    by (induction "CHR '',''" ss rule: join_with.induct) auto
  then have j: "CHR ''('' \<notin> set ?j" using names by fastforce
  have colon: "find_char CHR '':'' (V @ CHR '':'' # ?j @ paren) = Some (length V)" using V(1) by (rule find_char_split)
  have br: "find_char CHR ''('' (V @ CHR '':'' # ?j @ paren) = (if paren = [] then None else Some (length V + 1 + length ?j))"
    using V(2) j assms(3) by (cases paren) (simp_all add: find_char_append find_char_None)
  have "substr_to (V @ CHR '':'' # ?j @ paren) (length V + 1) (if paren = [] then None else Some (length V + 1 + length ?j)) = ?j"
    by (simp add: substr_to_def)
  moreover have "split_str ?j CHR '','' = ?names"
    unfolding split_str_def using names assms(2) last_in_set [of ?names] by (intro getlines_join) auto
  moreover have "strip_minus ?names [V] = Some ([V] @ map snd ds)" by (rule strip_minus_names) (use assms(4) in auto)
  ultimately show ?thesis
    using assms(1) unfolding parse_devices_def colon br by (simp add: is_virtual_device_def)
qed

lemma parse_devices_virtual_witness:
  "parse_devices (''AUTO'' @ CHR '':'' # join_with CHR '','' (map (\<lambda>(ex, n). if ex then CHR ''-'' # n else n) [(False, ''GPU''), (True, ''CPU'')]) @ ''(4)'')
    = Some (''AUTO'' # map snd [(False, ''GPU''), (True, ''CPU'')])"
  by (rule parse_devices_virtual) (simp_all add: meta_plugins_def)

end
