(* ===== verification/Sample_Formats.thy ===== *)
theory Sample_Formats
  imports KBX_Prelude
begin

text \<open>
  The image readers of \<open>samples/cpp/common/format_reader\<close>: BMP, MNIST and raw NV12 files and the
  registry that picks one. A file is its bytes, or \<open>None\<close> when it cannot be opened. A constructor
  returns the reader it leaves, \<open>Inl\<close> with the name of the exception when \<open>new[]\<close> throws
  (\<open>can_alloc\<close> says which sizes it grants), and \<open>None\<close> where its behaviour is undefined. \<open>junk\<close> is
  what fresh memory holds.
\<close>

unbundle bit_operations_syntax

section \<open>Binary input\<close>

text \<open>A stream is what is left of the file and whether it has failed; a failed stream reads nothing.\<close>

record ifs =
  is_all :: "u8 list"
  is_rest :: "u8 list"
  is_fail :: bool

definition open_file :: "u8 list \<Rightarrow> ifs" where
  "open_file bytes = \<lparr>is_all = bytes, is_rest = bytes, is_fail = False\<rparr>"

definition is_read :: "nat \<Rightarrow> ifs \<Rightarrow> u8 list \<times> ifs" where
  "is_read n s =
     (if is_fail s then ([], s)
      else (take n (is_rest s), s\<lparr>is_rest := drop n (is_rest s), is_fail := length (is_rest s) < n\<rparr>))"

definition is_seek :: "nat \<Rightarrow> ifs \<Rightarrow> ifs" where
  "is_seek p s = (if is_fail s then s else s\<lparr>is_rest := drop p (is_all s)\<rparr>)"

text \<open>The number in little-endian bytes; bytes that were not read are those of a zeroed field.\<close>

fun le_value :: "u8 list \<Rightarrow> nat" where
  "le_value [] = 0"
| "le_value (b # bs) = unat b + 256 * le_value bs"

definition to_int :: "nat \<Rightarrow> int" where
  "to_int n = (if n < 2147483648 then int n else int n - 4294967296)"

section \<open>Readers\<close>

record reader =
  rd_height :: u64
  rd_width :: u64
  rd_data :: "u8 list option"
  rd_shape :: "u64 list"

definition blank_reader :: reader where
  "blank_reader = \<lparr>rd_height = 0, rd_width = 0, rd_data = None, rd_shape = []\<rparr>"

type_synonym 'a outcome = "(string + 'a) option"

definition ret :: "'a \<Rightarrow> 'a outcome" where "ret x = Some (Inr x)"

definition throw :: "string \<Rightarrow> 'a outcome" where "throw e = Some (Inl e)"

definition andthen :: "'a outcome \<Rightarrow> ('a \<Rightarrow> 'b outcome) \<Rightarrow> 'b outcome" where
  "andthen r f = (case r of None \<Rightarrow> None | Some (Inl e) \<Rightarrow> Some (Inl e) | Some (Inr x) \<Rightarrow> f x)"

lemma andthen_simps [simp]:
  "andthen None f = None" "andthen (Some (Inl e)) f = Some (Inl e)" "andthen (Some (Inr x)) f = f x"
  "andthen (ret x) f = f x" "andthen (throw e) f = throw e"
  by (simp_all add: andthen_def ret_def throw_def)

text \<open>Storing a block of bytes at an offset of a buffer.\<close>

definition store_block :: "u8 list \<Rightarrow> nat \<Rightarrow> u8 list \<Rightarrow> u8 list option" where
  "store_block buf off bs =
     (if off + length bs \<le> length buf then Some (take off buf @ bs @ drop (off + length bs) buf) else None)"

section \<open>BMP\<close>

record BmpInfoHeader =
  bi_width :: int
  bi_height :: int
  bi_bits :: nat
  bi_compression :: nat

definition parse_info :: "u8 list \<Rightarrow> BmpInfoHeader" where
  "parse_info h =
     \<lparr>bi_width = to_int (le_value (take 4 (drop 4 h))), bi_height = to_int (le_value (take 4 (drop 8 h))),
      bi_bits = le_value (take 2 (drop 14 h)), bi_compression = le_value (take 4 (drop 16 h))\<rparr>"

text \<open>One round of the row loop; the byte counts are \<open>size_t\<close> products, taken as they are while they fit.\<close>

definition bmp_row :: "bool \<Rightarrow> nat \<Rightarrow> nat \<Rightarrow> nat \<Rightarrow> u8 list \<times> ifs \<Rightarrow> (u8 list \<times> ifs) option" where
  "bmp_row rowsReversed w h i st =
     (let storeAt = (if rowsReversed then i else h - 1 - i);
          (row, s) = is_read (w * 3) (snd st);
          (_, s) = is_read (w mod 4) s
      in map_option (\<lambda>buf. (buf, s)) (store_block (fst st) (w * 3 * storeAt) row))"

fun bmp_rows :: "bool \<Rightarrow> nat \<Rightarrow> nat \<Rightarrow> nat list \<Rightarrow> u8 list \<times> ifs \<Rightarrow> (u8 list \<times> ifs) option" where
  "bmp_rows rowsReversed w h [] st = Some st"
| "bmp_rows rowsReversed w h (i # is) st = do {
     st \<leftarrow> bmp_row rowsReversed w h i st;
     bmp_rows rowsReversed w h is st
   }"

definition BitMap :: "(nat \<Rightarrow> bool) \<Rightarrow> (nat \<Rightarrow> u8) \<Rightarrow> u8 list option \<Rightarrow> reader outcome" where
  "BitMap can_alloc junk file =
     (case file of
        None \<Rightarrow> Some (Inr blank_reader)
      | Some bytes \<Rightarrow>
          let (type_b, s) = is_read 2 (open_file bytes)
          in if le_value type_b \<noteq> 77 * 256 + 66 then Some (Inr blank_reader)
             else
               let (_, s) = is_read 4 s;
                   (_, s) = is_read 4 s;
                   (offset_b, s) = is_read 4 s;
                   (info_b, s) = is_read 40 s;
                   infoHeader = parse_info info_b;
                   rowsReversed = (bi_height infoHeader < 0)
               in if bi_height infoHeader = - 2147483648 then None \<comment> \<open>\<open>abs\<close> of the smallest \<open>int\<close>\<close>
                  else
                    let width = of_int (bi_width infoHeader) :: u64;
                        height = of_int \<bar>bi_height infoHeader\<bar> :: u64;
                        rd = blank_reader\<lparr>rd_width := width, rd_height := height, rd_shape := [height, width]\<rparr>
                    in if bi_bits infoHeader \<noteq> 24 then Some (Inr rd)
                       else
                         let sz = unat (width * height * 3)
                         in if \<not> can_alloc sz then Some (Inl ''bad_alloc'')
                            else if bi_width infoHeader < 0 then None \<comment> \<open>rows of almost \<open>2\<^sup>6\<^sup>4\<close> bytes\<close>
                            else
                              (case bmp_rows rowsReversed (unat width) (unat height) [0..<unat height]
                                      (map junk [0..<sz], is_seek (le_value offset_b) s) of
                                 None \<Rightarrow> None
                               | Some (buf, _) \<Rightarrow> Some (Inr (rd\<lparr>rd_data := Some buf\<rparr>))))"

section \<open>MNIST\<close>

definition reverseInt :: "u32 \<Rightarrow> u32" where
  "reverseInt i =
     (let ch1 = i AND 255; ch2 = drop_bit 8 i AND 255; ch3 = drop_bit 16 i AND 255; ch4 = drop_bit 24 i AND 255
      in push_bit 24 ch1 + push_bit 16 ch2 + push_bit 8 ch3 + ch4)"

definition read_int :: "ifs \<Rightarrow> u32 \<times> ifs" where
  "read_int s = (let (b, s) = is_read 4 s in (reverseInt (of_nat (le_value b)), s))"

text \<open>The pixel loops: one byte a time, zero when the file has ended.\<close>

fun mnist_pixels :: "nat \<Rightarrow> nat \<Rightarrow> u8 list \<times> ifs \<Rightarrow> (u8 list \<times> ifs) option" where
  "mnist_pixels 0 count st = Some st"
| "mnist_pixels (Suc n) count st =
     (let (b, s) = is_read 1 (snd st);
          temp = (case b of [] \<Rightarrow> 0 | x # _ \<Rightarrow> x)
      in do {
        buf \<leftarrow> store_block (fst st) count [temp];
        mnist_pixels n (count + 1) (buf, s)
      })"

definition MnistUbyte :: "(nat \<Rightarrow> bool) \<Rightarrow> (nat \<Rightarrow> u8) \<Rightarrow> u8 list option \<Rightarrow> reader outcome" where
  "MnistUbyte can_alloc junk file =
     (case file of
        None \<Rightarrow> Some (Inr blank_reader)
      | Some bytes \<Rightarrow>
          let (magic_number, s) = read_int (open_file bytes)
          in if magic_number \<noteq> 2051 then Some (Inr blank_reader)
             else
               let (number_of_images, s) = read_int s;
                   (n_rows, s) = read_int s;
                   height = scast n_rows :: u64;
                   (n_cols, s) = read_int s;
                   width = scast n_cols :: u64;
                   sz = unat (width * height);
                   rd = blank_reader\<lparr>rd_height := height, rd_width := width, rd_shape := [height, width]\<rparr>
               in if \<not> can_alloc sz then Some (Inl ''bad_alloc'')
                  else
                    let pixels = (if 0 < sint number_of_images then nat (sint n_rows) * nat (sint n_cols) else 0)
                    in case mnist_pixels pixels 0 (map junk [0..<sz], s) of
                         None \<Rightarrow> None
                       | Some (buf, _) \<Rightarrow> Some (Inr (rd\<lparr>rd_data := Some buf\<rparr>)))"

section \<open>Raw NV12\<close>

text \<open>What follows the last dot of the name, if there is one.\<close>

fun extension :: "string \<Rightarrow> string option" where
  "extension [] = None"
| "extension (c # s) =
     (case extension s of
        Some e \<Rightarrow> Some e
      | None \<Rightarrow> if c = CHR ''.'' then Some s else None)"

record yuv_reader = reader +
  yr_size :: u64

definition YUV_NV12 :: "(nat \<Rightarrow> bool) \<Rightarrow> string \<Rightarrow> u8 list option \<Rightarrow> yuv_reader outcome" where
  "YUV_NV12 can_alloc filename file =
     (let none = \<lparr>rd_height = 0, rd_width = 0, rd_data = None, rd_shape = [], yr_size = 0\<rparr>
      in if extension filename \<noteq> Some ''yuv'' then Some (Inr none)
         else case file of
           None \<Rightarrow> Some (Inr none)
         | Some bytes \<Rightarrow>
             if \<not> can_alloc (length bytes) then Some (Inl ''bad_alloc'')
             else Some (Inr (none\<lparr>rd_data := Some bytes, yr_size := of_nat (length bytes)\<rparr>)))"

section \<open>Use of a reader\<close>

definition bmp_size :: "reader \<Rightarrow> u64" where
  "bmp_size r = rd_width r * rd_height r * 3"

definition mnist_size :: "reader \<Rightarrow> u64" where
  "mnist_size r = rd_width r * rd_height r"

definition bmp_getData :: "reader \<Rightarrow> u64 \<Rightarrow> u64 \<Rightarrow> u8 list option" where
  "bmp_getData r width height =
     (if width * height \<noteq> 0 \<and> rd_width r * rd_height r \<noteq> width * height then None else rd_data r)"

definition yuv_getData :: "yuv_reader \<Rightarrow> u64 \<Rightarrow> u64 \<Rightarrow> u8 list option" where
  "yuv_getData r width height =
     (if width * height * 3 div 2 \<noteq> yr_size r then None else rd_data r)"

text \<open>The registry tries the creators in the order they were registered.\<close>

fun CreateReader :: "(u64 \<times> 'r) outcome list \<Rightarrow> ('r option) outcome" where
  "CreateReader [] = Some (Inr None)"
| "CreateReader (maker # makers) =
     (case maker of
        None \<Rightarrow> None
      | Some (Inl e) \<Rightarrow> Some (Inl e)
      | Some (Inr (sz, r)) \<Rightarrow> if sz \<noteq> 0 then Some (Inr (Some r)) else CreateReader makers)"

section \<open>Reading\<close>

lemma is_read_append [simp]:
  "\<not> is_fail s \<Longrightarrow> is_rest s = bs @ rest \<Longrightarrow> length bs = n \<Longrightarrow> is_read n s = (bs, s\<lparr>is_rest := rest, is_fail := False\<rparr>)"
  by (simp add: is_read_def)

lemma store_block_mid:
  "length A = off \<Longrightarrow> length J = length bs \<Longrightarrow> store_block (A @ J @ B) off bs = Some (A @ bs @ B)"
  by (simp add: store_block_def)

definition body_bytes :: "u8 list list \<Rightarrow> u8 list list \<Rightarrow> u8 list" where
  "body_bytes rows pads = concat (map (\<lambda>(r, p). r @ p) (zip rows pads))"

lemma bmp_row_read:
  assumes "\<not> is_fail s" "is_rest s = r @ p @ rest" "length r = w * 3" "length p = w mod 4"
    and "store_block buf (w * 3 * (if rv then i else h - 1 - i)) r = Some buf1"
  shows "bmp_row rv w h i (buf, s) = Some (buf1, s\<lparr>is_rest := rest, is_fail := False\<rparr>)"
  using assms by (simp add: bmp_row_def Let_def)

lemma bmp_rows_down:
  assumes "length rs = length ps" "\<forall>r \<in> set rs. length r = w * 3" "\<forall>p \<in> set ps. length p = w mod 4"
  shows "length A = w * 3 * k \<Longrightarrow> length J = w * 3 * length rs \<Longrightarrow> h = k + length rs \<Longrightarrow> \<not> is_fail s \<Longrightarrow>
    is_rest s = body_bytes rs ps @ tail \<Longrightarrow>
    \<exists>s1. bmp_rows True w h [k..<h] (A @ J, s) = Some (A @ concat rs, s1)"
  using assms
proof (induction rs ps arbitrary: A J k s rule: list_induct2)
  case Nil
  then show ?case by simp
next
  case (Cons r rs p ps)
  define J1 where "J1 = take (w * 3) J"
  define J2 where "J2 = drop (w * 3) J"
  have J: "J = J1 @ J2" "length J1 = w * 3" "length J2 = w * 3 * length rs"
    using Cons.prems(2) by (simp_all add: J1_def J2_def)
  have st: "store_block (A @ J) (w * 3 * (if True then k else h - 1 - k)) r = Some (A @ r @ J2)"
    using store_block_mid [of A "w * 3 * k" J1 r J2] Cons.prems J by simp
  have rd: "bmp_row True w h k (A @ J, s)
      = Some (A @ r @ J2, s\<lparr>is_rest := body_bytes rs ps @ tail, is_fail := False\<rparr>)"
    by (rule bmp_row_read [OF _ _ _ _ st]) (use Cons.prems in \<open>auto simp: body_bytes_def\<close>)
  have "\<exists>s1. bmp_rows True w h [Suc k..<h] ((A @ r) @ J2, s\<lparr>is_rest := body_bytes rs ps @ tail, is_fail := False\<rparr>)
      = Some ((A @ r) @ concat rs, s1)"
    by (rule Cons.IH) (use Cons.prems J in simp_all)
  moreover have "[k..<h] = k # [Suc k..<h]" using Cons.prems(3) by (intro upt_conv_Cons) simp
  ultimately show ?case using rd by (simp del: upt_Suc)
qed

lemma bmp_rows_up:
  assumes "length rs = length ps" "\<forall>r \<in> set rs. length r = w * 3" "\<forall>p \<in> set ps. length p = w mod 4"
  shows "length J = w * 3 * length rs \<Longrightarrow> h = k + length rs \<Longrightarrow> \<not> is_fail s \<Longrightarrow>
    is_rest s = body_bytes rs ps @ tail \<Longrightarrow>
    \<exists>s1. bmp_rows False w h [k..<h] (J @ B, s) = Some (concat (rev rs) @ B, s1)"
  using assms
proof (induction rs ps arbitrary: J B k s rule: list_induct2)
  case Nil
  then show ?case by simp
next
  case (Cons r rs p ps)
  define J1 where "J1 = take (w * 3 * length rs) J"
  define J2 where "J2 = drop (w * 3 * length rs) J"
  have J: "J = J1 @ J2" "length J1 = w * 3 * length rs" "length J2 = w * 3"
    using Cons.prems(1) by (simp_all add: J1_def J2_def)
  have at: "h - 1 - k = length rs" using Cons.prems(2) by simp
  have st: "store_block (J @ B) (w * 3 * (if False then k else h - 1 - k)) r = Some (J1 @ r @ B)"
    using store_block_mid [of J1 "w * 3 * length rs" J2 r B] Cons.prems J unfolding at by simp
  have rd: "bmp_row False w h k (J @ B, s)
      = Some (J1 @ r @ B, s\<lparr>is_rest := body_bytes rs ps @ tail, is_fail := False\<rparr>)"
    by (rule bmp_row_read [OF _ _ _ _ st]) (use Cons.prems in \<open>auto simp: body_bytes_def\<close>)
  have "\<exists>s1. bmp_rows False w h [Suc k..<h] (J1 @ (r @ B), s\<lparr>is_rest := body_bytes rs ps @ tail, is_fail := False\<rparr>)
      = Some (concat (rev rs) @ (r @ B), s1)"
    by (rule Cons.IH) (use Cons.prems J in simp_all)
  moreover have "[k..<h] = k # [Suc k..<h]" using Cons.prems(2) by (intro upt_conv_Cons) simp
  ultimately show ?case using rd by (simp del: upt_Suc)
qed

lemma bmp_bytes_fit:
  assumes "w < 2147483648" "h < 2147483648"
  shows "unat (of_nat w * of_nat h * 3 :: u64) = w * 3 * h"
proof -
  have "w * h \<le> 2147483647 * 2147483647" using assms by (intro mult_le_mono) simp_all
  then have b: "w * h < 4611686018427387904" by simp
  then have "unat (of_nat w * of_nat h :: u64) = w * h"
    using assms by (simp add: unat_mult_u64 unat_of_nat_u64)
  then show ?thesis using b by (subst unat_mult_u64) simp_all
qed

lemma bmp_rows_read:
  assumes "length rows = h" "length pads = h" "\<forall>r \<in> set rows. length r = w * 3" "\<forall>p \<in> set pads. length p = w mod 4"
    and "\<not> is_fail s" "is_rest s = body_bytes rows pads @ tail"
  shows "\<exists>s1. bmp_rows top_down w h [0..<h] (map junk [0..<w * 3 * h], s)
      = Some (concat (if top_down then rows else rev rows), s1)"
proof (cases top_down)
  case True
  have "\<exists>s1. bmp_rows True w h [0..<h] ([] @ map junk [0..<w * 3 * h], s) = Some ([] @ concat rows, s1)"
    by (rule bmp_rows_down) (use assms in simp_all)
  then show ?thesis using True by simp
next
  case False
  have "\<exists>s1. bmp_rows False w h [0..<h] (map junk [0..<w * 3 * h] @ [], s) = Some (concat (rev rows) @ [], s1)"
    by (rule bmp_rows_up) (use assms in simp_all)
  then show ?thesis using False by simp
qed

lemma bmp_read_rows:
  assumes content: "bytes = [66, 77] @ fsize @ reserved @ offset @ info @ gap @ body_bytes rows pads @ tail"
    and hdr: "length fsize = 4" "length reserved = 4" "length offset = 4" "length info = 40"
    and off: "le_value offset = 54 + length gap"
    and inf: "parse_info info = \<lparr>bi_width = int w, bi_height = (if top_down then - int h else int h), bi_bits = 24, bi_compression = c\<rparr>"
    and rows: "length rows = h" "length pads = h" "\<forall>r \<in> set rows. length r = w * 3" "\<forall>p \<in> set pads. length p = w mod 4"
    and small: "0 < h" "w < 2147483648" "h < 2147483648" and al: "can_alloc (w * 3 * h)"
  shows "BitMap can_alloc junk (Some bytes)
    = Some (Inr \<lparr>rd_height = of_nat h, rd_width = of_nat w,
        rd_data = Some (concat (if top_down then rows else rev rows)), rd_shape = [of_nat h, of_nat w]\<rparr>)"
proof -
  let ?body = "body_bytes rows pads @ tail"
  have rd: "is_read 2 (open_file bytes) = ([66, 77], (open_file bytes)\<lparr>is_rest := fsize @ reserved @ offset @ info @ gap @ ?body, is_fail := False\<rparr>)"
    by (rule is_read_append) (simp_all add: open_file_def content)
  have magic: "le_value [66, 77] = 77 * 256 + 66" by simp
  define s where "s = (open_file bytes)\<lparr>is_rest := ?body, is_fail := False\<rparr>"
  have seek: "is_seek (54 + length gap) ((open_file bytes)\<lparr>is_rest := gap @ ?body, is_fail := False\<rparr>) = s"
  proof -
    let ?pre = "[66, 77] @ fsize @ reserved @ offset @ info @ gap"
    have "bytes = ?pre @ ?body" "length ?pre = 54 + length gap" using hdr by (simp_all add: content)
    then have "drop (54 + length gap) bytes = ?body" by (metis append_eq_conv_conj)
    then show ?thesis by (simp add: is_seek_def s_def open_file_def)
  qed
  have u: "unat (of_nat w :: u64) = w" "unat (of_nat h :: u64) = h"
    using small by (simp_all add: unat_of_nat_u64)
  note sz = bmp_bytes_fit [OF small(2,3)]
  have abs: "\<bar>if top_down then - int h else int h\<bar> = int h" by simp
  have neg: "(if top_down then - int h else int h) < 0 \<longleftrightarrow> top_down" using small(1) by simp
  have mn: "(if top_down then - int h else int h) \<noteq> - 2147483648" using small by simp
  have "\<not> is_fail s" "is_rest s = ?body" by (simp_all add: s_def)
  from bmp_rows_read [OF rows this]
  obtain s1 where run: "bmp_rows top_down w h [0..<h] (map junk [0..<w * 3 * h], s)
      = Some (concat (if top_down then rows else rev rows), s1)" by blast
  show ?thesis
    by (simp only: BitMap_def option.case rd Let_def case_prod_conv magic simp_thms if_True if_False)
      (simp add: hdr inf abs neg mn u sz al off seek run blank_reader_def)
qed

text \<open>
  C11: a 24 bit BMP file, wherever its pixel data starts and whatever fills its rows up to four
  bytes, is read into its rows from the top, both when the file stores them from the bottom and
  when a negative height says that it stores them from the top.
\<close>

theorem bmp_reads_image:
  assumes content: "bytes = [66, 77] @ fsize @ reserved @ offset @ info @ gap @ body_bytes rows pads @ tail"
    and hdr: "length fsize = 4" "length reserved = 4" "length offset = 4" "length info = 40"
    and off: "le_value offset = 54 + length gap"
    and inf: "parse_info info = \<lparr>bi_width = int w, bi_height = (if top_down then - int h else int h), bi_bits = 24, bi_compression = c\<rparr>"
    and rows: "length rows = h" "length pads = h" "\<forall>r \<in> set rows. length r = w * 3" "\<forall>p \<in> set pads. length p = w mod 4"
    and small: "0 < h" "w < 2147483648" "h < 2147483648" and al: "can_alloc (w * 3 * h)"
  shows "BitMap can_alloc junk (Some bytes)
    = Some (Inr \<lparr>rd_height = of_nat h, rd_width = of_nat w,
        rd_data = Some (concat (if top_down then rows else rev rows)), rd_shape = [of_nat h, of_nat w]\<rparr>)"
  using assms by (rule bmp_read_rows)

lemma bmp_reads_image_witness:
  "BitMap (\<lambda>n. n < 1000) (\<lambda>i. 7)
     (Some ([66, 77] @ [62, 0, 0, 0] @ [0, 0, 0, 0] @ [55, 0, 0, 0]
       @ [40, 0, 0, 0, 1, 0, 0, 0, 2, 0, 0, 0, 1, 0, 24, 0, 0, 0, 0, 0, 0, 0, 0, 0, 0, 0, 0, 0,
        0, 0, 0, 0, 0, 0, 0, 0, 0, 0, 0, 0]
       @ [99] @ body_bytes [[1, 2, 3], [4, 5, 6]] [[0], [0]] @ []))
   = Some (Inr \<lparr>rd_height = of_nat 2, rd_width = of_nat 1,
       rd_data = Some (concat (if False then [[1, 2, 3], [4, 5, 6]] else rev [[1, 2, 3], [4, 5, 6]])),
       rd_shape = [of_nat 2, of_nat 1]\<rparr>)"
  by (rule bmp_reads_image [OF refl, where c = 0]) (simp_all add: parse_info_def to_int_def)

section \<open>MNIST numbers\<close>

definition be_value :: "u8 list \<Rightarrow> nat" where
  "be_value bs = foldl (\<lambda>a b. a * 256 + unat b) 0 bs"

lemma byte_bound: "unat (b :: u8) < 256"
  using unsigned_less [of b] by simp

lemma of_nat_div_mod:
  assumes "N < 4294967296" "0 < m" "m < 4294967296"
  shows "(of_nat N :: u32) div of_nat m mod 256 = of_nat (N div m mod 256)"
proof -
  have "N div m \<le> N" by simp
  then have "unat ((of_nat N :: u32) div of_nat m mod 256) = N div m mod 256"
    using assms by (simp add: unat_mod_distrib unat_div_distrib unat_of_nat_u32)
  moreover have "unat (of_nat (N div m mod 256) :: u32) = N div m mod 256"
    by (rule unat_of_nat_u32) (use pos_mod_bound [of 256] in \<open>simp add: less_trans [OF mod_less_divisor]\<close>)
  ultimately show ?thesis by (simp add: word_unat_eq_iff)
qed

text \<open>\<open>reverseInt\<close> of four bytes read in little-endian order is the number they write in big-endian order.\<close>

lemma reverseInt_bytes:
  "reverseInt (of_nat (le_value [a, b, c, d])) = of_nat (be_value [a, b, c, d])"
proof -
  let ?N = "le_value [a, b, c, d]"
  have bd: "unat a < 256" "unat b < 256" "unat c < 256" "unat d < 256" by (rule byte_bound)+
  then have N: "?N < 4294967296" by simp
  have dg: "(x + 256 * y) mod 256 = x" "(x + 256 * y) div 256 = y" if "x < 256" for x y :: nat
    using that by simp_all
  have d2: "n div 65536 = n div 256 div 256" "n div 16777216 = n div 256 div 256 div 256" for n :: nat
    by (simp_all flip: div_mult2_eq)
  have "?N div 1 mod 256 = unat a"
    by (simp only: div_by_1 le_value.simps dg(1) [OF bd(1)])
  moreover have "?N div 256 mod 256 = unat b" "?N div 65536 mod 256 = unat c" "?N div 16777216 mod 256 = unat d"
    unfolding d2 le_value.simps dg(2) [OF bd(1)] dg(2) [OF bd(2)] dg(2) [OF bd(3)] dg(1) [OF bd(2)] dg(1) [OF bd(3)]
    using bd(4) by simp_all
  ultimately have dm: "?N div 1 mod 256 = unat a" "?N div 256 mod 256 = unat b" "?N div 65536 mod 256 = unat c"
    "?N div 16777216 mod 256 = unat d" .
  have m: "x AND 255 = x mod 256" for x :: u32
    using take_bit_eq_mask [of 8 x] take_bit_eq_mod [of 8 x] by (simp add: mask_eq_exp_minus_1)
  have "of_nat ?N AND 255 = (of_nat (unat a) :: u32)" "drop_bit 8 (of_nat ?N) AND 255 = (of_nat (unat b) :: u32)"
    "drop_bit 16 (of_nat ?N) AND 255 = (of_nat (unat c) :: u32)" "drop_bit 24 (of_nat ?N) AND 255 = (of_nat (unat d) :: u32)"
    unfolding m drop_bit_eq_div
    using of_nat_div_mod [OF N, of 1] of_nat_div_mod [OF N, of 256] of_nat_div_mod [OF N, of 65536]
      of_nat_div_mod [OF N, of 16777216] unfolding dm by simp_all
  then show ?thesis
    unfolding reverseInt_def Let_def be_value_def by (simp add: push_bit_eq_mult algebra_simps)
qed

lemma read_int_bytes:
  assumes "\<not> is_fail s" "is_rest s = bs @ rest" "length bs = 4"
  shows "read_int s = (of_nat (be_value bs), s\<lparr>is_rest := rest, is_fail := False\<rparr>)"
proof -
  obtain a b c d where "bs = [a, b, c, d]"
    using assms(3) by (auto simp: length_Suc_conv eval_nat_numeral)
  moreover have "is_read 4 s = (bs, s\<lparr>is_rest := rest, is_fail := False\<rparr>)" by (rule is_read_append [OF assms])
  ultimately show ?thesis by (simp only: read_int_def Let_def case_prod_conv reverseInt_bytes)
qed

lemma mnist_pixels_read:
  "length px = n \<Longrightarrow> length J = n \<Longrightarrow> length A = k \<Longrightarrow> \<not> is_fail s \<Longrightarrow> is_rest s = px @ rest \<Longrightarrow>
   \<exists>s1. mnist_pixels n k (A @ J, s) = Some (A @ px, s1)"
proof (induction n arbitrary: px J A k s)
  case 0
  then show ?case by simp
next
  case (Suc n)
  then obtain x xs j js where px: "px = x # xs" "J = j # js" by (metis length_Suc_conv)
  let ?s = "s\<lparr>is_rest := xs @ rest, is_fail := False\<rparr>"
  have rd: "is_read 1 s = ([x], ?s)" by (rule is_read_append) (use Suc.prems px in simp_all)
  have st: "store_block (A @ J) k [x] = Some (A @ [x] @ js)"
    using store_block_mid [of A k "[j]" "[x]" js] Suc.prems px by simp
  have "\<exists>s1. mnist_pixels n (k + 1) ((A @ [x]) @ js, ?s) = Some ((A @ [x]) @ xs, s1)"
    by (rule Suc.IH) (use Suc.prems px in simp_all)
  then show ?case using rd st px by simp
qed

text \<open>
  an MNIST file with at least one image is read as the first image it holds, the sizes and the
  magic number in big-endian order.
\<close>

theorem mnist_reads_first_image:
  assumes "length magic = 4" "length num = 4" "length hb = 4" "length wb = 4"
    and "be_value magic = 2051" "0 < be_value num" "be_value num < 2147483648"
    and "be_value hb = h" "be_value wb = w" "h < 2147483648" "w < 2147483648"
    and "length px = h * w" "can_alloc (h * w)"
  shows "MnistUbyte can_alloc junk (Some (magic @ num @ hb @ wb @ px @ rest))
    = Some (Inr \<lparr>rd_height = of_nat h, rd_width = of_nat w, rd_data = Some px, rd_shape = [of_nat h, of_nat w]\<rparr>)"
proof -
  let ?f = "magic @ num @ hb @ wb @ px @ rest"
  have r1: "read_int (open_file ?f) = (2051, (open_file ?f)\<lparr>is_rest := num @ hb @ wb @ px @ rest, is_fail := False\<rparr>)"
    using read_int_bytes [of "open_file ?f" magic "num @ hb @ wb @ px @ rest"] assms(1,5) by (simp add: open_file_def)
  note rd = read_int_bytes [of "(open_file ?f)\<lparr>is_rest := xs, is_fail := False\<rparr>" for xs, simplified]
  have sc: "scast (of_nat n :: u32) = (of_nat n :: u64)" "sint (of_nat n :: u32) = int n" if "n < 2147483648" for n
  proof -
    have u: "uint (of_nat n :: u32) = int n" using that by (simp add: unsigned_of_nat take_bit_nat_eq_self)
    then show si: "sint (of_nat n :: u32) = int n"
      using that by (simp add: sint_uint signed_take_bit_int_eq_self)
    show "scast (of_nat n :: u32) = (of_nat n :: u64)"
      by (simp add: scast_eq si)
  qed
  have sz: "unat (of_nat w * of_nat h :: u64) = h * w"
  proof -
    have "w * h \<le> 2147483647 * 2147483647" using assms(10,11) by (intro mult_le_mono) simp_all
    then show ?thesis using assms(10,11) by (subst unat_mult_u64) (simp_all add: unat_of_nat_u64 mult.commute)
  qed
  obtain s1 where px: "mnist_pixels (h * w) 0 ([] @ map junk [0..<h * w],
      (open_file ?f)\<lparr>is_rest := px @ rest, is_fail := False\<rparr>) = Some ([] @ px, s1)"
    using mnist_pixels_read [of px "h * w" "map junk [0..<h * w]" "[]" 0
        "(open_file ?f)\<lparr>is_rest := px @ rest, is_fail := False\<rparr>" rest] assms(12) by auto
  have n: "0 < sint (of_nat (be_value num) :: u32)" using sc(2) [OF assms(7)] assms(6) by simp
  show ?thesis
    using assms(2-4,8-13) px n
    by (simp add: MnistUbyte_def r1 rd sc sz blank_reader_def Let_def)
qed

lemma mnist_reads_first_image_witness:
  "MnistUbyte (\<lambda>n. True) (\<lambda>i. 0) (Some ([0, 0, 8, 3] @ [0, 0, 0, 1] @ [0, 0, 0, 1] @ [0, 0, 0, 2] @ [7, 9] @ []))
    = Some (Inr \<lparr>rd_height = of_nat 1, rd_width = of_nat 2, rd_data = Some [7, 9], rd_shape = [of_nat 1, of_nat 2]\<rparr>)"
  by (rule mnist_reads_first_image) (simp_all add: be_value_def)

end
