(* ===== verification/Sample_Inputs.thy ===== *)
theory Sample_Inputs
  imports Sample_Devices Sample_Formats Ov_Properties
begin

text \<open>
  The inputs of \<open>benchmark_app\<close> (\<open>samples/cpp/benchmark_app/utils.cpp\<close>): the files, shapes, layouts,
  scales and means given on the command line, and the configurations of the model's inputs they
  make. \<open>None\<close> is undefined behaviour, \<open>Inl\<close> a thrown exception; of the longer messages the constant
  part before the first name is kept. The runtime library is a record of functions: layouts and
  partial shapes are opaque, each function an accessor that may throw. Readers of image files come
  from \<open>open_reader\<close>. Diagnostics are not modelled.
\<close>

section \<open>Inputs of a model\<close>

record ('l, 'p) ov_api =
  mk_layout :: "string \<Rightarrow> 'l result"
  layout_empty :: "'l \<Rightarrow> bool"
  has_batch :: "'l \<Rightarrow> bool"
  batch_idx :: "'l \<Rightarrow> int result"
  channels_idx :: "'l \<Rightarrow> int result"
  depth_idx :: "'l \<Rightarrow> int result"
  height_idx :: "'l \<Rightarrow> int result"
  width_idx :: "'l \<Rightarrow> int result"
  mk_shape :: "string \<Rightarrow> 'p result"
  shape_static :: "'p \<Rightarrow> bool"
  shape_size :: "'p \<Rightarrow> nat result"
  dim_max_length :: "'p \<Rightarrow> nat \<Rightarrow> int"
  dim_static :: "'p \<Rightarrow> nat \<Rightarrow> bool"
  dim_length :: "'p \<Rightarrow> nat \<Rightarrow> int"
  set_dim :: "'p \<Rightarrow> int \<Rightarrow> u64 \<Rightarrow> 'p"
  shapes_compatible :: "'p \<Rightarrow> 'p \<Rightarrow> bool"
  to_shape :: "'p \<Rightarrow> u64 list result"
  get_shape :: "'p \<Rightarrow> u64 list result"
  show_shape :: "'p \<Rightarrow> string"

record ('l, 'p) model_port =
  port_names :: "string list result"
  any_name :: "string result"
  friendly_name :: string
  port_type :: Type_t
  port_shape :: 'p
  port_layout :: "'l result"

record ('l, 'p, 'f) InputInfo =
  in_type :: Type_t
  partialShape :: 'p
  dataShape :: "u64 list"
  in_layout :: 'l
  in_scale :: "'f list"
  in_mean :: "'f list"

type_synonym ('l, 'p, 'f) InputsInfo = "(string \<times> ('l, 'p, 'f) InputInfo) list"

text \<open>\<open>std::vector::at\<close>: an \<open>int64_t\<close> index is converted to \<open>size_t\<close>.\<close>

definition vec_at :: "'a list \<Rightarrow> int \<Rightarrow> 'a result" where
  "vec_at xs i = (if 0 \<le> i \<and> i < int (length xs) then Inr (xs ! nat i) else Inl ''out_of_range'')"

definition info_dim :: "('l \<Rightarrow> int result) \<Rightarrow> ('l, 'p, 'f) InputInfo \<Rightarrow> u64 result" where
  "info_dim idx info = and_then (idx (in_layout info)) (vec_at (dataShape info))"

definition info_width :: "('l, 'p) ov_api \<Rightarrow> ('l, 'p, 'f) InputInfo \<Rightarrow> u64 result" where
  "info_width api info = info_dim (width_idx api) info"

definition info_height :: "('l, 'p) ov_api \<Rightarrow> ('l, 'p, 'f) InputInfo \<Rightarrow> u64 result" where
  "info_height api info = info_dim (height_idx api) info"

definition info_channels :: "('l, 'p) ov_api \<Rightarrow> ('l, 'p, 'f) InputInfo \<Rightarrow> u64 result" where
  "info_channels api info = info_dim (channels_idx api) info"

definition info_batch :: "('l, 'p) ov_api \<Rightarrow> ('l, 'p, 'f) InputInfo \<Rightarrow> u64 result" where
  "info_batch api info = info_dim (batch_idx api) info"

definition info_depth :: "('l, 'p) ov_api \<Rightarrow> ('l, 'p, 'f) InputInfo \<Rightarrow> u64 result" where
  "info_depth api info = info_dim (depth_idx api) info"

definition layout_is :: "('l, 'p) ov_api \<Rightarrow> 'l \<Rightarrow> string \<Rightarrow> bool" where
  "layout_is api l text \<longleftrightarrow> mk_layout api text = Inr l"

definition is_image :: "('l, 'p) ov_api \<Rightarrow> ('l, 'p, 'f) InputInfo \<Rightarrow> bool result" where
  "is_image api info =
     (let l = in_layout info
      in if \<not> layout_is api l ''NCHW'' \<and> \<not> layout_is api l ''NHWC'' \<and> \<not> layout_is api l ''CHW'' \<and> \<not> layout_is api l ''HWC''
         then Inr False
         else if dataShape info = [] then Inr True
         else and_then (info_channels api info) (\<lambda>c. Inr (c = 3)))"

definition is_image_info :: "('l, 'p) ov_api \<Rightarrow> ('l, 'p, 'f) InputInfo \<Rightarrow> bool result" where
  "is_image_info api info =
     (if \<not> layout_is api (in_layout info) ''NC'' then Inr False
      else and_then (info_channels api info) (\<lambda>c. Inr (2 \<le> c)))"

definition can_measure_as_static :: "('l, 'p) ov_api \<Rightarrow> ('l, 'p, 'f) InputsInfo list \<Rightarrow> bool" where
  "can_measure_as_static api app_input_info \<longleftrightarrow>
     \<not> list_ex (list_ex (\<lambda>(_, info). \<not> shape_static api (partialShape info) \<and> length app_input_info > 1)) app_input_info"

fun batch_size_loop :: "('l, 'p) ov_api \<Rightarrow> ('l, 'p, 'f) InputsInfo \<Rightarrow> u64 \<Rightarrow> u64 result" where
  "batch_size_loop api [] batch_size = Inr (if batch_size = 0 then 1 else batch_size)"
| "batch_size_loop api ((_, info) # infos) batch_size =
     (if has_batch api (in_layout info) then
        and_then (info_batch api info) (\<lambda>b.
          if batch_size = 0 then batch_size_loop api infos b
          else if batch_size \<noteq> b then Inl ''Can't deterimine batch size: batch is different for different inputs!''
          else batch_size_loop api infos batch_size)
      else batch_size_loop api infos batch_size)"

definition get_batch_size :: "('l, 'p) ov_api \<Rightarrow> ('l, 'p, 'f) InputsInfo \<Rightarrow> u64 result" where
  "get_batch_size api inputs_info = batch_size_loop api inputs_info 0"

fun shapes_loop :: "('p \<Rightarrow> string) \<Rightarrow> (string \<times> 'p) list \<Rightarrow> string \<Rightarrow> string" where
  "shapes_loop show [] ss = ss"
| "shapes_loop show ((name, shape) # shapes) ss =
     shapes_loop show shapes (ss @ (if ss \<noteq> [] then '', '' else []) @ CHR 0x27 # name @ CHR 0x27 # '': '' @ show shape)"

definition get_shapes_string :: "('l, 'p) ov_api \<Rightarrow> (string \<times> 'p) list \<Rightarrow> string" where
  "get_shapes_string api shapes = shapes_loop (show_shape api) shapes []"

section \<open>Scales and means\<close>

fun split_float :: "(string \<Rightarrow> 'f result) \<Rightarrow> string list \<Rightarrow> 'f list result" where
  "split_float stof [] = Inr []"
| "split_float stof (item # items) =
     and_then (stof item) (\<lambda>x. and_then (split_float stof items) (\<lambda>xs. Inr (x # xs)))"

fun assign_images ::
    "('l, 'p) ov_api \<Rightarrow> ('l, 'p, 'f) InputsInfo \<Rightarrow> 'f list \<Rightarrow> (string \<times> 'f list) list \<Rightarrow> (string \<times> 'f list) list result" where
  "assign_images api [] v m = Inr m"
| "assign_images api ((name, info) # infos) v m =
     and_then (is_image api info) (\<lambda>img. assign_images api infos v (if img then map_assign name v m else m))"

text \<open>The \<open>while\<close> loop: what is left of the text and the map, when the loop is left.\<close>

function scale_loop ::
    "('l, 'p) ov_api \<Rightarrow> (string \<Rightarrow> 'f result) \<Rightarrow> ('l, 'p, 'f) InputsInfo \<Rightarrow> string \<Rightarrow> (string \<times> 'f list) list
     \<Rightarrow> (string \<times> (string \<times> 'f list) list) result" where
  "scale_loop api stof inputs_info search_string m =
     (case find_char CHR ''['' search_string of
        None \<Rightarrow> Inr (search_string, m)
      | Some start_pos \<Rightarrow>
          (case find_char CHR '']'' search_string of
             None \<Rightarrow> Inr (search_string, m)
           | Some end_pos \<Rightarrow>
               let input_name = take start_pos search_string;
                   input_value_string = substr_to search_string (start_pos + 1) (Some end_pos)
               in and_then (split_float stof (split_str input_value_string CHR '','')) (\<lambda>input_value.
                  if input_name \<noteq> [] then
                    (let m = (if map_of inputs_info input_name \<noteq> None then map_assign input_name input_value m else m);
                         search_string1 = drop (end_pos + 1) search_string
                     in if search_string1 = [] \<or> hd search_string1 \<noteq> CHR '','' then Inr (search_string1, m)
                        else scale_loop api stof inputs_info (tl search_string1) m)
                  else and_then (assign_images api inputs_info input_value m) (\<lambda>m. Inr ([], m)))))"
  by pat_completeness auto

termination
  by (relation "measure (\<lambda>(api, stof, infos, s, m). length s)")
    (auto dest!: find_char_less simp: less_imp_diff_less)

declare scale_loop.simps [simp del]

definition parse_scale_or_mean ::
    "('l, 'p) ov_api \<Rightarrow> (string \<Rightarrow> 'f result) \<Rightarrow> string \<Rightarrow> ('l, 'p, 'f) InputsInfo \<Rightarrow> (string \<times> 'f list) list result" where
  "parse_scale_or_mean api stof scale_mean inputs_info =
     and_then (scale_loop api stof inputs_info scale_mean []) (\<lambda>(search_string, return_value).
       if search_string \<noteq> [] then Inl (''Can't parse input parameter string: '' @ scale_mean) else Inr return_value)"

section \<open>Input files\<close>

text \<open>The \<open>do\<close> loop: the paths and what it leaves of the text.\<close>

function path_loop :: "string \<Rightarrow> string list \<Rightarrow> string list \<times> string" where
  "path_loop search_string file_paths =
     (case find_char CHR '','' search_string of
        None \<Rightarrow> (file_paths @ [search_string], [])
      | Some coma_pos \<Rightarrow> path_loop (drop (coma_pos + 1) search_string) (file_paths @ [take coma_pos search_string]))"
  by pat_completeness auto

termination
  by (relation "measure (\<lambda>(s, ps). length s)") (auto dest: find_char_less)

declare path_loop.simps [simp del]

definition name_end :: "string \<Rightarrow> nat option" where
  "name_end s =
     (let semicolon_pos = find_char CHR '':'' s;
          quote_pos = find_char CHR 0x22 s;
          semicolon_pos = (case (semicolon_pos, quote_pos) of (Some a, Some b) \<Rightarrow> if b < a then None else Some a | _ \<Rightarrow> semicolon_pos)
      in if 2 < length s \<and> semicolon_pos = Some 1 \<and> s ! 2 = CHR 0x5C then None else semicolon_pos)"

definition parse_input_files :: "string \<Rightarrow> (string \<times> string list) result" where
  "parse_input_files file_paths_string =
     (let semicolon_pos = name_end file_paths_string;
          input_name = (case semicolon_pos of None \<Rightarrow> [] | Some p \<Rightarrow> take p file_paths_string);
          search_string = (case semicolon_pos of None \<Rightarrow> file_paths_string | Some p \<Rightarrow> drop (p + 1) file_paths_string);
          (file_paths, search_string) = path_loop search_string []
      in if search_string \<noteq> [] then Inl (''Can't parse file paths for input '' @ input_name)
         else Inr (input_name, file_paths))"

fun add_files :: "(string \<Rightarrow> fs_node option) \<Rightarrow> string list \<Rightarrow> string list \<Rightarrow> string list result" where
  "add_files fs [] files = Inr files"
| "add_files fs (f # fs') files =
     (if f = ''image_info'' \<or> f = ''random'' then add_files fs fs' (files @ [f])
      else and_then (readInputFilesArguments fs files f) (\<lambda>files. add_files fs fs' files))"

type_synonym mapped = "(string \<times> string list) list"

definition get_list :: "mapped \<Rightarrow> string \<Rightarrow> string list" where
  "get_list m k = (case map_of m k of None \<Rightarrow> [] | Some v \<Rightarrow> v)"

fun add_arguments :: "(string \<Rightarrow> fs_node option) \<Rightarrow> string list \<Rightarrow> mapped \<Rightarrow> mapped result" where
  "add_arguments fs [] m = Inr m"
| "add_arguments fs (f # fs') m =
     and_then (parse_input_files f) (\<lambda>(name, paths).
     and_then (add_files fs paths (get_list m name)) (\<lambda>files.
       add_arguments fs fs' (map_assign name files m)))"

function input_arguments_loop ::
    "(string \<Rightarrow> fs_node option) \<Rightarrow> string list \<Rightarrow> mapped \<Rightarrow> mapped outcome" where
  "input_arguments_loop fs args m =
     (case dropWhile (\<lambda>s. s \<noteq> ''-i'') args of
        [] \<Rightarrow> ret m
      | _ # rest \<Rightarrow>
          (case split_images rest of
             None \<Rightarrow> None
           | Some (files, args1) \<Rightarrow>
               (case add_arguments fs files m of
                  Inl e \<Rightarrow> throw e
                | Inr m1 \<Rightarrow> input_arguments_loop fs args1 m1)))"
  by pat_completeness auto

termination
proof (relation "measure (\<lambda>(fs, args, m). length args)")
  fix fs :: "string \<Rightarrow> fs_node option" and args m s rest x files args1 m1
  assume a: "dropWhile (\<lambda>s. s \<noteq> ''-i'') args = s # rest" "split_images rest = Some x" "(files, args1) = x"
  have "length (s # rest) \<le> length args" unfolding a(1) [symmetric] by (rule length_dropWhile_le)
  moreover have "length args1 \<le> length rest" using split_images_length a by metis
  ultimately show "((fs, args1, m1), (fs, args, m)) \<in> measure (\<lambda>(fs, args, m). length args)" by simp
qed simp

declare input_arguments_loop.simps [simp del]

definition max_files :: nat where "max_files = 20"

definition parse_input_arguments :: "(string \<Rightarrow> fs_node option) \<Rightarrow> string list \<Rightarrow> mapped outcome" where
  "parse_input_arguments fs args =
     andthen (input_arguments_loop fs args []) (\<lambda>mapped_files.
       ret (map (\<lambda>(name, files). (name, if length files \<le> max_files then files else take max_files files)) mapped_files))"

section \<open>Files by extension\<close>

definition get_extension :: "string \<Rightarrow> string" where
  "get_extension name = (case find_last_char CHR ''.'' name of None \<Rightarrow> [] | Some p \<Rightarrow> drop (p + 1) name)"

definition supported_image_extensions :: "bool \<Rightarrow> string list" where
  "supported_image_extensions USE_OPENCV =
     (if USE_OPENCV then [''bmp'', ''dib'', ''jpeg'', ''jpg'', ''jpe'', ''jp2'', ''png'', ''pbm'', ''pgm'', ''ppm'', ''sr'', ''ras'', ''tiff'', ''tif'']
      else [''bmp''])"

definition has_extension :: "string list \<Rightarrow> string \<Rightarrow> bool" where
  "has_extension extensions filePath \<longleftrightarrow> map tolower (get_extension filePath) \<in> set extensions"

definition is_binary_file :: "string \<Rightarrow> bool" where
  "is_binary_file filePath = has_extension [''bin''] filePath"

definition is_numpy_file :: "string \<Rightarrow> bool" where
  "is_numpy_file filePath = has_extension [''npy''] filePath"

definition is_image_file :: "bool \<Rightarrow> string \<Rightarrow> bool" where
  "is_image_file USE_OPENCV filePath = has_extension (supported_image_extensions USE_OPENCV) filePath"

fun contains_binaries :: "string list \<Rightarrow> bool" where
  "contains_binaries [] \<longleftrightarrow> False"
| "contains_binaries (f # fs) \<longleftrightarrow> (if is_binary_file f then True else contains_binaries fs)"

fun filter_files_by_extensions :: "string list \<Rightarrow> string list \<Rightarrow> string list" where
  "filter_files_by_extensions [] extensions = []"
| "filter_files_by_extensions (f # fs) extensions =
     (if has_extension extensions f then f # filter_files_by_extensions fs extensions
      else filter_files_by_extensions fs extensions)"

section \<open>Names of inputs\<close>

definition has_name :: "string \<Rightarrow> ('l, 'p) model_port \<Rightarrow> bool" where
  "has_name name port = (case port_names port of Inl _ \<Rightarrow> False | Inr ns \<Rightarrow> name \<in> set ns)"

fun by_friendly :: "string \<Rightarrow> ('l, 'p) model_port list \<Rightarrow> string result option" where
  "by_friendly name [] = None"
| "by_friendly name (port # ports) = (if name = friendly_name port then Some (any_name port) else by_friendly name ports)"

text \<open>For an output the friendly name is that of the node that feeds it.\<close>

definition parameter_name_to_tensor_name ::
    "string \<Rightarrow> ('l, 'p) model_port list \<Rightarrow> ('l, 'p) model_port list \<Rightarrow> string result" where
  "parameter_name_to_tensor_name name inputs_info outputs_info =
     (if list_ex (has_name name) inputs_info then Inr name
      else if list_ex (has_name name) outputs_info then Inr name
      else
        (case by_friendly name inputs_info of
           Some r \<Rightarrow> r
         | None \<Rightarrow>
             (case by_friendly name outputs_info of
                Some r \<Rightarrow> r
              | None \<Rightarrow> Inl (''Provided I/O name '' @ CHR 0x22 # name @ CHR 0x22 #
                  '' is not found neither in tensor names nor in nodes names.''))))"

fun convert_io_names :: "(string \<times> 'v) list \<Rightarrow> ('l, 'p) model_port list \<Rightarrow> ('l, 'p) model_port list \<Rightarrow> (string \<times> 'v) list \<Rightarrow> (string \<times> 'v) list result" where
  "convert_io_names [] inputs_info outputs_info new_map = Inr new_map"
| "convert_io_names ((k, v) # items) inputs_info outputs_info new_map =
     and_then (if k = [] then Inr [] else parameter_name_to_tensor_name k inputs_info outputs_info) (\<lambda>k1.
       convert_io_names items inputs_info outputs_info (map_assign k1 v new_map))"

section \<open>Parameters of inputs\<close>

definition push_value :: "string \<Rightarrow> string \<Rightarrow> mapped \<Rightarrow> mapped" where
  "push_value k v m = map_assign k (get_list m k @ [v]) m"

fun push_all :: "('l, 'p) model_port list \<Rightarrow> string \<Rightarrow> mapped \<Rightarrow> mapped result" where
  "push_all [] v m = Inr m"
| "push_all (item # items) v m = and_then (any_name item) (\<lambda>name. push_all items v (push_value name v m))"

function parameters_loop ::
    "('l, 'p) model_port list \<Rightarrow> string \<Rightarrow> string \<Rightarrow> mapped \<Rightarrow> (string \<times> mapped) result" where
  "parameters_loop input_info input_name search_string m =
     (case find_char CHR ''['' search_string of
        None \<Rightarrow> Inr (search_string, m)
      | Some start_pos \<Rightarrow>
          (case find_char CHR '']'' search_string of
             None \<Rightarrow> Inr (search_string, m)
           | Some end_pos \<Rightarrow>
               let input_name = (if start_pos \<noteq> 0 then take start_pos search_string else input_name);
                   input_value = substr_to search_string (start_pos + 1) (Some end_pos)
               in and_then
                    (if input_name \<noteq> [] then
                       and_then (parameter_name_to_tensor_name input_name input_info []) (\<lambda>name.
                         Inr (push_value name input_value m))
                     else push_all input_info input_value m)
                    (\<lambda>m.
                       let search_string1 = drop (end_pos + 1) search_string
                       in if search_string1 = [] \<or> (hd search_string1 \<noteq> CHR '','' \<and> hd search_string1 \<noteq> CHR ''['')
                          then Inr (search_string1, m)
                          else if hd search_string1 = CHR '','' then parameters_loop input_info input_name (tl search_string1) m
                          else parameters_loop input_info input_name search_string1 m)))"
  by pat_completeness auto

termination
  by (relation "measure (\<lambda>(ports, n, s, m). length s)") (auto dest!: find_char_less simp: less_imp_diff_less)

declare parameters_loop.simps [simp del]

definition parse_input_parameters :: "string \<Rightarrow> ('l, 'p) model_port list \<Rightarrow> mapped result" where
  "parse_input_parameters parameter_string input_info =
     (let input_name = (case find_char CHR ''['' parameter_string of None \<Rightarrow> parameter_string | Some p \<Rightarrow> take p parameter_string)
      in and_then (parameters_loop input_info input_name parameter_string []) (\<lambda>(search_string, return_value).
           if search_string \<noteq> [] then Inl (''Can't parse input parameter string: '' @ parameter_string)
           else Inr return_value))"

section \<open>Parameters, as given\<close>

definition show_parameter :: "string \<times> string \<Rightarrow> string" where
  "show_parameter e = fst e @ CHR ''['' # snd e @ '']''"

definition parameter_ok :: "('l, 'p) model_port list \<Rightarrow> string \<times> string \<Rightarrow> bool" where
  "parameter_ok ports e \<longleftrightarrow> fst e \<noteq> [] \<and> CHR ''['' \<notin> set (fst e) \<and> CHR '']'' \<notin> set (fst e) \<and> CHR '']'' \<notin> set (snd e)
     \<and> list_ex (has_name (fst e)) ports"

lemma get_list_push: "get_list (push_value k v m) n = get_list m n @ (if n = k then [v] else [])"
  by (simp add: push_value_def get_list_def map_of_assign)

lemma parameters_loop_entry:
  assumes "parameter_ok ports (n, v)"
  shows "parameters_loop ports i (n @ CHR ''['' # v @ CHR '']'' # rest) m =
    (if rest = [] \<or> (hd rest \<noteq> CHR '','' \<and> hd rest \<noteq> CHR ''['') then Inr (rest, push_value n v m)
     else if hd rest = CHR '','' then parameters_loop ports n (tl rest) (push_value n v m)
     else parameters_loop ports n rest (push_value n v m))"
proof -
  let ?s = "n @ CHR ''['' # v @ CHR '']'' # rest"
  have n: "n \<noteq> []" "CHR ''['' \<notin> set n" "CHR '']'' \<notin> set (n @ CHR ''['' # v)" "list_ex (has_name n) ports"
    using assms by (simp_all add: parameter_ok_def)
  have st: "find_char CHR ''['' ?s = Some (length n)" using n(2) by (rule find_char_split)
  have en: "find_char CHR '']'' ?s = Some (length n + 1 + length v)"
    using find_char_split [OF n(3), of rest] by simp
  have sub: "substr_to ?s (length n + 1) (Some (length n + 1 + length v)) = v" by (simp add: substr_to_def)
  have dr: "drop (length n + 1 + length v + 1) ?s = rest" by simp
  have nm: "parameter_name_to_tensor_name n ports [] = Inr n" using n(4) by (simp add: parameter_name_to_tensor_name_def)
  show ?thesis
    by (subst parameters_loop.simps, unfold st en option.case Let_def sub dr) (simp add: n(1) nm Let_def)
qed

lemma parameters_loop_entries:
  "\<forall>e \<in> set (e # es). parameter_ok ports e \<Longrightarrow>
   parameters_loop ports i (join_with CHR '','' (map show_parameter (e # es))) m
   = Inr ([], foldl (\<lambda>m (n, v). push_value n v m) m (e # es))"
proof (induction es arbitrary: e i m)
  case Nil
  obtain n v where e: "e = (n, v)" by (cases e)
  show ?case
    using Nil parameters_loop_entry [of ports n v i "[]" m] by (simp add: e show_parameter_def)
next
  case (Cons e' es)
  obtain n v where e: "e = (n, v)" by (cases e)
  let ?j = "join_with CHR '','' (map show_parameter (e' # es))"
  have "parameters_loop ports i (n @ CHR ''['' # v @ CHR '']'' # CHR '','' # ?j) m = parameters_loop ports n ?j (push_value n v m)"
    using Cons.prems parameters_loop_entry [of ports n v i "CHR '','' # ?j" m] by (simp add: e)
  also have "\<dots> = Inr ([], foldl (\<lambda>m (n, v). push_value n v m) (push_value n v m) (e' # es))"
    by (rule Cons.IH) (use Cons.prems in simp)
  finally show ?case by (simp add: e show_parameter_def [of "(n, v)"])
qed

lemma get_list_pushes:
  "get_list (foldl (\<lambda>m (n, v). push_value n v m) m es) n = get_list m n @ map snd (filter (\<lambda>e. fst e = n) es)"
  by (induction es arbitrary: m) (auto simp: get_list_push)

text \<open>
  C22: of \<open>input0[value0],input1[value1],...\<close>, the inputs named by their tensors, each input gets
  its values, all of them and in their order, whatever the values contain but a closing bracket.
\<close>

theorem input_parameters_parsed:
  assumes "\<forall>e \<in> set es. parameter_ok ports e"
  shows "\<exists>m. parse_input_parameters (join_with CHR '','' (map show_parameter es)) ports = Inr m
    \<and> (\<forall>n. get_list m n = map snd (filter (\<lambda>e. fst e = n) es))"
proof (cases es)
  case Nil
  then show ?thesis
    by (simp add: parse_input_parameters_def parameters_loop.simps [of _ _ "[]"] get_list_def)
next
  case (Cons e es')
  let ?m = "foldl (\<lambda>m (n, v). push_value n v m) [] es"
  have "parse_input_parameters (join_with CHR '','' (map show_parameter es)) ports = Inr ?m"
    using parameters_loop_entries [of e es' ports] assms by (simp add: parse_input_parameters_def Cons)
  moreover have "get_list ?m n = map snd (filter (\<lambda>e. fst e = n) es)" for n
    using get_list_pushes [of "[]" es n] by (simp add: get_list_def)
  ultimately show ?thesis by blast
qed

lemma input_parameters_parsed_witness:
  "\<exists>m. parse_input_parameters (join_with CHR '','' (map show_parameter [(''x'', ''1,3''), (''x'', ''[2'')]))
      [\<lparr>port_names = Inr [''x''], any_name = Inr ''x'', friendly_name = ''p'', port_type = ET_f32, port_shape = (), port_layout = Inr ()\<rparr>] = Inr m
    \<and> (\<forall>n. get_list m n = map snd (filter (\<lambda>e. fst e = n) [(''x'', ''1,3''), (''x'', ''[2'')]))"
  by (rule input_parameters_parsed) (simp add: parameter_ok_def has_name_def)

end
