(* ===== verification/Sample_Config.thy ===== *)
theory Sample_Config
  imports Sample_Inputs
begin

text \<open>
  \<open>get_inputs_info\<close> of \<open>benchmark_app\<close>: the test configurations of a model's inputs. Each step of the
  loop over the inputs is a definition of its own. The counters of the files consumed so far are
  kept from one configuration to the next. \<open>open_reader\<close> gives the reader of an image file, \<open>None\<close>
  when no reader accepts it.
\<close>

section \<open>Number of configurations\<close>

text \<open>
  \<open>std::min_element\<close> and \<open>std::max_element\<close> as the library runs them, for the two comparators of the
  code; that of the minimum is not an ordering.
\<close>

fun min_elem :: "('a \<Rightarrow> 'a \<Rightarrow> bool) \<Rightarrow> 'a \<Rightarrow> 'a list \<Rightarrow> 'a" where
  "min_elem lt smallest [] = smallest"
| "min_elem lt smallest (x # xs) = min_elem lt (if lt x smallest then x else smallest) xs"

fun max_elem :: "('a \<Rightarrow> 'a \<Rightarrow> bool) \<Rightarrow> 'a \<Rightarrow> 'a list \<Rightarrow> 'a" where
  "max_elem lt largest [] = largest"
| "max_elem lt largest (x # xs) = max_elem lt (if lt largest x then x else largest) xs"

definition min_lt :: "string \<times> string list \<Rightarrow> string \<times> string list \<Rightarrow> bool" where
  "min_lt a b \<longleftrightarrow> length (snd a) < length (snd b) \<and> length (snd a) \<noteq> 1"

definition max_lt :: "string \<times> string list \<Rightarrow> string \<times> string list \<Rightarrow> bool" where
  "max_lt a b \<longleftrightarrow> length (snd a) < length (snd b)"

definition min_size_of :: "mapped \<Rightarrow> nat" where
  "min_size_of m = length (snd (min_elem min_lt (hd m) (tl m)))"

definition max_size_of :: "mapped \<Rightarrow> nat" where
  "max_size_of m = length (snd (max_elem max_lt (hd m) (tl m)))"

definition number_of_configs :: "mapped \<Rightarrow> mapped \<Rightarrow> nat result" where
  "number_of_configs data_shapes_map fileNames =
     (if data_shapes_map \<noteq> [] then
        (if min_size_of data_shapes_map \<noteq> max_size_of data_shapes_map
         then Inl ''Shapes number for every input should be either 1 or should be equal to shapes number of other inputs''
         else Inr (min_size_of data_shapes_map))
      else if fileNames \<noteq> [] then Inr (min_size_of fileNames)
      else Inr 1)"

section \<open>Layout and partial shape of an input\<close>

definition default_layout :: "('l, 'p) ov_api \<Rightarrow> 'p \<Rightarrow> string result" where
  "default_layout api p =
     and_then (shape_size api p) (\<lambda>n.
       Inr (if n = 3 then (if dim_max_length api p 2 \<le> 4 \<and> dim_max_length api p 0 > 4 then ''HWC'' else ''CHW'')
            else if n = 4 then (if dim_max_length api p 3 \<le> 4 \<and> dim_max_length api p 1 > 4 then ''NHWC'' else ''NCHW'')
            else []))"

definition input_layout :: "('l, 'p) ov_api \<Rightarrow> mapped \<Rightarrow> ('l, 'p) model_port \<Rightarrow> string \<Rightarrow> 'l result" where
  "input_layout api layout_map item name =
     and_then
       (case map_of layout_map name of
          Some ls \<Rightarrow> if length ls > 1 then Inl ''layout command line parameter doesn't support multiple layouts for one input.''
                     else mk_layout api (ls ! 0)
        | None \<Rightarrow> port_layout item)
       (\<lambda>l. if layout_empty api l then
              and_then (default_layout api (port_shape item)) (\<lambda>newLayout.
                if newLayout \<noteq> [] then mk_layout api newLayout else Inr l)
            else Inr l)"

text \<open>The partial shape, and whether the model has to be reshaped for it.\<close>

definition input_shape :: "('l, 'p) ov_api \<Rightarrow> mapped \<Rightarrow> ('l, 'p) model_port \<Rightarrow> string \<Rightarrow> ('p \<times> bool) result" where
  "input_shape api shape_map item name =
     (case map_of shape_map name of
        Some ss \<Rightarrow> if length ss > 1 then Inl ''shape command line parameter doesn't support multiple shapes for one input.''
                   else and_then (mk_shape api (ss ! 0)) (\<lambda>p. Inr (p, True))
      | None \<Rightarrow> Inr (port_shape item, False))"

section \<open>Shapes taken from the files\<close>

fun batch_files ::
    "(string \<Rightarrow> (reader option) outcome) \<Rightarrow> nat \<Rightarrow> string list \<Rightarrow> u64 \<times> u64 \<times> u64 list \<Rightarrow> (u64 \<times> u64 \<times> u64 list) outcome" where
  "batch_files open_reader 0 names st = ret st"
| "batch_files open_reader (Suc n) [] st = throw ''Not enough files to fill in full batch''"
| "batch_files open_reader (Suc n) (f # fs) (h, w, shape) =
     andthen (open_reader f) (\<lambda>r.
       case r of
         None \<Rightarrow> None
       | Some rd \<Rightarrow>
           if (w \<noteq> 0 \<and> w \<noteq> rd_width rd) \<or> (h \<noteq> 0 \<and> h \<noteq> rd_height rd) \<or> (shape \<noteq> [] \<and> shape \<noteq> rd_shape rd)
           then throw ''File dimensions putting into one batch should be of the same dimensionality''
           else batch_files open_reader n fs (rd_height rd, rd_width rd, rd_shape rd))"

text \<open>\<open>dataShape[idx]\<close> is not checked; a zero entry is replaced.\<close>

definition fill_dim :: "int \<Rightarrow> u64 \<Rightarrow> u64 list \<Rightarrow> u64 list option" where
  "fill_dim i v ds =
     (if 0 \<le> i \<and> i < int (length ds) then Some (if ds ! nat i = 0 then ds[nat i := v] else ds) else None)"

fun fill_dims :: "nat \<Rightarrow> u64 \<Rightarrow> u64 list \<Rightarrow> u64 list \<Rightarrow> u64 list outcome" where
  "fill_dims 0 i shape ds = ret ds"
| "fill_dims (Suc n) i shape ds =
     (if unat i < length ds then
        (if ds ! unat i = 0 then
           (case shape of [] \<Rightarrow> throw ''out_of_range'' | s # ss \<Rightarrow> fill_dims n (i + 1) ss (ds[unat i := s]))
         else fill_dims n (i + 1) (tl shape) ds)
      else None)"

definition static_dims :: "('l, 'p) ov_api \<Rightarrow> 'p \<Rightarrow> nat \<Rightarrow> u64 list" where
  "static_dims api p n = map (\<lambda>i. if dim_static api p i then of_int (dim_length api p i) else 0) [0..<n]"

definition batch_dim ::
    "('l, 'p) ov_api \<Rightarrow> u64 \<Rightarrow> ('l, 'p, 'f) InputInfo \<Rightarrow> (u64 \<times> u64 list) result" where
  "batch_dim api batch_size info =
     (let tensorBatchSize = max batch_size 1
      in if has_batch api (in_layout info) then
           and_then (batch_idx api (in_layout info)) (\<lambda>i.
           and_then (info_batch api info) (\<lambda>b.
             if b \<noteq> 0 then Inr (max tensorBatchSize b, dataShape info)
             else Inr (tensorBatchSize, (dataShape info)[nat i := tensorBatchSize])))
         else Inr (tensorBatchSize, dataShape info))"

definition fill_from_shape ::
    "('l, 'p) ov_api \<Rightarrow> 'l \<Rightarrow> u64 \<Rightarrow> u64 \<Rightarrow> u64 list \<Rightarrow> u64 list \<Rightarrow> u64 list outcome" where
  "fill_from_shape api l h w shape ds =
     (if length shape = 2 then
        andthen (Some (height_idx api l)) (\<lambda>hi.
          case fill_dim hi h ds of
            None \<Rightarrow> None
          | Some ds \<Rightarrow>
              andthen (Some (width_idx api l)) (\<lambda>wi. map_option Inr (fill_dim wi w ds)))
      else if length ds \<noteq> length shape then throw ''Shape required by the input and file shape do not have the same rank.''
      else
        andthen (Some (batch_idx api l)) (\<lambda>bi.
          let start = of_int bi; stop = start + of_nat (length ds) :: u64
          in fill_dims (unat stop - unat start) start shape ds))"

definition image_shape ::
    "('l, 'p) ov_api \<Rightarrow> (string \<Rightarrow> (reader option) outcome) \<Rightarrow> u64 \<Rightarrow> string list \<Rightarrow> nat \<Rightarrow> ('l, 'p, 'f) InputInfo
     \<Rightarrow> (u64 list \<times> nat) outcome" where
  "image_shape api open_reader batch_size namesVector counter info =
     (if contains_binaries namesVector then throw ''Input files list contains binary file(s) and input shape is dynamic.''
      else
        andthen (Some (shape_size api (partialShape info))) (\<lambda>n.
        andthen (Some (batch_dim api batch_size (info\<lparr>dataShape := static_dims api (partialShape info) n\<rparr>))) (\<lambda>(tensorBatchSize, ds).
          let count = unat (of_nat counter + tensorBatchSize) - counter
          in andthen (batch_files open_reader count (drop counter namesVector) (0, 0, [])) (\<lambda>(h, w, shape).
             andthen (fill_from_shape api (in_layout info) h w shape ds) (\<lambda>ds.
               if list_ex (\<lambda>d. d = 0) ds then throw ''Not enough information in shape and file to determine tensor shape''
               else ret (ds, counter + count))))))"

section \<open>Tensor shape of an input\<close>

definition tensor_shape ::
    "('l, 'p) ov_api \<Rightarrow> (string \<Rightarrow> (reader option) outcome) \<Rightarrow> u64 \<Rightarrow> mapped \<Rightarrow> mapped \<Rightarrow> nat \<Rightarrow> string \<Rightarrow> string
     \<Rightarrow> nat \<Rightarrow> ('l, 'p, 'f) InputInfo \<Rightarrow> (u64 list \<times> nat) outcome" where
  "tensor_shape api open_reader batch_size data_shapes_map fileNames input_id name filesInputName counter info =
     (let p = partialShape info
      in if \<not> shape_static api p \<and> map_of data_shapes_map name \<noteq> None then
           (let shapes = the (map_of data_shapes_map name)
            in andthen (Some (mk_shape api (shapes ! (input_id mod length shapes)))) (\<lambda>p_shape.
                 if \<not> shape_static api p_shape then throw ''Data shape always should be static''
                 else if shapes_compatible api p p_shape then
                   andthen (Some (to_shape api p_shape)) (\<lambda>ds. ret (ds, counter))
                 else throw ''Data shape is not compatible with partial shape for this input.''))
         else
           andthen (if \<not> shape_static api p \<and> map_of fileNames filesInputName \<noteq> None then Some (is_image api info) else ret False) (\<lambda>img.
             if img then
               image_shape api open_reader batch_size (the (map_of fileNames filesInputName)) counter info
             else if shape_static api p then
               andthen (Some (get_shape api p)) (\<lambda>ds.
                 if map_of data_shapes_map name \<noteq> None then throw ''Model's input is static. Use -shape argument for static inputs instead of -data_shape.''
                 else ret (ds, counter))
             else if data_shapes_map \<noteq> [] then throw ''Can't find model input name in -data_shape command line parameter''
             else throw ''-i or -data_shape command line parameter should be set for all inputs in case of model with dynamic shapes.''))"

text \<open>\<open>-b\<close>: the input, whether the model has to be reshaped, and whether a batch dimension was seen.\<close>

definition apply_batch ::
    "('l, 'p) ov_api \<Rightarrow> u64 \<Rightarrow> ('l, 'p, 'f) InputInfo \<Rightarrow> (('l, 'p, 'f) InputInfo \<times> bool) result" where
  "apply_batch api batch_size info =
     (if batch_size \<noteq> 0 \<and> has_batch api (in_layout info) then
        and_then (batch_idx api (in_layout info)) (\<lambda>i.
        and_then (vec_at (dataShape info) i) (\<lambda>d.
          if d \<noteq> batch_size then
            Inr (info\<lparr>partialShape := (if shape_static api (partialShape info) then set_dim api (partialShape info) i batch_size
                                       else partialShape info),
                      dataShape := (dataShape info)[nat i := batch_size]\<rparr>, True)
          else Inr (info, False)))
      else Inr (info, False))"

section \<open>All inputs, all configurations\<close>

record ('l, 'p, 'f) config_state =
  info_map :: "('l, 'p, 'f) InputsInfo"
  counters :: "(string \<times> nat) list"
  reshape_required :: bool
  at_least_one_batch_dim :: bool

record maps =
  shape_map :: mapped
  data_shapes_map :: mapped
  layout_map :: mapped
  file_names :: mapped

definition input_step ::
    "('l, 'p) ov_api \<Rightarrow> (string \<Rightarrow> (reader option) outcome) \<Rightarrow> u64 \<Rightarrow> maps \<Rightarrow> nat \<Rightarrow> nat \<Rightarrow> ('l, 'p) model_port
     \<Rightarrow> ('l, 'p, 'f) config_state \<Rightarrow> ('l, 'p, 'f) config_state outcome" where
  "input_step api open_reader batch_size ms input_id n_inputs item st =
     andthen (Some (any_name item)) (\<lambda>name.
     andthen (Some (input_layout api (layout_map ms) item name)) (\<lambda>l.
     andthen (Some (input_shape api (shape_map ms) item name)) (\<lambda>(p, reshaped).
       let info = \<lparr>in_type = port_type item, partialShape = p, dataShape = [], in_layout = l, in_scale = [], in_mean = []\<rparr>;
           filesInputName =
             (if length (file_names ms) = 1 \<and> n_inputs = 1 \<and> fst (hd (file_names ms)) = [] then [] else name);
           counter = (case map_of (counters st) name of None \<Rightarrow> 0 | Some c \<Rightarrow> c)
       in andthen (tensor_shape api open_reader batch_size (data_shapes_map ms) (file_names ms) input_id name filesInputName counter info)
            (\<lambda>(ds, counter).
          andthen (Some (apply_batch api batch_size (info\<lparr>dataShape := ds\<rparr>))) (\<lambda>(info, changed).
            ret (st\<lparr>info_map := map_assign name info (info_map st),
                    counters := map_assign name counter (counters st),
                    reshape_required := reshape_required st \<or> reshaped \<or> changed,
                    at_least_one_batch_dim := at_least_one_batch_dim st \<or> changed\<rparr>))))))"

fun inputs_loop ::
    "('l, 'p) ov_api \<Rightarrow> (string \<Rightarrow> (reader option) outcome) \<Rightarrow> u64 \<Rightarrow> maps \<Rightarrow> nat \<Rightarrow> nat \<Rightarrow> ('l, 'p) model_port list
     \<Rightarrow> ('l, 'p, 'f) config_state \<Rightarrow> ('l, 'p, 'f) config_state outcome" where
  "inputs_loop api open_reader batch_size ms input_id n_inputs [] st = ret st"
| "inputs_loop api open_reader batch_size ms input_id n_inputs (item # items) st =
     andthen (input_step api open_reader batch_size ms input_id n_inputs item st)
       (inputs_loop api open_reader batch_size ms input_id n_inputs items)"

fun set_scale_mean ::
    "('l, 'p) ov_api \<Rightarrow> (string \<times> 'f list) list \<Rightarrow> (string \<times> 'f list) list \<Rightarrow> ('l, 'p, 'f) InputsInfo
     \<Rightarrow> ('l, 'p, 'f) InputsInfo result" where
  "set_scale_mean api scale_map mean_map [] = Inr []"
| "set_scale_mean api scale_map mean_map ((name, info) # infos) =
     and_then (is_image api info) (\<lambda>img.
       let info = (if img then
                     info\<lparr>in_scale := (case map_of scale_map name of Some v \<Rightarrow> v | None \<Rightarrow> in_scale info),
                          in_mean := (case map_of mean_map name of Some v \<Rightarrow> v | None \<Rightarrow> in_mean info)\<rparr>
                   else info)
       in and_then (set_scale_mean api scale_map mean_map infos) (\<lambda>infos. Inr ((name, info) # infos)))"

definition one_config ::
    "('l, 'p) ov_api \<Rightarrow> (string \<Rightarrow> (reader option) outcome) \<Rightarrow> (string \<Rightarrow> 'f result) \<Rightarrow> u64 \<Rightarrow> maps \<Rightarrow> string \<Rightarrow> string
     \<Rightarrow> ('l, 'p) model_port list \<Rightarrow> nat \<Rightarrow> (string \<times> nat) list \<times> bool
     \<Rightarrow> (('l, 'p, 'f) InputsInfo \<times> (string \<times> nat) list \<times> bool) outcome" where
  "one_config api open_reader stof batch_size ms scale_string mean_string input_info input_id cr =
     andthen (inputs_loop api open_reader batch_size ms input_id (length input_info) input_info
                \<lparr>info_map = [], counters = fst cr, reshape_required = snd cr, at_least_one_batch_dim = False\<rparr>) (\<lambda>st.
       if 1 < batch_size \<and> \<not> at_least_one_batch_dim st
       then throw ''-b option is provided in command line, but there's no inputs with batch(B) dimension in input layout, so batch cannot be set.''
       else
         andthen (Some (parse_scale_or_mean api stof scale_string (info_map st))) (\<lambda>scale_map.
         andthen (Some (parse_scale_or_mean api stof mean_string (info_map st))) (\<lambda>mean_map.
         andthen (Some (set_scale_mean api scale_map mean_map (info_map st))) (\<lambda>infos.
           ret (infos, counters st, reshape_required st)))))"

fun configs_loop ::
    "('l, 'p) ov_api \<Rightarrow> (string \<Rightarrow> (reader option) outcome) \<Rightarrow> (string \<Rightarrow> 'f result) \<Rightarrow> u64 \<Rightarrow> maps \<Rightarrow> string \<Rightarrow> string
     \<Rightarrow> ('l, 'p) model_port list \<Rightarrow> nat list \<Rightarrow> (string \<times> nat) list \<times> bool
     \<Rightarrow> (('l, 'p, 'f) InputsInfo list \<times> bool) outcome" where
  "configs_loop api open_reader stof batch_size ms scale_string mean_string input_info [] cr = ret ([], snd cr)"
| "configs_loop api open_reader stof batch_size ms scale_string mean_string input_info (i # is) cr =
     andthen (one_config api open_reader stof batch_size ms scale_string mean_string input_info i cr) (\<lambda>(infos, cr).
     andthen (configs_loop api open_reader stof batch_size ms scale_string mean_string input_info is cr) (\<lambda>(rest, r).
       ret (infos # rest, r)))"

fun zero_counters :: "('l, 'p) model_port list \<Rightarrow> (string \<times> nat) list \<Rightarrow> (string \<times> nat) list result" where
  "zero_counters [] c = Inr c"
| "zero_counters (item # items) c = and_then (any_name item) (\<lambda>name. zero_counters items (map_assign name 0 c))"

definition get_inputs_info ::
    "('l, 'p) ov_api \<Rightarrow> (string \<Rightarrow> (reader option) outcome) \<Rightarrow> (string \<Rightarrow> 'f result) \<Rightarrow> string \<Rightarrow> string \<Rightarrow> u64 \<Rightarrow> string
     \<Rightarrow> mapped \<Rightarrow> string \<Rightarrow> string \<Rightarrow> ('l, 'p) model_port list \<Rightarrow> (('l, 'p, 'f) InputsInfo list \<times> bool) outcome" where
  "get_inputs_info api open_reader stof shape_string layout_string batch_size data_shapes_string fileNames
      scale_string mean_string input_info =
     andthen (Some (parse_input_parameters shape_string input_info)) (\<lambda>shape_m.
     andthen (Some (parse_input_parameters data_shapes_string input_info)) (\<lambda>data_shapes_m.
     andthen (Some (parse_input_parameters layout_string input_info)) (\<lambda>layout_m.
     andthen (Some (number_of_configs data_shapes_m fileNames)) (\<lambda>min_size.
     andthen (Some (zero_counters input_info [])) (\<lambda>currentFileCounters.
       configs_loop api open_reader stof batch_size
         \<lparr>shape_map = shape_m, data_shapes_map = data_shapes_m, layout_map = layout_m, file_names = fileNames\<rparr>
         scale_string mean_string input_info [0..<min_size] (currentFileCounters, False))))))"

section \<open>Models with static shapes\<close>

text \<open>
  The layout an input has without the option: that of the model, or, when the model has none, a layout by the rank
  of the shape, with the channels last when the last dimension has at most four elements and the height more; at any
  rank but three and four it stays without one.
\<close>

definition channels_last :: "('l, 'p) ov_api \<Rightarrow> 'p \<Rightarrow> nat \<Rightarrow> bool" where
  "channels_last api p rank \<longleftrightarrow> dim_max_length api p (rank - 1) \<le> 4 \<and> 4 < dim_max_length api p (rank - 3)"

definition effective_layout :: "('l, 'p) ov_api \<Rightarrow> ('l, 'p) model_port \<Rightarrow> 'l \<Rightarrow> bool" where
  "effective_layout api port l \<longleftrightarrow>
     (\<exists>model. port_layout port = Inr model
        \<and> (\<not> layout_empty api model \<and> l = model
           \<or> layout_empty api model
             \<and> (\<exists>rank. shape_size api (port_shape port) = Inr rank
                \<and> (rank = 3 \<and> mk_layout api (if channels_last api (port_shape port) 3 then ''HWC'' else ''CHW'') = Inr l
                   \<or> rank = 4 \<and> mk_layout api (if channels_last api (port_shape port) 4 then ''NHWC'' else ''NCHW'') = Inr l
                   \<or> rank \<noteq> 3 \<and> rank \<noteq> 4 \<and> l = model))))"

lemma input_layout_effective: "effective_layout api port l \<Longrightarrow> input_layout api [] port name = Inr l"
  by (auto simp: effective_layout_def input_layout_def default_layout_def channels_last_def)

text \<open>A port that needs no option; a batch size, if given, is the one its shape has already.\<close>

definition static_port ::
    "('l, 'p) ov_api \<Rightarrow> u64 \<Rightarrow> string \<times> 'l \<times> u64 list \<times> ('l, 'p) model_port \<Rightarrow> bool" where
  "static_port api batch_size = (\<lambda>(name, l, ds, port).
     any_name port = Inr name \<and> effective_layout api port l
     \<and> shape_static api (port_shape port) \<and> get_shape api (port_shape port) = Inr ds
     \<and> (batch_size = 0 \<or> \<not> has_batch api l \<or> (\<exists>i. batch_idx api l = Inr i \<and> vec_at ds i = Inr batch_size)))"

definition the_port :: "string \<times> 'l \<times> u64 list \<times> ('l, 'p) model_port \<Rightarrow> ('l, 'p) model_port" where
  "the_port = (\<lambda>(name, l, ds, port). port)"

definition static_info :: "string \<times> 'l \<times> u64 list \<times> ('l, 'p) model_port \<Rightarrow> ('l, 'p, 'f) InputInfo" where
  "static_info = (\<lambda>(name, l, ds, port).
     \<lparr>in_type = port_type port, partialShape = port_shape port, dataShape = ds, in_layout = l, in_scale = [], in_mean = []\<rparr>)"

definition static_entry :: "string \<times> 'l \<times> u64 list \<times> ('l, 'p) model_port \<Rightarrow> string \<times> ('l, 'p, 'f) InputInfo" where
  "static_entry q = (fst q, static_info q)"

definition no_maps :: maps where
  "no_maps = \<lparr>shape_map = [], data_shapes_map = [], layout_map = [], file_names = []\<rparr>"

lemma apply_batch_static:
  "static_port api batch_size (name, l, ds, port) \<Longrightarrow> in_layout info = l \<Longrightarrow> dataShape info = ds \<Longrightarrow>
   apply_batch api batch_size info = Inr (info, False)"
  by (auto simp: apply_batch_def static_port_def)

lemma input_step_static:
  fixes st :: "('l, 'p, 'f) config_state"
  assumes "static_port api batch_size q"
  shows "\<exists>c. input_step api open_reader batch_size no_maps input_id n (the_port q) st
    = ret (st\<lparr>info_map := map_assign (fst q) (static_info q) (info_map st), counters := c\<rparr>)"
proof -
  obtain name l ds port where q: "q = (name, l, ds, port)" by (cases q)
  let ?info = "\<lparr>in_type = port_type port, partialShape = port_shape port, dataShape = [], in_layout = l, in_scale = [], in_mean = []\<rparr>
    :: ('l, 'p, 'f) InputInfo"
  have p: "any_name port = Inr name" "effective_layout api port l"
    "shape_static api (port_shape port)" "get_shape api (port_shape port) = Inr ds"
    using assms by (simp_all add: static_port_def q)
  have lay: "input_layout api [] port name = Inr l" by (rule input_layout_effective [OF p(2)])
  have shp: "input_shape api [] port name = Inr (port_shape port, False)" by (simp add: input_shape_def)
  have ten: "tensor_shape api open_reader batch_size [] [] input_id name f c ?info = ret (ds, c)" for f c
    by (simp add: tensor_shape_def p Let_def)
  have bat: "apply_batch api batch_size (?info\<lparr>dataShape := ds\<rparr>) = Inr (?info\<lparr>dataShape := ds\<rparr>, False)"
    by (rule apply_batch_static [OF assms [unfolded q]]) simp_all
  show ?thesis
    using ten bat by (simp add: input_step_def no_maps_def the_port_def static_info_def q p(1) lay shp Let_def) (rule exI, rule refl)
qed

lemma inputs_loop_static:
  assumes "\<forall>q \<in> set qs. static_port api batch_size q"
  shows "\<exists>c. inputs_loop api open_reader batch_size no_maps input_id n (map the_port qs) st
    = ret (st\<lparr>info_map := std_map.assigns (map static_entry qs) (info_map st), counters := c\<rparr>)"
  using assms
proof (induction qs arbitrary: st)
  case Nil
  then show ?case by (auto intro!: exI [of _ "counters st"])
next
  case (Cons q qs)
  let ?k = "fst q" and ?v = "static_info q"
  obtain c where s: "input_step api open_reader batch_size no_maps input_id n (the_port q) st
      = ret (st\<lparr>info_map := map_assign ?k ?v (info_map st), counters := c\<rparr>)"
    using input_step_static Cons.prems by (metis list.set_intros(1))
  obtain c' where t: "inputs_loop api open_reader batch_size no_maps input_id n (map the_port qs)
        (st\<lparr>info_map := map_assign ?k ?v (info_map st), counters := c\<rparr>)
      = ret (st\<lparr>info_map := map_assign ?k ?v (info_map st), counters := c\<rparr>
          \<lparr>info_map := std_map.assigns (map static_entry qs)
              (info_map (st\<lparr>info_map := map_assign ?k ?v (info_map st), counters := c\<rparr>)), counters := c'\<rparr>)"
    using Cons.IH Cons.prems by (meson list.set_intros(2))
  have "std_map.assigns (map static_entry (q # qs)) (info_map st)
      = std_map.assigns (map static_entry qs) (map_assign ?k ?v (info_map st))"
    by (simp add: static_entry_def)
  then show ?case using s t by (auto intro!: exI [of _ c'])
qed

lemma parse_nothing [simp]: "parse_input_parameters [] ports = Inr []"
  by (simp add: parse_input_parameters_def parameters_loop.simps [of _ _ "[]"])

lemma scale_nothing [simp]: "parse_scale_or_mean api stof [] infos = Inr []"
  by (simp add: parse_scale_or_mean_def scale_loop.simps [of _ _ _ "[]"])

lemma zero_counters_ok:
  "\<forall>q \<in> set qs. static_port api b q \<Longrightarrow> \<exists>c'. zero_counters (map the_port qs) c = Inr c'"
  by (induction qs arbitrary: c) (auto simp: static_port_def the_port_def)

lemma set_scale_mean_nothing:
  "\<forall>e \<in> set infos. \<exists>b. is_image api (snd e) = Inr b \<Longrightarrow> set_scale_mean api [] [] infos = Inr infos"
  by (induction infos) (auto simp: Let_def)

text \<open>
  C8: For a model whose inputs have static shapes, without options, there is one configuration; it
  gives each input the type and the shape of the model and its layout, or, when the model gives none, the one
  chosen by rank and shape (CHW or HWC, NCHW or NHWC, else none), and the model need not be reshaped. Of two
  inputs of one name the last counts.
\<close>

theorem static_model_configured:
  assumes "\<forall>q \<in> set qs. static_port api 0 q"
    and "\<forall>q \<in> set qs. \<exists>b. is_image api (static_info q :: ('l, 'p, 'f) InputInfo) = Inr b"
  shows "\<exists>infos :: ('l, 'p, 'f) InputsInfo.
    get_inputs_info api open_reader stof [] [] 0 [] [] [] [] (map the_port qs) = ret ([infos], False)
    \<and> map_wf infos \<and> map_of infos = map_of (rev (map static_entry qs))"
proof -
  let ?infos = "std_map.assigns (map static_entry qs) [] :: ('l, 'p, 'f) InputsInfo"
  have wf: "map_wf ?infos" by (rule std_map.wf_assigns) (simp add: map_wf_def)
  have mp: "map_of ?infos = map_of (rev (map static_entry qs))" by (simp add: std_map.look_assigns)
  have "\<exists>b. is_image api (snd e) = Inr b" if "e \<in> set ?infos" for e
  proof -
    have "map_of (rev (map static_entry qs)) (fst e) = Some (snd e)"
      using that map_wf_in [OF wf, of "fst e" "snd e"] mp by simp
    then have "(fst e, snd e) \<in> set (map static_entry qs)" by (metis map_of_SomeD set_rev)
    then obtain q where "q \<in> set qs" "snd e = static_info q" by (auto simp: static_entry_def)
    then show ?thesis using assms(2) by auto
  qed
  then have sm: "set_scale_mean api [] [] ?infos = Inr ?infos" by (intro set_scale_mean_nothing) blast
  obtain c where z: "zero_counters (map the_port qs) [] = Inr c" using zero_counters_ok [OF assms(1)] by blast
  obtain c' where "inputs_loop api open_reader 0 no_maps 0 (length qs) (map the_port qs)
      \<lparr>info_map = [], counters = c, reshape_required = False, at_least_one_batch_dim = False\<rparr>
    = ret \<lparr>info_map = ?infos, counters = c', reshape_required = False, at_least_one_batch_dim = False\<rparr>"
    using inputs_loop_static [OF assms(1), of open_reader 0 "length qs"
        "\<lparr>info_map = [], counters = c, reshape_required = False, at_least_one_batch_dim = False\<rparr>"] by auto
  then have "get_inputs_info api open_reader stof [] [] 0 [] [] [] [] (map the_port qs) = ret ([?infos], False)"
    by (simp add: get_inputs_info_def number_of_configs_def z one_config_def sm flip: no_maps_def)
  then show ?thesis using wf mp by blast
qed

text \<open>
  a batch size that the inputs of the model have already is refused: unless some input has
  another one, the option is answered by the message that no input has a batch dimension.
\<close>

theorem matching_batch_size_refused:
  fixes api :: "('l, 'p) ov_api" and stof :: "string \<Rightarrow> 'f result"
  assumes "\<forall>q \<in> set qs. static_port api batch_size q" "1 < batch_size"
  shows "get_inputs_info api open_reader stof [] [] batch_size [] [] scale_string mean_string (map the_port qs)
    = throw ''-b option is provided in command line, but there's no inputs with batch(B) dimension in input layout, so batch cannot be set.''"
proof -
  obtain c where z: "zero_counters (map the_port qs) [] = Inr c" using zero_counters_ok [OF assms(1)] by blast
  obtain c' and infos :: "('l, 'p, 'f) InputsInfo" where "inputs_loop api open_reader batch_size no_maps 0 (length qs) (map the_port qs)
      \<lparr>info_map = [], counters = c, reshape_required = False, at_least_one_batch_dim = False\<rparr>
    = ret \<lparr>info_map = infos, counters = c', reshape_required = False, at_least_one_batch_dim = False\<rparr>"
    using inputs_loop_static [OF assms(1), of open_reader 0 "length qs"
        "\<lparr>info_map = [], counters = c, reshape_required = False, at_least_one_batch_dim = False\<rparr>"] by auto
  then show ?thesis
    using assms(2) by (simp add: get_inputs_info_def number_of_configs_def z one_config_def flip: no_maps_def)
qed

section \<open>Shapes given for several configurations\<close>

text \<open>
  one shape for an input and several for another are accepted or refused by the order of the
  inputs' names: the comparison that should set single shapes aside only does so when the input
  with several shapes comes first.
\<close>

theorem single_shape_order_dependent:
  assumes "length one = 1" "1 < length many"
  shows "number_of_configs [(a, one), (b, many)] files
      = Inl ''Shapes number for every input should be either 1 or should be equal to shapes number of other inputs''
    \<and> number_of_configs [(a, many), (b, one)] files = Inr (length many)"
  using assms by (cases many) (simp_all add: number_of_configs_def min_size_of_def max_size_of_def min_lt_def max_lt_def)

lemma single_shape_order_dependent_witness:
  "number_of_configs [(''a'', [''[1,3]'']), (''b'', [''[1,3]'', ''[2,3]''])] []
      = Inl ''Shapes number for every input should be either 1 or should be equal to shapes number of other inputs''
    \<and> number_of_configs [(''a'', [''[1,3]'', ''[2,3]'']), (''b'', [''[1,3]''])] [] = Inr (length [''[1,3]'', ''[2,3]''])"
  by (rule single_shape_order_dependent) simp_all

text \<open>A model with one image input, with a toy library in which a layout and a shape are texts.\<close>

definition toy_api :: "(string, u64 list) ov_api" where
  "toy_api =
     \<lparr>mk_layout = Inr, layout_empty = (\<lambda>l. l = []), has_batch = (\<lambda>l. CHR ''N'' \<in> set l),
      batch_idx = (\<lambda>l. Inr 0), channels_idx = (\<lambda>l. Inr 1), depth_idx = (\<lambda>l. Inl ''no depth''),
      height_idx = (\<lambda>l. Inr 2), width_idx = (\<lambda>l. Inr 3), mk_shape = (\<lambda>s. Inl s), shape_static = (\<lambda>p. True),
      shape_size = (\<lambda>p. Inr (length p)), dim_max_length = (\<lambda>p i. uint (p ! i)), dim_static = (\<lambda>p i. True),
      dim_length = (\<lambda>p i. uint (p ! i)), set_dim = (\<lambda>p i v. p[nat i := v]), shapes_compatible = (=),
      to_shape = Inr, get_shape = Inr, show_shape = (\<lambda>p. [])\<rparr>"

definition toy_port :: "(string, u64 list) model_port" where
  "toy_port =
     \<lparr>port_names = Inr [''x''], any_name = Inr ''x'', friendly_name = ''p'', port_type = ET_f32,
      port_shape = [4, 3, 224, 224], port_layout = Inr ''NCHW''\<rparr>"

definition bare_port :: "(string, u64 list) model_port" where
  "bare_port =
     \<lparr>port_names = Inr [''y''], any_name = Inr ''y'', friendly_name = ''q'', port_type = ET_u8,
      port_shape = [8, 8, 3], port_layout = Inr []\<rparr>"

definition toy_model :: "(string \<times> string \<times> u64 list \<times> (string, u64 list) model_port) list" where
  "toy_model = [(''x'', ''NCHW'', [4, 3, 224, 224], toy_port), (''y'', ''HWC'', [8, 8, 3], bare_port)]"

lemma toy_model_static: "\<forall>q \<in> set toy_model. static_port toy_api 0 q"
  by (simp add: toy_model_def static_port_def effective_layout_def channels_last_def toy_api_def toy_port_def bare_port_def)

lemma static_model_configured_witness:
  "\<exists>infos :: (string, u64 list, unit) InputsInfo.
    get_inputs_info toy_api (\<lambda>f. None) (\<lambda>s. Inr ()) [] [] 0 [] [] [] [] (map the_port toy_model) = ret ([infos], False)
    \<and> map_wf infos \<and> map_of infos = map_of (rev (map static_entry toy_model))"
  by (rule static_model_configured [OF toy_model_static])
    (auto simp: toy_model_def toy_api_def toy_port_def bare_port_def is_image_def static_info_def layout_is_def
      info_channels_def info_dim_def vec_at_def)

lemma matching_batch_size_refused_witness:
  "(get_inputs_info toy_api (\<lambda>f. None) (\<lambda>s. Inr ()) [] [] 4 [] [] [] [] (map the_port [(''x'', ''NCHW'', [4, 3, 224, 224], toy_port)])
     :: ((string, u64 list, unit) InputsInfo list \<times> bool) outcome)
    = throw ''-b option is provided in command line, but there's no inputs with batch(B) dimension in input layout, so batch cannot be set.''"
  by (rule matching_batch_size_refused) (simp_all add: static_port_def effective_layout_def toy_api_def toy_port_def vec_at_def)

end
