(* ===== verification/Bench_Queue.thy ===== *)
theory Bench_Queue
  imports Float_Rounding
begin

text \<open>
  The request queue of \<open>benchmark_app\<close> (\<open>infer_request_wrap.hpp\<close>) and the measuring loop of
  \<open>main.cpp\<close> that runs on it. The completion callbacks of the runtime library run on other
  threads; every access to the queue is under its mutex, so the program is a step relation over
  the main thread's place in the loop and the set of requests in flight. Readings of the clock are
  arbitrary numbers of nanoseconds, and an inference may fail with any exception.
\<close>

section \<open>Requests and the queue\<close>

record InferReqWrap =
  w_startTime :: int
  w_endTime :: int
  w_lat_group_id :: nat

record 'e InferRequestsQueue =
  iq_requests :: "InferReqWrap list"
  iq_idleIds :: "nat list"
  iq_startTime :: int
  iq_endTime :: int
  iq_latencies :: "flt list"
  iq_latency_groups :: "flt list list"
  iq_enable_lat_groups :: bool
  iq_inferenceException :: "'e option"

text \<open>The limits of a \<open>time_point\<close> and of the difference of two.\<close>

definition time_max :: int where
  "time_max = 9223372036854775807"

definition time_min :: int where
  "time_min = - 9223372036854775808"

definition int64 :: "int \<Rightarrow> int option" where
  "int64 i = (if time_min \<le> i \<and> i \<le> time_max then Some i else None)"

text \<open>A count of nanoseconds as a \<open>double\<close> of milliseconds.\<close>

definition ns_to_ms :: "int \<Rightarrow> flt" where
  "ns_to_ms ns = fmul 53 (fround 53 (fof_int ns)) (fliteral 53 1 1000000)"

definition get_execution_time_in_milliseconds :: "InferReqWrap \<Rightarrow> flt" where
  "get_execution_time_in_milliseconds w = ns_to_ms (w_endTime w - w_startTime w)"

definition reset_times :: "'e InferRequestsQueue \<Rightarrow> 'e InferRequestsQueue" where
  "reset_times q = q\<lparr>iq_startTime := time_max, iq_endTime := time_min, iq_latencies := [],
     iq_latency_groups := map (\<lambda>_. []) (iq_latency_groups q)\<rparr>"

definition new_queue :: "nat \<Rightarrow> nat \<Rightarrow> bool \<Rightarrow> 'e InferRequestsQueue" where
  "new_queue nireq lat_group_n enable_lat_groups =
     reset_times \<lparr>iq_requests = replicate nireq \<lparr>w_startTime = 0, w_endTime = 0, w_lat_group_id = 0\<rparr>,
       iq_idleIds = [0..<nireq], iq_startTime = 0, iq_endTime = 0, iq_latencies = [],
       iq_latency_groups = replicate lat_group_n [], iq_enable_lat_groups = enable_lat_groups,
       iq_inferenceException = None\<rparr>"

text \<open>Undefined when there is no measurement: the limits are then still the extreme ones.\<close>

definition get_duration_in_milliseconds :: "'e InferRequestsQueue \<Rightarrow> flt option" where
  "get_duration_in_milliseconds q = map_option ns_to_ms (int64 (iq_endTime q - iq_startTime q))"

definition add_latency :: "nat \<Rightarrow> flt \<Rightarrow> flt list list \<Rightarrow> flt list list option" where
  "add_latency g latency groups = do {
     lats \<leftarrow> arr_get groups g;
     arr_set groups g (lats @ [latency])
   }"

definition put_idle_request ::
    "nat \<Rightarrow> nat \<Rightarrow> flt \<Rightarrow> 'e option \<Rightarrow> int \<Rightarrow> 'e InferRequestsQueue \<Rightarrow> 'e InferRequestsQueue option" where
  "put_idle_request i lat_group_id latency exn now q =
     (case exn of
        Some e \<Rightarrow> Some (q\<lparr>iq_inferenceException := Some e\<rparr>)
      | None \<Rightarrow> do {
          groups \<leftarrow> (if iq_enable_lat_groups q then add_latency lat_group_id latency (iq_latency_groups q)
                     else Some (iq_latency_groups q));
          Some (q\<lparr>iq_latencies := iq_latencies q @ [latency], iq_latency_groups := groups,
                  iq_idleIds := iq_idleIds q @ [i], iq_endTime := max now (iq_endTime q)\<rparr>)
        })"

text \<open>What the condition variables of the two waits test: rethrow, go on, or sleep.\<close>

definition get_idle_ready :: "'e InferRequestsQueue \<Rightarrow> 'e + bool" where
  "get_idle_ready q =
     (case iq_inferenceException q of Some e \<Rightarrow> Inl e | None \<Rightarrow> Inr (0 < length (iq_idleIds q)))"

definition wait_all_ready :: "'e InferRequestsQueue \<Rightarrow> 'e + bool" where
  "wait_all_ready q =
     (case iq_inferenceException q of
        Some e \<Rightarrow> Inl e | None \<Rightarrow> Inr (length (iq_idleIds q) = length (iq_requests q)))"

text \<open>The rest of \<open>get_idle_request\<close>; \<open>requests.at\<close> throws for a foreign id, here \<open>None\<close>.\<close>

definition take_idle :: "int \<Rightarrow> 'e InferRequestsQueue \<Rightarrow> (nat \<times> 'e InferRequestsQueue) option" where
  "take_idle now q =
     (case iq_idleIds q of
        [] \<Rightarrow> None
      | i # ids \<Rightarrow>
          if i < length (iq_requests q)
          then Some (i, q\<lparr>iq_idleIds := ids, iq_startTime := min now (iq_startTime q)\<rparr>) else None)"

definition set_request :: "nat \<Rightarrow> (InferReqWrap \<Rightarrow> InferReqWrap) \<Rightarrow> 'e InferRequestsQueue \<Rightarrow> 'e InferRequestsQueue" where
  "set_request i f q = q\<lparr>iq_requests := (iq_requests q)[i := f (iq_requests q ! i)]\<rparr>"

definition start_request :: "nat \<Rightarrow> int \<Rightarrow> 'e InferRequestsQueue \<Rightarrow> 'e InferRequestsQueue" where
  "start_request i now = set_request i (\<lambda>w. w\<lparr>w_startTime := now\<rparr>)"

definition set_latency_group_id :: "nat \<Rightarrow> nat \<Rightarrow> 'e InferRequestsQueue \<Rightarrow> 'e InferRequestsQueue" where
  "set_latency_group_id i g = set_request i (\<lambda>w. w\<lparr>w_lat_group_id := g\<rparr>)"

text \<open>The callback given to the runtime library, and the end of a synchronous inference.\<close>

definition completed ::
    "nat \<Rightarrow> 'e option \<Rightarrow> int \<Rightarrow> int \<Rightarrow> 'e InferRequestsQueue \<Rightarrow> 'e InferRequestsQueue option" where
  "completed i exn now now' q =
     (let w = (iq_requests q ! i)\<lparr>w_endTime := now\<rparr>
      in put_idle_request i (w_lat_group_id w) (get_execution_time_in_milliseconds w) exn now'
           (q\<lparr>iq_requests := (iq_requests q)[i := w]\<rparr>))"

section \<open>The measuring loop\<close>

text \<open>
  The settings of a run: \<open>b_groups\<close> is the number of input configurations, \<open>b_batch k\<close> the batch
  size in force in iteration \<open>k\<close>.
\<close>

record bench =
  b_async :: bool
  b_nireq :: nat
  b_niter :: nat
  b_duration :: nat
  b_groups :: nat
  b_pcseq :: bool
  b_inferenceOnly :: bool
  b_batch :: "nat \<Rightarrow> nat"

datatype 'e main_pc = Fetch | Held nat | Launched | Drain | Loop | Finished | Threw 'e

record 'e bench_state =
  st_queue :: "'e InferRequestsQueue"
  st_pc :: "'e main_pc"
  st_sleep :: bool
  st_run :: "nat set"
  st_warm :: bool
  st_iter :: nat
  st_frames :: nat
  st_exec :: nat

definition bench_init :: "bench \<Rightarrow> 'e bench_state" where
  "bench_init c = \<lparr>st_queue = new_queue (b_nireq c) (b_groups c) (b_pcseq c), st_pc = Fetch,
     st_sleep = False, st_run = {}, st_warm = True, st_iter = 0, st_frames = 0, st_exec = 0\<rparr>"

definition bench_guard :: "bench \<Rightarrow> nat \<Rightarrow> nat \<Rightarrow> bool" where
  "bench_guard c iter execTime \<longleftrightarrow>
     b_niter c \<noteq> 0 \<and> iter < b_niter c \<or> b_duration c \<noteq> 0 \<and> execTime < b_duration c
     \<or> b_async c \<and> iter mod b_nireq c \<noteq> 0"

definition fill_request :: "bench \<Rightarrow> 'e bench_state \<Rightarrow> nat \<Rightarrow> 'e InferRequestsQueue \<Rightarrow> 'e InferRequestsQueue" where
  "fill_request c s i q =
     (if \<not> st_warm s \<and> \<not> b_inferenceOnly c \<and> b_pcseq c
      then set_latency_group_id i (st_iter s mod b_groups c) q else q)"

inductive bench_step :: "bench \<Rightarrow> 'e bench_state \<Rightarrow> 'e bench_state \<Rightarrow> bool" for c where
  loop_more: "st_pc s = Loop \<Longrightarrow> bench_guard c (st_iter s) (st_exec s) \<Longrightarrow>
     bench_step c s (s\<lparr>st_pc := Fetch\<rparr>)"
| loop_done: "st_pc s = Loop \<Longrightarrow> \<not> bench_guard c (st_iter s) (st_exec s) \<Longrightarrow>
     bench_step c s (s\<lparr>st_pc := Drain\<rparr>)"
| fetch_take: "st_pc s = Fetch \<Longrightarrow> \<not> st_sleep s \<Longrightarrow> get_idle_ready (st_queue s) = Inr True \<Longrightarrow>
     take_idle now (st_queue s) = Some (i, q) \<Longrightarrow>
     bench_step c s (s\<lparr>st_queue := fill_request c s i q, st_pc := Held i\<rparr>)"
| fetch_sleep: "st_pc s = Fetch \<Longrightarrow> \<not> st_sleep s \<Longrightarrow> get_idle_ready (st_queue s) = Inr False \<Longrightarrow>
     bench_step c s (s\<lparr>st_sleep := True\<rparr>)"
| fetch_throw: "st_pc s = Fetch \<Longrightarrow> \<not> st_sleep s \<Longrightarrow> get_idle_ready (st_queue s) = Inl e \<Longrightarrow>
     bench_step c s (s\<lparr>st_pc := Threw e\<rparr>)"
| launch_async: "st_pc s = Held i \<Longrightarrow> b_async c \<Longrightarrow>
     bench_step c s (s\<lparr>st_queue := start_request i now (st_queue s), st_run := insert i (st_run s), st_pc := Launched\<rparr>)"
| infer_sync: "st_pc s = Held i \<Longrightarrow> \<not> b_async c \<Longrightarrow>
     completed i None now' now'' (start_request i now (st_queue s)) = Some q \<Longrightarrow>
     bench_step c s (s\<lparr>st_queue := q, st_pc := Launched\<rparr>)"
| infer_throw: "st_pc s = Held i \<Longrightarrow> \<not> b_async c \<Longrightarrow>
     bench_step c s (s\<lparr>st_queue := start_request i now (st_queue s), st_pc := Threw e\<rparr>)"
| count_warm: "st_pc s = Launched \<Longrightarrow> st_warm s \<Longrightarrow> bench_step c s (s\<lparr>st_pc := Drain\<rparr>)"
| count_loop: "st_pc s = Launched \<Longrightarrow> \<not> st_warm s \<Longrightarrow>
     bench_step c s (s\<lparr>st_pc := Loop, st_iter := st_iter s + 1, st_exec := t,
                       st_frames := st_frames s + b_batch c (st_iter s)\<rparr>)"
| callback: "i \<in> st_run s \<Longrightarrow> completed i exn now now' (st_queue s) = Some q \<Longrightarrow>
     bench_step c s (s\<lparr>st_queue := q, st_run := st_run s - {i}, st_sleep := False\<rparr>)"
| drain_sleep: "st_pc s = Drain \<Longrightarrow> \<not> st_sleep s \<Longrightarrow> wait_all_ready (st_queue s) = Inr False \<Longrightarrow>
     bench_step c s (s\<lparr>st_sleep := True\<rparr>)"
| drain_throw: "st_pc s = Drain \<Longrightarrow> \<not> st_sleep s \<Longrightarrow> wait_all_ready (st_queue s) = Inl e \<Longrightarrow>
     bench_step c s (s\<lparr>st_pc := Threw e\<rparr>)"
| drain_warm: "st_pc s = Drain \<Longrightarrow> \<not> st_sleep s \<Longrightarrow> wait_all_ready (st_queue s) = Inr True \<Longrightarrow>
     st_warm s \<Longrightarrow> iq_latencies (st_queue s) \<noteq> [] \<Longrightarrow>
     bench_step c s (s\<lparr>st_queue := reset_times (st_queue s), st_pc := Loop, st_warm := False, st_exec := t\<rparr>)"
| drain_done: "st_pc s = Drain \<Longrightarrow> \<not> st_sleep s \<Longrightarrow> wait_all_ready (st_queue s) = Inr True \<Longrightarrow>
     \<not> st_warm s \<Longrightarrow> bench_step c s (s\<lparr>st_pc := Finished\<rparr>)"

text \<open>A wake-up of the condition variable that no notification caused.\<close>

inductive bench_move :: "bench \<Rightarrow> 'e bench_state \<Rightarrow> 'e bench_state \<Rightarrow> bool" for c where
  own: "bench_step c s s' \<Longrightarrow> bench_move c s s'"
| spurious: "st_sleep s \<Longrightarrow> bench_move c s (s\<lparr>st_sleep := False\<rparr>)"

inductive bench_reachable :: "bench \<Rightarrow> 'e bench_state \<Rightarrow> bool" for c where
  start: "bench_reachable c (bench_init c)"
| go: "bench_reachable c s \<Longrightarrow> bench_move c s s' \<Longrightarrow> bench_reachable c s'"

end
