(* ===== verification/Bench_Props.thy ===== *)
theory Bench_Props
  imports Bench_Queue "HOL-Library.Multiset"
begin

section \<open>Operations of the queue\<close>

lemma nth_update_if: "xs[i := v] ! j = (if j = i \<and> i < length xs then v else xs ! j)"
  by (cases "i < length xs") (auto simp: nth_list_update list_update_beyond)

lemma get_idle_ready_iff [simp]:
  "get_idle_ready q = Inr b \<longleftrightarrow> iq_inferenceException q = None \<and> b = (iq_idleIds q \<noteq> [])"
  "get_idle_ready q = Inl e \<longleftrightarrow> iq_inferenceException q = Some e"
  by (auto simp: get_idle_ready_def split: option.split)

lemma wait_all_ready_iff [simp]:
  "wait_all_ready q = Inr b \<longleftrightarrow>
     iq_inferenceException q = None \<and> b = (length (iq_idleIds q) = length (iq_requests q))"
  "wait_all_ready q = Inl e \<longleftrightarrow> iq_inferenceException q = Some e"
  by (auto simp: wait_all_ready_def split: option.split)

lemma take_idle_Some [simp]:
  "take_idle now q = Some (i, q') \<longleftrightarrow>
     (\<exists>ids. iq_idleIds q = i # ids \<and> i < length (iq_requests q)
        \<and> q' = q\<lparr>iq_idleIds := ids, iq_startTime := min now (iq_startTime q)\<rparr>)"
  by (auto simp: take_idle_def split: list.split)

definition q_shape :: "bench \<Rightarrow> 'e InferRequestsQueue \<Rightarrow> bool" where
  "q_shape c q \<longleftrightarrow> length (iq_requests q) = b_nireq c \<and> length (iq_latency_groups q) = b_groups c
     \<and> iq_enable_lat_groups q = b_pcseq c \<and> (\<forall>i < b_nireq c. w_lat_group_id (iq_requests q ! i) < b_groups c)"

definition group_in :: "'e InferRequestsQueue \<Rightarrow> nat \<Rightarrow> nat" where
  "group_in q i = w_lat_group_id (iq_requests q ! i)"

text \<open>A completion without failure: the request is idle again and its latency recorded once.\<close>

lemma completed_ok:
  assumes "q_shape c q" "i < b_nireq c"
  obtains lat q' where
    "completed i None now now' q = Some q'" "q_shape c q'"
    "iq_idleIds q' = iq_idleIds q @ [i]" "iq_latencies q' = iq_latencies q @ [lat]"
    "iq_inferenceException q' = iq_inferenceException q"
    "group_in q' = group_in q"
    "iq_latency_groups q' =
       (if b_pcseq c then (iq_latency_groups q)[group_in q i := iq_latency_groups q ! group_in q i @ [lat]]
        else iq_latency_groups q)"
proof -
  let ?w = "(iq_requests q ! i)\<lparr>w_endTime := now\<rparr>"
  let ?lat = "get_execution_time_in_milliseconds ?w"
  let ?g = "w_lat_group_id (iq_requests q ! i)"
  have g: "?g < length (iq_latency_groups q)" using assms by (simp add: q_shape_def)
  let ?q = "q\<lparr>iq_requests := (iq_requests q)[i := ?w], iq_latencies := iq_latencies q @ [?lat],
       iq_latency_groups := (if b_pcseq c then (iq_latency_groups q)[?g := iq_latency_groups q ! ?g @ [?lat]]
                             else iq_latency_groups q),
       iq_idleIds := iq_idleIds q @ [i], iq_endTime := max now' (iq_endTime q)\<rparr>"
  have "completed i None now now' q = Some ?q"
    using assms(1) g by (simp add: completed_def put_idle_request_def add_latency_def q_shape_def Let_def)
  then show ?thesis
    by (rule that) (use assms in \<open>auto simp: q_shape_def group_in_def nth_list_update\<close>)
qed

lemma completed_failed:
  "completed i (Some e) now now' q =
     Some (q\<lparr>iq_requests := (iq_requests q)[i := (iq_requests q ! i)\<lparr>w_endTime := now\<rparr>],
             iq_inferenceException := Some e\<rparr>)"
  by (simp add: completed_def put_idle_request_def Let_def)

section \<open>Invariant\<close>

definition held :: "'e bench_state \<Rightarrow> nat set" where
  "held s = (case st_pc s of Held i \<Rightarrow> {i} | _ \<Rightarrow> {})"

definition launched :: "'e bench_state \<Rightarrow> nat" where
  "launched s = (if st_warm s then (if st_pc s \<in> {Launched, Drain} then 1 else 0)
     else st_iter s + (if st_pc s = Launched then 1 else 0))"

definition sound :: "'e bench_state \<Rightarrow> bool" where
  "sound s \<longleftrightarrow> iq_inferenceException (st_queue s) = None \<and> (\<forall>e. st_pc s \<noteq> Threw e)"

definition group_at :: "bench \<Rightarrow> bool \<Rightarrow> nat \<Rightarrow> nat" where
  "group_at c warm k = (if warm \<or> b_inferenceOnly c \<or> \<not> b_pcseq c then 0 else k mod b_groups c)"

definition ids_ok :: "bench \<Rightarrow> 'e bench_state \<Rightarrow> bool" where
  "ids_ok c s \<longleftrightarrow> 
     distinct (iq_idleIds (st_queue s)) \<and> set (iq_idleIds (st_queue s)) \<union> st_run s \<union> held s \<subseteq> {..<b_nireq c}
     \<and> set (iq_idleIds (st_queue s)) \<inter> st_run s = {} \<and> held s \<inter> (set (iq_idleIds (st_queue s)) \<union> st_run s) = {}
     \<and> (sound s \<longrightarrow> {..<b_nireq c} \<subseteq> set (iq_idleIds (st_queue s)) \<union> st_run s \<union> held s)"

text \<open>The latencies of each group and its requests in flight account for the launches of that group.\<close>

definition members :: "nat set \<Rightarrow> (nat \<Rightarrow> nat) \<Rightarrow> nat \<Rightarrow> nat" where
  "members run w g = card {i \<in> run. w i = g}"

definition tally :: "nat \<Rightarrow> nat set \<Rightarrow> (nat \<Rightarrow> nat) \<Rightarrow> flt list list \<Rightarrow> nat \<Rightarrow> (nat \<Rightarrow> nat) \<Rightarrow> bool" where
  "tally n run w groups l f \<longleftrightarrow>
     (\<forall>g < n. length (groups ! g) + members run w g = card {k. k < l \<and> f k = g})"

definition warm_ok :: "'e bench_state \<Rightarrow> bool" where
  "warm_ok s \<longleftrightarrow> (st_warm s \<longrightarrow> st_iter s = 0 \<and> st_pc s \<noteq> Loop \<and> st_pc s \<noteq> Finished)"

definition groups_ok :: "bench \<Rightarrow> 'e bench_state \<Rightarrow> bool" where
  "groups_ok c s \<longleftrightarrow> 
     (st_warm s \<or> b_inferenceOnly c \<or> \<not> b_pcseq c \<longrightarrow> (\<forall>i < b_nireq c. group_in (st_queue s) i = 0))
     \<and> (\<forall>i. st_pc s = Held i \<longrightarrow> group_in (st_queue s) i = group_at c (st_warm s) (st_iter s))
     \<and> (sound s \<and> b_pcseq c \<longrightarrow>
          tally (b_groups c) (st_run s) (group_in (st_queue s)) (iq_latency_groups (st_queue s))
            (launched s) (group_at c (st_warm s)))"

definition place_ok :: "bench \<Rightarrow> 'e bench_state \<Rightarrow> bool" where
  "place_ok c s \<longleftrightarrow>
     (sound s \<longrightarrow> length (iq_latencies (st_queue s)) + card (st_run s) = launched s)
     \<and> (st_sleep s \<longrightarrow> iq_inferenceException (st_queue s) = None
          \<and> (st_pc s = Fetch \<and> iq_idleIds (st_queue s) = []
             \<or> st_pc s = Drain \<and> length (iq_idleIds (st_queue s)) \<noteq> b_nireq c))
     \<and> (\<not> st_warm s \<and> st_pc s \<in> {Drain, Finished} \<longrightarrow> \<not> bench_guard c (st_iter s) (st_exec s))
     \<and> (st_pc s = Finished \<longrightarrow> sound s \<and> length (iq_idleIds (st_queue s)) = b_nireq c)
     \<and> st_frames s = sum (b_batch c) {..<st_iter s}"

definition bench_inv :: "bench \<Rightarrow> 'e bench_state \<Rightarrow> bool" where
  "bench_inv c s \<longleftrightarrow> q_shape c (st_queue s) \<and> ids_ok c s \<and> warm_ok s \<and> groups_ok c s \<and> place_ok c s"

lemma shape_set_group:
  "q_shape c q \<Longrightarrow> g < b_groups c \<Longrightarrow> q_shape c (set_latency_group_id i g q)"
  by (auto simp: q_shape_def set_latency_group_id_def set_request_def nth_update_if)

lemma shape_start: "q_shape c q \<Longrightarrow> q_shape c (start_request i now q)"
  by (auto simp: q_shape_def start_request_def set_request_def nth_update_if)

lemma start_simps [simp]:
  "iq_idleIds (start_request i now q) = iq_idleIds q" "iq_latencies (start_request i now q) = iq_latencies q"
  "iq_latency_groups (start_request i now q) = iq_latency_groups q"
  "iq_inferenceException (start_request i now q) = iq_inferenceException q"
  "length (iq_requests (start_request i now q)) = length (iq_requests q)"
  "group_in (start_request i now q) = group_in q"
  by (auto simp: start_request_def set_request_def nth_update_if group_in_def)

lemma fill_simps [simp]:
  "iq_idleIds (fill_request c s i q) = iq_idleIds q" "iq_latencies (fill_request c s i q) = iq_latencies q"
  "iq_latency_groups (fill_request c s i q) = iq_latency_groups q"
  "iq_inferenceException (fill_request c s i q) = iq_inferenceException q"
  by (simp_all add: fill_request_def set_latency_group_id_def set_request_def)

lemma fill_group:
  "i < length (iq_requests q) \<Longrightarrow>
   group_in (fill_request c s i q) j =
     (if j = i \<and> \<not> st_warm s \<and> \<not> b_inferenceOnly c \<and> b_pcseq c then st_iter s mod b_groups c
      else group_in q j)"
  by (simp add: fill_request_def group_in_def set_latency_group_id_def set_request_def nth_update_if)

lemma shape_fill: "q_shape c q \<Longrightarrow> 0 < b_groups c \<Longrightarrow> q_shape c (fill_request c s i q)"
  by (simp add: fill_request_def shape_set_group)

lemma shape_queue_update: "q_shape c (q\<lparr>iq_idleIds := x, iq_startTime := y\<rparr>) = q_shape c q"
  by (simp add: q_shape_def)

lemma shape_reset: "q_shape c q \<Longrightarrow> q_shape c (reset_times q)"
  by (simp add: q_shape_def reset_times_def)

lemma shape_failed: "q_shape c q \<Longrightarrow> i < b_nireq c \<Longrightarrow> completed i (Some e) now now' q = Some q' \<Longrightarrow> q_shape c q'"
  by (auto simp: completed_failed q_shape_def nth_list_update)

lemma shape_completed: "q_shape c q \<Longrightarrow> i < b_nireq c \<Longrightarrow> completed i exn now now' q = Some q' \<Longrightarrow> q_shape c q'"
proof (cases exn)
  case None
  assume a: "q_shape c q" "i < b_nireq c" "completed i exn now now' q = Some q'"
  from completed_ok [OF a(1,2), of now now'] None a(3) show ?thesis by auto
qed (simp add: shape_failed)

lemma shape_step:
  assumes "bench_step c s s'" "0 < b_groups c" "q_shape c (st_queue s)" "ids_ok c s"
  shows "q_shape c (st_queue s')"
  using assms(1)
proof cases
  case (fetch_take now i q)
  then show ?thesis using assms by (auto simp: shape_fill shape_queue_update)
next
  case (infer_sync i now' now'' now q)
  then have "i < b_nireq c" using assms(4) by (auto simp: ids_ok_def held_def)
  then show ?thesis using infer_sync assms(3) by (auto intro: shape_completed shape_start)
next
  case (callback i exn now now' q)
  then have "i < b_nireq c" using assms(4) by (auto simp: ids_ok_def)
  then show ?thesis using callback assms(3) by (auto intro: shape_completed)
qed (use assms in \<open>simp_all add: shape_start shape_reset\<close>)

lemma ids_step:
  assumes "bench_step c s s'" "q_shape c (st_queue s)" "ids_ok c s"
  shows "ids_ok c s'"
  using assms(1)
proof cases
  case (infer_sync i now' now'' now q)
  then have "i < b_nireq c" using assms(3) by (auto simp: ids_ok_def held_def)
  from completed_ok [OF shape_start [OF assms(2)] this, of now' now'']
  obtain lat q' where "completed i None now' now'' (start_request i now (st_queue s)) = Some q'"
    "iq_idleIds q' = iq_idleIds (st_queue s) @ [i]" "iq_inferenceException q' = iq_inferenceException (st_queue s)"
    by (metis start_simps(1,4))
  then show ?thesis using infer_sync assms(3) by (auto simp: ids_ok_def held_def sound_def)
next
  case (callback i exn now now' q)
  then have i: "i < b_nireq c" using assms(3) by (auto simp: ids_ok_def)
  show ?thesis
  proof (cases exn)
    case None
    from completed_ok [OF assms(2) i, of now now'] None callback(3)
    have "iq_idleIds q = iq_idleIds (st_queue s) @ [i]"
      "iq_inferenceException q = iq_inferenceException (st_queue s)" by auto
    then show ?thesis using callback assms(3) by (auto simp: ids_ok_def held_def sound_def)
  next
    case (Some e)
    with callback(3) have "iq_idleIds q = iq_idleIds (st_queue s)" "iq_inferenceException q = Some e"
      by (auto simp: completed_failed)
    then show ?thesis using callback assms(3) by (auto simp: ids_ok_def held_def sound_def)
  qed
qed (use assms in \<open>auto simp: ids_ok_def held_def sound_def reset_times_def Let_def\<close>)


lemma ids_full:
  assumes "ids_ok c s" "length (iq_idleIds (st_queue s)) = b_nireq c"
  shows "set (iq_idleIds (st_queue s)) = {..<b_nireq c}" "st_run s = {}" "held s = {}"
proof -
  have "card (set (iq_idleIds (st_queue s))) = card {..<b_nireq c}"
    using assms by (simp add: ids_ok_def distinct_card)
  then show full: "set (iq_idleIds (st_queue s)) = {..<b_nireq c}"
    using assms(1) by (intro card_subset_eq) (simp_all add: ids_ok_def)
  show "st_run s = {}" "held s = {}" using assms(1) full by (auto simp: ids_ok_def)
qed

lemma finite_run: "ids_ok c s \<Longrightarrow> finite (st_run s)"
  by (auto simp: ids_ok_def intro: finite_subset)

lemma card_less_Suc: "card {k. k < Suc n \<and> P k} = card {k. k < n \<and> P k} + (if P n then 1 else 0)"
proof -
  have "{k. k < Suc n \<and> P k} = {k. k < n \<and> P k} \<union> (if P n then {n} else {})" by (auto simp: less_Suc_eq)
  then show ?thesis by (auto simp: card_insert_if)
qed

lemma members_insert:
  assumes "finite R" "i \<notin> R"
  shows "members (insert i R) w g = members R w g + (if w i = g then 1 else 0)"
proof -
  have "{j \<in> insert i R. w j = g} = (if w i = g then insert i {j \<in> R. w j = g} else {j \<in> R. w j = g})" by auto
  then show ?thesis using assms by (simp add: members_def)
qed

lemma members_remove:
  assumes "finite R" "i \<in> R"
  shows "members R w g = members (R - {i}) w g + (if w i = g then 1 else 0)"
  using members_insert [of "R - {i}" i w g] assms by (simp add: insert_absorb)

lemma members_cong: "(\<And>i. i \<in> R \<Longrightarrow> w' i = w i) \<Longrightarrow> members R w' g = members R w g"
  unfolding members_def by (simp cong: conj_cong)

lemma tally_launch:
  "tally n run w groups l f \<Longrightarrow> finite run \<Longrightarrow> i \<notin> run \<Longrightarrow> w i = f l \<Longrightarrow> tally n (insert i run) w groups (Suc l) f"
  by (simp add: tally_def members_insert card_less_Suc)

lemma tally_infer:
  "tally n run w groups l f \<Longrightarrow> w i = f l \<Longrightarrow> w i < length groups \<Longrightarrow>
   tally n run w (groups[w i := groups ! w i @ [lat]]) (Suc l) f"
  by (simp add: tally_def card_less_Suc nth_update_if)

lemma tally_callback:
  "tally n run w groups l f \<Longrightarrow> finite run \<Longrightarrow> i \<in> run \<Longrightarrow> w i < length groups \<Longrightarrow>
   tally n (run - {i}) w (groups[w i := groups ! w i @ [lat]]) l f"
  by (auto simp: tally_def nth_update_if members_remove [of run i w])

lemma tally_same: "tally n run w groups l f \<Longrightarrow> (\<And>i. i \<in> run \<Longrightarrow> w' i = w i) \<Longrightarrow> tally n run w' groups l f"
  by (simp add: tally_def members_cong [of run w' w])

lemma tally_empty: "n \<le> length groups \<Longrightarrow> tally n {} w (map (\<lambda>_. []) groups) 0 f"
  by (simp add: tally_def members_def)

lemma held_group:
  "groups_ok c s \<Longrightarrow> st_pc s = Held i \<Longrightarrow> group_in (st_queue s) i = group_at c (st_warm s) (launched s)"
  by (auto simp: groups_ok_def launched_def group_at_def)

lemma group_in_bound: "q_shape c q \<Longrightarrow> i < b_nireq c \<Longrightarrow> group_in q i < length (iq_latency_groups q)"
  by (simp add: q_shape_def group_in_def)

lemma warm_step: "bench_step c s s' \<Longrightarrow> warm_ok s \<Longrightarrow> warm_ok s'"
  by (cases rule: bench_step.cases) (auto simp: warm_ok_def)

lemma groups_step:
  assumes "bench_step c s s'" "q_shape c (st_queue s)" "ids_ok c s" "groups_ok c s" "warm_ok s"
  shows "groups_ok c s'"
  using assms(1)
proof cases
  case (fetch_take now i q)
  then have i: "i < length (iq_requests q)" "i \<notin> st_run s" and same: "group_in q = group_in (st_queue s)"
      "length (iq_requests q) = length (iq_requests (st_queue s))"
      "iq_latency_groups q = iq_latency_groups (st_queue s)"
      "iq_inferenceException q = iq_inferenceException (st_queue s)"
    using assms(3) by (auto simp: ids_ok_def group_in_def)
  have b: "i < b_nireq c" using i(1) same(2) assms(2) by (simp add: q_shape_def)
  have w: "group_in (fill_request c s i q) j = (if j = i then group_at c (st_warm s) (st_iter s) else group_in (st_queue s) j)" for j
    using assms(4) b by (auto simp: fill_group [OF i(1)] groups_ok_def group_at_def same)
  have l: "launched s' = launched s" using fetch_take by (simp add: launched_def)
  show ?thesis
    using assms(4) fetch_take(2) i(2) unfolding groups_ok_def
    by (simp add: fetch_take(1) l [unfolded fetch_take(1)] same sound_def)
       (auto simp: w group_at_def intro: tally_same)
next
  case (launch_async i now)
  then have i: "i \<notin> st_run s" using assms(3) by (auto simp: ids_ok_def held_def)
  have l: "launched s' = Suc (launched s)" using launch_async by (auto simp: launched_def)
  show ?thesis
    using launch_async(2) assms(4) held_group [OF assms(4) launch_async(2)] i finite_run [OF assms(3)]
    unfolding groups_ok_def by (simp add: launch_async(1) l [unfolded launch_async(1)] sound_def tally_launch)
next
  case (infer_sync i now' now'' now q)
  then have i: "i < b_nireq c" using assms(3) by (auto simp: ids_ok_def held_def)
  note w = held_group [OF assms(4) infer_sync(2)]
  have l: "launched s' = Suc (launched s)" using infer_sync by (auto simp: launched_def)
  from completed_ok [OF shape_start [OF assms(2)] i, of now' now'' i now] infer_sync(4)
  obtain lat where q: "iq_inferenceException q = iq_inferenceException (st_queue s)"
    "group_in q = group_in (st_queue s)"
    "iq_latency_groups q =
       (if b_pcseq c then (iq_latency_groups (st_queue s))[group_in (st_queue s) i :=
                              iq_latency_groups (st_queue s) ! group_in (st_queue s) i @ [lat]]
        else iq_latency_groups (st_queue s))"
    by (metis (no_types, lifting) option.inject start_simps)
  show ?thesis
    using infer_sync(2) assms(4) w group_in_bound [OF assms(2) i]
      tally_infer [of _ _ "group_in (st_queue s)" _ "launched s" "group_at c (st_warm s)" i] unfolding groups_ok_def
    by (auto simp: infer_sync(1) l [unfolded infer_sync(1)] q sound_def)
next
  case (callback i exn now now' q)
  then have i: "i < b_nireq c" "i \<in> st_run s" using assms(3) by (auto simp: ids_ok_def)
  have l: "launched s' = launched s" using callback by (simp add: launched_def)
  show ?thesis
  proof (cases exn)
    case None
    from completed_ok [OF assms(2) i(1), of now now'] None callback(3)
    obtain lat where q: "iq_inferenceException q = iq_inferenceException (st_queue s)"
      "group_in q = group_in (st_queue s)"
      "iq_latency_groups q =
         (if b_pcseq c then (iq_latency_groups (st_queue s))[group_in (st_queue s) i :=
                                iq_latency_groups (st_queue s) ! group_in (st_queue s) i @ [lat]]
          else iq_latency_groups (st_queue s))"
      by (metis (no_types, lifting) option.inject)
    show ?thesis
      using assms(4) finite_run [OF assms(3)] i(2) group_in_bound [OF assms(2) i(1)]
        tally_callback [of _ _ "group_in (st_queue s)" _ _ _ i]
      unfolding groups_ok_def by (simp add: callback(1) l [unfolded callback(1)] q sound_def)
  next
    case (Some e)
    with callback(3) have q: "iq_inferenceException q = Some e" "group_in q = group_in (st_queue s)"
      by (auto simp: completed_failed nth_update_if group_in_def)
    show ?thesis using callback assms(4) by (auto simp: groups_ok_def q sound_def)
  qed
next
  case (drain_warm t)
  then have "st_run s = {}" "st_iter s = 0" "\<forall>i < b_nireq c. group_in (st_queue s) i = 0"
      "length (iq_latency_groups (st_queue s)) = b_groups c"
    using ids_full(2) [OF assms(3)] assms(2,4,5) by (simp_all add: q_shape_def groups_ok_def warm_ok_def)
  then show ?thesis
    by (simp add: drain_warm(1) groups_ok_def launched_def reset_times_def group_in_def tally_empty)
qed (use assms in \<open>auto simp: groups_ok_def launched_def sound_def warm_ok_def\<close>)

lemma place_step:
  assumes "bench_step c s s'" "q_shape c (st_queue s)" "ids_ok c s" "place_ok c s" "warm_ok s"
  shows "place_ok c s'"
  using assms(1)
proof cases
  case (launch_async i now)
  then have i: "i \<notin> st_run s" using assms(3) by (auto simp: ids_ok_def held_def)
  then show ?thesis
    using launch_async assms(4) finite_run [OF assms(3)] by (auto simp: place_ok_def launched_def sound_def)
next
  case (infer_sync i now' now'' now q)
  then have i: "i < b_nireq c" using assms(3) by (auto simp: ids_ok_def held_def)
  from completed_ok [OF shape_start [OF assms(2)] i, of now' now'' i now] infer_sync(4)
  obtain lat where "iq_inferenceException q = iq_inferenceException (st_queue s)"
    "iq_latencies q = iq_latencies (st_queue s) @ [lat]"
    by (metis (no_types, lifting) option.inject start_simps)
  then show ?thesis using infer_sync assms(4) by (auto simp: place_ok_def launched_def sound_def)
next
  case (callback i exn now now' q)
  then have i: "i < b_nireq c" "i \<in> st_run s" using assms(3) by (auto simp: ids_ok_def)
  have c: "card (st_run s) = Suc (card (st_run s - {i}))" by (rule card.remove [OF finite_run [OF assms(3)] i(2)])
  have l: "launched s' = launched s" using callback by (simp add: launched_def)
  have f: "st_pc s = Finished \<Longrightarrow> st_run s = {}"
    using ids_full(2) [OF assms(3)] assms(4) by (simp add: place_ok_def)
  show ?thesis
  proof (cases exn)
    case None
    from completed_ok [OF assms(2) i(1), of now now'] None callback(3)
    obtain lat where "iq_inferenceException q = iq_inferenceException (st_queue s)"
      "iq_latencies q = iq_latencies (st_queue s) @ [lat]"
      by (metis (no_types, lifting) option.inject)
    then show ?thesis
      using assms(4) c f unfolding place_ok_def by (auto simp: callback(1) l [unfolded callback(1)] sound_def)
  next
    case (Some e)
    with callback(3) have "iq_inferenceException q = Some e" by (auto simp: completed_failed)
    then show ?thesis using assms(4) f i(2) unfolding place_ok_def by (auto simp: callback(1) sound_def)
  qed
next
  case (drain_warm t)
  then have "st_run s = {}" using ids_full(2) [OF assms(3)] assms(2) by (simp add: q_shape_def)
  then show ?thesis
    using drain_warm assms(4,5) by (auto simp: place_ok_def launched_def reset_times_def sound_def warm_ok_def)
qed (use assms in \<open>auto simp: place_ok_def launched_def sound_def q_shape_def warm_ok_def\<close>)


section \<open>Reachable states\<close>

lemma inv_init: "0 < b_groups c \<Longrightarrow> bench_inv c (bench_init c)"
  by (auto simp: bench_inv_def bench_init_def new_queue_def reset_times_def q_shape_def ids_ok_def warm_ok_def
      groups_ok_def place_ok_def launched_def held_def sound_def group_in_def tally_def members_def)

lemma inv_step: "bench_step c s s' \<Longrightarrow> 0 < b_groups c \<Longrightarrow> bench_inv c s \<Longrightarrow> bench_inv c s'"
  unfolding bench_inv_def by (blast intro: shape_step ids_step warm_step groups_step place_step)

lemma inv_spurious: "bench_inv c s \<Longrightarrow> bench_inv c (s\<lparr>st_sleep := False\<rparr>)"
proof -
  have "launched (s\<lparr>st_sleep := False\<rparr>) = launched s" "held (s\<lparr>st_sleep := False\<rparr>) = held s"
    "sound (s\<lparr>st_sleep := False\<rparr>) = sound s"
    by (simp_all add: launched_def held_def sound_def)
  then show "bench_inv c s \<Longrightarrow> ?thesis"
    by (simp add: bench_inv_def ids_ok_def warm_ok_def groups_ok_def place_ok_def)
qed

lemma reachable_inv: "bench_reachable c s \<Longrightarrow> 0 < b_groups c \<Longrightarrow> bench_inv c s"
  by (induction rule: bench_reachable.induct)
    (auto simp: inv_init elim!: bench_move.cases intro: inv_step inv_spurious)

lemma reachable_parts:
  assumes "bench_reachable c s" "0 < b_groups c"
  shows "q_shape c (st_queue s)" "ids_ok c s" "warm_ok s" "groups_ok c s" "place_ok c s"
  using reachable_inv [OF assms] by (simp_all add: bench_inv_def)

text \<open>
  C23: At any moment of a run every request is in at most one place: among the idle ones (once), in
  flight, or held by the main thread between \<open>get_idle_request\<close> and the start of its inference;
  and while nothing has failed no request is lost: each is in one of the three.
\<close>

theorem bench_requests_exclusive:
  assumes "bench_reachable c s" "0 < b_groups c"
  shows "distinct (iq_idleIds (st_queue s)) \<and> set (iq_idleIds (st_queue s)) \<inter> st_run s = {}
    \<and> (\<forall>i. st_pc s = Held i \<longrightarrow> i \<notin> set (iq_idleIds (st_queue s)) \<and> i \<notin> st_run s)
    \<and> (iq_inferenceException (st_queue s) = None \<and> (\<forall>e. st_pc s \<noteq> Threw e) \<longrightarrow>
         (\<forall>i < b_nireq c. i \<in> set (iq_idleIds (st_queue s)) \<or> i \<in> st_run s \<or> st_pc s = Held i))"
proof -
  have held: "i \<in> held s \<longleftrightarrow> st_pc s = Held i" for i
    by (auto simp: held_def split: main_pc.splits)
  show ?thesis
    using reachable_parts(2) [OF assms] unfolding ids_ok_def sound_def held [symmetric] by blast
qed

lemma sleep_run:
  assumes "ids_ok c s" "place_ok c s" "0 < b_nireq c" "st_sleep s"
  shows "\<exists>i \<in> st_run s. i < b_nireq c"
proof -
  from assms(2,4) have e: "sound s" "held s = {}"
    and l: "length (iq_idleIds (st_queue s)) \<noteq> b_nireq c"
    using assms(3) by (auto simp: place_ok_def sound_def held_def)
  from e(1) assms(1) have cover: "{..<b_nireq c} \<subseteq> set (iq_idleIds (st_queue s)) \<union> st_run s"
    and d: "distinct (iq_idleIds (st_queue s))" "set (iq_idleIds (st_queue s)) \<subseteq> {..<b_nireq c}"
    by (auto simp: ids_ok_def e(2))
  have "set (iq_idleIds (st_queue s)) \<noteq> {..<b_nireq c}"
  proof
    assume "set (iq_idleIds (st_queue s)) = {..<b_nireq c}"
    with l distinct_card [OF d(1)] show False by simp
  qed
  then show ?thesis using cover d(2) by blast
qed

lemma callback_defined:
  assumes "q_shape c (st_queue s)" "ids_ok c s" "i \<in> st_run s"
  shows "\<exists>q. completed i exn now now' (st_queue s) = Some q"
proof (cases exn)
  case None
  have "i < b_nireq c" using assms(2,3) by (auto simp: ids_ok_def)
  from completed_ok [OF assms(1) this, of now now'] None show ?thesis by auto
qed (simp add: completed_failed)

lemma sleeper_woken:
  assumes "q_shape c (st_queue s)" "ids_ok c s" "place_ok c s" "0 < b_nireq c" "st_sleep s"
  shows "\<exists>i \<in> st_run s. \<exists>s'. bench_step c s s' \<and> \<not> st_sleep s' \<and> i \<notin> st_run s'"
proof -
  from sleep_run [OF assms(2-5)] obtain i where i: "i \<in> st_run s" by blast
  obtain q where "completed i None 0 0 (st_queue s) = Some q" using callback_defined [OF assms(1,2) i] by blast
  from bench_step.callback [OF i this] i show ?thesis by force
qed

lemma progress_awake:
  fixes s :: "'e bench_state"
  assumes inv: "q_shape c (st_queue s)" "ids_ok c s" "place_ok c s"
    and that: "\<not> st_sleep s"
    and going: "st_pc s \<noteq> Finished" "\<forall>e. st_pc s \<noteq> Threw e"
  shows "\<exists>s'. bench_step c s s'"
proof (cases "st_pc s")
  case Fetch
  show ?thesis
  proof (cases "get_idle_ready (st_queue s)")
    case (Inl e)
    then show ?thesis using bench_step.fetch_throw [OF Fetch that] by blast
  next
    case (Inr b)
    show ?thesis
    proof (cases b)
      case True
      with Inr inv(1,2) obtain i ids where "iq_idleIds (st_queue s) = i # ids" "i < length (iq_requests (st_queue s))"
        by (cases "iq_idleIds (st_queue s)") (auto simp: ids_ok_def q_shape_def)
      then obtain q where "take_idle 0 (st_queue s) = Some (i, q)" by simp
      moreover have "get_idle_ready (st_queue s) = Inr True" using Inr True by simp
      ultimately show ?thesis using bench_step.fetch_take [OF Fetch that] by blast
    next
      case False
      then have "get_idle_ready (st_queue s) = Inr False" using Inr by simp
      then show ?thesis using bench_step.fetch_sleep [OF Fetch that] by blast
    qed
  qed
next
  case (Held i)
  have "i < b_nireq c" using inv(2) Held by (auto simp: ids_ok_def held_def)
  then show ?thesis
    using bench_step.launch_async [OF Held] bench_step.infer_sync [OF Held]
      completed_ok [OF shape_start [OF inv(1)]] by metis
next
  case Drain
  show ?thesis
  proof (cases "wait_all_ready (st_queue s)")
    case (Inl e)
    then show ?thesis using bench_step.drain_throw [OF Drain that] by blast
  next
    case (Inr b)
    have "iq_latencies (st_queue s) \<noteq> []" if w: "st_warm s" b
    proof -
      have "st_run s = {}" using Inr w(2) inv(1) ids_full(2) [OF inv(2)] by (simp add: q_shape_def)
      then have "length (iq_latencies (st_queue s)) = 1"
        using inv(3) w(1) Inr Drain by (auto simp: place_ok_def sound_def launched_def)
      then show ?thesis by auto
    qed
    moreover have "wait_all_ready (st_queue s) = Inr True" if b using Inr \<open>b\<close> by simp
    moreover have "wait_all_ready (st_queue s) = Inr False" if "\<not> b" using Inr \<open>\<not> b\<close> by simp
    ultimately show ?thesis
      using bench_step.drain_sleep [OF Drain that] bench_step.drain_warm [OF Drain that]
        bench_step.drain_done [OF Drain that] by blast
  qed
next
  case Launched
  then show ?thesis using bench_step.count_warm [OF Launched] bench_step.count_loop [OF Launched] by blast
next
  case Loop
  then show ?thesis using bench_step.loop_more [OF Loop] bench_step.loop_done [OF Loop] by blast
qed (use going in simp_all)

lemma progress:
  assumes "bench_reachable c s" "0 < b_groups c" "0 < b_nireq c" "st_pc s \<noteq> Finished" "\<forall>e. st_pc s \<noteq> Threw e"
  shows "\<exists>s'. bench_step c s s'"
  using progress_awake [of c s] sleeper_woken [of c s] reachable_parts [OF assms(1,2)] assms(3-5) by blast

text \<open>
  C24: No wake-up is lost and the main thread is never stuck: in every reachable state in which it has
  neither finished nor thrown, some step other than a spurious wake-up is possible, every callback
  is defined, and when the main thread sleeps a request is in flight, whose completion wakes it.
\<close>

theorem bench_never_stuck:
  assumes "bench_reachable c s" "0 < b_groups c" "0 < b_nireq c" "st_pc s \<noteq> Finished" "\<forall>e. st_pc s \<noteq> Threw e"
  shows "(\<exists>s'. bench_step c s s')
    \<and> (\<forall>i \<in> st_run s. \<forall>exn now now'. completed i exn now now' (st_queue s) \<noteq> None)
    \<and> (st_sleep s \<longrightarrow> (\<exists>i \<in> st_run s. \<exists>s'. bench_step c s s' \<and> \<not> st_sleep s' \<and> i \<notin> st_run s'))"
  using progress [OF assms] callback_defined [of c s] sleeper_woken [of c s] reachable_parts [OF assms(1,2)] assms(3)
  by auto

lemma finished_facts:
  assumes "bench_reachable c s" "0 < b_groups c" "st_pc s = Finished"
  shows "sound s" "length (iq_idleIds (st_queue s)) = b_nireq c" "\<not> st_warm s"
    "\<not> bench_guard c (st_iter s) (st_exec s)"
  using reachable_parts(3,5) [OF assms(1,2)] assms(3) by (auto simp: place_ok_def warm_ok_def)

lemma bench_counts_finish:
  assumes "bench_reachable c s" "0 < b_groups c" "st_pc s = Finished"
  shows "b_niter c \<le> st_iter s" "b_async c \<Longrightarrow> b_nireq c dvd st_iter s"
  using finished_facts(4) [OF assms] by (auto simp: bench_guard_def dvd_eq_mod_eq_0)

lemma finished_counts:
  assumes "bench_reachable c s" "0 < b_groups c" "st_pc s = Finished"
  shows "length (iq_latencies (st_queue s)) = st_iter s
    \<and> b_niter c \<le> st_iter s \<and> (b_async c \<longrightarrow> b_nireq c dvd st_iter s)
    \<and> mset (iq_idleIds (st_queue s)) = mset [0..<b_nireq c] \<and> st_run s = {}
    \<and> st_frames s = (\<Sum>k < st_iter s. b_batch c k)
    \<and> (b_pcseq c \<longrightarrow> (\<forall>g < b_groups c. length (iq_latency_groups (st_queue s) ! g)
          = card {k. k < st_iter s \<and> (if b_inferenceOnly c then 0 else k mod b_groups c) = g}))"
proof -
  note inv = reachable_parts [OF assms(1,2)]
  note f = finished_facts [OF assms]
  note full = ids_full [OF inv(2) f(2)]
  have l: "launched s = st_iter s" using f(3) assms(3) by (simp add: launched_def)
  have "mset (iq_idleIds (st_queue s)) = mset [0..<b_nireq c]"
    using set_eq_iff_mset_eq_distinct [of "iq_idleIds (st_queue s)" "[0..<b_nireq c]"] full(1) inv(2)
    by (auto simp: ids_ok_def)
  moreover have "b_pcseq c \<Longrightarrow> tally (b_groups c) {} (group_in (st_queue s)) (iq_latency_groups (st_queue s))
      (st_iter s) (group_at c False)"
    using inv(4) f(1,3) l full(2) by (simp add: groups_ok_def)
  ultimately show ?thesis
    using f(1) inv(5) l full(2) bench_counts_finish [OF assms]
    by (auto simp: place_ok_def tally_def members_def group_at_def)
qed

section \<open>Runs limited by iterations end\<close>

definition bench_target :: "bench \<Rightarrow> nat" where
  "bench_target c = (if b_async c then (b_niter c + b_nireq c - 1) div b_nireq c * b_nireq c else b_niter c)"

lemma target_bounds:
  assumes "0 < b_nireq c"
  shows "b_niter c \<le> bench_target c" "b_async c \<Longrightarrow> b_nireq c dvd bench_target c"
proof -
  let ?a = "b_niter c + b_nireq c - 1"
  have "?a mod b_nireq c < b_nireq c" using assms by simp
  moreover have "?a div b_nireq c * b_nireq c + ?a mod b_nireq c = ?a" by simp
  ultimately have "b_niter c \<le> ?a div b_nireq c * b_nireq c" using assms by linarith
  then show "b_niter c \<le> bench_target c" by (simp add: bench_target_def)
qed (simp add: bench_target_def)

lemma target_least:
  assumes "0 < b_nireq c" "b_niter c \<le> m" "b_async c \<Longrightarrow> b_nireq c dvd m"
  shows "bench_target c \<le> m"
proof (cases "b_async c")
  case True
  then obtain k where m: "m = b_nireq c * k" using assms(3) by (auto elim: dvdE)
  have "b_niter c + b_nireq c - 1 < b_nireq c * Suc k" using assms(1,2) m by simp
  then have "(b_niter c + b_nireq c - 1) div b_nireq c < Suc k"
    using assms(1) by (simp add: less_mult_imp_div_less mult.commute)
  then have "(b_niter c + b_nireq c - 1) div b_nireq c * b_nireq c \<le> k * b_nireq c" by (intro mult_right_mono) auto
  then show ?thesis using True m by (simp add: bench_target_def mult.commute)
qed (use assms(2) in \<open>simp add: bench_target_def\<close>)

definition iter_ok :: "bench \<Rightarrow> 'e bench_state \<Rightarrow> bool" where
  "iter_ok c s \<longleftrightarrow> st_iter s \<le> bench_target c
     \<and> (\<not> st_warm s \<and> st_pc s \<in> {Fetch, Launched} \<union> range Held \<longrightarrow> st_iter s < bench_target c)"

lemma guard_below:
  assumes "0 < b_nireq c" "b_duration c = 0" "bench_guard c iter t" "iter \<le> bench_target c"
  shows "iter < bench_target c"
proof (rule ccontr)
  assume "\<not> ?thesis"
  then have "iter = bench_target c" using assms(4) by simp
  then show False using assms(2,3) target_bounds [OF assms(1)] by (auto simp: bench_guard_def)
qed

lemma iter_step:
  assumes "bench_step c s s'" "0 < b_nireq c" "b_duration c = 0" "warm_ok s" "iter_ok c s"
  shows "iter_ok c s'"
  using assms(1)
proof cases
  case loop_more
  then show ?thesis using guard_below [OF assms(2,3)] assms(5) by (auto simp: iter_ok_def)
qed (use assms(4,5) in \<open>auto simp: iter_ok_def warm_ok_def\<close>)

text \<open>What a run still has to do.\<close>

definition rank :: "'e main_pc \<Rightarrow> nat" where
  "rank pc = (case pc of Loop \<Rightarrow> 8 | Fetch \<Rightarrow> 7 | Held _ \<Rightarrow> 6 | Launched \<Rightarrow> 2 | Drain \<Rightarrow> 1 | Finished \<Rightarrow> 0 | Threw _ \<Rightarrow> 0)"

definition work_left :: "bench \<Rightarrow> 'e bench_state \<Rightarrow> nat" where
  "work_left c s = rank (st_pc s) + 3 * card (st_run s) + (if st_sleep s then 0 else 1)
     + 10 * (bench_target c - st_iter s) + (if st_warm s then 20 else 0)"

lemma work_step:
  assumes "bench_step c s s'" "ids_ok c s" "iter_ok c s"
  shows "work_left c s' < work_left c s"
  using assms(1)
proof cases
  case (launch_async i now)
  then have "i \<notin> st_run s" using assms(2) by (auto simp: ids_ok_def held_def)
  then show ?thesis using launch_async finite_run [OF assms(2)] by (simp add: work_left_def rank_def)
next
  case (callback i exn now now' q)
  have "card (st_run s) = Suc (card (st_run s - {i}))" by (rule card.remove [OF finite_run [OF assms(2)] callback(2)])
  then show ?thesis using callback by (simp add: work_left_def)
next
  case (count_loop t)
  then have "st_iter s < bench_target c" using assms(3) by (simp add: iter_ok_def)
  then show ?thesis using count_loop by (simp add: work_left_def rank_def)
qed (simp_all add: work_left_def rank_def)

lemma run_bound:
  fixes s :: "'e bench_state"
  assumes "(bench_step c ^^ n) (bench_init c) s" "0 < b_groups c" "0 < b_nireq c" "b_duration c = 0"
  shows "bench_reachable c s \<and> iter_ok c s \<and> n + work_left c s \<le> 28 + 10 * bench_target c"
  using assms(1)
proof (induction n arbitrary: s)
  case 0
  then show ?case
    by (auto simp: work_left_def rank_def iter_ok_def bench_init_def intro: bench_reachable.start [unfolded bench_init_def])
next
  case (Suc n)
  then obtain s1 where s1: "(bench_step c ^^ n) (bench_init c) s1" "bench_step c s1 s" by auto
  note ih = Suc.IH [OF s1(1)]
  then have inv: "ids_ok c s1" "warm_ok s1" using reachable_parts [OF _ assms(2)] by blast+
  have "work_left c s < work_left c s1" using work_step [OF s1(2) inv(1)] ih by blast
  then show ?case
    using ih iter_step [OF s1(2) assms(3,4) inv(2)] bench_reachable.go [OF _ bench_move.own [OF s1(2)]] by auto
qed

lemma run_iterations:
  assumes "(bench_step c)\<^sup>*\<^sup>* (bench_init c) s" "0 < b_groups c" "0 < b_nireq c" "b_duration c = 0" "st_pc s = Finished"
  shows "st_iter s = bench_target c"
proof -
  obtain n where "(bench_step c ^^ n) (bench_init c) s" using assms(1) rtranclp_imp_relpowp by fast
  note run = run_bound [OF this assms(2-4)]
  then show ?thesis
    using bench_counts_finish [OF _ assms(2,5)] target_least [OF assms(3), of "st_iter s"] by (auto simp: iter_ok_def)
qed

text \<open>
  C26: A run that is limited by a number of iterations ends: whatever the clock, the callbacks and the
  exceptions do, no run makes more than \<open>28 + 10 * target\<close> steps, where the target is the number of
  iterations, rounded up to a multiple of the number of requests for the asynchronous interface;
  and it stops only when it has finished, with exactly that many iterations, or thrown.
\<close>

theorem bench_run_ends:
  fixes s :: "'e bench_state"
  assumes "(bench_step c ^^ n) (bench_init c) s" "0 < b_groups c" "0 < b_nireq c" "b_duration c = 0"
  shows "n \<le> 28 + 10 * bench_target c
    \<and> ((\<nexists>s'. bench_step c s s') \<longrightarrow> st_pc s = Finished \<and> st_iter s = bench_target c \<or> (\<exists>e. st_pc s = Threw e))"
proof -
  note run = run_bound [OF assms]
  have "(bench_step c)\<^sup>*\<^sup>* (bench_init c) s" using assms(1) relpowp_imp_rtranclp by fast
  from run_iterations [OF this assms(2-4)] progress [of c s, OF _ assms(2,3)] run
  show ?thesis by (auto dest: add_leD1)
qed

section \<open>A run of the synchronous interface\<close>

definition quiet :: "bench \<Rightarrow> 'e bench_state \<Rightarrow> 'e main_pc \<Rightarrow> bool \<Rightarrow> nat \<Rightarrow> bool" where
  "quiet c s pc warm iter \<longleftrightarrow> (bench_step c)\<^sup>*\<^sup>* (bench_init c) s \<and> st_pc s = pc \<and> st_warm s = warm \<and> st_iter s = iter
     \<and> \<not> st_sleep s \<and> st_run s = {} \<and> iq_inferenceException (st_queue s) = None"

lemma run_reachable: "(bench_step c)\<^sup>*\<^sup>* (bench_init c) s \<Longrightarrow> bench_reachable c s"
  by (induction rule: rtranclp_induct) (auto intro: bench_reachable.intros bench_move.own)

lemma quiet_reachable: "quiet c s pc warm iter \<Longrightarrow> bench_reachable c s"
  by (simp add: quiet_def run_reachable)

lemma quiet_init: "quiet c (bench_init c) Fetch True 0"
  by (simp add: quiet_def bench_init_def new_queue_def reset_times_def)

lemma quiet_go: "quiet c s pc warm iter \<Longrightarrow> bench_step c s s' \<Longrightarrow> st_run s' = {} \<Longrightarrow>
    iq_inferenceException (st_queue s') = None \<Longrightarrow> \<not> st_sleep s' \<Longrightarrow> quiet c s' (st_pc s') (st_warm s') (st_iter s')"
  by (auto simp: quiet_def)

lemma quiet_fetch:
  fixes s :: "'e bench_state"
  assumes "quiet c s Fetch warm iter" "0 < b_groups c" "0 < b_nireq c"
  shows "\<exists>(s' :: 'e bench_state) i. quiet c s' (Held i) warm iter"
proof -
  have s: "bench_reachable c s" "st_pc s = Fetch" "\<not> st_sleep s" "st_run s = {}"
    "iq_inferenceException (st_queue s) = None" "st_warm s = warm" "st_iter s = iter"
    using assms(1) quiet_reachable [OF assms(1)] by (simp_all add: quiet_def)
  note inv = reachable_parts [OF s(1) assms(2)]
  have "{..<b_nireq c} \<subseteq> set (iq_idleIds (st_queue s))" "set (iq_idleIds (st_queue s)) \<subseteq> {..<b_nireq c}"
    using inv(2) s by (auto simp: ids_ok_def sound_def held_def)
  then obtain i ids where "iq_idleIds (st_queue s) = i # ids" "i < length (iq_requests (st_queue s))"
    using inv(1) assms(3) by (cases "iq_idleIds (st_queue s)") (auto simp: q_shape_def)
  then obtain q where q: "take_idle 0 (st_queue s) = Some (i, q)" by simp
  have "get_idle_ready (st_queue s) = Inr True" using s(5) q by auto
  note step = quiet_go [OF assms(1) bench_step.fetch_take [OF s(2,3) this q]]
  have "iq_inferenceException (fill_request c s i q) = None" using q s(5) by auto
  then show ?thesis using step s by auto
qed

lemma quiet_infer:
  fixes s :: "'e bench_state"
  assumes "quiet c s (Held i) warm iter" "0 < b_groups c"
  shows "\<exists>s' :: 'e bench_state. quiet c s' Launched warm iter"
proof -
  have s: "bench_reachable c s" "st_pc s = Held i" "\<not> st_sleep s" "st_run s = {}"
    "iq_inferenceException (st_queue s) = None" "st_warm s = warm" "st_iter s = iter"
    using assms(1) quiet_reachable [OF assms(1)] by (simp_all add: quiet_def)
  note inv = reachable_parts [OF s(1) assms(2)]
  have "i < b_nireq c" using inv(2) s(2) by (auto simp: ids_ok_def held_def)
  from completed_ok [OF shape_start [OF inv(1)] this, of 1 1 i 0]
  obtain q where q: "completed i None 1 1 (start_request i 0 (st_queue s)) = Some q" "iq_inferenceException q = None"
    using s(5) by (metis start_simps(4))
  show ?thesis
  proof (cases "b_async c")
    case False
    show ?thesis using quiet_go [OF assms(1) bench_step.infer_sync [OF s(2) False q(1)]] q(2) s by auto
  next
    case True
    let ?s1 = "s\<lparr>st_queue := start_request i 0 (st_queue s), st_run := insert i (st_run s), st_pc := Launched\<rparr>"
    have "bench_step c s ?s1" by (rule bench_step.launch_async [OF s(2) True])
    moreover have "bench_step c ?s1 (?s1\<lparr>st_queue := q, st_run := st_run ?s1 - {i}, st_sleep := False\<rparr>)"
      using q(1) by (intro bench_step.callback) simp_all
    ultimately have "quiet c (?s1\<lparr>st_queue := q, st_run := st_run ?s1 - {i}, st_sleep := False\<rparr>) Launched warm iter"
      using assms(1) q(2) s by (auto simp: quiet_def)
    then show ?thesis by blast
  qed
qed

lemma quiet_drained:
  assumes "quiet c s Drain warm iter" "0 < b_groups c"
  shows "wait_all_ready (st_queue s) = Inr True" "warm \<Longrightarrow> iq_latencies (st_queue s) \<noteq> []"
proof -
  have s: "bench_reachable c s" "st_pc s = Drain" "st_run s = {}" "st_warm s = warm"
    "iq_inferenceException (st_queue s) = None" using assms(1) quiet_reachable [OF assms(1)] by (simp_all add: quiet_def)
  note inv = reachable_parts [OF s(1) assms(2)]
  have "set (iq_idleIds (st_queue s)) = {..<b_nireq c}" "distinct (iq_idleIds (st_queue s))"
    using inv(2) s by (auto simp: ids_ok_def sound_def held_def)
  then have "length (iq_idleIds (st_queue s)) = b_nireq c" using distinct_card by fastforce
  then show "wait_all_ready (st_queue s) = Inr True" using inv(1) s(5) by (simp add: q_shape_def)
  show "warm \<Longrightarrow> iq_latencies (st_queue s) \<noteq> []"
    using inv(5) s by (auto simp: place_ok_def sound_def launched_def)
qed

definition demo_bench :: "bool \<Rightarrow> bench" where
  "demo_bench async = \<lparr>b_async = async, b_nireq = 1, b_niter = 1, b_duration = 0, b_groups = 1, b_pcseq = True,
     b_inferenceOnly = False, b_batch = (\<lambda>_. 4)\<rparr>"

lemma demo_held: "\<exists>s :: nat bench_state. \<exists>i. quiet (demo_bench async) s (Held i) True 0"
  using quiet_fetch [OF quiet_init, of "demo_bench async"] unfolding demo_bench_def by simp

lemma demo_finished: "\<exists>s :: nat bench_state. quiet (demo_bench async) s Finished False 1"
proof -
  let ?c = "demo_bench async"
  have c: "0 < b_nireq ?c" "0 < b_groups ?c" "0 < b_nireq ?c" "bench_guard ?c 0 t" "\<not> bench_guard ?c 1 0" for t
    by (simp_all add: demo_bench_def bench_guard_def)
  obtain s1 :: "nat bench_state" and i where "quiet ?c s1 (Held i) True 0" using demo_held by blast
  from quiet_infer [OF this c(2)] obtain s2 :: "nat bench_state" where s2: "quiet ?c s2 Launched True 0" by blast
  let ?s3 = "s2\<lparr>st_pc := Drain\<rparr>"
  from quiet_go [OF s2 bench_step.count_warm] s2 have s3: "quiet ?c ?s3 Drain True 0" by (simp add: quiet_def)
  let ?s4 = "?s3\<lparr>st_queue := reset_times (st_queue ?s3), st_pc := Loop, st_warm := False, st_exec := 0\<rparr>"
  from quiet_go [OF s3 bench_step.drain_warm [where t = 0, OF _ _ quiet_drained(1) [OF s3 c(2)] _ quiet_drained(2) [OF s3 c(2)]]] s2
  have s4: "quiet ?c ?s4 Loop False 0" by (simp add: quiet_def reset_times_def)
  have "quiet ?c (?s4\<lparr>st_pc := Fetch\<rparr>) Fetch False 0"
    using quiet_go [OF s4 bench_step.loop_more] s4 c(4) by (simp add: quiet_def)
  from quiet_fetch [OF this c(2,3)] obtain s5 :: "nat bench_state" and j where "quiet ?c s5 (Held j) False 0" by blast
  from quiet_infer [OF this c(2)] obtain s6 :: "nat bench_state" where s6: "quiet ?c s6 Launched False 0" by blast
  obtain s7 :: "nat bench_state" where s7: "quiet ?c s7 Loop False 1" "st_exec s7 = 0"
    using quiet_go [OF s6 bench_step.count_loop [where t = 0]] s6 by (fastforce simp: quiet_def)
  have s8: "quiet ?c (s7\<lparr>st_pc := Drain\<rparr>) Drain False 1"
    using quiet_go [OF s7(1) bench_step.loop_done] s7 c(5) by (simp add: quiet_def)
  from quiet_go [OF s8 bench_step.drain_done [OF _ _ quiet_drained(1) [OF s8 c(2)]]] s8
  show ?thesis by (auto simp: quiet_def)
qed

theorem bench_requests_exclusive_witness:
  "\<exists>s :: nat bench_state. \<exists>i. st_pc s = Held i \<and> i \<notin> set (iq_idleIds (st_queue s)) \<and> i \<notin> st_run s"
proof -
  obtain s :: "nat bench_state" and i where s: "quiet (demo_bench False) s (Held i) True 0" using demo_held by blast
  then have "bench_reachable (demo_bench False) s" by (rule quiet_reachable)
  from bench_requests_exclusive [OF this] s show ?thesis by (auto simp: quiet_def demo_bench_def)
qed

theorem bench_never_stuck_witness: "\<exists>s' :: nat bench_state. bench_step (demo_bench False) (bench_init (demo_bench False)) s'"
  using bench_never_stuck [OF bench_reachable.start, of "demo_bench False"] by (simp add: demo_bench_def bench_init_def)

theorem bench_run_ends_witness:
  "\<not> (\<exists>s :: nat bench_state. (bench_step (demo_bench False) ^^ 39) (bench_init (demo_bench False)) s)"
  using bench_run_ends [of 39 "demo_bench False"] by (auto simp: demo_bench_def bench_target_def)

end
