(* ===== verification/Std_Sort.thy ===== *)
theory Std_Sort
  imports Main "HOL-Library.Multiset"
begin

text \<open>
  \<open>std::sort\<close>: a permutation ordered by the comparator it is given. The order of elements that the
  comparator does not tell apart is not specified by the library; here they keep their order, and
  the lemmas do not speak of it.
\<close>

fun insert_by :: "('a \<Rightarrow> 'a \<Rightarrow> bool) \<Rightarrow> 'a \<Rightarrow> 'a list \<Rightarrow> 'a list" where
  "insert_by lt x [] = [x]"
| "insert_by lt x (y # ys) = (if lt y x then y # insert_by lt x ys else x # y # ys)"

definition sort_by :: "('a \<Rightarrow> 'a \<Rightarrow> bool) \<Rightarrow> 'a list \<Rightarrow> 'a list" where
  "sort_by lt xs = foldr (insert_by lt) xs []"

lemma mset_insert_by [simp]: "mset (insert_by lt x ys) = add_mset x (mset ys)"
  by (induction ys) auto

lemma mset_sort_by [simp]: "mset (sort_by lt xs) = mset xs"
  by (induction xs) (simp_all add: sort_by_def)

lemma set_sort_by [simp]: "set (sort_by lt xs) = set xs"
  by (metis mset_sort_by set_mset_mset)

lemma length_sort_by [simp]: "length (sort_by lt xs) = length xs"
  by (metis mset_sort_by size_mset)

lemma sort_by_Nil [simp]: "sort_by lt xs = [] \<longleftrightarrow> xs = []"
  by (metis length_0_conv length_sort_by)

text \<open>What the library asks of a comparator.\<close>

locale strict_weak_order =
  fixes lt :: "'a \<Rightarrow> 'a \<Rightarrow> bool"
  assumes irrefl: "\<not> lt x x"
    and trans: "lt x y \<Longrightarrow> lt y z \<Longrightarrow> lt x z"
    and incomparable_trans: "\<not> lt x y \<Longrightarrow> \<not> lt y z \<Longrightarrow> \<not> lt x z"
begin

lemma asym: "lt x y \<Longrightarrow> \<not> lt y x"
  using irrefl trans by blast

lemma insert_by_sorted:
  "sorted_wrt (\<lambda>x y. \<not> lt y x) ys \<Longrightarrow> sorted_wrt (\<lambda>x y. \<not> lt y x) (insert_by lt x ys)"
proof (induction ys)
  case Nil
  then show ?case by simp
next
  case (Cons y ys)
  show ?case
  proof (cases "lt y x")
    case True
    have "set (insert_by lt x ys) = insert x (set ys)"
      by (metis mset_insert_by set_mset_add_mset_insert set_mset_mset)
    then show ?thesis using Cons True asym by auto
  next
    case False
    then show ?thesis using Cons.prems incomparable_trans by auto
  qed
qed

lemma sort_by_sorted: "sorted_wrt (\<lambda>x y. \<not> lt y x) (sort_by lt xs)"
  by (induction xs) (simp_all add: sort_by_def insert_by_sorted)

lemma sort_by_nth: "i \<le> j \<Longrightarrow> j < length xs \<Longrightarrow> \<not> lt (sort_by lt xs ! j) (sort_by lt xs ! i)"
  using sorted_wrt_nth_less [OF sort_by_sorted, of i j xs] irrefl by (cases "i = j") auto

lemma sort_by_first: "x \<in> set xs \<Longrightarrow> \<not> lt x (sort_by lt xs ! 0)"
  using sort_by_nth [of 0] by (metis in_set_conv_nth length_sort_by set_sort_by zero_le)

lemma sort_by_last: "x \<in> set xs \<Longrightarrow> \<not> lt (sort_by lt xs ! (length xs - 1)) x"
  using sort_by_nth [of _ "length xs - 1" xs]
  by (metis One_nat_def Suc_pred in_set_conv_nth length_pos_if_in_set length_sort_by less_Suc_eq_le less_Suc_eq set_sort_by lessI)

text \<open>An element of the sorted list has its rank.\<close>

lemma sort_by_below:
  assumes "i < length xs"
  shows "length (filter (\<lambda>x. lt x (sort_by lt xs ! i)) xs) \<le> i"
proof -
  let ?s = "sort_by lt xs" and ?P = "\<lambda>x. lt x (sort_by lt xs ! i)"
  have none: "filter ?P (drop i ?s) = []"
    using sort_by_nth [of i] assms by (auto simp: filter_empty_conv in_set_conv_nth)
  have "length (filter ?P xs) = length (filter ?P ?s)" by (metis mset_filter mset_sort_by size_mset)
  also have "\<dots> = length (filter ?P (take i ?s)) + length (filter ?P (drop i ?s))"
    by (metis append_take_drop_id filter_append length_append)
  also have "\<dots> \<le> length (take i ?s)" by (simp only: none list.size add_0_right length_filter_le)
  also have "\<dots> \<le> i" by simp
  finally show ?thesis .
qed

lemma sort_by_above:
  assumes "i < length xs"
  shows "length (filter (\<lambda>x. lt (sort_by lt xs ! i) x) xs) \<le> length xs - Suc i"
proof -
  let ?s = "sort_by lt xs" and ?P = "\<lambda>x. lt (sort_by lt xs ! i) x"
  have none: "filter ?P (take (Suc i) ?s) = []"
    using sort_by_nth [of _ i xs] assms by (auto simp: filter_empty_conv in_set_conv_nth less_Suc_eq_le)
  have "length (filter ?P xs) = length (filter ?P ?s)" by (metis mset_filter mset_sort_by size_mset)
  also have "\<dots> = length (filter ?P (take (Suc i) ?s)) + length (filter ?P (drop (Suc i) ?s))"
    by (metis append_take_drop_id filter_append length_append)
  also have "\<dots> \<le> length (drop (Suc i) ?s)" by (simp only: none list.size add_0 length_filter_le)
  also have "\<dots> = length xs - Suc i" by simp
  finally show ?thesis .
qed

end

end
