(* ===== verification/Float_Order.thy ===== *)
theory Float_Order
  imports Float_Rounding Std_Sort
begin

text \<open>Comparison and division of floating-point numbers, and the order of their values.\<close>

definition fless :: "flt \<Rightarrow> flt \<Rightarrow> bool" where
  "fless x y \<longleftrightarrow> fst (fexact_add x (fneg y)) < 0"

lemma fless_val: "fless x y \<longleftrightarrow> fval x < fval y"
proof -
  have "fval (fexact_add x (fneg y)) = fval x - fval y" by (simp add: fval_add)
  moreover have "fval z < 0 \<longleftrightarrow> fst z < 0" for z
    using powi_two_pos [of "snd z"] not_less_iff_gr_or_eq [of "2 powi snd z" "0 :: real"]
    by (auto simp: fval_def mult_less_0_iff)
  ultimately show ?thesis by (metis fless_def diff_less_0_iff_less)
qed

interpretation flt_order: strict_weak_order fless
  by unfold_locales (auto simp: fless_val)

text \<open>Division by a number other than zero, rounded once to \<open>p\<close> bits.\<close>

definition fdiv :: "nat \<Rightarrow> flt \<Rightarrow> flt \<Rightarrow> flt" where
  "fdiv p x y =
     (let n = nat \<bar>fst x\<bar>; d = nat \<bar>fst y\<bar>; q = fliteral p n d
      in (sgn (fst x) * sgn (fst y) * fst q, snd q + snd x - snd y))"

lemma fdiv_error:
  assumes "fst y \<noteq> 0"
  shows "\<bar>fval (fdiv p x y) - fval x / fval y\<bar> \<le> \<bar>fval x / fval y\<bar> / 2 ^ p"
proof (cases "fst x = 0")
  case True
  then show ?thesis by (simp add: fdiv_def fval_def Let_def)
next
  case False
  define n where "n = nat \<bar>fst x\<bar>"
  define d where "d = nat \<bar>fst y\<bar>"
  define q where "q = fliteral p n d"
  define s where "s = real_of_int (sgn (fst x) * sgn (fst y))"
  define k where "k = (2 :: real) powi (snd x - snd y)"
  have k: "0 < k" unfolding k_def by (rule powi_two_pos)
  have s: "\<bar>s\<bar> = 1" using False assms by (simp add: s_def abs_mult sgn_if)
  have nd: "0 < n" "0 < d" using False assms by (simp_all add: n_def d_def)
  have val: "fval (fdiv p x y) = s * k * fval q"
    by (simp add: fdiv_def Let_def fval_def n_def [symmetric] d_def [symmetric] q_def [symmetric] s_def k_def
        power_int_add power_int_diff)
  have "real_of_int (fst x) = of_int (sgn (fst x)) * of_nat n" "real_of_int (fst y) = of_int (sgn (fst y)) * of_nat d"
    by (simp_all add: n_def d_def sgn_if)
  then have quot: "fval x / fval y = s * k * (of_nat n / of_nat d)"
    using assms by (simp add: fval_def s_def k_def power_int_diff sgn_if mult.commute)
  have "\<bar>fval (fdiv p x y) - fval x / fval y\<bar> = \<bar>s\<bar> * k * \<bar>fval q - of_nat n / of_nat d\<bar>"
  proof -
    have "s * k * fval q - s * k * (of_nat n / of_nat d) = s * k * (fval q - of_nat n / of_nat d)"
      by (simp only: right_diff_distrib)
    then show ?thesis using k unfolding val quot by (simp only: abs_mult abs_of_pos)
  qed
  also have "\<dots> \<le> \<bar>s\<bar> * k * (of_nat n / of_nat d / 2 ^ p)"
    using fliteral_error [OF nd, of p] k s unfolding q_def by (intro mult_left_mono) simp_all
  also have "\<dots> = \<bar>fval x / fval y\<bar> / 2 ^ p" using k unfolding quot by (simp add: abs_mult)
  finally show ?thesis .
qed

text \<open>One rounding of a number that is not negative.\<close>

lemma fround_between:
  assumes "0 \<le> fval x" "1 \<le> p"
  shows "(1 - 1 / 2 ^ p) * fval x \<le> fval (fround p x)" "fval (fround p x) \<le> (1 + 1 / 2 ^ p) * fval x"
    "0 \<le> fval (fround p x)"
proof -
  have e: "\<bar>fval (fround p x) - fval x\<bar> \<le> fval x / 2 ^ p" using fround_error [of p x] assms(1) by simp
  then show l: "(1 - 1 / 2 ^ p) * fval x \<le> fval (fround p x)" "fval (fround p x) \<le> (1 + 1 / 2 ^ p) * fval x"
    by (auto simp: algebra_simps)
  have "0 \<le> (1 - 1 / 2 ^ p) * fval x" using assms by (intro mult_nonneg_nonneg) (auto simp: one_le_power)
  then show "0 \<le> fval (fround p x)" using l(1) by linarith
qed

lemma fmul_between:
  assumes "0 \<le> fval x" "0 \<le> fval y" "1 \<le> p"
  shows "(1 - 1 / 2 ^ p) * (fval x * fval y) \<le> fval (fmul p x y)" "fval (fmul p x y) \<le> (1 + 1 / 2 ^ p) * (fval x * fval y)"
    "0 \<le> fval (fmul p x y)"
  using fround_between [of "fexact_mul x y" p] assms by (simp_all add: fmul_def fval_mul)

lemma fadd_between:
  assumes "0 \<le> fval x" "0 \<le> fval y" "1 \<le> p"
  shows "(1 - 1 / 2 ^ p) * (fval x + fval y) \<le> fval (fadd p x y)" "fval (fadd p x y) \<le> (1 + 1 / 2 ^ p) * (fval x + fval y)"
    "0 \<le> fval (fadd p x y)"
  using fround_between [of "fexact_add x y" p] assms by (simp_all add: fadd_def fval_add)

lemma fdiv_between:
  assumes "0 \<le> fval x" "0 < fval y" "1 \<le> p"
  shows "(1 - 1 / 2 ^ p) * (fval x / fval y) \<le> fval (fdiv p x y)" "fval (fdiv p x y) \<le> (1 + 1 / 2 ^ p) * (fval x / fval y)"
    "0 \<le> fval (fdiv p x y)"
proof -
  have y: "fst y \<noteq> 0" using assms(2) by (auto simp: fval_def)
  have q: "0 \<le> fval x / fval y" using assms by simp
  have e: "\<bar>fval (fdiv p x y) - fval x / fval y\<bar> \<le> fval x / fval y / 2 ^ p"
    using fdiv_error [OF y, of p x] by (simp only: abs_of_nonneg [OF q])
  then show l: "(1 - 1 / 2 ^ p) * (fval x / fval y) \<le> fval (fdiv p x y)" "fval (fdiv p x y) \<le> (1 + 1 / 2 ^ p) * (fval x / fval y)"
    by (auto simp: algebra_simps abs_le_iff)
  have "0 \<le> (1 - 1 / 2 ^ p) * (fval x / fval y)" using assms q by (intro mult_nonneg_nonneg) (auto simp: one_le_power)
  then show "0 \<le> fval (fdiv p x y)" using l(1) by linarith
qed

text \<open>Numbers that fit are not rounded.\<close>

lemma nbits_bound: "n < 2 ^ p \<Longrightarrow> nbits n \<le> p"
proof (rule ccontr)
  assume n: "n < 2 ^ p" "\<not> nbits n \<le> p"
  then have "0 < n" by (cases "n = 0") (auto simp: nbits.simps)
  from nbits_lower [OF this] have "(2 :: nat) ^ nbits n \<le> 2 * n" .
  moreover have "(2 :: nat) ^ Suc p \<le> 2 ^ nbits n" using n(2) by (intro power_increasing) auto
  ultimately show False using n(1) by simp
qed

lemma fround_int: "\<bar>i\<bar> < 2 ^ p \<Longrightarrow> fround p (fof_int i) = fof_int i"
proof -
  assume "\<bar>i\<bar> < 2 ^ p"
  then have "nat \<bar>i\<bar> < 2 ^ p" by (simp add: nat_less_iff)
  from nbits_bound [OF this] show ?thesis by (simp add: fround_def fof_int_def)
qed

text \<open>Evaluation on numerals.\<close>

lemma nbits_numeral [simp]:
  "nbits 0 = 0" "nbits (Suc 0) = 1" "nbits 1 = 1"
  "nbits (numeral (Num.Bit0 n)) = Suc (nbits (numeral n))"
  "nbits (numeral (Num.Bit1 n)) = Suc (nbits (numeral n))"
proof -
  have z: "nbits 0 = 0" by (subst nbits.simps) simp
  then show "nbits 0 = 0" .
  show "nbits (Suc 0) = 1" "nbits 1 = 1" by (subst nbits.simps, simp add: z)+
  show "nbits (numeral (Num.Bit0 n)) = Suc (nbits (numeral n))" by (subst nbits.simps) simp
  show "nbits (numeral (Num.Bit1 n)) = Suc (nbits (numeral n))" by (subst nbits.simps) simp
qed

lemmas feval = fdiv_def fliteral_def fmul_def fadd_def fround_def fof_int_def round_div_def fexact_mul_def fexact_add_def ftrunc_def Let_def

end
