(* ===== verification/Bench_Metrics.thy ===== *)
theory Bench_Metrics
  imports Bench_Props Float_Order Sample_Formats
begin

text \<open>
  The latencies of a run: \<open>LatencyMetrics\<close> (\<open>latency_metrics.hpp\<close> and \<open>.cpp\<close>) and the part of
  \<open>main.cpp\<close> that applies it to the queue, together with the alignment of the number of iterations.
  A result is \<open>None\<close> where the code's behaviour is undefined (an index beyond a vector).
\<close>

section \<open>LatencyMetrics\<close>

record LatencyMetrics =
  median_or_percentile :: flt
  lm_avg :: flt
  lm_min :: flt
  lm_max :: flt
  lm_data_shape :: string
  percentile_boundary :: nat

definition fzero :: flt where
  "fzero = (0, 0)"

definition double_of :: "nat \<Rightarrow> flt" where
  "double_of n = fround 53 (fof_int (int n))"

text \<open>\<open>size_t(latencies.size() / 100.0 * percentile_boundary)\<close>\<close>

definition percentile_index :: "nat \<Rightarrow> nat \<Rightarrow> nat" where
  "percentile_index n percentile = nat (ftrunc (fmul 53 (fdiv 53 (double_of n) (fof_int 100)) (double_of percentile)))"

definition fill_data :: "flt list \<Rightarrow> nat \<Rightarrow> LatencyMetrics \<Rightarrow> LatencyMetrics outcome" where
  "fill_data latencies percentile lm =
     (if latencies = [] then throw ''Latency metrics class expects non-empty vector of latencies at consturction.''
      else
        let latencies = sort_by fless latencies;
            sum = foldl (fadd 53) fzero latencies
        in map_option (\<lambda>m. Inr (lm\<lparr>lm_min := latencies ! 0, lm_avg := fdiv 53 sum (double_of (length latencies)),
                                     median_or_percentile := m, lm_max := last latencies\<rparr>))
             (arr_get latencies (percentile_index (length latencies) percentile)))"

definition new_metrics :: "flt list \<Rightarrow> string \<Rightarrow> nat \<Rightarrow> LatencyMetrics outcome" where
  "new_metrics latencies shape percentile =
     fill_data latencies percentile
       \<lparr>median_or_percentile = fzero, lm_avg = fzero, lm_min = fzero, lm_max = fzero, lm_data_shape = shape,
        percentile_boundary = percentile\<rparr>"

text \<open>The range of percentiles that \<open>parse_and_check_command_line\<close> lets through.\<close>

definition percentile_accepted :: "nat \<Rightarrow> bool" where
  "percentile_accepted percentile \<longleftrightarrow> \<not> (percentile > 100 \<or> percentile < 1)"

lemma fval_double: "n < 2 ^ 53 \<Longrightarrow> fval (double_of n) = of_nat n"
  by (simp add: double_of_def fround_int)

lemma ftrunc_bounds:
  assumes "0 \<le> fval x"
  shows "0 \<le> ftrunc x" "of_int (ftrunc x) \<le> fval x" "fval x < of_int (ftrunc x) + 1"
  using ftrunc_nonneg [OF assms] assms by linarith+

text \<open>The index is the rank of the percentile, or one below it where the product was rounded down.\<close>

lemma percentile_value:
  assumes "n \<le> 2 ^ 40" "percentile \<le> 100"
  defines "x \<equiv> fmul 53 (fdiv 53 (double_of n) (fof_int 100)) (double_of percentile)"
  shows "0 \<le> fval x" "\<bar>fval x - of_nat (n * percentile) / 100\<bar> \<le> 1 / 200"
proof -
  define M where "M = (of_nat (n * percentile) / 100 :: real)"
  have v: "fval (double_of n) = of_nat n" "fval (double_of percentile) = of_nat percentile"
    using assms by (auto intro!: fval_double)
  define q where "q = fdiv 53 (double_of n) (fof_int 100)"
  have q: "(1 - 1 / 2 ^ 53) * (of_nat n / 100) \<le> fval q" "fval q \<le> (1 + 1 / 2 ^ 53) * (of_nat n / 100)" "0 \<le> fval q"
    using fdiv_between [of "double_of n" "fof_int 100" 53] by (simp_all add: v q_def)
  have x: "(1 - 1 / 2 ^ 53) * (fval q * of_nat percentile) \<le> fval x"
      "fval x \<le> (1 + 1 / 2 ^ 53) * (fval q * of_nat percentile)" "0 \<le> fval x"
    using fmul_between [of q "double_of percentile" 53] q(3) by (simp_all add: v x_def q_def)
  then show "0 \<le> fval x" by simp
  have "M \<le> of_nat n" using assms(2) by (simp add: M_def field_simps mult_left_mono)
  also have "real n \<le> 2 ^ 40" using assms(1) by (metis of_nat_le_iff of_nat_numeral of_nat_power)
  finally have M: "0 \<le> M" "M \<le> 2 ^ 40" by (simp_all add: M_def)
  have "(1 - 1 / 2 ^ 53) * of_nat n / 100 * of_nat percentile \<le> fval q * of_nat percentile"
    using mult_right_mono [OF q(1), of "of_nat percentile"] by simp
  then have "(1 - 1 / 2 ^ 53) * M \<le> fval q * of_nat percentile" by (simp add: M_def)
  then have "(1 - 1 / 2 ^ 53) * ((1 - 1 / 2 ^ 53) * M) \<le> fval x"
    using x(1) mult_left_mono [of "(1 - 1 / 2 ^ 53) * M" "fval q * of_nat percentile" "1 - 1 / 2 ^ 53"] by simp
  moreover have "fval q * of_nat percentile \<le> (1 + 1 / 2 ^ 53) * M"
    using mult_right_mono [OF q(2), of "of_nat percentile"] by (simp add: M_def)
  then have "fval x \<le> (1 + 1 / 2 ^ 53) * ((1 + 1 / 2 ^ 53) * M)"
    using x(2) mult_left_mono [of "fval q * of_nat percentile" "(1 + 1 / 2 ^ 53) * M" "1 + 1 / 2 ^ 53"] by simp
  ultimately have "M - fval x \<le> 1 / 200" "fval x - M \<le> 1 / 200" using M by (simp_all add: field_simps)
  then show "\<bar>fval x - of_nat (n * percentile) / 100\<bar> \<le> 1 / 200"
    unfolding M_def [symmetric] by linarith
qed

lemma percentile_rank:
  assumes "n \<le> 2 ^ 40" "percentile \<le> 100"
  shows "percentile_index n percentile \<le> n * percentile div 100"
    "n * percentile div 100 \<le> percentile_index n percentile + 1"
proof -
  let ?x = "fmul 53 (fdiv 53 (double_of n) (fof_int 100)) (double_of percentile)"
  define k where "k = n * percentile div 100"
  have "n * percentile = 100 * k + n * percentile mod 100" by (simp add: k_def)
  moreover have "n * percentile mod 100 \<le> 99" using mod_less_divisor [of 100 "n * percentile"] by linarith
  ultimately have "100 * k \<le> n * percentile" "n * percentile \<le> 100 * k + 99" by linarith+
  then have "real (100 * k) \<le> real (n * percentile)" "real (n * percentile) \<le> real (100 * k + 99)"
    by (simp_all only: of_nat_le_iff)
  then have "100 * real k \<le> real (n * percentile)" "real (n * percentile) \<le> 100 * real k + 99"
    by (simp_all only: of_nat_mult of_nat_add of_nat_numeral)
  then have "fval ?x < real k + 1" "real k - 1 < fval ?x"
    using percentile_value(2) [OF assms] unfolding abs_le_iff by linarith+
  then have "real_of_int (ftrunc ?x) < of_int (int k) + 1" "of_int (int k) - 2 < real_of_int (ftrunc ?x)"
    using ftrunc_bounds [OF percentile_value(1) [OF assms]] unfolding of_int_of_nat_eq by linarith+
  then have "ftrunc ?x < int k + 1" "int k - 2 < ftrunc ?x" by linarith+
  then show "percentile_index n percentile \<le> n * percentile div 100"
    "n * percentile div 100 \<le> percentile_index n percentile + 1"
    unfolding percentile_index_def k_def [symmetric] by linarith+
qed

lemma percentile_in_range:
  assumes "0 < n" "n \<le> 2 ^ 40" "percentile \<le> 99"
  shows "percentile_index n percentile < n"
proof -
  have "n * percentile < n * 100" using assms by simp
  then have "n * percentile div 100 < n" by (simp add: less_mult_imp_div_less)
  then show ?thesis using percentile_rank(1) [of n percentile] assms by simp
qed

section \<open>The average\<close>

lemma sum_between:
  assumes "0 \<le> fval a" "\<forall>x \<in> set xs. 0 \<le> fval x"
  shows "(1 - 1 / 2 ^ 53) ^ length xs * (fval a + sum_list (map fval xs)) \<le> fval (foldl (fadd 53) a xs)
    \<and> fval (foldl (fadd 53) a xs) \<le> (1 + 1 / 2 ^ 53) ^ length xs * (fval a + sum_list (map fval xs))"
  using assms
proof (induction xs arbitrary: a)
  case Nil
  then show ?case by simp
next
  case (Cons x xs)
  let ?l = "1 - 1 / 2 ^ 53 :: real" and ?u = "1 + 1 / 2 ^ 53 :: real"
  have s: "0 \<le> sum_list (map fval xs)" using Cons.prems(2) by (auto intro!: sum_list_nonneg)
  have a: "?l * (fval a + fval x) \<le> fval (fadd 53 a x)" "fval (fadd 53 a x) \<le> ?u * (fval a + fval x)" "0 \<le> fval (fadd 53 a x)"
    using fadd_between [of a x 53] Cons.prems by simp_all
  have "?l * sum_list (map fval xs) \<le> 1 * sum_list (map fval xs)" "1 * sum_list (map fval xs) \<le> ?u * sum_list (map fval xs)"
    using s by (intro mult_right_mono; simp)+
  then have "?l * (fval a + fval x + sum_list (map fval xs)) \<le> fval (fadd 53 a x) + sum_list (map fval xs)"
      "fval (fadd 53 a x) + sum_list (map fval xs) \<le> ?u * (fval a + fval x + sum_list (map fval xs))"
    using a(1,2) unfolding distrib_left by linarith+
  then have "?l ^ length xs * (?l * (fval a + fval x + sum_list (map fval xs))) \<le> ?l ^ length xs * (fval (fadd 53 a x) + sum_list (map fval xs))"
      "?u ^ length xs * (fval (fadd 53 a x) + sum_list (map fval xs)) \<le> ?u ^ length xs * (?u * (fval a + fval x + sum_list (map fval xs)))"
    by (intro mult_left_mono; simp)+
  moreover have "?l ^ length (x # xs) * (fval a + sum_list (map fval (x # xs)))
      = ?l ^ length xs * (?l * (fval a + fval x + sum_list (map fval xs)))"
    "?u ^ length (x # xs) * (fval a + sum_list (map fval (x # xs)))
      = ?u ^ length xs * (?u * (fval a + fval x + sum_list (map fval xs)))"
    by (simp_all add: power_Suc2 add.assoc del: power_Suc)
  moreover have "foldl (fadd 53) a (x # xs) = foldl (fadd 53) (fadd 53 a x) xs" by simp
  moreover have "\<forall>y \<in> set xs. 0 \<le> fval y" using Cons.prems(2) by simp
  note ih = Cons.IH [OF a(3) this]
  ultimately show ?case using order_trans [OF _ conjunct1 [OF ih]] order_trans [OF conjunct2 [OF ih]] by presburger
qed

section \<open>What the metrics report\<close>

lemma fill_data_returns:
  assumes "latencies \<noteq> []" "length latencies \<le> 2 ^ 40" "percentile \<le> 99"
  shows "fill_data latencies percentile lm = ret (lm\<lparr>lm_min := sort_by fless latencies ! 0,
      lm_avg := fdiv 53 (foldl (fadd 53) fzero (sort_by fless latencies)) (double_of (length latencies)),
      median_or_percentile := sort_by fless latencies ! percentile_index (length latencies) percentile,
      lm_max := sort_by fless latencies ! (length latencies - 1)\<rparr>)"
  using assms percentile_in_range [of "length latencies" percentile]
  by (simp add: fill_data_def ret_def last_conv_nth Let_def)

lemma average_between:
  assumes "latencies \<noteq> []" "length latencies \<le> 2 ^ 40" "\<forall>x \<in> set latencies. 0 \<le> fval x"
  defines "avg \<equiv> fdiv 53 (foldl (fadd 53) fzero (sort_by fless latencies)) (double_of (length latencies))"
    and "mean \<equiv> sum_list (map fval latencies) / of_nat (length latencies)"
  shows "(1 - 1 / 2 ^ 53) ^ (length latencies + 1) * mean \<le> fval avg"
    "fval avg \<le> (1 + 1 / 2 ^ 53) ^ (length latencies + 1) * mean"
proof -
  define n where "n = real (length latencies)"
  define s where "s = foldl (fadd 53) fzero (sort_by fless latencies)"
  define S where "S = sum_list (map fval latencies)"
  let ?l = "1 - 1 / 2 ^ 53 :: real" and ?u = "1 + 1 / 2 ^ 53 :: real"
  have S: "sum_list (map fval (sort_by fless latencies)) = S"
    unfolding S_def sum_mset_sum_list [symmetric] by simp
  have n: "0 < n" "fval (double_of (length latencies)) = n"
    using assms(1,2) by (auto simp: n_def intro!: fval_double)
  have sum: "?l ^ length latencies * S \<le> fval s" "fval s \<le> ?u ^ length latencies * S"
    using sum_between [of fzero "sort_by fless latencies"] assms(3) by (simp_all add: S s_def fzero_def fval_def)
  have "0 \<le> S" using assms(3) by (auto simp: S_def intro!: sum_list_nonneg)
  then have "0 \<le> ?l ^ length latencies * S" by (intro mult_nonneg_nonneg) simp_all
  then have "0 \<le> fval s" using sum(1) by linarith
  then have avg: "?l * (fval s / n) \<le> fval avg" "fval avg \<le> ?u * (fval s / n)"
    using fdiv_between [of s "double_of (length latencies)" 53] n by (simp_all add: avg_def s_def)
  have "?l ^ length latencies * S / n \<le> fval s / n" "fval s / n \<le> ?u ^ length latencies * S / n"
    using sum n(1) by (intro divide_right_mono; simp)+
  then have "?l * (?l ^ length latencies * S / n) \<le> ?l * (fval s / n)" "?u * (fval s / n) \<le> ?u * (?u ^ length latencies * S / n)"
    by (intro mult_left_mono; simp)+
  then have "?l * (?l ^ length latencies * S / n) \<le> fval avg" "fval avg \<le> ?u * (?u ^ length latencies * S / n)"
    using avg by linarith+
  then show "?l ^ (length latencies + 1) * mean \<le> fval avg" "fval avg \<le> ?u ^ (length latencies + 1) * mean"
    by (simp_all add: mean_def S_def n_def)
qed

text \<open>
  C28: For percentiles below 100 the metrics of latencies that are not negative are what they are called:
  the least and the greatest latency; a latency that has at most \<open>n * p / 100\<close> latencies below it and at most the
  others above it; and the mean, with one relative rounding error for each addition and the division.
\<close>

theorem latency_metrics_correct:
  assumes "latencies \<noteq> []" "length latencies \<le> 2 ^ 40" "percentile \<le> 99" "\<forall>x \<in> set latencies. 0 \<le> fval x"
  shows "\<exists>m. new_metrics latencies data_shape percentile = ret m
    \<and> lm_min m \<in> set latencies \<and> (\<forall>x \<in> set latencies. fval (lm_min m) \<le> fval x)
    \<and> lm_max m \<in> set latencies \<and> (\<forall>x \<in> set latencies. fval x \<le> fval (lm_max m))
    \<and> median_or_percentile m \<in> set latencies
    \<and> length (filter (\<lambda>x. fval x < fval (median_or_percentile m)) latencies) \<le> length latencies * percentile div 100
    \<and> length (filter (\<lambda>x. fval (median_or_percentile m) < fval x) latencies)
        \<le> length latencies - length latencies * percentile div 100
    \<and> (1 - 1 / 2 ^ 53) ^ (length latencies + 1) * (sum_list (map fval latencies) / of_nat (length latencies)) \<le> fval (lm_avg m)
    \<and> fval (lm_avg m) \<le> (1 + 1 / 2 ^ 53) ^ (length latencies + 1) * (sum_list (map fval latencies) / of_nat (length latencies))"
proof -
  let ?s = "sort_by fless latencies" and ?i = "percentile_index (length latencies) percentile"
  have n: "0 < length latencies" using assms(1) by simp
  note i = percentile_in_range [OF n assms(2,3)] percentile_rank [of "length latencies" percentile]
  have elem: "j < length latencies \<Longrightarrow> ?s ! j \<in> set latencies" for j
    by (metis length_sort_by nth_mem set_sort_by)
  have below: "length (filter (\<lambda>x. fval x < fval (?s ! ?i)) latencies) \<le> length latencies * percentile div 100"
    using flt_order.sort_by_below [OF i(1)] i(2) assms(2,3) by (simp add: fless_val)
  have above: "length (filter (\<lambda>x. fval (?s ! ?i) < fval x) latencies)
      \<le> length latencies - length latencies * percentile div 100"
    using flt_order.sort_by_above [OF i(1)] i(3) assms(2,3) by (simp add: fless_val)
  show ?thesis
    using elem [of 0] elem [of "length latencies - 1"] elem [OF i(1)] n below above average_between [OF assms(1,2,4)]
      flt_order.sort_by_first [of _ latencies] flt_order.sort_by_last [of _ latencies]
    unfolding new_metrics_def fill_data_returns [OF assms(1-3)] by (auto simp: ret_def fless_val not_less)
qed

theorem latency_metrics_correct_witness:
  "\<exists>m. new_metrics [(3, 0), (1, 0), (2, 0)] ''1,3'' 50 = ret m \<and> fval (lm_min m) = 1 \<and> fval (lm_max m) = 3
     \<and> median_or_percentile m \<in> {(3, 0), (1, 0), (2, 0)}"
  using latency_metrics_correct [of "[(3, 0), (1, 0), (2, 0)]" 50 "''1,3''"]
  by (auto simp: fval_def)

lemma percentile_100_index:
  "percentile_index (Suc 0) 100 = 1" "percentile_index 2 100 = 2" "percentile_index 3 100 = 3"
  "percentile_index 4 100 = 4" "percentile_index 5 100 = 5"
  by (simp_all add: percentile_index_def double_of_def feval)

lemma percentile_100_small: "0 < n \<Longrightarrow> n \<le> 5 \<Longrightarrow> percentile_index n 100 = n"
proof -
  assume "0 < n" "n \<le> 5"
  then have "n = Suc 0 \<or> n = 2 \<or> n = 3 \<or> n = 4 \<or> n = 5" by presburger
  then show ?thesis using percentile_100_index by auto
qed

text \<open>
  The greatest percentile that the command line accepts reads beyond the latencies: with
  \<open>-latency_percentile 100\<close> the index is the number of latencies, here for runs of one to five inferences.
\<close>

theorem percentile_100_out_of_bounds:
  assumes "0 < length latencies" "length latencies \<le> 5"
  shows "percentile_accepted 100 \<and> new_metrics latencies data_shape 100 = None"
proof -
  have "percentile_index (length latencies) 100 = length latencies" by (rule percentile_100_small [OF assms])
  then show ?thesis using assms(1) by (auto simp: percentile_accepted_def new_metrics_def fill_data_def Let_def)
qed

theorem percentile_100_out_of_bounds_witness: "new_metrics [(5, 0)] ''1'' 100 = None"
  using percentile_100_out_of_bounds [of "[(5, 0)]" "''1''"] by simp

section \<open>The number of iterations\<close>

text \<open>Aligning the iterations in \<open>main\<close>: \<open>None\<close> is the division by a number of requests of zero.\<close>

definition align_niter :: "bool \<Rightarrow> u64 \<Rightarrow> u64 \<Rightarrow> u64 \<Rightarrow> u64 option" where
  "align_niter async nireq shape_groups_num niter =
     (if niter > 0 \<and> async
      then if shape_groups_num > nireq
           then Some ((niter + shape_groups_num - 1) div shape_groups_num * shape_groups_num)
           else if nireq = 0 then None
           else Some ((niter + nireq - 1) div nireq * nireq)
      else Some niter)"

lemma round_up_u64:
  fixes n k :: u64
  assumes "0 < k" "unat n + unat k < 18446744073709551616"
  shows "unat ((n + k - 1) div k * k) = (unat n + unat k - 1) div unat k * unat k"
proof -
  have k: "1 \<le> unat k" using assms(1) by (simp add: unat_gt_0 word_neq_0_conv Suc_le_eq)
  have "unat (n + k) = unat n + unat k" using assms(2) by (rule unat_add_u64)
  moreover from this have "(1 :: u64) \<le> n + k" using k by (simp add: word_le_nat_alt)
  then have "unat (n + k - 1) = unat (n + k) - 1" by (simp add: unat_diff_u64)
  ultimately have m: "unat (n + k - 1) = unat n + unat k - 1" by simp
  have d: "unat ((n + k - 1) div k) = (unat n + unat k - 1) div unat k" unfolding unat_div_u64 m ..
  have "(unat n + unat k - 1) div unat k * unat k \<le> unat n + unat k - 1" by simp
  then have "unat ((n + k - 1) div k) * unat k < 18446744073709551616" using assms(2) unfolding d by linarith
  then show ?thesis by (simp only: unat_mult_u64 d)
qed

text \<open>
  C27: A run of the asynchronous interface that is limited by a number of iterations aligned by \<open>main\<close> and
  finishes makes exactly the aligned number of iterations when there are no more input configurations than
  requests, and that is the requested number rounded up to a multiple of the requests.
\<close>

theorem aligned_run_exact:
  fixes s :: "'e bench_state"
  assumes "align_niter True nireq groups niter = Some aligned" "0 < niter" "0 < groups" "groups \<le> nireq"
    and "unat niter + unat nireq < 18446744073709551616"
    and "b_async c" "b_nireq c = unat nireq" "b_groups c = unat groups" "b_niter c = unat aligned" "b_duration c = 0"
    and "(bench_step c)\<^sup>*\<^sup>* (bench_init c) s" "st_pc s = Finished"
  shows "st_iter s = unat aligned
    \<and> unat niter \<le> st_iter s \<and> st_iter s < unat niter + unat nireq \<and> unat nireq dvd st_iter s"
proof -
  have r: "0 < nireq" using assms(3,4) by (metis word_gt_0 word_le_0_iff leD)
  then have c: "0 < b_nireq c" "0 < b_groups c"
    using assms(3,7,8) by (simp_all add: unat_gt_0 word_neq_0_conv)
  let ?t = "(unat niter + unat nireq - 1) div unat nireq * unat nireq"
  have al: "unat aligned = ?t"
    using assms(1,2,4) r round_up_u64 [OF r assms(5)] by (auto simp: align_niter_def not_less split: if_splits)
  note b = target_bounds [of "c\<lparr>b_niter := unat niter\<rparr>"]
  have t: "unat niter \<le> ?t" "unat nireq dvd ?t" using b c(1) assms(6,7) by (simp_all add: bench_target_def)
  have "bench_target c = unat aligned"
  proof (rule antisym)
    show "bench_target c \<le> unat aligned" using c(1) t(2) assms(7,9) by (intro target_least) (simp_all add: al)
    show "unat aligned \<le> bench_target c" using target_bounds(1) [OF c(1)] assms(9) by simp
  qed
  moreover have "?t < unat niter + unat nireq"
    using div_times_less_eq_dividend [of "unat niter + unat nireq - 1" "unat nireq"] c(1) assms(7) by linarith
  ultimately show ?thesis
    using run_iterations [OF assms(11) c(2,1) assms(10,12)] al t by auto
qed

theorem aligned_run_exact_witness:
  "align_niter True 1 1 1 = Some 1 \<and> (\<exists>s :: nat bench_state. st_pc s = Finished \<and> st_iter s = 1)"
proof -
  obtain s :: "nat bench_state" where s: "quiet (demo_bench True) s Finished False 1" using demo_finished by blast
  have a: "align_niter True 1 1 1 = Some 1" by (simp add: align_niter_def)
  have "(bench_step (demo_bench True))\<^sup>*\<^sup>* (bench_init (demo_bench True)) s" "st_pc s = Finished"
    using s by (simp_all add: quiet_def)
  from aligned_run_exact [OF a _ _ _ _ _ _ _ _ _ this] this(2) a show ?thesis
    by (auto simp: demo_bench_def)
qed

section \<open>The latencies that main reports\<close>

text \<open>The label of an input configuration: the name and the shape of each input, separated by commas.\<close>

definition data_shapes_string :: "(string \<times> string) list \<Rightarrow> string" where
  "data_shapes_string items =
     (let s = concat (map (\<lambda>(name, data_shape). name @ data_shape @ '','') items)
      in if s = [] then [] else take (length s - 1) s)"

fun group_latencies :: "flt list list \<Rightarrow> (string \<times> string) list list \<Rightarrow> nat \<Rightarrow> LatencyMetrics list outcome" where
  "group_latencies [] infos percentile = ret []"
| "group_latencies (lats # groups) [] percentile = None"
| "group_latencies (lats # groups) (info # infos) percentile =
     andthen (new_metrics lats (data_shapes_string info) percentile) (\<lambda>m.
     andthen (group_latencies groups infos percentile) (\<lambda>ms. ret (m # ms)))"

definition report_latencies ::
    "bench \<Rightarrow> (string \<times> string) list list \<Rightarrow> nat \<Rightarrow> 'e InferRequestsQueue \<Rightarrow> (LatencyMetrics \<times> LatencyMetrics list) outcome" where
  "report_latencies c app_inputs_info percentile q =
     andthen (new_metrics (iq_latencies q) [] percentile) (\<lambda>generalLatency.
       if b_pcseq c \<and> length app_inputs_info > 1
       then andthen (group_latencies (iq_latency_groups q) app_inputs_info percentile) (\<lambda>groupLatencies.
              ret (generalLatency, groupLatencies))
       else ret (generalLatency, []))"

lemma new_metrics_returns:
  "latencies \<noteq> [] \<Longrightarrow> length latencies \<le> 2 ^ 40 \<Longrightarrow> percentile \<le> 99 \<Longrightarrow>
   \<exists>m. new_metrics latencies data_shape percentile = ret m"
  unfolding new_metrics_def using fill_data_returns by blast

lemma new_metrics_empty: "new_metrics [] data_shape percentile
    = throw ''Latency metrics class expects non-empty vector of latencies at consturction.''"
  by (simp add: new_metrics_def fill_data_def)

lemma group_latencies_iff:
  assumes "length groups \<le> length infos" "\<forall>g \<in> set groups. length g \<le> 2 ^ 40" "percentile \<le> 99"
  shows "if [] \<in> set groups
    then group_latencies groups infos percentile = throw ''Latency metrics class expects non-empty vector of latencies at consturction.''
    else \<exists>ms. group_latencies groups infos percentile = ret ms"
  using assms
proof (induction groups infos percentile rule: group_latencies.induct)
  case (3 lats groups info infos percentile)
  show ?case
  proof (cases "lats = []")
    case False
    obtain m where "new_metrics lats (data_shapes_string info) percentile = ret m"
      using new_metrics_returns [OF False _ "3.prems"(3)] "3.prems"(2) by auto
    then show ?thesis using "3.IH" "3.prems" False by (auto simp: ret_def)
  qed (simp add: new_metrics_empty)
qed (simp_all add: ret_def)

lemma card_mod_pos:
  assumes "g < (n :: nat)"
  shows "card {k. k < l \<and> k mod n = g} = 0 \<longleftrightarrow> l \<le> g"
proof -
  have "l \<le> g" if "{k. k < l \<and> k mod n = g} = {}"
  proof (rule ccontr)
    assume "\<not> l \<le> g"
    then have "g \<in> {k. k < l \<and> k mod n = g}" using assms by simp
    then show False using that by blast
  qed
  moreover have "{k. k < l \<and> k mod n = g} = {}" if "l \<le> g"
  proof -
    have "k mod n \<noteq> g" if "k < l" for k
      using mod_less_eq_dividend [of k n] that \<open>l \<le> g\<close> by linarith
    then show ?thesis by blast
  qed
  ultimately show ?thesis by auto
qed

text \<open>
  C29: After a run that has finished, the latencies are reported (for a percentile below 100) unless latency
  groups are asked for with several input configurations and either the inputs are filled only once or there were
  fewer iterations than configurations: then a group is empty and the report ends in an exception.
\<close>

theorem report_latencies_iff:
  assumes "bench_reachable c s" "st_pc s = Finished" "0 < b_groups c" "length app_inputs_info = b_groups c"
    and "0 < st_iter s" "st_iter s \<le> 2 ^ 40" "percentile \<le> 99"
  shows "if b_pcseq c \<and> 1 < b_groups c \<and> (b_inferenceOnly c \<or> st_iter s < b_groups c)
    then report_latencies c app_inputs_info percentile (st_queue s)
         = throw ''Latency metrics class expects non-empty vector of latencies at consturction.''
    else \<exists>r. report_latencies c app_inputs_info percentile (st_queue s) = ret r"
proof -
  let ?q = "st_queue s"
  note fin = finished_counts [OF assms(1,3,2)]
  have len: "length (iq_latency_groups ?q) = b_groups c"
    using reachable_parts(1) [OF assms(1,3)] by (simp add: q_shape_def)
  have "length (iq_latencies ?q) = st_iter s" using fin by blast
  then have "iq_latencies ?q \<noteq> []" "length (iq_latencies ?q) \<le> 2 ^ 40" using assms(5,6) by auto
  from new_metrics_returns [OF this assms(7)]
  obtain m where m: "new_metrics (iq_latencies ?q) [] percentile = ret m" by blast
  have count: "length (iq_latency_groups ?q ! g) = card {k. k < st_iter s \<and> (if b_inferenceOnly c then 0 else k mod b_groups c) = g}"
    if "b_pcseq c" "g < b_groups c" for g using fin that by blast
  have bound: "card {k. k < st_iter s \<and> P k} \<le> st_iter s" for P
    using card_mono [of "{..<st_iter s}" "{k. k < st_iter s \<and> P k}"] by auto
  have "length (iq_latency_groups ?q ! g) \<le> 2 ^ 40" if "b_pcseq c" "g < b_groups c" for g
    unfolding count [OF that] using bound assms(6) by (rule order_trans)
  then have short: "\<forall>g \<in> set (iq_latency_groups ?q). length g \<le> 2 ^ 40" if "b_pcseq c"
    using that len by (fastforce simp: in_set_conv_nth)
  have zero: "iq_latency_groups ?q ! g = [] \<longleftrightarrow> (if b_inferenceOnly c then g \<noteq> 0 else st_iter s \<le> g)"
    if "b_pcseq c" "g < b_groups c" for g
  proof -
    have "iq_latency_groups ?q ! g = [] \<longleftrightarrow> length (iq_latency_groups ?q ! g) = 0" by (rule length_0_conv [symmetric])
    then show ?thesis
      unfolding count [OF that] using card_mod_pos [OF that(2), of "st_iter s"] assms(5) by auto
  qed
  have empty: "[] \<in> set (iq_latency_groups ?q) \<longleftrightarrow> b_inferenceOnly c \<or> st_iter s < b_groups c"
    if "b_pcseq c" "1 < b_groups c"
  proof -
    have "[] \<in> set (iq_latency_groups ?q) \<longleftrightarrow> (\<exists>g < b_groups c. iq_latency_groups ?q ! g = [])"
      using len by (auto simp: in_set_conv_nth)
    also have "\<dots> \<longleftrightarrow> (\<exists>g < b_groups c. if b_inferenceOnly c then g \<noteq> 0 else st_iter s \<le> g)"
      using zero [OF that(1)] by blast
    also have "\<dots> \<longleftrightarrow> b_inferenceOnly c \<or> st_iter s < b_groups c"
      using that(2) by (auto intro: le_less_trans)
    finally show ?thesis .
  qed
  show ?thesis
    using group_latencies_iff [of "iq_latency_groups ?q" app_inputs_info percentile] short empty assms(4,7) len
    by (auto simp: report_latencies_def m ret_def split: if_splits)
qed

theorem report_latencies_iff_witness:
  "\<exists>s :: nat bench_state. \<exists>r. st_pc s = Finished \<and> report_latencies (demo_bench False) [[(''x'', ''[1,3]'')]] 50 (st_queue s) = ret r"
proof -
  obtain s :: "nat bench_state" where s: "quiet (demo_bench False) s Finished False 1" using demo_finished by blast
  have "bench_reachable (demo_bench False) s" "st_pc s = Finished" "st_iter s = 1"
    using s quiet_reachable [OF s] by (simp_all add: quiet_def)
  from report_latencies_iff [OF this(1,2), of "[[(''x'', ''[1,3]'')]]" 50] this(2,3) show ?thesis
    by (auto simp: demo_bench_def)
qed

end
