(* ===== verification/Bench_Report.thy ===== *)
theory Bench_Report
  imports Bench_Metrics Std_Text
begin

text \<open>
  The statistics report of \<open>benchmark_app\<close>: \<open>CsvDumper\<close> (\<open>samples/csv_dumper.hpp\<close>) and
  \<open>StatisticsReport\<close> (\<open>statistics_report.hpp\<close> and \<open>.cpp\<close>). A dumper carries the text written to its
  file; \<open>can_open\<close> says which files can be created. \<open>None\<close> is an overflow of the totals, an index
  beyond the status names, or the quotient of two zeros. The JSON report is not modelled.
\<close>

section \<open>Printing numbers\<close>

text \<open>A stream with \<open>std::fixed\<close> and a precision prints the nearest decimal.\<close>

definition fixed_units :: "nat \<Rightarrow> flt \<Rightarrow> nat" where
  "fixed_units p x = nat (round_div (\<bar>fst x\<bar> * 10 ^ p * 2 ^ nat (snd x)) (2 ^ nat (- snd x)))"

definition pad_digits :: "nat \<Rightarrow> nat \<Rightarrow> string" where
  "pad_digits p n = (let s = show_nat 10 n in replicate (p - length s) CHR ''0'' @ s)"

definition show_fixed :: "nat \<Rightarrow> flt \<Rightarrow> string" where
  "show_fixed p x =
     (let n = fixed_units p x
      in (if fst x < 0 then ''-'' else []) @ show_nat 10 (n div 10 ^ p)
         @ (if p = 0 then [] else CHR ''.'' # pad_digits p (n mod 10 ^ p)))"

section \<open>CsvDumper\<close>

record CsvDumper =
  canDump :: bool
  csv_filename :: string
  csv_out :: string
  csv_delimiter :: char

definition newCsvDumper :: "(string \<Rightarrow> bool) \<Rightarrow> bool \<Rightarrow> string \<Rightarrow> CsvDumper" where
  "newCsvDumper can_open enabled name =
     \<lparr>canDump = enabled \<and> can_open name, csv_filename = name, csv_out = [], csv_delimiter = CHR '';''\<rparr>"

definition csv_put :: "CsvDumper \<Rightarrow> string \<Rightarrow> CsvDumper" where
  "csv_put d s = (if canDump d then d\<lparr>csv_out := csv_out d @ s @ [csv_delimiter d]\<rparr> else d)"

definition endLine :: "CsvDumper \<Rightarrow> CsvDumper" where
  "endLine d = (if canDump d then d\<lparr>csv_out := csv_out d @ [CHR 0x0A]\<rparr> else d)"

section \<open>Values of the report\<close>

datatype StatisticsValue =
  SV_INT int | SV_DOUBLE flt | SV_STRING string | SV_ULONGLONG nat | SV_METRICS LatencyMetrics

record StatisticsVariant =
  sv_csv_name :: string
  sv_json_name :: string
  sv_value :: StatisticsValue

definition write_to_stream :: "LatencyMetrics \<Rightarrow> string" where
  "write_to_stream m = lm_data_shape m @ '';'' @ show_fixed 2 (median_or_percentile m) @ '';'' @ show_fixed 2 (lm_avg m)
     @ '';'' @ show_fixed 2 (lm_min m) @ '';'' @ show_fixed 2 (lm_max m)"

definition sv_to_string :: "StatisticsVariant \<Rightarrow> string" where
  "sv_to_string v =
     (case sv_value v of
        SV_INT i \<Rightarrow> show_int i
      | SV_DOUBLE x \<Rightarrow> show_fixed 6 x
      | SV_STRING s \<Rightarrow> s
      | SV_ULONGLONG n \<Rightarrow> show_nat 10 n
      | SV_METRICS m \<Rightarrow> write_to_stream m)"

definition is_metrics :: "StatisticsVariant \<Rightarrow> bool" where
  "is_metrics v \<longleftrightarrow> (case sv_value v of SV_METRICS _ \<Rightarrow> True | _ \<Rightarrow> False)"

section \<open>StatisticsReport\<close>

datatype Category = COMMAND_LINE_PARAMETERS | RUNTIME_CONFIG | EXECUTION_RESULTS | EXECUTION_RESULTS_GROUPPED

definition category_rank :: "Category \<Rightarrow> nat" where
  "category_rank c =
     (case c of COMMAND_LINE_PARAMETERS \<Rightarrow> 0 | RUNTIME_CONFIG \<Rightarrow> 1 | EXECUTION_RESULTS \<Rightarrow> 2 | EXECUTION_RESULTS_GROUPPED \<Rightarrow> 3)"

instantiation Category :: linorder
begin

definition less_eq_Category :: "Category \<Rightarrow> Category \<Rightarrow> bool" where
  "less_eq_Category a b \<longleftrightarrow> category_rank a \<le> category_rank b"

definition less_Category :: "Category \<Rightarrow> Category \<Rightarrow> bool" where
  "less_Category a b \<longleftrightarrow> category_rank a < category_rank b"

instance
  by intro_classes (auto simp: less_eq_Category_def less_Category_def category_rank_def split: Category.splits)

end

record ReportConfig =
  report_type :: string
  report_folder :: string

record StatisticsReport =
  sr_config :: ReportConfig
  sr_parameters :: "(Category \<times> StatisticsVariant list) list"
  sr_separator :: string

definition newStatisticsReport :: "ReportConfig \<Rightarrow> StatisticsReport" where
  "newStatisticsReport config =
     \<lparr>sr_config = config, sr_parameters = [], sr_separator = (if report_folder config = [] then [] else ''/'')\<rparr>"

definition add_parameters :: "Category \<Rightarrow> StatisticsVariant list \<Rightarrow> StatisticsReport \<Rightarrow> StatisticsReport" where
  "add_parameters category parameters r =
     r\<lparr>sr_parameters := map_assign category
         (case map_of (sr_parameters r) category of None \<Rightarrow> parameters | Some ps \<Rightarrow> ps @ parameters) (sr_parameters r)\<rparr>"

definition dump_parameter :: "CsvDumper \<Rightarrow> StatisticsVariant \<Rightarrow> CsvDumper" where
  "dump_parameter d p =
     endLine (csv_put (if is_metrics p then d else csv_put d (sv_csv_name p)) (sv_to_string p))"

definition dump_parameters :: "StatisticsVariant list \<Rightarrow> CsvDumper \<Rightarrow> CsvDumper" where
  "dump_parameters ps d = foldl dump_parameter d ps"

definition dump_section :: "StatisticsReport \<Rightarrow> Category \<Rightarrow> string list \<Rightarrow> CsvDumper \<Rightarrow> CsvDumper" where
  "dump_section r category titles d =
     (case map_of (sr_parameters r) category of
        None \<Rightarrow> d
      | Some ps \<Rightarrow> endLine (dump_parameters ps (foldl (\<lambda>d t. endLine (csv_put d t)) d titles)))"

text \<open>The file after \<open>dump\<close> and the name reported as stored.\<close>

definition dump_report :: "(string \<Rightarrow> bool) \<Rightarrow> StatisticsReport \<Rightarrow> CsvDumper \<times> string" where
  "dump_report can_open r =
     (let d = newCsvDumper can_open True (report_folder (sr_config r) @ sr_separator r @ ''benchmark_report.csv'');
          d = dump_section r COMMAND_LINE_PARAMETERS [''Command line parameters''] d;
          d = dump_section r RUNTIME_CONFIG [''Configuration setup''] d;
          d = dump_section r EXECUTION_RESULTS [''Execution results''] d;
          d = dump_section r EXECUTION_RESULTS_GROUPPED [''Group Latencies'', ''Data shape;Median;Average;Min;Max''] d
      in (d, csv_filename d))"

section \<open>Performance counters\<close>

text \<open>The status is the value of the enumeration, the times are in microseconds.\<close>

record ProfilingInfo =
  pi_status :: nat
  real_time :: int
  cpu_time :: int
  node_name :: string
  exec_type :: string
  node_type :: string

definition status_names :: "string list" where
  "status_names = [''NOT_RUN'', ''OPTIMIZED_OUT'', ''EXECUTED'']"

definition status_text :: "ProfilingInfo \<Rightarrow> string" where
  "status_text layer =
     (if pi_status layer < length status_names then status_names ! pi_status layer else ''INVALID_STATUS'')"

definition us_to_ms :: "int \<Rightarrow> string" where
  "us_to_ms t = show_fixed 3 (fdiv 53 (fround 53 (fof_int t)) (fof_int 1000))"

definition csv_cells :: "CsvDumper \<Rightarrow> string list \<Rightarrow> CsvDumper" where
  "csv_cells d cells = foldl csv_put d cells"

definition layer_cells :: "ProfilingInfo \<Rightarrow> string list" where
  "layer_cells layer = [node_name layer, status_text layer, node_type layer, exec_type layer,
     us_to_ms (real_time layer), us_to_ms (cpu_time layer)]"

fun request_rows :: "ProfilingInfo list \<Rightarrow> CsvDumper \<times> int \<times> int \<Rightarrow> (CsvDumper \<times> int \<times> int) option" where
  "request_rows [] st = Some st"
| "request_rows (layer # layers) (d, tot, total_cpu) = do {
     tot \<leftarrow> int64 (tot + real_time layer);
     total_cpu \<leftarrow> int64 (total_cpu + cpu_time layer);
     request_rows layers (endLine (csv_cells d (layer_cells layer)), tot, total_cpu)
   }"

definition dump_performance_counters_request :: "CsvDumper \<Rightarrow> ProfilingInfo list \<Rightarrow> CsvDumper option" where
  "dump_performance_counters_request d perfCounts = do {
     (d, tot, total_cpu) \<leftarrow> request_rows perfCounts
        (endLine (csv_cells d [''layerName'', ''execStatus'', ''layerType'', ''execType'', ''realTime (ms)'', ''cpuTime (ms)'']), 0, 0);
     Some (endLine (endLine (csv_cells d [''Total'', [], [], [], us_to_ms tot, us_to_ms total_cpu])))
   }"

definition executed :: "ProfilingInfo \<Rightarrow> bool option" where
  "executed layer = map_option (\<lambda>s. s = ''EXECUTED'') (arr_get status_names (pi_status layer))"

fun executed_totals :: "ProfilingInfo list \<Rightarrow> int \<times> int \<Rightarrow> (int \<times> int) option" where
  "executed_totals [] t = Some t"
| "executed_totals (layer # layers) (tot, total_cpu) = do {
     e \<leftarrow> executed layer;
     if e then do {
       tot \<leftarrow> int64 (tot + real_time layer);
       total_cpu \<leftarrow> int64 (total_cpu + cpu_time layer);
       executed_totals layers (tot, total_cpu)
     } else executed_totals layers (tot, total_cpu)
   }"

definition sort_profiling_descend :: "ProfilingInfo \<Rightarrow> ProfilingInfo \<Rightarrow> bool" where
  "sort_profiling_descend profiling1 profiling2 \<longleftrightarrow> real_time profiling1 > real_time profiling2"

text \<open>\<open>(layer.real_time * 1.0 / tot) * 100\<close>; the quotient by a total of zero is not a number.\<close>

definition percent :: "int \<Rightarrow> int \<Rightarrow> flt option" where
  "percent t tot =
     (if tot = 0 then None
      else Some (fmul 53 (fdiv 53 (fround 53 (fof_int t)) (fround 53 (fof_int tot))) (fof_int 100)))"

fun sorted_rows :: "int \<Rightarrow> ProfilingInfo list \<Rightarrow> CsvDumper \<Rightarrow> CsvDumper option" where
  "sorted_rows tot [] d = Some d"
| "sorted_rows tot (layer # layers) d = do {
     e \<leftarrow> executed layer;
     if e then do {
       share \<leftarrow> percent (real_time layer) tot;
       sorted_rows tot layers (endLine (csv_put (csv_cells d (layer_cells layer)) (show_fixed 3 share)))
     } else sorted_rows tot layers d
   }"

definition dump_sort_performance_counters_request :: "CsvDumper \<Rightarrow> ProfilingInfo list \<Rightarrow> CsvDumper option" where
  "dump_sort_performance_counters_request d perfCounts = do {
     let d = endLine (csv_cells d [''layerName'', ''execStatus'', ''layerType'', ''execType'', ''realTime (ms)'', ''cpuTime (ms)'', '' %'']);
     (tot, total_cpu) \<leftarrow> executed_totals perfCounts (0, 0);
     d \<leftarrow> sorted_rows tot (sort_by sort_profiling_descend perfCounts) d;
     Some (endLine (endLine (csv_cells d [''Total'', [], [], [], us_to_ms tot, us_to_ms total_cpu, show_fixed 3 (fof_int 100)])))
   }"

fun add_counter :: "ProfilingInfo list \<Rightarrow> ProfilingInfo \<Rightarrow> ProfilingInfo list option" where
  "add_counter [] pm = Some [pm]"
| "add_counter (a # as) pm =
     (if node_name a = node_name pm then do {
        r \<leftarrow> int64 (real_time a + real_time pm);
        c \<leftarrow> int64 (cpu_time a + cpu_time pm);
        Some (a\<lparr>real_time := r, cpu_time := c\<rparr> # as)
      } else map_option (\<lambda>as. a # as) (add_counter as pm))"

fun add_counters :: "ProfilingInfo list \<Rightarrow> ProfilingInfo list \<Rightarrow> ProfilingInfo list option" where
  "add_counters avg [] = Some avg"
| "add_counters avg (pm # pms) = do { avg \<leftarrow> add_counter avg pm; add_counters avg pms }"

fun add_requests :: "ProfilingInfo list \<Rightarrow> ProfilingInfo list list \<Rightarrow> ProfilingInfo list option" where
  "add_requests avg [] = Some avg"
| "add_requests avg (pms # rs) = do { avg \<leftarrow> add_counters avg pms; add_requests avg rs }"

text \<open>The division of a signed count by a positive one truncates.\<close>

definition truncated_div :: "int \<Rightarrow> int \<Rightarrow> int" where
  "truncated_div a b = sgn a * (\<bar>a\<bar> div b)"

definition get_average_performance_counters :: "ProfilingInfo list list \<Rightarrow> ProfilingInfo list option" where
  "get_average_performance_counters perfCounts = do {
     avg \<leftarrow> add_requests [] perfCounts;
     Some (map (\<lambda>pm. pm\<lparr>real_time := truncated_div (real_time pm) (int (length perfCounts)),
                        cpu_time := truncated_div (cpu_time pm) (int (length perfCounts))\<rparr>) avg)
   }"

fun dump_each :: "(CsvDumper \<Rightarrow> ProfilingInfo list \<Rightarrow> CsvDumper option) \<Rightarrow> ProfilingInfo list list \<Rightarrow> CsvDumper \<Rightarrow> CsvDumper option" where
  "dump_each f [] d = Some d"
| "dump_each f (pc # pcs) d = do { d \<leftarrow> f d pc; dump_each f pcs d }"

text \<open>The file written, if any.\<close>

definition dump_performance_counters ::
    "(string \<Rightarrow> bool) \<Rightarrow> StatisticsReport \<Rightarrow> ProfilingInfo list list \<Rightarrow> (CsvDumper option) outcome" where
  "dump_performance_counters can_open r perfCounts =
     (let kind = report_type (sr_config r)
      in if kind = [] \<or> kind = ''no_counters'' then ret None
         else if perfCounts = [] then ret None
         else
           let d = newCsvDumper can_open True (report_folder (sr_config r) @ sr_separator r @ ''benchmark_'' @ kind @ ''_report.csv'')
           in if kind = ''detailed_counters''
              then map_option (\<lambda>d. Inr (Some d)) (dump_each dump_performance_counters_request perfCounts d)
              else if kind = ''average_counters''
              then do {
                avg \<leftarrow> get_average_performance_counters perfCounts;
                d \<leftarrow> dump_performance_counters_request d avg;
                Some (Inr (Some d))
              }
              else if kind = ''sort_detailed_counters''
              then map_option (\<lambda>d. Inr (Some d)) (dump_each dump_sort_performance_counters_request perfCounts d)
              else throw ''PM data can only be collected for average or detailed report types'')"

section \<open>Printed numbers\<close>

lemma fixed_units_error: "\<bar>of_nat (fixed_units p x) - \<bar>fval x\<bar> * 10 ^ p\<bar> \<le> (1 / 2 :: real)"
proof -
  define n where "n = \<bar>fst x\<bar> * 10 ^ p * 2 ^ nat (snd x)"
  define d where "d = (2 :: int) ^ nat (- snd x)"
  have d: "0 < d" and n: "0 \<le> n" by (simp_all add: d_def n_def)
  have "0 \<le> n div d" using n d by (simp add: pos_imp_zdiv_nonneg_iff)
  then have q: "0 \<le> round_div n d" by (simp add: round_div_def Let_def)
  have "\<bar>fval x\<bar> = of_int \<bar>fst x\<bar> * 2 ^ nat (snd x) / 2 ^ nat (- snd x)"
    by (cases "0 \<le> snd x") (simp_all add: fval_def abs_mult power_int_def field_simps)
  then have v: "\<bar>fval x\<bar> * 10 ^ p = of_int n / of_int d" by (simp add: n_def d_def)
  have "of_int (2 * \<bar>round_div n d * d - n\<bar>) \<le> (of_int d :: real)"
    using round_div_error [OF d, of n] by (simp only: of_int_le_iff)
  then have "2 * \<bar>of_int (round_div n d) * of_int d - of_int n\<bar> \<le> (of_int d :: real)" by simp
  moreover have "\<bar>of_int (round_div n d) * of_int d - of_int n\<bar> = \<bar>of_int (round_div n d) - of_int n / of_int d\<bar> * (of_int d :: real)"
    using d by (simp add: field_simps flip: abs_mult_pos)
  ultimately have "\<bar>of_int (round_div n d) - of_int n / of_int d\<bar> \<le> (1 / 2 :: real)"
    using d by (simp add: field_simps)
  then show ?thesis using q unfolding v fixed_units_def n_def [symmetric] d_def [symmetric] by simp
qed

definition is_decimal :: "char \<Rightarrow> bool" where
  "is_decimal c \<longleftrightarrow> is_digit 10 c \<or> c = CHR ''.'' \<or> c = CHR ''-''"

lemma show_nat_decimal: "\<forall>c \<in> set (show_nat 10 n). is_digit 10 c"
  using show_nat_digits [of 10 n] by simp

lemma zero_digit: "is_digit 10 CHR ''0''"
  by code_simp

lemma pad_digits_decimal: "\<forall>c \<in> set (pad_digits p n). is_digit 10 c"
  using show_nat_decimal [of n] zero_digit by (auto simp: pad_digits_def Let_def)

lemma show_fixed_decimal: "\<forall>c \<in> set (show_fixed p x). is_decimal c"
  using show_nat_decimal pad_digits_decimal by (auto simp: show_fixed_def Let_def is_decimal_def)

lemma read_digits_append:
  "read_digits 10 (s @ t) = read_digits 10 s * 10 ^ length t + read_digits 10 t"
proof (induction t rule: rev_induct)
  case (snoc c t)
  then show ?case by (simp add: read_digits_def algebra_simps flip: append_assoc)
qed (simp add: read_digits_def)

lemma show_nat_length: "0 < p \<Longrightarrow> n < 10 ^ p \<Longrightarrow> length (show_nat 10 n) \<le> p"
proof (induction p arbitrary: n)
  case (Suc p)
  show ?case
  proof (cases "n < 10")
    case True
    then show ?thesis by (subst show_nat.simps) simp
  next
    case False
    then have "0 < p" using Suc.prems(2) by (cases p) auto
    moreover have "n div 10 < 10 ^ p" using Suc.prems(2) by (simp add: less_mult_imp_div_less mult.commute)
    ultimately show ?thesis using Suc.IH [of "n div 10"] False by (subst show_nat.simps) simp
  qed
qed simp

lemma pad_digits_read:
  assumes "0 < p" "n < 10 ^ p"
  shows "length (pad_digits p n) = p" "read_digits 10 (pad_digits p n) = n"
proof -
  show "length (pad_digits p n) = p" using show_nat_length [OF assms] by (simp add: pad_digits_def Let_def)
  have "read_digits 10 (replicate k CHR ''0'') = 0" for k
  proof (induction k)
    case (Suc k)
    have "read_digits 10 ''0'' = 0" by code_simp
    then show ?case using read_digits_append [of "''0''" "replicate k CHR ''0''"] Suc by simp
  qed (simp add: read_digits_def)
  then show "read_digits 10 (pad_digits p n) = n"
    by (simp add: pad_digits_def Let_def read_digits_append read_show_nat)
qed

text \<open>
  A number printed with a fixed precision of at least one decimal, its digits read back, is the multiple of
  the last decimal's unit nearest to the number's magnitude, and a minus sign is printed for
  negative numbers only.
\<close>

theorem show_fixed_nearest:
  assumes "0 < p"
  shows "\<bar>of_nat (read_digits 10 (filter (is_digit 10) (show_fixed p x))) / 10 ^ p - \<bar>fval x\<bar>\<bar> \<le> (1 / 2 / 10 ^ p :: real)
    \<and> (hd (show_fixed p x) = CHR ''-'' \<longleftrightarrow> fval x < 0)"
proof -
  let ?u = "fixed_units p x"
  have sep: "\<not> is_digit 10 CHR ''.''" "\<not> is_digit 10 CHR ''-''" by code_simp+
  have "filter (is_digit 10) (show_fixed p x) = show_nat 10 (?u div 10 ^ p) @ pad_digits p (?u mod 10 ^ p)"
    using show_nat_decimal [of "?u div 10 ^ p"] pad_digits_decimal [of p "?u mod 10 ^ p"] sep assms
    by (simp add: show_fixed_def Let_def filter_id_conv)
  then have "read_digits 10 (filter (is_digit 10) (show_fixed p x)) = ?u"
    using pad_digits_read [OF assms, of "?u mod 10 ^ p"] div_mult_mod_eq [of ?u "10 ^ p"]
    by (simp only: read_digits_append read_show_nat) (simp add: read_show_nat)
  moreover have "\<bar>of_nat ?u / 10 ^ p - \<bar>fval x\<bar>\<bar> = \<bar>of_nat ?u - \<bar>fval x\<bar> * 10 ^ p\<bar> / (10 ^ p :: real)"
    by (simp add: field_simps abs_divide)
  moreover have "hd (show_fixed p x) = CHR ''-'' \<longleftrightarrow> fst x < 0"
  proof -
    obtain c cs where "show_nat 10 (?u div 10 ^ p) = c # cs" "is_digit 10 c"
      using show_nat_digits [of 10 "?u div 10 ^ p"] by (cases "show_nat 10 (?u div 10 ^ p)") auto
    then show ?thesis using sep(2) by (auto simp: show_fixed_def Let_def)
  qed
  moreover have "fval x < 0 \<longleftrightarrow> fst x < 0"
    using powi_two_pos [of "snd x"] not_less_iff_gr_or_eq [of "2 powi snd x" "0 :: real"]
    by (auto simp: fval_def mult_less_0_iff)
  ultimately show ?thesis
    using divide_right_mono [OF fixed_units_error [of p x], of "10 ^ p"] by simp
qed

theorem show_fixed_nearest_witness: "hd (show_fixed 3 (1, - 1)) \<noteq> CHR ''-''"
  using show_fixed_nearest [of 3 "(1, - 1)"] by (simp add: fval_def)

section \<open>Reading a report back\<close>

definition clean :: "string \<Rightarrow> bool" where
  "clean s \<longleftrightarrow> CHR '';'' \<notin> set s \<and> CHR 0x0A \<notin> set s"

definition csv_line :: "string list \<Rightarrow> string" where
  "csv_line cells = concat (map (\<lambda>c. c @ '';'') cells)"

definition csv_text :: "string list list \<Rightarrow> string" where
  "csv_text rows = concat (map (\<lambda>cells. csv_line cells @ [CHR 0x0A]) rows)"

lemma read_csv_line: "\<forall>c \<in> set cells. clean c \<Longrightarrow> getlines CHR '';'' (csv_line cells) = cells"
  by (induction cells) (simp_all add: csv_line_def clean_def getlines_split)

lemma read_csv_text:
  "\<forall>cells \<in> set rows. \<forall>c \<in> set cells. clean c \<Longrightarrow>
   map (getlines CHR '';'') (getlines CHR 0x0A (csv_text rows)) = rows"
proof (induction rows)
  case (Cons cells rows)
  have "CHR 0x0A \<notin> set (csv_line cells)" using Cons.prems by (auto simp: csv_line_def clean_def)
  then show ?case using Cons by (simp add: csv_text_def getlines_split read_csv_line)
qed (simp add: csv_text_def)

lemma decimal_clean: "\<forall>c \<in> set s. is_decimal c \<Longrightarrow> clean s"
proof -
  have "\<not> is_decimal CHR '';''" "\<not> is_decimal CHR 0x0A" by code_simp+
  then show "\<forall>c \<in> set s. is_decimal c \<Longrightarrow> clean s" by (auto simp: clean_def)
qed

lemma clean_numbers: "clean (show_fixed p x)" "clean (show_nat 10 n)" "clean (show_int i)"
proof -
  show n: "clean (show_nat 10 n)" for n
    using show_nat_decimal by (intro decimal_clean) (simp add: is_decimal_def)
  show "clean (show_fixed p x)" by (rule decimal_clean [OF show_fixed_decimal])
  show "clean (show_int i)" using n [of "nat i"] n [of "nat (- i)"] by (simp add: show_int_def clean_def)
qed

text \<open>A dumper that can write, with some rows written after the text it had.\<close>

definition csv_after :: "CsvDumper \<Rightarrow> string \<Rightarrow> CsvDumper" where
  "csv_after d s = d\<lparr>csv_out := csv_out d @ s\<rparr>"

lemma csv_after_simps [simp]:
  "canDump (csv_after d s) = canDump d" "csv_delimiter (csv_after d s) = csv_delimiter d"
  "csv_after (csv_after d s) t = csv_after d (s @ t)" "csv_out (csv_after d s) = csv_out d @ s"
  "csv_after d [] = d"
  by (simp_all add: csv_after_def)

definition writes :: "CsvDumper \<Rightarrow> bool" where
  "writes d \<longleftrightarrow> canDump d \<and> csv_delimiter d = CHR '';''"

lemma writes_after [simp]: "writes (csv_after d s) = writes d"
  by (simp add: writes_def)

lemma csv_put_writes: "writes d \<Longrightarrow> csv_put d s = csv_after d (s @ '';'')"
  by (simp add: csv_put_def csv_after_def writes_def)

lemma endLine_writes: "writes d \<Longrightarrow> endLine d = csv_after d [CHR 0x0A]"
  by (simp add: endLine_def csv_after_def writes_def)

lemma csv_cells_writes: "writes d \<Longrightarrow> csv_cells d cells = csv_after d (csv_line cells)"
  unfolding csv_cells_def by (induction cells arbitrary: d) (simp_all add: csv_line_def csv_put_writes)

lemma csv_row_writes: "writes d \<Longrightarrow> endLine (csv_cells d cells) = csv_after d (csv_text [cells])"
  by (simp add: csv_cells_writes endLine_writes csv_text_def)

text \<open>The rows of a parameter, of a section, and of the report of a series of additions.\<close>

definition parameter_row :: "StatisticsVariant \<Rightarrow> string list" where
  "parameter_row p =
     (case sv_value p of
        SV_METRICS m \<Rightarrow> [lm_data_shape m, show_fixed 2 (median_or_percentile m), show_fixed 2 (lm_avg m),
          show_fixed 2 (lm_min m), show_fixed 2 (lm_max m)]
      | _ \<Rightarrow> [sv_csv_name p, sv_to_string p])"

definition clean_parameter :: "StatisticsVariant \<Rightarrow> bool" where
  "clean_parameter p \<longleftrightarrow> clean (sv_csv_name p)
     \<and> (case sv_value p of SV_STRING s \<Rightarrow> clean s | SV_METRICS m \<Rightarrow> clean (lm_data_shape m) | _ \<Rightarrow> True)"

definition added :: "(Category \<times> StatisticsVariant list) list \<Rightarrow> Category \<Rightarrow> StatisticsVariant list" where
  "added adds c = concat (map snd (filter (\<lambda>a. fst a = c) adds))"

definition section_rows :: "(Category \<times> StatisticsVariant list) list \<Rightarrow> Category \<Rightarrow> string list list \<Rightarrow> string list list" where
  "section_rows adds c titles =
     (if c \<in> fst ` set adds then titles @ map parameter_row (added adds c) @ [[]] else [])"

definition report_rows :: "(Category \<times> StatisticsVariant list) list \<Rightarrow> string list list" where
  "report_rows adds =
     section_rows adds COMMAND_LINE_PARAMETERS [[''Command line parameters'']]
     @ section_rows adds RUNTIME_CONFIG [[''Configuration setup'']]
     @ section_rows adds EXECUTION_RESULTS [[''Execution results'']]
     @ section_rows adds EXECUTION_RESULTS_GROUPPED
         [[''Group Latencies''], [''Data shape'', ''Median'', ''Average'', ''Min'', ''Max'']]"

definition report_of :: "ReportConfig \<Rightarrow> (Category \<times> StatisticsVariant list) list \<Rightarrow> StatisticsReport" where
  "report_of config adds = foldl (\<lambda>r (c, ps). add_parameters c ps r) (newStatisticsReport config) adds"

lemma added_none: "c \<notin> fst ` set adds \<Longrightarrow> added adds c = []"
  by (induction adds) (auto simp: added_def)

lemma report_of_parameters:
  "map_of (sr_parameters (report_of config adds)) c = (if c \<in> fst ` set adds then Some (added adds c) else None)
   \<and> sr_config (report_of config adds) = config \<and> sr_separator (report_of config adds) = sr_separator (newStatisticsReport config)"
proof (induction adds rule: rev_induct)
  case (snoc a adds)
  obtain k ps where a: "a = (k, ps)" by (cases a)
  have "report_of config (adds @ [a]) = add_parameters k ps (report_of config adds)" by (simp add: report_of_def a)
  moreover have "added (adds @ [a]) c = added adds c @ (if c = k then ps else [])" by (simp add: added_def a)
  ultimately show ?case using snoc added_none [of c adds] by (auto simp: add_parameters_def map_of_assign a)
qed (simp add: report_of_def newStatisticsReport_def)

lemma dump_parameter_row: "writes d \<Longrightarrow> dump_parameter d p = csv_after d (csv_text [parameter_row p])"
  by (cases "sv_value p")
    (simp_all add: dump_parameter_def is_metrics_def parameter_row_def csv_put_writes endLine_writes csv_text_def
      csv_line_def sv_to_string_def write_to_stream_def)

lemma dump_parameters_rows: "writes d \<Longrightarrow> dump_parameters ps d = csv_after d (csv_text (map parameter_row ps))"
  unfolding dump_parameters_def
  by (induction ps arbitrary: d) (simp_all add: dump_parameter_row, simp_all add: csv_text_def)

lemma csv_text_append: "csv_text (xs @ ys) = csv_text xs @ csv_text ys"
  by (simp add: csv_text_def)

lemma dump_section_rows:
  assumes "writes d" "titles \<noteq> []" "csv_text (map (\<lambda>t. [t]) titles) = csv_text rows"
  shows "dump_section (report_of config adds) c titles d = csv_after d (csv_text (section_rows adds c rows))"
proof -
  have t: "foldl (\<lambda>d t. endLine (csv_put d t)) d ts = csv_after d (csv_text (map (\<lambda>t. [t]) ts))" for ts
    using assms(1)
    by (induction ts arbitrary: d) (simp_all add: csv_put_writes endLine_writes, simp_all add: csv_text_def csv_line_def)
  show ?thesis
    using assms(1) report_of_parameters [of config adds c]
    by (auto simp: dump_section_def section_rows_def t dump_parameters_rows endLine_writes csv_text_append assms(3))
       (simp_all add: csv_text_def csv_line_def)
qed

definition rows_clean :: "string list list \<Rightarrow> bool" where
  "rows_clean rows \<longleftrightarrow> (\<forall>cells \<in> set rows. \<forall>c \<in> set cells. clean c)"

lemma rows_clean_simps [simp]:
  "rows_clean []" "rows_clean (cells # rows) \<longleftrightarrow> (\<forall>c \<in> set cells. clean c) \<and> rows_clean rows"
  "rows_clean (rows @ rows') \<longleftrightarrow> rows_clean rows \<and> rows_clean rows'"
  by (auto simp: rows_clean_def)

lemma parameter_row_clean: "clean_parameter p \<Longrightarrow> \<forall>c \<in> set (parameter_row p). clean c"
  using clean_numbers by (auto simp: clean_parameter_def parameter_row_def sv_to_string_def split: StatisticsValue.splits)

lemma report_rows_clean:
  assumes "\<forall>(c, ps) \<in> set adds. \<forall>p \<in> set ps. clean_parameter p"
  shows "rows_clean (report_rows adds)"
proof -
  have "\<forall>p \<in> set (added adds c). clean_parameter p" for c using assms by (fastforce simp: added_def)
  then have "rows_clean (map parameter_row (added adds c))" for c
    using parameter_row_clean by (auto simp: rows_clean_def)
  then have "rows_clean (section_rows adds c titles)" if "rows_clean titles" for c titles
    using that by (simp add: section_rows_def)
  moreover have "clean ''Command line parameters''" "clean ''Configuration setup''" "clean ''Execution results''"
    "clean ''Group Latencies''" "clean ''Data shape''" "clean ''Median''" "clean ''Average''" "clean ''Min''" "clean ''Max''"
    by (simp_all add: clean_def)
  ultimately show ?thesis by (simp add: report_rows_def)
qed

lemma dump_name: "csv_filename (dump_section r c titles d) = csv_filename d"
proof -
  have s: "csv_filename (csv_put d s) = csv_filename d" "csv_filename (endLine d) = csv_filename d" for d s
    by (simp_all add: csv_put_def endLine_def)
  have p: "csv_filename (dump_parameters ps d) = csv_filename d" for ps d
    unfolding dump_parameters_def by (induction ps arbitrary: d) (simp_all add: dump_parameter_def s)
  have t: "csv_filename (foldl (\<lambda>d t. endLine (csv_put d t)) d ts) = csv_filename d" for ts d
    by (induction ts arbitrary: d) (simp_all add: s)
  show ?thesis by (simp add: dump_section_def s p t split: option.split)
qed

text \<open>
  C30: What is added to a report is what a reader of its file gets: if names, strings and shapes have no
  semicolon or line break and the file can be created, splitting the text into lines and the lines
  at semicolons gives, in the order of the categories, each category's titles and the parameters
  added to it, in the order they were added, and an empty line.
\<close>

theorem report_csv_roundtrip:
  assumes "\<forall>(c, ps) \<in> set adds. \<forall>p \<in> set ps. clean_parameter p"
    and "can_open (snd (dump_report can_open (report_of config adds)))"
  shows "map (getlines CHR '';'') (getlines CHR 0x0A (csv_out (fst (dump_report can_open (report_of config adds)))))
    = report_rows adds"
proof -
  let ?d = "newCsvDumper can_open True (report_folder config @ sr_separator (newStatisticsReport config) @ ''benchmark_report.csv'')"
  have w: "writes ?d"
    using assms(2) report_of_parameters [of config adds]
    by (simp add: writes_def newCsvDumper_def dump_report_def Let_def dump_name)
  have "fst (dump_report can_open (report_of config adds)) = csv_after ?d (csv_text (report_rows adds))"
  proof -
    have one: "dump_section (report_of config adds) c [s] d = csv_after d (csv_text (section_rows adds c [[s]]))"
      if "writes d" for c s d using that by (intro dump_section_rows) simp_all
    have grouped: "dump_section (report_of config adds) c [''Group Latencies'', ''Data shape;Median;Average;Min;Max''] d
        = csv_after d (csv_text (section_rows adds c
            [[''Group Latencies''], [''Data shape'', ''Median'', ''Average'', ''Min'', ''Max'']]))"
      if "writes d" for c d using that by (intro dump_section_rows) (simp_all add: csv_text_def csv_line_def)
    show ?thesis
      using w report_of_parameters [of config adds]
      by (simp add: dump_report_def Let_def one grouped report_rows_def csv_text_append)
  qed
  moreover have "csv_out ?d = []" by (simp add: newCsvDumper_def)
  ultimately show ?thesis using read_csv_text [OF report_rows_clean [OF assms(1), unfolded rows_clean_def]] by simp
qed

definition demo_adds :: "(Category \<times> StatisticsVariant list) list" where
  "demo_adds =
     [(EXECUTION_RESULTS, [\<lparr>sv_csv_name = ''total number of iterations'', sv_json_name = ''iterations_num'', sv_value = SV_ULONGLONG 4\<rparr>]),
      (RUNTIME_CONFIG, [\<lparr>sv_csv_name = ''API'', sv_json_name = ''api'', sv_value = SV_STRING ''sync''\<rparr>]),
      (EXECUTION_RESULTS, [\<lparr>sv_csv_name = ''iterations'', sv_json_name = ''n'', sv_value = SV_INT 7\<rparr>])]"

theorem report_csv_roundtrip_witness:
  "map (getlines CHR '';'') (getlines CHR 0x0A (csv_out (fst (dump_report (\<lambda>_. True)
      (report_of \<lparr>report_type = [], report_folder = ''out''\<rparr> demo_adds)))))
   = [[''Configuration setup''], [''API'', ''sync''], [], [''Execution results''],
      [''total number of iterations'', ''4''], [''iterations'', ''7''], []]"
proof -
  have c: "\<forall>(c, ps) \<in> set demo_adds. \<forall>p \<in> set ps. clean_parameter p"
    by (simp add: demo_adds_def clean_parameter_def clean_def)
  have r: "report_rows demo_adds = [[''Configuration setup''], [''API'', ''sync''], [], [''Execution results''],
      [''total number of iterations'', ''4''], [''iterations'', ''7''], []]"
    by code_simp
  from report_csv_roundtrip [OF c, of "\<lambda>_. True" "\<lparr>report_type = [], report_folder = ''out''\<rparr>"]
  show ?thesis unfolding r by simp
qed

section \<open>Averaged counters\<close>

text \<open>
  The names in the order of their first appearance, and for each the first counter of that name with
  the sums of all.
\<close>

definition first_names :: "ProfilingInfo list \<Rightarrow> string list" where
  "first_names pms = rev (remdups (rev (map node_name pms)))"

definition with_name :: "string \<Rightarrow> ProfilingInfo list \<Rightarrow> ProfilingInfo list" where
  "with_name nm pms = filter (\<lambda>pm. node_name pm = nm) pms"

definition summed :: "ProfilingInfo list \<Rightarrow> string \<Rightarrow> ProfilingInfo" where
  "summed pms nm = (hd (with_name nm pms))
     \<lparr>real_time := sum_list (map real_time (with_name nm pms)), cpu_time := sum_list (map cpu_time (with_name nm pms))\<rparr>"

definition counters_fit :: "ProfilingInfo list \<Rightarrow> bool" where
  "counters_fit pms \<longleftrightarrow> (\<forall>pm \<in> set pms. 0 \<le> real_time pm \<and> 0 \<le> cpu_time pm)
     \<and> sum_list (map real_time pms) \<le> time_max \<and> sum_list (map cpu_time pms) \<le> time_max"

lemma add_counters_append:
  "add_counters avg (xs @ ys) = Option.bind (add_counters avg xs) (\<lambda>a. add_counters a ys)"
  by (induction xs arbitrary: avg) simp_all

lemma add_requests_concat: "add_requests avg rs = add_counters avg (concat rs)"
  by (induction rs arbitrary: avg) (simp_all add: add_counters_append)

lemma add_counter_map:
  assumes "distinct names" "\<forall>n \<in> set names. node_name (f n) = n" "node_name pm = nm"
    and "nm \<in> set names \<Longrightarrow> int64 (real_time (f nm) + real_time pm) = Some r \<and> int64 (cpu_time (f nm) + cpu_time pm) = Some c"
  shows "add_counter (map f names) pm =
    Some (if nm \<in> set names then map (\<lambda>n. if n = nm then (f nm)\<lparr>real_time := r, cpu_time := c\<rparr> else f n) names
          else map f names @ [pm])"
  using assms
proof (induction names)
  case (Cons n names)
  then show ?case by (cases "n = nm") auto
qed simp

lemma first_names_snoc:
  "first_names (pms @ [pm]) = (if node_name pm \<in> node_name ` set pms then first_names pms else first_names pms @ [node_name pm])"
  by (auto simp: first_names_def)

lemma first_names_props: "distinct (first_names pms)" "set (first_names pms) = node_name ` set pms"
  by (simp_all add: first_names_def)

lemma with_name_snoc: "with_name nm (pms @ [pm]) = with_name nm pms @ (if node_name pm = nm then [pm] else [])"
  by (simp add: with_name_def)

lemma with_name_empty: "with_name nm pms = [] \<longleftrightarrow> nm \<notin> node_name ` set pms"
  by (auto simp: with_name_def filter_empty_conv)

lemma summed_name: "nm \<in> node_name ` set pms \<Longrightarrow> node_name (summed pms nm) = nm"
proof -
  assume "nm \<in> node_name ` set pms"
  then have "with_name nm pms \<noteq> []" by (simp add: with_name_empty)
  then have "hd (with_name nm pms) \<in> set (with_name nm pms)" by simp
  then show ?thesis by (simp add: summed_def with_name_def)
qed

lemma sum_with_name:
  assumes "\<forall>pm \<in> set pms. 0 \<le> f pm"
  shows "0 \<le> sum_list (map f (with_name nm pms))" "sum_list (map f (with_name nm pms)) \<le> (sum_list (map f pms) :: int)"
proof -
  show "0 \<le> sum_list (map f (with_name nm pms))" using assms by (auto simp: with_name_def intro!: sum_list_nonneg)
  show "sum_list (map f (with_name nm pms)) \<le> sum_list (map f pms)"
    using assms by (induction pms) (auto simp: with_name_def)
qed

lemma counters_fit_snoc: "counters_fit (pms @ [pm]) \<Longrightarrow> counters_fit pms"
  by (simp add: counters_fit_def)

lemma add_counters_summed:
  assumes "counters_fit pms"
  shows "add_counters [] pms = Some (map (summed pms) (first_names pms))"
  using assms
proof (induction pms rule: rev_induct)
  case (snoc pm pms)
  let ?nm = "node_name pm" and ?f = "summed pms"
  note ih = snoc.IH [OF counters_fit_snoc [OF snoc.prems]]
  have fit: "int64 (real_time (?f ?nm) + real_time pm) = Some (real_time (?f ?nm) + real_time pm)"
    "int64 (cpu_time (?f ?nm) + cpu_time pm) = Some (cpu_time (?f ?nm) + cpu_time pm)"
    using snoc.prems sum_with_name [of pms real_time ?nm] sum_with_name [of pms cpu_time ?nm]
    by (auto simp: counters_fit_def summed_def int64_def time_min_def)
  have same: "summed (pms @ [pm]) n = ?f n" if "n \<noteq> ?nm" for n
    using that by (simp add: summed_def with_name_snoc)
  show ?case
  proof (cases "?nm \<in> node_name ` set pms")
    case True
    then have "with_name ?nm pms \<noteq> []" by (simp add: with_name_empty)
    then have "summed (pms @ [pm]) ?nm = (?f ?nm)\<lparr>real_time := real_time (?f ?nm) + real_time pm, cpu_time := cpu_time (?f ?nm) + cpu_time pm\<rparr>"
      by (simp add: summed_def with_name_snoc)
    then have "map (summed (pms @ [pm])) (first_names pms) = map (\<lambda>n. if n = ?nm then (?f ?nm)\<lparr>real_time := real_time (?f ?nm) + real_time pm,
        cpu_time := cpu_time (?f ?nm) + cpu_time pm\<rparr> else ?f n) (first_names pms)"
      using same by simp
    then show ?thesis
      using add_counter_map [where f = ?f and names = "first_names pms" and pm = pm and nm = ?nm] fit True
      by (simp add: add_counters_append ih first_names_snoc first_names_props summed_name)
  next
    case False
    then have "summed (pms @ [pm]) ?nm = pm" using with_name_empty [of ?nm pms] by (simp add: summed_def with_name_snoc)
    moreover have "map (summed (pms @ [pm])) (first_names pms) = map ?f (first_names pms)"
    proof (rule map_cong [OF refl])
      fix n assume "n \<in> set (first_names pms)"
      then have "n \<noteq> ?nm" using False first_names_props(2) [of pms] by blast
      then show "summed (pms @ [pm]) n = ?f n" by (rule same)
    qed
    ultimately show ?thesis
      using add_counter_map [where f = ?f and names = "first_names pms" and pm = pm and nm = ?nm] False
      by (simp add: add_counters_append ih first_names_snoc first_names_props summed_name)
  qed
qed (simp add: first_names_def)

text \<open>
  C31: Averaging the counters of several requests gives one counter for each layer name, in the order in which
  the names first appear over the requests, with the status and types of its first occurrence and,
  for its times, the sums over all its occurrences divided by the number of requests and truncated,
  provided that no time is negative and the sums fit.
\<close>

theorem average_counters_correct:
  assumes "counters_fit (concat perfCounts)" "perfCounts \<noteq> []"
  shows "\<exists>avg. get_average_performance_counters perfCounts = Some avg
    \<and> map node_name avg = first_names (concat perfCounts)
    \<and> (\<forall>a \<in> set avg. let layers = with_name (node_name a) (concat perfCounts) in
         real_time a = sum_list (map real_time layers) div int (length perfCounts)
         \<and> cpu_time a = sum_list (map cpu_time layers) div int (length perfCounts)
         \<and> pi_status a = pi_status (hd layers) \<and> node_type a = node_type (hd layers) \<and> exec_type a = exec_type (hd layers))"
proof -
  let ?pms = "concat perfCounts" and ?n = "int (length perfCounts)"
  let ?div = "\<lambda>pm. pm\<lparr>real_time := truncated_div (real_time pm) ?n, cpu_time := truncated_div (cpu_time pm) ?n\<rparr>"
  have avg: "get_average_performance_counters perfCounts = Some (map (?div \<circ> summed ?pms) (first_names ?pms))"
    by (simp add: get_average_performance_counters_def add_requests_concat add_counters_summed [OF assms(1)])
  have names: "map node_name (map (?div \<circ> summed ?pms) (first_names ?pms)) = first_names ?pms"
    by (rule nth_equalityI) (auto simp: first_names_props summed_name dest: nth_mem)
  have t: "truncated_div a ?n = a div ?n" if "0 \<le> a" for a
    using that by (cases "a = 0") (simp_all add: truncated_div_def)
  have nonneg: "0 \<le> sum_list (map real_time (with_name nm ?pms))" "0 \<le> sum_list (map cpu_time (with_name nm ?pms))" for nm
    using sum_with_name(1) [of ?pms real_time nm] sum_with_name(1) [of ?pms cpu_time nm] assms(1)
    unfolding counters_fit_def by blast+
  show ?thesis
    unfolding avg using names t [OF nonneg(1)] t [OF nonneg(2)]
    by (auto simp: Let_def summed_name first_names_props simp del: concat.simps) (simp_all add: summed_def)
qed

definition demo_layer :: "string \<Rightarrow> nat \<Rightarrow> int \<Rightarrow> ProfilingInfo" where
  "demo_layer nm st us = \<lparr>pi_status = st, real_time = us, cpu_time = us, node_name = nm, exec_type = ''ref'', node_type = ''Op''\<rparr>"

theorem average_counters_correct_witness:
  "\<exists>avg. get_average_performance_counters [[demo_layer ''a'' 2 10, demo_layer ''b'' 0 1], [demo_layer ''a'' 2 5]] = Some avg
     \<and> map node_name avg = [''a'', ''b''] \<and> real_time (hd avg) = 7"
proof -
  let ?pcs = "[[demo_layer ''a'' 2 10, demo_layer ''b'' 0 1], [demo_layer ''a'' 2 5]]"
  have "counters_fit (concat ?pcs)" by (simp add: counters_fit_def demo_layer_def time_max_def)
  from average_counters_correct [OF this]
  obtain avg where avg: "get_average_performance_counters ?pcs = Some avg" "map node_name avg = first_names (concat ?pcs)"
    "\<forall>a \<in> set avg. real_time a = sum_list (map real_time (with_name (node_name a) (concat ?pcs))) div int (length ?pcs)"
    by (auto simp: Let_def)
  have names: "map node_name avg = [''a'', ''b'']" by (simp add: avg(2) first_names_def demo_layer_def)
  then obtain a b where "avg = [a, b]" "node_name a = ''a''" by auto
  then show ?thesis using avg names by (auto simp: with_name_def demo_layer_def)
qed

section \<open>Sorted counters\<close>

interpretation by_time: strict_weak_order sort_profiling_descend
  by unfold_locales (auto simp: sort_profiling_descend_def)

definition is_executed :: "ProfilingInfo \<Rightarrow> bool" where
  "is_executed layer \<longleftrightarrow> pi_status layer = 2"

definition sorted_row :: "int \<Rightarrow> ProfilingInfo \<Rightarrow> string list" where
  "sorted_row tot layer = layer_cells layer
     @ [show_fixed 3 (fmul 53 (fdiv 53 (fround 53 (fof_int (real_time layer))) (fround 53 (fof_int tot))) (fof_int 100))]"

lemma executed_status: "pi_status layer < 3 \<Longrightarrow> executed layer = Some (is_executed layer)"
proof -
  assume "pi_status layer < 3"
  then have "pi_status layer = 0 \<or> pi_status layer = 1 \<or> pi_status layer = 2" by linarith
  then show ?thesis by (auto simp: executed_def status_names_def is_executed_def)
qed

lemma executed_totals_sums:
  assumes "\<forall>layer \<in> set layers. pi_status layer < 3 \<and> 0 \<le> real_time layer \<and> 0 \<le> cpu_time layer"
    and "0 \<le> t" "t + sum_list (map real_time layers) \<le> time_max" "0 \<le> u" "u + sum_list (map cpu_time layers) \<le> time_max"
  shows "executed_totals layers (t, u) = Some (t + sum_list (map real_time (filter is_executed layers)),
    u + sum_list (map cpu_time (filter is_executed layers)))"
  using assms
proof (induction layers arbitrary: t u)
  case (Cons layer layers)
  have s: "0 \<le> sum_list (map real_time layers)" "0 \<le> sum_list (map cpu_time layers)"
    using Cons.prems(1) by (auto intro!: sum_list_nonneg)
  have "int64 (t + real_time layer) = Some (t + real_time layer)" "int64 (u + cpu_time layer) = Some (u + cpu_time layer)"
    using Cons.prems s by (auto simp: int64_def time_min_def)
  then show ?case
    using Cons s by (cases "is_executed layer") (simp_all add: executed_status add.assoc)
qed simp

lemma sorted_rows_text:
  assumes "\<forall>layer \<in> set layers. pi_status layer < 3" "tot \<noteq> 0" "writes d"
  shows "sorted_rows tot layers d = Some (csv_after d (csv_text (map (sorted_row tot) (filter is_executed layers))))"
  using assms
proof (induction layers arbitrary: d)
  case (Cons layer layers)
  have "endLine (csv_put (csv_cells d (layer_cells layer)) s) = csv_after d (csv_text [layer_cells layer @ [s]])" for s
    using Cons.prems(3) by (simp add: csv_cells_writes csv_put_writes endLine_writes csv_text_def csv_line_def)
  then show ?case
    using Cons by (auto simp: executed_status percent_def sorted_row_def csv_text_def)
qed (simp add: csv_text_def)

text \<open>
  The sorted report of a request lists exactly the executed layers, each as often as it occurs, from the longest
  to the shortest time, each with its share of their total, between a line of titles and a line with
  the totals of the executed layers; nothing else is written.
\<close>

theorem sorted_report_lists_executed:
  assumes "writes d" "\<forall>layer \<in> set perfCounts. pi_status layer < 3" "counters_fit perfCounts"
    and "0 < sum_list (map real_time (filter is_executed perfCounts))"
  shows "\<exists>layers. dump_sort_performance_counters_request d perfCounts =
      Some (csv_after d (csv_text
        ([[''layerName'', ''execStatus'', ''layerType'', ''execType'', ''realTime (ms)'', ''cpuTime (ms)'', '' %'']]
         @ map (sorted_row (sum_list (map real_time layers))) layers
         @ [[''Total'', [], [], [], us_to_ms (sum_list (map real_time layers)), us_to_ms (sum_list (map cpu_time layers)), ''100.000''], []])))
    \<and> mset layers = filter_mset is_executed (mset perfCounts)
    \<and> sorted_wrt (\<lambda>a b. real_time b \<le> real_time a) layers"
proof -
  let ?layers = "filter is_executed (sort_by sort_profiling_descend perfCounts)"
  have m: "mset ?layers = mset (filter is_executed perfCounts)" by (simp add: mset_filter)
  then have sums: "sum_list (map f ?layers) = sum_list (map f (filter is_executed perfCounts))" for f :: "ProfilingInfo \<Rightarrow> int"
    by (metis mset_map sum_mset_sum_list)
  have tot: "executed_totals perfCounts (0, 0) = Some (sum_list (map real_time ?layers), sum_list (map cpu_time ?layers))"
    using executed_totals_sums [of perfCounts 0 0] assms(2,3) by (simp add: counters_fit_def sums)
  have rows: "writes d' \<Longrightarrow> sorted_rows (sum_list (map real_time ?layers)) (sort_by sort_profiling_descend perfCounts) d'
      = Some (csv_after d' (csv_text (map (sorted_row (sum_list (map real_time ?layers))) ?layers)))" for d'
    using assms(2,4) by (intro sorted_rows_text) (auto simp: sums)
  have hundred: "show_fixed 3 (fof_int 100) = ''100.000''"
    by (simp add: show_fixed_def fixed_units_def round_div_def fof_int_def pad_digits_def show_nat.simps digit_char_def Let_def)
      code_simp
  have "sorted_wrt (\<lambda>a b. real_time b \<le> real_time a) ?layers"
    using sorted_wrt_filter [OF by_time.sort_by_sorted, of is_executed perfCounts]
    by (simp add: sort_profiling_descend_def not_less)
  moreover have "dump_sort_performance_counters_request d perfCounts =
      Some (csv_after d (csv_text
        ([[''layerName'', ''execStatus'', ''layerType'', ''execType'', ''realTime (ms)'', ''cpuTime (ms)'', '' %'']]
         @ map (sorted_row (sum_list (map real_time ?layers))) ?layers
         @ [[''Total'', [], [], [], us_to_ms (sum_list (map real_time ?layers)), us_to_ms (sum_list (map cpu_time ?layers)), ''100.000''], []])))"
    using assms(1)
    by (simp add: dump_sort_performance_counters_request_def tot rows hundred csv_row_writes endLine_writes Let_def
        flip: csv_text_append) (simp add: csv_text_def csv_line_def)
  ultimately show ?thesis using m by (intro exI [of _ ?layers]) (simp add: mset_filter)
qed

theorem sorted_report_lists_executed_witness:
  "\<exists>layers d'. dump_sort_performance_counters_request (newCsvDumper (\<lambda>_. True) True ''f'')
       [demo_layer ''a'' 2 1, demo_layer ''b'' 0 9, demo_layer ''c'' 2 3] = Some d'
     \<and> map node_name layers = [''c'', ''a''] \<and> csv_out d' = csv_text
        ([[''layerName'', ''execStatus'', ''layerType'', ''execType'', ''realTime (ms)'', ''cpuTime (ms)'', '' %'']]
         @ map (sorted_row 4) layers @ [[''Total'', [], [], [], us_to_ms 4, us_to_ms 4, ''100.000''], []])"
proof -
  let ?pcs = "[demo_layer ''a'' 2 1, demo_layer ''b'' 0 9, demo_layer ''c'' 2 3]"
  let ?d = "newCsvDumper (\<lambda>_. True) True ''f''"
  have w: "writes ?d" "csv_out ?d = []" by (simp_all add: writes_def newCsvDumper_def)
  have f: "counters_fit ?pcs" "\<forall>layer \<in> set ?pcs. pi_status layer < 3"
    "0 < sum_list (map real_time (filter is_executed ?pcs))"
    by (simp_all add: counters_fit_def demo_layer_def time_max_def is_executed_def)
  from sorted_report_lists_executed [OF w(1) f(2,1,3)] obtain layers where l:
    "dump_sort_performance_counters_request ?d ?pcs =
      Some (csv_after ?d (csv_text
        ([[''layerName'', ''execStatus'', ''layerType'', ''execType'', ''realTime (ms)'', ''cpuTime (ms)'', '' %'']]
         @ map (sorted_row (sum_list (map real_time layers))) layers
         @ [[''Total'', [], [], [], us_to_ms (sum_list (map real_time layers)), us_to_ms (sum_list (map cpu_time layers)), ''100.000''], []])))"
    "mset layers = filter_mset is_executed (mset ?pcs)" "sorted_wrt (\<lambda>a b. real_time b \<le> real_time a) layers" by blast
  have "mset layers = {#demo_layer ''a'' 2 1, demo_layer ''c'' 2 3#}" using l(2) by (simp add: is_executed_def demo_layer_def)
  moreover from this have "length layers = 2" by (metis size_mset size_add_mset size_single numeral_2_eq_2 One_nat_def)
  then obtain x y where "layers = [x, y]" by (auto simp: numeral_2_eq_2 length_Suc_conv)
  ultimately have "layers = [demo_layer ''c'' 2 3, demo_layer ''a'' 2 1]"
    using l(3) by (auto simp: add_eq_conv_ex demo_layer_def add_mset_eq_single)
  then show ?thesis using l(1) w(2) by (intro exI [of _ layers]) (simp add: demo_layer_def)
qed

end
