(* ===== verification/Bench_Times.thy ===== *)
theory Bench_Times
  imports Bench_Props
begin

text \<open>
  What the latencies of \<open>benchmark_app\<close> measure: the runs of \<open>Bench_Queue\<close> with the clock readings of each step
  made visible, the durations of the inferences computed from these readings alone, and that the latencies the queue
  has recorded in the end are those durations.
\<close>

section \<open>Runs with their clock readings\<close>

text \<open>
  The reading when request \<open>i\<close> is started, that when it is answered, with the exception if it failed, and both
  for a synchronous inference. No other move changes the requests in flight or ends an inference.
\<close>

datatype 'e clock_event = Started nat int | Answered nat "'e option" int | Inferred nat int int | Unmeasured

inductive bench_event :: "bench \<Rightarrow> 'e bench_state \<Rightarrow> 'e clock_event \<Rightarrow> 'e bench_state \<Rightarrow> bool" for c where
  event_start: "st_pc s = Held i \<Longrightarrow> b_async c \<Longrightarrow>
     bench_event c s (Started i now)
       (s\<lparr>st_queue := start_request i now (st_queue s), st_run := insert i (st_run s), st_pc := Launched\<rparr>)"
| event_infer: "st_pc s = Held i \<Longrightarrow> \<not> b_async c \<Longrightarrow>
     completed i None now' now'' (start_request i now (st_queue s)) = Some q \<Longrightarrow>
     bench_event c s (Inferred i now now') (s\<lparr>st_queue := q, st_pc := Launched\<rparr>)"
| event_answer: "i \<in> st_run s \<Longrightarrow> completed i exn now now' (st_queue s) = Some q \<Longrightarrow>
     bench_event c s (Answered i exn now) (s\<lparr>st_queue := q, st_run := st_run s - {i}, st_sleep := False\<rparr>)"
| event_other: "bench_move c s s' \<Longrightarrow> st_run s' = st_run s \<Longrightarrow> \<not> ((\<exists>i. st_pc s = Held i) \<and> st_pc s' = Launched) \<Longrightarrow>
     bench_event c s Unmeasured s'"

inductive bench_trace :: "bench \<Rightarrow> 'e clock_event list \<Rightarrow> 'e bench_state \<Rightarrow> bool" for c where
  trace_start: "bench_trace c [] (bench_init c)"
| trace_go: "bench_trace c evs s \<Longrightarrow> bench_event c s ev s' \<Longrightarrow> bench_trace c (evs @ [ev]) s'"

lemma event_move: "bench_event c s ev s' \<Longrightarrow> bench_move c s s'"
  by (cases rule: bench_event.cases) (auto intro: bench_move.own bench_step.intros)

lemma move_event:
  assumes "bench_move c s s'"
  shows "\<exists>ev. bench_event c s ev s'"
  using assms
proof (cases rule: bench_move.cases)
  case own
  have other: "\<exists>ev. bench_event c s ev s'" if "st_run s' = st_run s" "\<not> ((\<exists>i. st_pc s = Held i) \<and> st_pc s' = Launched)"
    using bench_event.event_other [OF assms that] by blast
  from own show ?thesis
  proof (cases rule: bench_step.cases)
    case (callback i exn now now' q)
    then show ?thesis using bench_event.event_answer by blast
  next
    case (launch_async i now)
    then show ?thesis using bench_event.event_start by blast
  next
    case (infer_sync i now' now'' now q)
    then show ?thesis using bench_event.event_infer by blast
  qed (rule other; simp)+
next
  case spurious
  then show ?thesis
    by (intro exI [of _ Unmeasured] bench_event.event_other) (auto intro: bench_move.spurious)
qed

lemma trace_reachable: "bench_trace c evs s \<Longrightarrow> bench_reachable c s"
  by (induction rule: bench_trace.induct) (auto intro: bench_reachable.intros event_move)

lemma reachable_trace: "bench_reachable c s \<Longrightarrow> \<exists>evs. bench_trace c evs s"
proof (induction rule: bench_reachable.induct)
  case start
  show ?case using bench_trace.trace_start by blast
next
  case (go s s')
  then show ?case using move_event [of c s s'] bench_trace.trace_go by blast
qed

section \<open>Durations\<close>

text \<open>
  The inferences are numbered in the order they are started, the warm-up being number 0 and iteration \<open>k\<close> of the
  loop number \<open>k + 1\<close>. What is known after some events: the next number, the number and the start of the inference
  that each request runs, and the numbers and durations (in nanoseconds) of the inferences that ended without failure.
\<close>

type_synonym observed = "nat \<times> (nat \<Rightarrow> nat \<times> int) \<times> (nat \<times> int) list"

fun observe :: "observed \<Rightarrow> 'e clock_event \<Rightarrow> observed" where
  "observe (n, running, ms) (Started i t) = (n + 1, running(i := (n, t)), ms)"
| "observe (n, running, ms) (Inferred i t e) = (n + 1, running, ms @ [(n, e - t)])"
| "observe (n, running, ms) (Answered i None e) = (n, running, ms @ [(fst (running i), e - snd (running i))])"
| "observe (n, running, ms) (Answered i (Some x) e) = (n, running, ms)"
| "observe (n, running, ms) Unmeasured = (n, running, ms)"

definition observed :: "'e clock_event list \<Rightarrow> observed" where
  "observed evs = foldl observe (0, \<lambda>_. (0, 0), []) evs"

definition measured :: "'e clock_event list \<Rightarrow> (nat \<times> int) list" where
  "measured evs = snd (snd (observed evs))"

text \<open>The latency group of an inference: the configuration that its iteration uses.\<close>

definition group_of :: "bench \<Rightarrow> nat \<Rightarrow> nat" where
  "group_of c n = (if n = 0 \<or> b_inferenceOnly c \<or> \<not> b_pcseq c then 0 else (n - 1) mod b_groups c)"

definition as_latencies :: "(nat \<times> int) list \<Rightarrow> flt list" where
  "as_latencies ms = map (\<lambda>(n, ns). ns_to_ms ns) ms"

lemma as_latencies_simps [simp]:
  "as_latencies [] = []" "as_latencies (ms @ [(n, ns)]) = as_latencies ms @ [ns_to_ms ns]"
  by (simp_all add: as_latencies_def)

lemma completed_time:
  assumes "completed i None now now' q = Some q'" "q_shape c q" "i < b_nireq c"
  shows "iq_latencies q' = iq_latencies q @ [ns_to_ms (now - w_startTime (iq_requests q ! i))]"
    and "iq_latency_groups q' = (if b_pcseq c then (iq_latency_groups q)[group_in q i := iq_latency_groups q ! group_in q i
           @ [ns_to_ms (now - w_startTime (iq_requests q ! i))]] else iq_latency_groups q)"
    and "iq_requests q' = (iq_requests q)[i := (iq_requests q ! i)\<lparr>w_endTime := now\<rparr>]"
    and "iq_inferenceException q' = iq_inferenceException q"
proof -
  have "w_lat_group_id (iq_requests q ! i) < length (iq_latency_groups q)" using assms(2,3) by (simp add: q_shape_def)
  then have "q' = q\<lparr>iq_requests := (iq_requests q)[i := (iq_requests q ! i)\<lparr>w_endTime := now\<rparr>],
      iq_latencies := iq_latencies q @ [ns_to_ms (now - w_startTime (iq_requests q ! i))],
      iq_latency_groups := (if b_pcseq c then (iq_latency_groups q)[group_in q i := iq_latency_groups q ! group_in q i
           @ [ns_to_ms (now - w_startTime (iq_requests q ! i))]] else iq_latency_groups q),
      iq_idleIds := iq_idleIds q @ [i], iq_endTime := max now' (iq_endTime q)\<rparr>"
    using assms(1,2) by (cases "b_pcseq c") (simp_all add: completed_def put_idle_request_def add_latency_def q_shape_def
        Let_def group_in_def get_execution_time_in_milliseconds_def)
  then show "iq_latencies q' = iq_latencies q @ [ns_to_ms (now - w_startTime (iq_requests q ! i))]"
    and "iq_latency_groups q' = (if b_pcseq c then (iq_latency_groups q)[group_in q i := iq_latency_groups q ! group_in q i
           @ [ns_to_ms (now - w_startTime (iq_requests q ! i))]] else iq_latency_groups q)"
    and "iq_requests q' = (iq_requests q)[i := (iq_requests q ! i)\<lparr>w_endTime := now\<rparr>]"
    and "iq_inferenceException q' = iq_inferenceException q" by simp_all
qed

lemma numbers_Suc [simp]: "mset_set {0..<Suc n} = add_mset n (mset_set {0..<n})"
  by (simp add: atLeast0LessThan lessThan_Suc)

section \<open>The recorded latencies are the durations\<close>

definition kept :: "'e bench_state \<Rightarrow> (nat \<times> int) list \<Rightarrow> (nat \<times> int) list" where
  "kept s ms = (if st_warm s then ms else tl ms)"

definition clocks_ok :: "bench \<Rightarrow> 'e bench_state \<Rightarrow> (nat \<Rightarrow> nat \<times> int) \<Rightarrow> bool" where
  "clocks_ok c s running \<longleftrightarrow> (\<forall>i \<in> st_run s. snd (running i) = w_startTime (iq_requests (st_queue s) ! i)
     \<and> group_of c (fst (running i)) = group_in (st_queue s) i)"

definition numbers_ok :: "'e bench_state \<Rightarrow> observed \<Rightarrow> bool" where
  "numbers_ok s = (\<lambda>(n, running, ms).
     ((\<forall>e. st_pc s \<noteq> Threw e) \<longrightarrow> n = launched s + (if st_warm s then 0 else 1))
     \<and> (sound s \<longrightarrow> mset (map fst ms) + image_mset (\<lambda>i. fst (running i)) (mset_set (st_run s)) = mset [0..<n])
     \<and> (\<not> st_warm s \<longrightarrow> ms \<noteq> [] \<and> fst (hd ms) = 0))"

definition recorded_ok :: "bench \<Rightarrow> 'e bench_state \<Rightarrow> (nat \<times> int) list \<Rightarrow> bool" where
  "recorded_ok c s ms \<longleftrightarrow> iq_latencies (st_queue s) = as_latencies (kept s ms)
     \<and> (b_pcseq c \<longrightarrow> (\<forall>g < b_groups c. iq_latency_groups (st_queue s) ! g
          = as_latencies (filter (\<lambda>(n, ns). group_of c n = g) (kept s ms))))"

definition times_ok :: "bench \<Rightarrow> 'e bench_state \<Rightarrow> observed \<Rightarrow> bool" where
  "times_ok c s = (\<lambda>(n, running, ms). clocks_ok c s running \<and> numbers_ok s (n, running, ms) \<and> recorded_ok c s ms)"

lemma recorded_add:
  assumes "recorded_ok c s ms" "\<not> st_warm s \<Longrightarrow> ms \<noteq> []" "st_warm s' = st_warm s"
    and "iq_latencies (st_queue s') = iq_latencies (st_queue s) @ [ns_to_ms ns]"
    and "iq_latency_groups (st_queue s') = (if b_pcseq c then (iq_latency_groups (st_queue s))
           [group_of c n := iq_latency_groups (st_queue s) ! group_of c n @ [ns_to_ms ns]] else iq_latency_groups (st_queue s))"
    and "group_of c n < length (iq_latency_groups (st_queue s))"
  shows "recorded_ok c s' (ms @ [(n, ns)])"
proof -
  have "kept s' (ms @ [(n, ns)]) = kept s ms @ [(n, ns)]"
    using assms(2,3) by (cases ms) (auto simp: kept_def)
  then show ?thesis using assms by (auto simp: recorded_ok_def nth_update_if)
qed

lemma held_group_of:
  assumes "groups_ok c s" "st_pc s = Held i" "n = launched s + (if st_warm s then 0 else 1)"
  shows "group_in (st_queue s) i = group_of c n"
  using held_group [OF assms(1,2)] assms(2,3) by (auto simp: group_at_def group_of_def launched_def)

lemma started_clock:
  "i < length (iq_requests q) \<Longrightarrow>
   w_startTime (iq_requests (start_request i now q) ! j) = (if j = i then now else w_startTime (iq_requests q ! j))"
  by (simp add: start_request_def set_request_def nth_update_if)

lemma times_start:
  assumes "q_shape c (st_queue s)" "ids_ok c s" "groups_ok c s" "times_ok c s (n, running, ms)"
    and "st_pc s = Held i"
  shows "times_ok c (s\<lparr>st_queue := start_request i now (st_queue s), st_run := insert i (st_run s), st_pc := Launched\<rparr>)
    (n + 1, running(i := (n, now)), ms)"
proof -
  let ?s = "s\<lparr>st_queue := start_request i now (st_queue s), st_run := insert i (st_run s), st_pc := Launched\<rparr>"
  have i: "i \<notin> st_run s" "i < length (iq_requests (st_queue s))"
    using assms(1,2,5) by (auto simp: ids_ok_def held_def q_shape_def)
  have n: "n = launched s + (if st_warm s then 0 else 1)" using assms(4,5) by (simp add: times_ok_def numbers_ok_def)
  have l: "launched ?s = Suc (launched s)" using assms(5) by (simp add: launched_def)
  have snd: "sound ?s \<longleftrightarrow> sound s" using assms(5) by (simp add: sound_def)
  have "clocks_ok c ?s (running(i := (n, now)))"
    using assms(4) i held_group_of [OF assms(3,5) n] by (auto simp: times_ok_def clocks_ok_def started_clock)
  moreover have "image_mset (\<lambda>j. fst ((running(i := (n, now))) j)) (mset_set (insert i (st_run s)))
      = {#n#} + image_mset (\<lambda>j. fst (running j)) (mset_set (st_run s))"
    using i(1) finite_run [OF assms(2)] by (auto intro!: image_mset_cong)
  then have "numbers_ok ?s (n + 1, running(i := (n, now)), ms)"
    using assms(4) n l snd by (simp add: times_ok_def numbers_ok_def)
  moreover have "recorded_ok c ?s ms" using assms(4) by (simp add: times_ok_def recorded_ok_def kept_def)
  ultimately show ?thesis by (simp add: times_ok_def)
qed

lemma times_infer:
  assumes "q_shape c (st_queue s)" "ids_ok c s" "groups_ok c s" "times_ok c s (n, running, ms)"
    and "st_pc s = Held i" "completed i None now' now'' (start_request i now (st_queue s)) = Some q"
  shows "times_ok c (s\<lparr>st_queue := q, st_pc := Launched\<rparr>) (n + 1, running, ms @ [(n, now' - now)])"
proof -
  let ?s = "s\<lparr>st_queue := q, st_pc := Launched\<rparr>"
  have i: "i \<notin> st_run s" "i < b_nireq c" "i < length (iq_requests (st_queue s))"
    using assms(1,2,5) by (auto simp: ids_ok_def held_def q_shape_def)
  note q = completed_time [OF assms(6) shape_start [OF assms(1)] i(2)]
  have n: "n = launched s + (if st_warm s then 0 else 1)" "\<not> st_warm s \<Longrightarrow> ms \<noteq> []"
    using assms(4,5) by (simp_all add: times_ok_def numbers_ok_def)
  note g = held_group_of [OF assms(3,5) n(1)]
  have l: "launched ?s = Suc (launched s)" using assms(5) by (simp add: launched_def)
  have snd: "sound ?s \<longleftrightarrow> sound s" using assms(5) q(4) by (simp add: sound_def)
  have "clocks_ok c ?s running"
    using assms(4) i q(3) by (auto simp: times_ok_def clocks_ok_def group_in_def nth_update_if start_request_def set_request_def)
  moreover have "numbers_ok ?s (n + 1, running, ms @ [(n, now' - now)])"
    using assms(4) n l snd by (auto simp: times_ok_def numbers_ok_def hd_append)
  moreover have "recorded_ok c ?s (ms @ [(n, now' - now)])"
    by (rule recorded_add [of c s])
      (use assms(4) n(2) q(1,2) g i(3) group_in_bound [OF assms(1) i(2)] in \<open>simp_all add: times_ok_def started_clock\<close>)
  ultimately show ?thesis by (simp add: times_ok_def)
qed

lemma times_answer:
  assumes "q_shape c (st_queue s)" "ids_ok c s" "times_ok c s (n, running, ms)"
    and "i \<in> st_run s" "completed i exn now now' (st_queue s) = Some q"
  shows "times_ok c (s\<lparr>st_queue := q, st_run := st_run s - {i}, st_sleep := False\<rparr>)
    (observe (n, running, ms) (Answered i exn now))"
proof -
  let ?s = "s\<lparr>st_queue := q, st_run := st_run s - {i}, st_sleep := False\<rparr>"
  have i: "i < b_nireq c" using assms(2,4) by (auto simp: ids_ok_def)
  have n: "\<not> st_warm s \<Longrightarrow> ms \<noteq> []" using assms(3) by (simp add: times_ok_def numbers_ok_def)
  have l: "launched ?s = launched s" by (simp add: launched_def)
  have clk: "snd (running i) = w_startTime (iq_requests (st_queue s) ! i)" "group_of c (fst (running i)) = group_in (st_queue s) i"
    using assms(3,4) by (simp_all add: times_ok_def clocks_ok_def)
  show ?thesis
  proof (cases exn)
    case None
    note q = completed_time [OF assms(5) [unfolded None] assms(1) i]
    have "clocks_ok c ?s running"
      using assms(3) q(3) by (auto simp: times_ok_def clocks_ok_def group_in_def nth_update_if)
    moreover have "image_mset (\<lambda>j. fst (running j)) (mset_set (st_run s))
        = {#fst (running i)#} + image_mset (\<lambda>j. fst (running j)) (mset_set (st_run s - {i}))"
      using mset_set.remove [OF finite_run [OF assms(2)] assms(4)] by simp
    then have "numbers_ok ?s (n, running, ms @ [(fst (running i), now - snd (running i))])"
      using assms(3) l q(4) by (auto simp: times_ok_def numbers_ok_def sound_def hd_append)
    moreover have "recorded_ok c ?s (ms @ [(fst (running i), now - snd (running i))])"
      by (rule recorded_add [of c s])
        (use assms(3) n q(1,2) clk group_in_bound [OF assms(1) i] in \<open>simp_all add: times_ok_def\<close>)
    ultimately show ?thesis by (simp add: times_ok_def None)
  next
    case (Some e)
    with assms(5) have q: "q = (st_queue s)\<lparr>iq_requests := (iq_requests (st_queue s))[i := (iq_requests (st_queue s) ! i)\<lparr>w_endTime := now\<rparr>],
        iq_inferenceException := Some e\<rparr>" by (simp add: completed_failed)
    have "\<not> sound ?s" by (simp add: q sound_def)
    then show ?thesis
      using assms(3) l by (auto simp: Some times_ok_def clocks_ok_def numbers_ok_def recorded_ok_def kept_def q group_in_def nth_update_if)
  qed
qed

lemma times_drained:
  assumes "q_shape c (st_queue s)" "ids_ok c s" "warm_ok s" "times_ok c s (n, running, ms)"
    and "st_pc s = Drain" "wait_all_ready (st_queue s) = Inr True" "st_warm s"
  shows "times_ok c (s\<lparr>st_queue := reset_times (st_queue s), st_pc := Loop, st_warm := False, st_exec := t\<rparr>) (n, running, ms)"
proof -
  have run: "st_run s = {}" using ids_full(2) [OF assms(2)] assms(1,6) by (simp add: q_shape_def)
  have snd: "sound s" "launched s = 1" "st_iter s = 0" "\<forall>e. st_pc s \<noteq> Threw e"
    using assms(3,5,6,7) by (auto simp: sound_def launched_def warm_ok_def)
  then have m0: "mset (map fst ms) = {#0#}" using assms(4,7) run by (simp add: times_ok_def numbers_ok_def)
  obtain x where ms: "ms = [(0, x)]"
  proof (cases ms)
    case (Cons y ys)
    with m0 have "fst y = 0" "ys = []" by simp_all
    with Cons show ?thesis using that [of "snd y"] by (cases y) simp
  qed (use m0 in simp)
  have n: "n = 1" using assms(4,7) snd(2,4) by (simp add: times_ok_def numbers_ok_def)
  have "length (iq_latency_groups (st_queue s)) = b_groups c" using assms(1) by (simp add: q_shape_def)
  then show ?thesis
    by (simp add: times_ok_def clocks_ok_def numbers_ok_def recorded_ok_def kept_def launched_def ms reset_times_def n run
        snd(3))
qed

lemma times_kept:
  assumes "times_ok c s obs" "st_queue s' = st_queue s" "st_run s' = st_run s" "st_warm s' = st_warm s"
    and "\<forall>e. st_pc s' \<noteq> Threw e \<Longrightarrow> launched s' = launched s \<and> (\<forall>e. st_pc s \<noteq> Threw e)"
  shows "times_ok c s' obs"
proof -
  have "sound s' \<Longrightarrow> sound s" using assms(2,5) by (simp add: sound_def)
  then show ?thesis using assms by (cases obs) (auto simp: times_ok_def clocks_ok_def numbers_ok_def recorded_ok_def kept_def)
qed

lemma times_other:
  assumes "bench_step c s s'" "q_shape c (st_queue s)" "ids_ok c s" "warm_ok s" "times_ok c s (n, running, ms)"
    and "st_run s' = st_run s" "\<not> ((\<exists>i. st_pc s = Held i) \<and> st_pc s' = Launched)"
  shows "times_ok c s' (n, running, ms)"
  using assms(1)
proof (cases rule: bench_step.cases)
  case (fetch_take now i q)
  then have i: "i < length (iq_requests q)" "i \<notin> st_run s" using assms(3) by (auto simp: ids_ok_def)
  have "w_startTime (iq_requests (fill_request c s i q) ! j) = w_startTime (iq_requests (st_queue s) ! j)" for j
    using fetch_take by (auto simp: fill_request_def set_latency_group_id_def set_request_def nth_update_if)
  moreover have "group_in (fill_request c s i q) j = group_in (st_queue s) j" if "j \<in> st_run s" for j
  proof -
    have "j \<noteq> i" using that i(2) by auto
    then have "group_in (fill_request c s i q) j = group_in q j" by (simp add: fill_group [OF i(1)])
    then show ?thesis using fetch_take by (auto simp: group_in_def)
  qed
  ultimately have "clocks_ok c s' running" using assms(5) fetch_take by (simp add: times_ok_def clocks_ok_def)
  then show ?thesis using assms(5) fetch_take
    by (auto simp: times_ok_def numbers_ok_def recorded_ok_def kept_def launched_def sound_def)
next
  case (drain_warm t)
  with times_drained [OF assms(2-5)] show ?thesis by simp
next
  case (callback i exn now now' q)
  then show ?thesis using assms(6) by auto
next
  case (infer_throw i e now)
  then have "i \<notin> st_run s" "i < length (iq_requests (st_queue s))"
    using assms(2,3) by (auto simp: ids_ok_def held_def q_shape_def)
  then have "clocks_ok c s' running" using assms(5) infer_throw by (auto simp: times_ok_def clocks_ok_def started_clock)
  moreover have "\<not> sound s'" using infer_throw by (simp add: sound_def)
  ultimately show ?thesis using assms(5) infer_throw
    by (simp add: times_ok_def numbers_ok_def recorded_ok_def kept_def launched_def)
qed (rule times_kept [OF assms(5)]; use assms(4,7) in \<open>auto simp: launched_def warm_ok_def\<close>)+

lemma times_event:
  assumes "bench_event c s ev s'" "bench_inv c s" "times_ok c s obs"
  shows "times_ok c s' (observe obs ev)"
proof -
  obtain n running ms where obs: "obs = (n, running, ms)" by (metis surj_pair)
  note inv = assms(2) [unfolded bench_inv_def]
  from assms(1) show ?thesis
  proof (cases rule: bench_event.cases)
    case (event_start i now)
    then show ?thesis using times_start [of c s n running ms i now] inv assms(3) obs by simp
  next
    case (event_infer i now' now'' now q)
    then show ?thesis using times_infer [of c s n running ms i now' now'' now q] inv assms(3) obs by simp
  next
    case (event_answer i exn now now' q)
    then show ?thesis using times_answer [of c s n running ms i exn now now' q] inv assms(3) obs by simp
  next
    case event_other
    from event_other(2) show ?thesis
    proof (cases rule: bench_move.cases)
      case own
      then show ?thesis using times_other [of c s s' n running ms] inv assms(3) obs event_other by simp
    next
      case spurious
      then show ?thesis using times_kept [OF assms(3), of s'] event_other(1) by (simp add: launched_def obs)
    qed
  qed
qed

lemma trace_times:
  assumes "bench_trace c evs s" "0 < b_groups c"
  shows "times_ok c s (observed evs)"
  using assms(1)
proof (induction rule: bench_trace.induct)
  case trace_start
  show ?case
    by (auto simp: observed_def times_ok_def clocks_ok_def numbers_ok_def recorded_ok_def kept_def bench_init_def launched_def
        new_queue_def reset_times_def)
next
  case (trace_go evs s ev s')
  from times_event [OF this(2) reachable_inv [OF trace_reachable [OF this(1)] assms(2)] this(3)]
  show ?case by (simp add: observed_def)
qed

lemma finished_times:
  assumes "bench_trace c evs s" "0 < b_groups c" "st_pc s = Finished"
  shows "\<exists>warm_up ms. measured evs = warm_up # ms \<and> mset (map fst ms) = mset [1..<Suc (st_iter s)]
    \<and> iq_latencies (st_queue s) = as_latencies ms
    \<and> (b_pcseq c \<longrightarrow> (\<forall>g < b_groups c. iq_latency_groups (st_queue s) ! g
          = as_latencies (filter (\<lambda>(n, ns). group_of c n = g) ms)))"
proof -
  obtain n running ms where obs: "observed evs = (n, running, ms)" by (metis surj_pair)
  note ok = trace_times [OF assms(1,2), unfolded obs]
  note fin = finished_facts [OF trace_reachable [OF assms(1)] assms(2,3)]
  have run: "st_run s = {}" using finished_counts [OF trace_reachable [OF assms(1)] assms(2,3)] by blast
  have n: "n = Suc (st_iter s)" "mset (map fst ms) = mset [0..<n]" "ms \<noteq> []" "fst (hd ms) = 0"
    using ok fin(1,3) run assms(3) by (auto simp: times_ok_def numbers_ok_def launched_def)
  obtain w ms' where ms: "ms = w # ms'" using n(3) by (cases ms) auto
  have "[0..<n] = 0 # [1..<n]" using n(1) by (simp add: upt_conv_Cons)
  then have "mset (map fst ms') = mset [1..<Suc (st_iter s)]" using n(1,2,4) ms by simp
  then show ?thesis using ok fin(3) ms obs
    by (intro exI [of _ w] exI [of _ ms']) (simp add: measured_def times_ok_def recorded_ok_def kept_def)
qed

text \<open>
  C25: A run that finishes has measured every iteration once: the recorded latencies are, in the order of the answers,
  the durations in milliseconds between the clock reading at the start of an inference and that at its end, one for each
  iteration and none for the warm-up. With latency groups, the group of a configuration has exactly the latencies of the
  iterations that use it; when only inference is measured the inputs are filled once, and all latencies go to the
  first group. The requested number of iterations was reached (a multiple of the number of requests for the
  asynchronous interface), every request is idle again, and the frames are those of the iterations.
\<close>

theorem bench_counts_iterations:
  assumes "bench_reachable c s" "0 < b_groups c" "st_pc s = Finished"
  shows "(\<exists>evs. bench_trace c evs s)
    \<and> (\<forall>evs. bench_trace c evs s \<longrightarrow>
        (\<exists>warm_up ms. measured evs = warm_up # ms \<and> mset (map fst ms) = mset [1..<Suc (st_iter s)]
          \<and> iq_latencies (st_queue s) = map (\<lambda>(n, ns). ns_to_ms ns) ms
          \<and> (b_pcseq c \<longrightarrow> (\<forall>g < b_groups c. iq_latency_groups (st_queue s) ! g = map (\<lambda>(n, ns). ns_to_ms ns)
                (filter (\<lambda>(n, ns). (if b_inferenceOnly c then 0 else (n - 1) mod b_groups c) = g) ms)))))
    \<and> b_niter c \<le> st_iter s \<and> (b_async c \<longrightarrow> b_nireq c dvd st_iter s)
    \<and> mset (iq_idleIds (st_queue s)) = mset [0..<b_nireq c] \<and> st_run s = {}
    \<and> st_frames s = (\<Sum>k < st_iter s. b_batch c k)"
proof -
  have "\<exists>warm_up ms. measured evs = warm_up # ms \<and> mset (map fst ms) = mset [1..<Suc (st_iter s)]
      \<and> iq_latencies (st_queue s) = map (\<lambda>(n, ns). ns_to_ms ns) ms
      \<and> (b_pcseq c \<longrightarrow> (\<forall>g < b_groups c. iq_latency_groups (st_queue s) ! g = map (\<lambda>(n, ns). ns_to_ms ns)
            (filter (\<lambda>(n, ns). (if b_inferenceOnly c then 0 else (n - 1) mod b_groups c) = g) ms)))"
    if "bench_trace c evs s" for evs
  proof -
    note tr = that
    obtain w ms where ms: "measured evs = w # ms" "mset (map fst ms) = mset [1..<Suc (st_iter s)]"
      "iq_latencies (st_queue s) = as_latencies ms"
      "b_pcseq c \<Longrightarrow> \<forall>g < b_groups c. iq_latency_groups (st_queue s) ! g = as_latencies (filter (\<lambda>(n, ns). group_of c n = g) ms)"
      using finished_times [OF tr assms(2,3)] by blast
    have "fst x \<noteq> 0" if "x \<in> set ms" for x
    proof -
      have "fst x \<in># mset (map fst ms)" using that by simp
      then show ?thesis unfolding ms(2) by auto
    qed
    then have "filter (\<lambda>(n, ns). group_of c n = g) ms
        = filter (\<lambda>(n, ns). (if b_inferenceOnly c then 0 else (n - 1) mod b_groups c) = g) ms" if "b_pcseq c" for g
      using that by (intro filter_cong) (auto simp: group_of_def)
    then show ?thesis using ms by (intro exI [of _ w] exI [of _ ms]) (simp add: as_latencies_def)
  qed
  then show ?thesis using reachable_trace [OF assms(1)] finished_counts [OF assms] by blast
qed

theorem bench_counts_iterations_witness:
  "\<exists>s :: nat bench_state. \<exists>evs ns. st_pc s = Finished \<and> bench_trace (demo_bench False) evs s
     \<and> iq_latencies (st_queue s) = [ns_to_ms ns] \<and> st_frames s = 4"
proof -
  obtain s :: "nat bench_state" where s: "quiet (demo_bench False) s Finished False 1" using demo_finished by blast
  then have r: "bench_reachable (demo_bench False) s" "st_pc s = Finished" "st_iter s = 1"
    by (auto simp: quiet_def dest: run_reachable)
  have g: "0 < b_groups (demo_bench False)" by (simp add: demo_bench_def)
  note all = bench_counts_iterations [OF r(1) g r(2)]
  obtain evs where evs: "bench_trace (demo_bench False) evs s" using all by blast
  then obtain ms where "mset (map fst ms) = mset [1..<Suc (st_iter s)]"
      "iq_latencies (st_queue s) = map (\<lambda>(n, ns). ns_to_ms ns) ms" using all by blast
  moreover have "length ms = 1" using \<open>mset (map fst ms) = _\<close> r(3) by (metis One_nat_def diff_Suc_1 length_map length_upt size_mset)
  ultimately have "\<exists>ns. iq_latencies (st_queue s) = [ns_to_ms ns]" by (auto simp: length_Suc_conv)
  moreover have "st_frames s = 4" using all r(3) by (simp add: demo_bench_def)
  ultimately show ?thesis using r(2) evs by blast
qed

end
