(* ===== verification/Sample_Npy.thy ===== *)
theory Sample_Npy
  imports Sample_Formats Std_Text
begin

text \<open>
  The NumPy reader of the samples (\<open>samples/cpp/common/format_reader/src/npy.cpp\<close>) and the registry of
  all readers of a build without OpenCV. As in \<open>Sample_Formats\<close>, \<open>None\<close> is undefined behaviour and \<open>Inl\<close>
  the name of an exception. A position that is not found is \<open>npos\<close>, which the code keeps as the \<open>int\<close> -1:
  the end of a slice is an option, and a start after \<open>npos\<close> is 0.
\<close>

section \<open>Searching the header\<close>

fun find_str :: "string \<Rightarrow> string \<Rightarrow> nat option" where
  "find_str p [] = (if p = [] then Some 0 else None)"
| "find_str p (c # s) = (if is_prefix p (c # s) then Some 0 else map_option Suc (find_str p s))"

definition find_from :: "char \<Rightarrow> nat \<Rightarrow> string \<Rightarrow> nat option" where
  "find_from d pos s = map_option ((+) pos) (find_char d (drop pos s))"

definition find_last_upto :: "char \<Rightarrow> nat \<Rightarrow> string \<Rightarrow> nat option" where
  "find_last_upto d pos s = find_last_char d (take (pos + 1) s)"

text \<open>One position further: \<open>npos + 1\<close> is 0.\<close>

definition after :: "nat option \<Rightarrow> nat" where
  "after p = (case p of None \<Rightarrow> 0 | Some i \<Rightarrow> i + 1)"

text \<open>\<open>header.substr(from, to - from)\<close>: a negative count is larger than any string.\<close>

definition slice :: "string \<Rightarrow> nat \<Rightarrow> nat option \<Rightarrow> string" where
  "slice s start stop = (case stop of None \<Rightarrow> drop start s | Some e \<Rightarrow> take (e - start) (drop start s))"

text \<open>Extracting \<open>size_t\<close> values until one fails; a minus sign wraps the value.\<close>

function read_sizes :: "string \<Rightarrow> u64 list" where
  "read_sizes s =
     (let s1 = skip_ws s;
          neg = (s1 \<noteq> [] \<and> hd s1 = CHR ''-'');
          s2 = (if s1 \<noteq> [] \<and> (hd s1 = CHR ''-'' \<or> hd s1 = CHR ''+'') then tl s1 else s1)
      in case get_nat 10 (if s2 \<noteq> [] \<and> is_space (hd s2) then [] else s2) of
           None \<Rightarrow> []
         | Some (v, rest) \<Rightarrow>
             if v \<ge> 18446744073709551616 then []
             else (if neg then - of_nat v else of_nat v) # read_sizes rest)"
  by pat_completeness auto

lemma get_nat_shorter: "get_nat base s = Some (v, rest) \<Longrightarrow> length rest < length s"
proof -
  assume "get_nat base s = Some (v, rest)"
  then have ds: "takeWhile (is_digit base) (skip_ws s) \<noteq> []" "rest = dropWhile (is_digit base) (skip_ws s)"
    by (auto simp: get_nat_def Let_def split: if_splits)
  have "length (takeWhile (is_digit base) (skip_ws s)) + length rest = length (skip_ws s)"
    unfolding ds(2) by (metis length_append takeWhile_dropWhile_id)
  moreover have "length (skip_ws s) \<le> length s" by (simp add: skip_ws_def length_dropWhile_le)
  ultimately show ?thesis using ds(1) by (cases "takeWhile (is_digit base) (skip_ws s)") auto
qed

lemma skip_ws_shorter: "length (skip_ws s) \<le> length s"
  by (simp add: skip_ws_def length_dropWhile_le)

termination read_sizes
proof (relation "measure length")
  show "wf (measure length)" by simp
next
  fix s s1 :: string and neg s2 x and p :: "nat \<times> string" and v rest
  assume a: "s1 = skip_ws s" "s2 = (if s1 \<noteq> [] \<and> (hd s1 = CHR ''-'' \<or> hd s1 = CHR ''+'') then tl s1 else s1)"
    "get_nat 10 (if s2 \<noteq> [] \<and> is_space (hd s2) then [] else s2) = Some p" "(v, rest) = p"
  then have "length rest < length s2"
    using get_nat_shorter [of 10 _ v rest] by (fastforce split: if_splits)
  moreover have "length s2 \<le> length s1" using a(2) by (auto split: if_splits)
  ultimately show "(rest, s) \<in> measure length" using a(1) skip_ws_shorter [of s] by simp
qed

declare read_sizes.simps [simp del]

section \<open>NumpyArray\<close>

record npy_reader = reader +
  np_type :: string
  np_size :: u64

definition blank_npy :: npy_reader where
  "blank_npy = \<lparr>rd_height = 0, rd_width = 0, rd_data = None, rd_shape = [], np_type = [], np_size = 0\<rparr>"

text \<open>The loop that fills the data: the buffer is zero when nothing can be read.\<close>

fun npy_bytes :: "nat \<Rightarrow> ifs \<Rightarrow> u8 list" where
  "npy_bytes 0 s = []"
| "npy_bytes (Suc n) s = (let (b, s) = is_read 1 s in (case b of [] \<Rightarrow> 0 | x # _ \<Rightarrow> x) # npy_bytes n s)"

definition fortran_value :: "string \<Rightarrow> string option" where
  "fortran_value header =
     (case find_str (CHR 0x27 # ''fortran_order'' @ [CHR 0x27, CHR '':'']) header of
        None \<Rightarrow> None
      | Some idx \<Rightarrow>
          let start = after (find_last_upto CHR '' '' (idx + 16) header)
          in Some (slice header start (find_from CHR '','' start header)))"

definition npy_shape :: "string \<Rightarrow> u64 list option" where
  "npy_shape header =
     (case find_str (CHR 0x27 # ''shape'' @ [CHR 0x27, CHR '':'']) header of
        None \<Rightarrow> None
      | Some idx \<Rightarrow>
          let start = after (find_from CHR ''('' (idx + 8) header);
              shape_data = slice header start (find_from CHR '')'' start header)
          in Some (read_sizes (filter (\<lambda>c. c \<noteq> CHR '','') shape_data)))"

definition npy_descr :: "string \<Rightarrow> string option" where
  "npy_descr header =
     (case find_str (CHR 0x27 # ''descr'' @ [CHR 0x27, CHR '':'']) header of
        None \<Rightarrow> None
      | Some idx \<Rightarrow>
          let start = after (find_from CHR 0x27 (idx + 8) header)
          in Some (slice header start (find_from CHR 0x27 start header)))"

definition shape_height :: "u64 list \<Rightarrow> u64" where
  "shape_height shape = (if shape = [] then 0 else if length shape \<ge> 2 then shape ! 1 else 1)"

definition shape_width :: "u64 list \<Rightarrow> u64" where
  "shape_width shape = (if shape = [] then 0 else if length shape \<ge> 3 then shape ! 2 else 1)"

text \<open>A \<open>header_size\<close> that could not be read is not initialised.\<close>

definition NumpyArray :: "(nat \<Rightarrow> bool) \<Rightarrow> string \<Rightarrow> u8 list option \<Rightarrow> npy_reader outcome" where
  "NumpyArray can_alloc filename content =
     (if extension filename \<noteq> Some ''npy'' then ret blank_npy
      else case content of
        None \<Rightarrow> ret blank_npy
      | Some bytes \<Rightarrow>
          let (magic, s) = is_read 6 (open_file bytes)
          in if magic \<noteq> [0x93, 78, 85, 77, 80, 89] then ret blank_npy
             else
               let (_, s) = is_read 2 s;
                   (size_b, s) = is_read 2 s
               in if is_fail s then None
                  else
                    let header_size = le_value size_b;
                        (header_b, s) = is_read header_size s;
                        header = map (\<lambda>b. char_of (unat b)) header_b @ replicate (header_size - length header_b) CHR '' ''
                    in if fortran_value header \<noteq> Some ''False'' then ret blank_npy
                       else (case npy_shape header of
                           None \<Rightarrow> ret blank_npy
                         | Some shape \<Rightarrow>
                             let rd = blank_npy\<lparr>rd_shape := shape, rd_height := shape_height shape, rd_width := shape_width shape\<rparr>
                             in (case npy_descr header of
                                 None \<Rightarrow> ret rd
                               | Some descr \<Rightarrow>
                                   let n = (if is_fail s then of_nat (length bytes) + 1 else of_nat (length (is_rest s))) :: u64
                                   in if \<not> can_alloc (unat n) then throw ''bad_alloc''
                                      else ret (rd\<lparr>np_type := descr, np_size := n, rd_data := Some (npy_bytes (unat n) s)\<rparr>))))"

definition npy_getData :: "npy_reader \<Rightarrow> u64 \<Rightarrow> u64 \<Rightarrow> u8 list option" where
  "npy_getData r width height = rd_data r"

section \<open>All readers\<close>

text \<open>The readers a build without OpenCV registers, in the order of \<open>format_reader.cpp\<close>.\<close>

datatype any_reader = Mnist_r reader | Yuv_r yuv_reader | Npy_r npy_reader | Bmp_r reader

definition mnist_getData :: "reader \<Rightarrow> u64 \<Rightarrow> u64 \<Rightarrow> u8 list option" where
  "mnist_getData r width height =
     (if width * height \<noteq> 0 \<and> rd_width r * rd_height r \<noteq> width * height then None else rd_data r)"

definition reader_getData :: "any_reader \<Rightarrow> u64 \<Rightarrow> u64 \<Rightarrow> u8 list option" where
  "reader_getData r width height =
     (case r of
        Mnist_r r \<Rightarrow> mnist_getData r width height
      | Yuv_r r \<Rightarrow> yuv_getData r width height
      | Npy_r r \<Rightarrow> npy_getData r width height
      | Bmp_r r \<Rightarrow> bmp_getData r width height)"

definition made :: "('r \<Rightarrow> u64) \<Rightarrow> ('r \<Rightarrow> any_reader) \<Rightarrow> 'r outcome \<Rightarrow> (u64 \<times> any_reader) outcome" where
  "made sz con r = andthen r (\<lambda>r. ret (sz r, con r))"

definition CreateFormatReader :: "(nat \<Rightarrow> bool) \<Rightarrow> (nat \<Rightarrow> u8) \<Rightarrow> (string \<Rightarrow> u8 list option) \<Rightarrow> string \<Rightarrow> (any_reader option) outcome" where
  "CreateFormatReader can_alloc junk fs filename =
     CreateReader
       [made mnist_size Mnist_r (MnistUbyte can_alloc junk (fs filename)),
        made yr_size Yuv_r (YUV_NV12 can_alloc filename (fs filename)),
        made np_size Npy_r (NumpyArray can_alloc filename (fs filename)),
        made bmp_size Bmp_r (BitMap can_alloc junk (fs filename))]"

section \<open>Reading back an array\<close>

lemma is_prefix_simps [simp]:
  "is_prefix [] s" "\<not> is_prefix (x # p) []" "is_prefix (x # p) (y # s) \<longleftrightarrow> x = y \<and> is_prefix p s"
  by (auto simp: is_prefix_def)

lemma find_str_quiet: "p \<noteq> [] \<Longrightarrow> hd p \<notin> set a \<Longrightarrow> find_str p (a @ b) = map_option ((+) (length a)) (find_str p b)"
proof (induction a)
  case Nil
  then show ?case by (cases "find_str p b") simp_all
next
  case (Cons c a)
  then obtain x q where p: "p = x # q" "x \<noteq> c" by (cases p) auto
  then show ?case using Cons by (cases "find_str p b") (simp_all add: eq_commute [of x c])
qed

text \<open>What \<open>numpy.save\<close> writes for an array in row-major order.\<close>

fun dims_text :: "nat list \<Rightarrow> string" where
  "dims_text [] = []"
| "dims_text [d] = show_nat 10 d"
| "dims_text (d # ds) = show_nat 10 d @ '', '' @ dims_text ds"

definition npy_header :: "string \<Rightarrow> nat list \<Rightarrow> string \<Rightarrow> string" where
  "npy_header descr dims pad =
     ''{'' @ CHR 0x27 # ''descr'' @ CHR 0x27 # '': '' @ CHR 0x27 # descr @ CHR 0x27 # '', '' @ CHR 0x27 # ''fortran_order''
     @ CHR 0x27 # '': False, '' @ CHR 0x27 # ''shape'' @ CHR 0x27 # '': ('' @ dims_text dims
     @ (if length dims = 1 then '','' else []) @ ''), }'' @ pad"

definition npy_file :: "string \<Rightarrow> nat list \<Rightarrow> string \<Rightarrow> u8 list \<Rightarrow> u8 list" where
  "npy_file descr dims pad contents =
     (let h = npy_header descr dims pad
      in [0x93, 78, 85, 77, 80, 89, 1, 0, of_nat (length h), of_nat (length h div 256)]
         @ map (\<lambda>c. of_nat (of_char c)) h @ contents)"

definition plain_descr :: "string \<Rightarrow> bool" where
  "plain_descr t \<longleftrightarrow> t \<noteq> [] \<and> hd t \<in> {CHR ''<'', CHR ''>'', CHR ''|''} \<and> CHR 0x27 \<notin> set t"

lemma find_str_lead:
  assumes "c \<noteq> CHR 0x27" "c \<noteq> CHR ''f''" "c \<noteq> CHR ''s''"
    and k: "k = CHR 0x27 # ''fortran_order'' @ [CHR 0x27, CHR '':''] \<or> k = CHR 0x27 # ''shape'' @ [CHR 0x27, CHR '':'']"
  shows "find_str k (''{'' @ CHR 0x27 # ''descr'' @ CHR 0x27 # '': '' @ CHR 0x27 # c # b) = map_option ((+) 12) (find_str k b)"
  using k
proof
  assume "k = CHR 0x27 # ''fortran_order'' @ [CHR 0x27, CHR '':'']"
  then show ?thesis using assms(1,2) by (cases "find_str k b") auto
next
  assume "k = CHR 0x27 # ''shape'' @ [CHR 0x27, CHR '':'']"
  then show ?thesis using assms(1,3) by (cases "find_str k b") auto
qed

lemma find_str_key:
  assumes "plain_descr t"
    and k: "k = CHR 0x27 # ''fortran_order'' @ [CHR 0x27, CHR '':''] \<or> k = CHR 0x27 # ''shape'' @ [CHR 0x27, CHR '':'']"
  shows "find_str k (''{'' @ CHR 0x27 # ''descr'' @ CHR 0x27 # '': '' @ CHR 0x27 # t @ CHR 0x27 # '', '' @ b)
    = map_option ((+) (length t + 14)) (find_str k b)"
proof -
  obtain c u where t: "t = c # u" "c \<noteq> CHR 0x27" "c \<noteq> CHR ''f''" "c \<noteq> CHR ''s''" "CHR 0x27 \<notin> set u"
    using assms(1) by (cases t) (auto simp: plain_descr_def)
  have u: "find_str k (u @ b) = map_option ((+) (length u)) (find_str k b)" for b
    using t(5) k by (intro find_str_quiet) auto
  have q: "find_str k (CHR 0x27 # '', '' @ b) = map_option ((+) 3) (find_str k b)" using k
    by (elim disjE) (cases "find_str k b"; simp)+
  show ?thesis
    unfolding t(1) append_Cons find_str_lead [OF t(2-4) k, unfolded append_Cons append_Nil] append_Nil u
    using q by (cases "find_str k b") simp_all
qed

lemma fortran_header:
  assumes "plain_descr t"
  shows "fortran_value (npy_header t dims pad) = Some ''False''"
proof -
  let ?k = "CHR 0x27 # ''fortran_order'' @ [CHR 0x27, CHR '':'']"
  define a where "a = ''{'' @ CHR 0x27 # ''descr'' @ CHR 0x27 # '': '' @ CHR 0x27 # t @ CHR 0x27 # '', ''"
  define b where "b = '' '' @ CHR 0x27 # ''shape'' @ CHR 0x27 # '': ('' @ dims_text dims
     @ (if length dims = 1 then '','' else []) @ ''), }'' @ pad"
  have h: "npy_header t dims pad = a @ ?k @ '' False,'' @ b" by (simp add: npy_header_def a_def b_def)
  have "find_str ?k (?k @ x) = Some 0" for x by simp
  moreover have "find_str ?k (a @ ?k @ x) = map_option ((+) (length t + 14)) (find_str ?k (?k @ x))" for x
    using find_str_key [OF assms, of ?k "?k @ x"] by (simp only: a_def append_assoc append_Cons append_Nil simp_thms)
  ultimately have at: "find_str ?k (a @ ?k @ x) = Some (length a)" for x
    by (simp only: option.map) (simp add: a_def)
  have "find_last_upto CHR '' '' (length a + 16) (a @ ?k @ '' False,'' @ b) = Some (length (a @ ?k))"
    unfolding find_last_upto_def using find_last_char_split [of "CHR '' ''" "[]" "a @ ?k"] by simp
  then show ?thesis
    unfolding fortran_value_def h at by (simp add: after_def slice_def find_from_def)
qed

lemma read_sizes_Cons:
  assumes "d < 18446744073709551616" "rest = [] \<or> \<not> is_digit 10 (hd rest)"
  shows "read_sizes (show_nat 10 d @ rest) = of_nat d # read_sizes rest"
proof -
  obtain c u where s: "show_nat 10 d = c # u" "is_digit 10 c"
    using show_nat_digits [of 10 d] by (cases "show_nat 10 d") auto
  then have "\<not> is_space c" "c \<noteq> CHR ''-''" "c \<noteq> CHR ''+''"
    using digit_not_space by (auto simp: is_digit_def digit_value_def)
  moreover from this have "skip_ws (show_nat 10 d @ rest) = show_nat 10 d @ rest" by (simp add: s(1) skip_ws_def)
  ultimately show ?thesis
    using get_nat_show [of 10 rest d] assms s(1) by (subst read_sizes.simps) (simp add: Let_def)
qed

lemma read_sizes_space: "read_sizes (CHR '' '' # s) = read_sizes s"
proof -
  have "skip_ws (CHR '' '' # s) = skip_ws s" by (simp add: skip_ws_def is_space_def)
  then show ?thesis by (subst (1 2) read_sizes.simps) (simp add: Let_def)
qed

lemma dims_chars: "filter (\<lambda>c. c \<noteq> CHR '','') (show_nat 10 d) = show_nat 10 d" "CHR '')'' \<notin> set (show_nat 10 d)"
  using show_nat_digits [of 10 d] by (auto simp: filter_id_conv is_digit_def digit_value_def)

lemma read_dims:
  "\<forall>d \<in> set dims. d < 18446744073709551616 \<Longrightarrow>
    read_sizes (filter (\<lambda>c. c \<noteq> CHR '','') (dims_text dims)) = map of_nat dims"
proof (induction dims rule: dims_text.induct)
  case 1
  have "get_nat 10 [] = None" by (simp add: get_nat_def skip_ws_def)
  then show ?case by (subst dims_text.simps, subst read_sizes.simps) (simp add: skip_ws_def)
next
  case (2 d)
  have "read_sizes [] = []" by (subst read_sizes.simps) (simp add: skip_ws_def get_nat_def)
  then show ?case using 2 read_sizes_Cons [of d "[]"] by (simp add: dims_chars)
next
  case (3 d e ds)
  have "\<not> is_digit 10 CHR '' ''" by (simp add: is_digit_def digit_value_def)
  then show ?case using 3 by (simp add: dims_chars read_sizes_Cons read_sizes_space)
qed

lemma dims_no_paren: "CHR '')'' \<notin> set (dims_text dims)"
  by (induction dims rule: dims_text.induct) (auto simp: dims_chars)

lemma shape_header:
  assumes "plain_descr t" "\<forall>d \<in> set dims. d < 18446744073709551616"
  shows "npy_shape (npy_header t dims pad) = Some (map of_nat dims)"
proof -
  let ?k = "CHR 0x27 # ''shape'' @ [CHR 0x27, CHR '':'']"
  define a where "a = ''{'' @ CHR 0x27 # ''descr'' @ CHR 0x27 # '': '' @ CHR 0x27 # t @ CHR 0x27 # '', '' @ CHR 0x27 # ''fortran_order'' @ CHR 0x27 # '': False, ''"
  define ds where "ds = dims_text dims @ (if length dims = 1 then '','' else [])"
  have h: "npy_header t dims pad = a @ ?k @ '' ('' @ ds @ CHR '')'' # '', }'' @ pad"
    by (simp add: npy_header_def a_def ds_def)
  let ?m = "CHR 0x27 # ''fortran_order'' @ CHR 0x27 # '': False, ''"
  have "find_str ?k (?m @ ?k @ x) = Some 24" for x by simp
  moreover have "find_str ?k (a @ ?k @ x) = map_option ((+) (length t + 14)) (find_str ?k (?m @ ?k @ x))" for x
    using find_str_key [OF assms(1), of ?k "?m @ ?k @ x"]
    by (simp only: a_def append_assoc append_Cons append_Nil simp_thms)
  ultimately have at: "find_str ?k (a @ ?k @ x) = Some (length a)" for x
    by (simp only: option.map) (simp add: a_def)
  have f: "find_char CHR '')'' (ds @ CHR '')'' # '', }'' @ pad) = Some (length ds)"
    using dims_no_paren by (intro find_char_split) (simp add: ds_def)
  have "filter (\<lambda>c. c \<noteq> CHR '','') ds = filter (\<lambda>c. c \<noteq> CHR '','') (dims_text dims)" by (simp add: ds_def)
  then show ?thesis
    unfolding npy_shape_def h at using f read_dims [OF assms(2)] by (simp add: after_def slice_def find_from_def)
qed

lemma descr_header:
  assumes "plain_descr t"
  shows "npy_descr (npy_header t dims pad) = Some t"
proof -
  define b where "b = '', '' @ CHR 0x27 # ''fortran_order''
     @ CHR 0x27 # '': False, '' @ CHR 0x27 # ''shape'' @ CHR 0x27 # '': ('' @ dims_text dims
     @ (if length dims = 1 then '','' else []) @ ''), }'' @ pad"
  have h: "npy_header t dims pad = ''{'' @ CHR 0x27 # ''descr'' @ CHR 0x27 # '': '' @ CHR 0x27 # t @ CHR 0x27 # b"
    by (simp add: npy_header_def b_def)
  have "find_char CHR 0x27 (t @ CHR 0x27 # b) = Some (length t)"
    using assms by (intro find_char_split) (simp add: plain_descr_def)
  then show ?thesis
    unfolding npy_descr_def h by (simp add: after_def slice_def find_from_def)
qed

lemma npy_bytes_rest: "\<not> is_fail s \<Longrightarrow> npy_bytes (length (is_rest s)) s = is_rest s"
proof (induction "is_rest s" arbitrary: s)
  case Nil
  then show ?case by (simp flip: Nil.hyps(1))
next
  case (Cons x xs)
  then have "npy_bytes (length xs) (s\<lparr>is_rest := xs, is_fail := False\<rparr>) = xs"
    using Cons.hyps(1) [of "s\<lparr>is_rest := xs, is_fail := False\<rparr>"] by simp
  then show ?case using Cons.prems by (simp add: is_read_def flip: Cons.hyps(2))
qed

lemma NumpyArray_reads:
  assumes "plain_descr descr" "\<forall>d \<in> set dims. d < 18446744073709551616"
    and "length (npy_header descr dims pad) < 65536" "length contents < 18446744073709551616"
    and "extension filename = Some ''npy''" "can_alloc (length contents)"
  shows "NumpyArray can_alloc filename (Some (npy_file descr dims pad contents))
    = ret \<lparr>rd_height = shape_height (map of_nat dims), rd_width = shape_width (map of_nat dims),
           rd_data = Some contents, rd_shape = map of_nat dims, np_type = descr, np_size = of_nat (length contents)\<rparr>"
proof -
  define h where "h = npy_header descr dims pad"
  define hb :: "u8 list" where "hb = map (\<lambda>c. of_nat (of_char c)) h"
  define m :: "u8 list" where "m = [0x93, 78, 85, 77, 80, 89]"
  define v :: "u8 list" where "v = [1, 0]"
  define z :: "u8 list" where "z = [of_nat (length h), of_nat (length h div 256)]"
  have f: "npy_file descr dims pad contents = m @ v @ z @ hb @ contents" "length m = 6" "length v = 2" "length z = 2"
    by (simp_all add: npy_file_def h_def hb_def m_def v_def z_def Let_def)
  have l: "le_value z = length hb"
    using assms(3) by (simp add: z_def h_def hb_def unsigned_of_nat take_bit_eq_mod)
  have c: "map (\<lambda>b. char_of (unat b)) hb = h"
  proof -
    have "char_of (unat (of_nat (of_char c) :: u8)) = c" for c
    proof -
      have "of_char c < (256 :: nat)" using nat_of_char_less_256 by simp
      then show ?thesis by (simp add: unsigned_of_nat take_bit_eq_mod)
    qed
    then show ?thesis by (simp add: hb_def o_def)
  qed
  note hd = fortran_header [OF assms(1), of dims pad] shape_header [OF assms(1,2), of pad] descr_header [OF assms(1), of dims pad]
  have rd: "npy_bytes (length contents) ((open_file (npy_file descr dims pad contents))\<lparr>is_rest := contents, is_fail := False\<rparr>) = contents"
    using npy_bytes_rest [of "(open_file (npy_file descr dims pad contents))\<lparr>is_rest := contents, is_fail := False\<rparr>"] by simp
  show ?thesis
    using assms(4-6) rd
    by (simp add: NumpyArray_def m_def [symmetric] f open_file_def l c hd [folded h_def] blank_npy_def Let_def unat_of_nat_u64)
qed

text \<open>A file whose first byte is not zero has no MNIST magic number.\<close>

lemma not_mnist:
  assumes "a \<noteq> 0"
  shows "MnistUbyte can_alloc junk (Some (a # b # c # d # r)) = Some (Inr blank_reader)"
proof -
  have bd: "unat a < 256" "unat b < 256" "unat c < 256" "unat d < 256" by (rule byte_bound)+
  have "0 < unat a" using assms by (simp add: unat_gt_0)
  then have be: "be_value [a, b, c, d] \<noteq> 2051" "be_value [a, b, c, d] < 4294967296"
    using bd by (simp_all add: be_value_def)
  have "(of_nat (be_value [a, b, c, d]) :: u32) \<noteq> 2051"
  proof
    assume "(of_nat (be_value [a, b, c, d]) :: u32) = 2051"
    then have "unat (of_nat (be_value [a, b, c, d]) :: u32) = 2051" by simp
    then show False using be by (simp add: unsigned_of_nat take_bit_nat_eq_self)
  qed
  then show ?thesis
    using read_int_bytes [of "open_file (a # b # c # d # r)" "[a, b, c, d]" r]
    by (simp add: MnistUbyte_def open_file_def)
qed

lemma npy_opened:
  assumes "plain_descr descr" "\<forall>d \<in> set dims. d < 18446744073709551616"
    and "length (npy_header descr dims pad) < 65536"
    and "contents \<noteq> []" "length contents < 18446744073709551616" "can_alloc (length contents)"
    and "extension filename = Some ''npy''" "fs filename = Some (npy_file descr dims pad contents)"
  shows "CreateFormatReader can_alloc junk fs filename
    = ret (Some (Npy_r \<lparr>rd_height = shape_height (map of_nat dims), rd_width = shape_width (map of_nat dims),
        rd_data = Some contents, rd_shape = map of_nat dims, np_type = descr, np_size = of_nat (length contents)\<rparr>))"
proof -
  have sz: "(of_nat (length contents) :: u64) \<noteq> 0"
  proof
    assume "(of_nat (length contents) :: u64) = 0"
    then have "unat (of_nat (length contents) :: u64) = 0" by simp
    then show False using assms(4,5) by (simp add: unat_of_nat_u64)
  qed
  have "MnistUbyte can_alloc junk (Some (npy_file descr dims pad contents)) = Some (Inr blank_reader)"
    by (simp add: npy_file_def Let_def not_mnist)
  moreover note NumpyArray_reads [where can_alloc = can_alloc, OF assms(1-3,5,7,6)]
  ultimately show ?thesis
    using sz by (simp add: CreateFormatReader_def assms(7,8) made_def mnist_size_def blank_reader_def YUV_NV12_def ret_def)
qed

text \<open>
  An array in row-major order that \<open>numpy.save\<close> has written is opened by the NumPy reader, whatever
  readers come before it in the registry, with its shape, its element type and all its bytes.
\<close>

theorem numpy_file_opened:
  assumes "plain_descr descr" "\<forall>d \<in> set dims. d < 18446744073709551616"
    and "length (npy_header descr dims pad) < 65536"
    and "contents \<noteq> []" "length contents < 18446744073709551616" "can_alloc (length contents)"
    and "extension filename = Some ''npy''" "fs filename = Some (npy_file descr dims pad contents)"
  shows "CreateFormatReader can_alloc junk fs filename
    = ret (Some (Npy_r \<lparr>rd_height = shape_height (map of_nat dims), rd_width = shape_width (map of_nat dims),
        rd_data = Some contents, rd_shape = map of_nat dims, np_type = descr, np_size = of_nat (length contents)\<rparr>))"
  using assms by (rule npy_opened [where can_alloc = can_alloc and fs = fs])

theorem numpy_file_opened_witness:
  "CreateFormatReader (\<lambda>n. True) (\<lambda>i. 0) (\<lambda>f. Some (npy_file ''|u1'' [2, 3] [CHR 0x0A] [1, 2, 3, 4, 5, 6])) ''a.npy''
    = ret (Some (Npy_r \<lparr>rd_height = 3, rd_width = 1, rd_data = Some [1, 2, 3, 4, 5, 6], rd_shape = [2, 3],
        np_type = ''|u1'', np_size = 6\<rparr>))"
  using numpy_file_opened [of "''|u1''" "[2, 3]" "[CHR 0x0A]" "[1, 2, 3, 4, 5, 6]" "\<lambda>n. True" "''a.npy''"
      "\<lambda>f. Some (npy_file ''|u1'' [2, 3] [CHR 0x0A] [1, 2, 3, 4, 5, 6])" "\<lambda>i. 0"]
  by (simp add: plain_descr_def npy_header_def show_nat.simps digit_char_def shape_height_def shape_width_def)

end
