(* ===== verification/Sample_Images.thy ===== *)
theory Sample_Images
  imports Sample_Formats
begin

text \<open>
  Writing and drawing on images (\<open>samples/common.hpp\<close>): \<open>writeOutputBmp\<close> and \<open>addRectangles\<close>.
  An image is a buffer of three bytes a pixel. \<open>None\<close> is a read or write outside it, or an overflow
  of an \<open>int\<close>.
\<close>

section \<open>Bytes of an int\<close>

text \<open>The conversion to \<open>int\<close> and the four bytes, each \<open>(unsigned char)(v >> 8 * k)\<close>.\<close>

definition as_int :: "int \<Rightarrow> int" where
  "as_int v = to_int (nat (v mod 4294967296))"

definition byte_at :: "nat \<Rightarrow> int \<Rightarrow> u8" where
  "byte_at k v = of_int (v div 2 ^ (8 * k))"

definition int_bytes :: "int \<Rightarrow> u8 list" where
  "int_bytes v = [byte_at 0 v, byte_at 1 v, byte_at 2 v, byte_at 3 v]"

lemma le_value_int_bytes: "le_value (int_bytes v) = nat (v mod 4294967296)"
proof -
  have b: "int (unat (of_int a :: u8)) = a mod 256" for a :: int
    by (simp add: unsigned_of_int take_bit_eq_mod)
  have d: "v div 65536 = v div 256 div 256" "v div 16777216 = v div 256 div 256 div 256"
    using zdiv_zmult2_eq [of 256 v 256] zdiv_zmult2_eq [of 256 v 65536] zdiv_zmult2_eq [of 65536 v 256] by simp_all
  have 1: "v mod 4294967296 = 256 * (v div 256 mod 16777216) + v mod 256"
    using zmod_zmult2_eq [of 16777216 v 256] by simp
  have 2: "v div 256 mod 16777216 = 256 * (v div 256 div 256 mod 65536) + v div 256 mod 256"
    using zmod_zmult2_eq [of 65536 "v div 256" 256] by simp
  have 3: "v div 256 div 256 mod 65536 = 256 * (v div 256 div 256 div 256 mod 256) + v div 256 div 256 mod 256"
    using zmod_zmult2_eq [of 256 "v div 256 div 256" 256] by simp
  have "int (le_value (int_bytes v))
      = v mod 256 + 256 * (v div 256 mod 256 + 256 * (v div 65536 mod 256 + 256 * (v div 16777216 mod 256)))"
    by (simp only: int_bytes_def byte_at_def le_value.simps of_nat_add of_nat_mult b of_nat_numeral of_nat_0
        mult_0_right mult_1_right add_0_right power_0 div_by_1 mult_numeral_1_right) simp
  also have "\<dots> = v mod 4294967296" by (simp only: 1 2 3 d) (simp only: add.commute)
  finally have "int (le_value (int_bytes v)) = v mod 4294967296" .
  then show ?thesis by linarith
qed

lemma length_int_bytes [simp]: "length (int_bytes v) = 4"
  by (simp add: int_bytes_def)

section \<open>writeOutputBmp\<close>

text \<open>
  The largest side is compared with the address of the function \<open>numeric_limits<int32_t>::max\<close>, which
  is not called: \<open>limit\<close>. The result is what the function returns and the bytes of the file.
\<close>

definition bmp_padding :: "nat \<Rightarrow> nat" where
  "bmp_padding width = (4 - (width * 3) mod 4) mod 4"

definition bmp_file_header :: "int \<Rightarrow> u8 list" where
  "bmp_file_header sizeAll = [66, 77] @ int_bytes sizeAll @ [0, 0, 0, 0] @ [54, 0, 0, 0]"

definition bmp_info_header :: "int \<Rightarrow> int \<Rightarrow> int \<Rightarrow> u8 list" where
  "bmp_info_header width negativeHeight sizeData =
     [40, 0, 0, 0] @ int_bytes width @ int_bytes negativeHeight @ [1, 0] @ [24, 0] @ [0, 0, 0, 0]
     @ int_bytes sizeData @ [19, 11, 0, 0] @ [19, 11, 0, 0] @ [0, 0, 0, 0] @ [0, 0, 0, 0]"

fun bmp_pixels :: "u8 list \<Rightarrow> nat \<Rightarrow> nat \<Rightarrow> nat list \<Rightarrow> u8 list option" where
  "bmp_pixels img width y [] = Some []"
| "bmp_pixels img width y (x # xs) = do {
     b \<leftarrow> arr_get img (y * width * 3 + x * 3);
     g \<leftarrow> arr_get img (y * width * 3 + x * 3 + 1);
     r \<leftarrow> arr_get img (y * width * 3 + x * 3 + 2);
     rest \<leftarrow> bmp_pixels img width y xs;
     Some (b # g # r # rest)
   }"

fun bmp_lines :: "u8 list \<Rightarrow> nat \<Rightarrow> nat list \<Rightarrow> u8 list option" where
  "bmp_lines img width [] = Some []"
| "bmp_lines img width (y # ys) = do {
     row \<leftarrow> bmp_pixels img width y [0..<width];
     rest \<leftarrow> bmp_lines img width ys;
     Some (row @ replicate (bmp_padding width) 0 @ rest)
   }"

definition writeOutputBmp :: "bool \<Rightarrow> nat \<Rightarrow> u8 list \<Rightarrow> nat \<Rightarrow> nat \<Rightarrow> (bool \<times> u8 list) outcome" where
  "writeOutputBmp can_open limit img height width =
     (if \<not> can_open then ret (False, [])
      else if \<not> (height < limit \<and> width < limit) then throw ''File size is too big: ''
      else if as_int (int height) = - 2147483648 then None
      else
        let padSize = bmp_padding width;
            sizeData = as_int (int (width * height * 3 + height * padSize));
            sizeAll = as_int (sizeData + 14 + 40);
            negativeHeight = - as_int (int height)
        in map_option (\<lambda>pixels. Inr (True, bmp_file_header sizeAll
               @ bmp_info_header (int width) negativeHeight sizeData @ pixels))
             (bmp_lines img width [0..<height]))"

section \<open>A written image is read back\<close>

definition image_row :: "u8 list \<Rightarrow> nat \<Rightarrow> nat \<Rightarrow> u8 list" where
  "image_row img width y = take (width * 3) (drop (y * width * 3) img)"

lemma bmp_pixels_row:
  assumes "(y + 1) * width * 3 \<le> length img" "k \<le> width"
  shows "bmp_pixels img width y [k..<width] = Some (take ((width - k) * 3) (drop (y * width * 3 + k * 3) img))"
  using assms(2)
proof (induction "width - k" arbitrary: k)
  case (Suc n)
  let ?p = "y * width * 3 + k * 3"
  have k: "k < width" using Suc.hyps(2) by simp
  have bound: "?p + 3 \<le> length img"
  proof -
    have "k * 3 + 3 \<le> width * 3" using k by simp
    then show ?thesis using assms(1) by (simp add: algebra_simps)
  qed
  have get: "arr_get img ?p = Some (img ! ?p)" "arr_get img (?p + 1) = Some (img ! (?p + 1))"
    "arr_get img (?p + 2) = Some (img ! (?p + 2))"
    using bound by (simp_all only: arr_get_def) simp_all
  have d: "drop ?p img = img ! ?p # img ! (?p + 1) # img ! (?p + 2) # drop (?p + 3) img"
    using bound by (simp add: Cons_nth_drop_Suc numeral_3_eq_3 add.assoc flip: Cons_nth_drop_Suc)
  have next_p: "y * width * 3 + Suc k * 3 = ?p + 3" by simp
  have n: "(width - k) * 3 = Suc (Suc (Suc ((width - Suc k) * 3)))" using k by simp
  have ih: "bmp_pixels img width y [Suc k..<width] = Some (take ((width - Suc k) * 3) (drop (?p + 3) img))"
    using Suc.hyps(1) [of "Suc k"] Suc.hyps(2) k unfolding next_p by simp
  have "[k..<width] = k # [Suc k..<width]" using k by (simp add: upt_conv_Cons)
  then show ?case unfolding n d using get ih by (simp del: upt_Suc)
qed simp

lemma bmp_lines_rows:
  assumes "h * width * 3 \<le> length img" "\<forall>y \<in> set ys. y < h"
  shows "bmp_lines img width ys = Some (body_bytes (map (image_row img width) ys) (replicate (length ys) (replicate (bmp_padding width) 0)))"
  using assms(2)
proof (induction ys)
  case (Cons y ys)
  have "(y + 1) * width * 3 \<le> h * width * 3" using Cons.prems by (intro mult_right_mono) simp_all
  then have "(y + 1) * width * 3 \<le> length img" using assms(1) by linarith
  from bmp_pixels_row [OF this, of 0] Cons show ?case by (simp add: body_bytes_def image_row_def)
qed (simp add: body_bytes_def)

lemma concat_rows:
  "concat (map (image_row img width) [k..<k + n]) = take (n * width * 3) (drop (k * width * 3) img)"
proof (induction n)
  case (Suc n)
  have "image_row img width (k + n) = take (width * 3) (drop (n * width * 3) (drop (k * width * 3) img))"
    by (simp add: image_row_def algebra_simps)
  then show ?case using Suc take_add [of "n * width * 3" "width * 3" "drop (k * width * 3) img"]
    by (simp add: algebra_simps)
qed simp

lemma bmp_padding_mod: "bmp_padding width = width mod 4"
proof -
  have "width * 3 mod 4 = width mod 4 * 3 mod 4" by (simp add: mod_mult_left_eq)
  moreover have "width mod 4 = 0 \<or> width mod 4 = 1 \<or> width mod 4 = 2 \<or> width mod 4 = 3"
    using mod_less_divisor [of 4 width] by linarith
  ultimately show ?thesis by (auto simp: bmp_padding_def)
qed

lemma bmp_written_read:
  assumes "length img = width * 3 * height" "0 < height" "height < 2147483648" "width < 2147483648"
    and "height < limit" "width < limit" "can_alloc (width * 3 * height)"
  shows "\<exists>bytes. writeOutputBmp True limit img height width = ret (True, bytes)
    \<and> BitMap can_alloc junk (Some bytes) = Some (Inr \<lparr>rd_height = of_nat height, rd_width = of_nat width,
        rd_data = Some img, rd_shape = [of_nat height, of_nat width]\<rparr>)"
proof -
  let ?rows = "map (image_row img width) [0..<height]" and ?pads = "replicate height (replicate (bmp_padding width) 0)"
  define sd where "sd = as_int (int (width * height * 3 + height * bmp_padding width))"
  define sa where "sa = as_int (sd + 14 + 40)"
  have l: "height * width * 3 \<le> length img" using assms(1) by (simp add: ac_simps)
  have h: "as_int (int height) = int height" using assms(3) by (simp add: as_int_def to_int_def)
  have lines: "bmp_lines img width [0..<height] = Some (body_bytes ?rows ?pads)"
    using bmp_lines_rows [OF l, of "[0..<height]"] by simp
  let ?info = "bmp_info_header (int width) (- int height) sd"
  let ?bytes = "bmp_file_header sa @ ?info @ body_bytes ?rows ?pads"
  have w: "writeOutputBmp True limit img height width = ret (True, ?bytes)"
    using assms(3,5,6) by (simp add: writeOutputBmp_def h lines ret_def sd_def sa_def Let_def)
  have info: "length ?info = 40" "parse_info ?info = \<lparr>bi_width = int width,
      bi_height = (if True then - int height else int height), bi_bits = 24, bi_compression = 0\<rparr>"
  proof -
    show "length ?info = 40" by (simp add: bmp_info_header_def)
    have "to_int (nat (int width mod 4294967296)) = int width" "to_int (nat (- int height mod 4294967296)) = - int height"
      using assms(2-4) by (simp_all add: to_int_def zmod_zminus1_eq_if)
    then show "parse_info ?info = \<lparr>bi_width = int width, bi_height = (if True then - int height else int height),
        bi_bits = 24, bi_compression = 0\<rparr>"
      by (simp add: parse_info_def bmp_info_header_def le_value_int_bytes)
  qed
  have rows: "length ?rows = height" "length ?pads = height" "\<forall>r \<in> set ?rows. length r = width * 3"
      "\<forall>p \<in> set ?pads. length p = width mod 4"
  proof -
    have "length (image_row img width y) = width * 3" if "y < height" for y
    proof -
      have "(y + 1) * width * 3 \<le> height * width * 3" using that by (intro mult_right_mono) simp_all
      then show ?thesis using l by (simp add: image_row_def algebra_simps)
    qed
    then show "\<forall>r \<in> set ?rows. length r = width * 3" by simp
  qed (simp_all add: bmp_padding_mod)
  have "BitMap can_alloc junk (Some ?bytes) = Some (Inr \<lparr>rd_height = of_nat height, rd_width = of_nat width,
        rd_data = Some (concat (if True then ?rows else rev ?rows)), rd_shape = [of_nat height, of_nat width]\<rparr>)"
    by (rule bmp_read_rows [where fsize = "int_bytes sa" and reserved = "[0, 0, 0, 0]" and offset = "[54, 0, 0, 0]"
          and info = ?info and gap = "[]" and tail = "[]" and pads = ?pads, OF _ _ _ _ info(1) _ info(2) rows])
      (use assms in \<open>simp_all add: bmp_file_header_def\<close>)
  moreover have "concat ?rows = img"
    using concat_rows [of img width 0 height] assms(1) by (simp add: ac_simps)
  ultimately show ?thesis using w by auto
qed

text \<open>
  An image written by \<open>writeOutputBmp\<close> and read by the BMP reader of the samples is the same image: its
  sides and its bytes from the top row to the bottom one, for all sides below \<open>2 ^ 31\<close>, whatever the size of
  the data makes of the size fields.
\<close>

theorem bmp_write_read:
  assumes "length img = width * 3 * height" "0 < height" "height < 2147483648" "width < 2147483648"
    and "height < limit" "width < limit" "can_alloc (width * 3 * height)"
  shows "\<exists>bytes. writeOutputBmp True limit img height width = ret (True, bytes)
    \<and> BitMap can_alloc junk (Some bytes) = Some (Inr \<lparr>rd_height = of_nat height, rd_width = of_nat width,
        rd_data = Some img, rd_shape = [of_nat height, of_nat width]\<rparr>)"
  using assms by (rule bmp_written_read)

theorem bmp_write_read_witness:
  "\<exists>bytes. writeOutputBmp True 4198400 [1, 2, 3, 4, 5, 6] 2 1 = ret (True, bytes)
    \<and> BitMap (\<lambda>n. n < 1000) (\<lambda>i. 7) (Some bytes) = Some (Inr \<lparr>rd_height = 2, rd_width = 1,
        rd_data = Some [1, 2, 3, 4, 5, 6], rd_shape = [2, 1]\<rparr>)"
  using bmp_write_read [of "[1, 2, 3, 4, 5, 6]" 1 2 4198400 "\<lambda>n. n < 1000" "\<lambda>i. 7"] by simp

section \<open>addRectangles\<close>

record Color =
  red :: u8
  green :: u8
  blue :: u8

definition colors :: "Color list" where
  "colors = map (\<lambda>(r, g, b). \<lparr>red = r, green = g, blue = b\<rparr>)
     [(128, 64, 128), (232, 35, 244), (70, 70, 70), (156, 102, 102), (153, 153, 190),
      (153, 153, 153), (30, 170, 250), (0, 220, 220), (35, 142, 107), (152, 251, 152),
      (180, 130, 70), (60, 20, 220), (0, 0, 255), (142, 0, 0), (70, 0, 0),
      (100, 60, 0), (90, 0, 0), (230, 0, 0), (32, 11, 119), (0, 74, 111),
      (81, 0, 81)]"

text \<open>The index of a color: the class is converted to an unsigned number before the remainder.\<close>

definition color_of :: "int \<Rightarrow> Color" where
  "color_of cls = colors ! (nat (cls mod 18446744073709551616) mod length colors)"

definition fits_int :: "int \<Rightarrow> int option" where
  "fits_int i = (if - 2147483648 \<le> i \<and> i < 2147483648 then Some i else None)"

definition set_pixel :: "Color \<Rightarrow> nat \<Rightarrow> u8 list \<Rightarrow> u8 list option" where
  "set_pixel c at img = do {
     img \<leftarrow> arr_set img at (red c);
     img \<leftarrow> arr_set img (at + 1) (green c);
     arr_set img (at + 2) (blue c)
   }"

text \<open>The two rows of the first loop and the two columns of the second, for one \<open>t\<close>.\<close>

fun draw_rows :: "Color \<Rightarrow> nat \<Rightarrow> nat \<Rightarrow> int list \<Rightarrow> u8 list \<Rightarrow> u8 list option" where
  "draw_rows c shift_first shift_second [] img = Some img"
| "draw_rows c shift_first shift_second (ii # iis) img = do {
     off \<leftarrow> fits_int (ii * 3);
     img \<leftarrow> set_pixel c (shift_first + nat off) img;
     img \<leftarrow> set_pixel c (shift_second + nat off) img;
     draw_rows c shift_first shift_second iis img
   }"

fun draw_columns :: "Color \<Rightarrow> nat \<Rightarrow> nat \<Rightarrow> nat \<Rightarrow> int list \<Rightarrow> u8 list \<Rightarrow> u8 list option" where
  "draw_columns c width shift_first shift_second [] img = Some img"
| "draw_columns c width shift_first shift_second (ii # iis) img = do {
     img \<leftarrow> set_pixel c (shift_first + nat ii * width * 3) img;
     img \<leftarrow> set_pixel c (shift_second + nat ii * width * 3) img;
     draw_columns c width shift_first shift_second iis img
   }"

fun draw_horizontal :: "Color \<Rightarrow> nat \<Rightarrow> int \<Rightarrow> int \<Rightarrow> int \<Rightarrow> int \<Rightarrow> int list \<Rightarrow> u8 list \<Rightarrow> u8 list option" where
  "draw_horizontal c width x y w h [] img = Some img"
| "draw_horizontal c width x y w h (t # ts) img = do {
     img \<leftarrow> draw_rows c (nat (y + t) * width * 3) (nat (y + h - t) * width * 3) [x..x + w] img;
     draw_horizontal c width x y w h ts img
   }"

fun draw_vertical :: "Color \<Rightarrow> nat \<Rightarrow> int \<Rightarrow> int \<Rightarrow> int \<Rightarrow> int \<Rightarrow> int list \<Rightarrow> u8 list \<Rightarrow> u8 list option" where
  "draw_vertical c width x y w h [] img = Some img"
| "draw_vertical c width x y w h (t # ts) img = do {
     first \<leftarrow> fits_int ((x + t) * 3);
     second \<leftarrow> fits_int ((x + w - t) * 3);
     img \<leftarrow> draw_columns c width (nat first) (nat second) [y..y + h] img;
     draw_vertical c width x y w h ts img
   }"

text \<open>
  The clamps, which treat the two axes alike: the corner and sides they leave and the thickness, for
  this and later rectangles. The sums with the converted sides are in \<open>size_t\<close>.
\<close>

definition clamp_axis :: "nat \<Rightarrow> int \<Rightarrow> int \<Rightarrow> int \<Rightarrow> int \<times> int \<times> int" where
  "clamp_axis side p l thickness =
     (let p = max p 0;
          l = max l 0;
          (p, l, thickness) = (if int side \<le> p then (as_int (int side - 1), 0, 1) else (p, l, thickness))
      in (p, if int side \<le> p + l then as_int (int side - p - 1) else l, thickness))"

definition clamp_rectangle ::
    "nat \<Rightarrow> nat \<Rightarrow> int \<times> int \<times> int \<times> int \<Rightarrow> int \<Rightarrow> int \<times> int \<times> int \<times> int \<times> int" where
  "clamp_rectangle height width rect thickness =
     (let (x, y, w, h) = rect;
          (x, w, thickness) = clamp_axis width x w thickness;
          (y, h, thickness) = clamp_axis height y h thickness
      in (x, y, w, h, min (min thickness (w div 2 + 1)) (h div 2 + 1)))"

definition draw_rectangle ::
    "nat \<Rightarrow> nat \<Rightarrow> int \<times> int \<times> int \<times> int \<Rightarrow> int \<Rightarrow> int \<Rightarrow> u8 list \<Rightarrow> (u8 list \<times> int) option" where
  "draw_rectangle height width rect cls thickness img =
     (let (x, y, w, h, thickness) = clamp_rectangle height width rect thickness in do {
        img \<leftarrow> draw_horizontal (color_of cls) width x y w h [0..thickness - 1] img;
        img \<leftarrow> draw_vertical (color_of cls) width x y w h [0..thickness - 1] img;
        Some (img, thickness)
      })"

fun draw_rectangles :: "nat \<Rightarrow> nat \<Rightarrow> int list \<Rightarrow> int list \<Rightarrow> int \<Rightarrow> u8 list \<Rightarrow> u8 list option" where
  "draw_rectangles height width (x # y # w # h # rectangles) (cls # classes) thickness img = do {
     (img, thickness) \<leftarrow> draw_rectangle height width (x, y, w, h) cls thickness img;
     draw_rectangles height width rectangles classes thickness img
   }"
| "draw_rectangles height width rectangles classes thickness img = Some img"

definition addRectangles :: "u8 list \<Rightarrow> nat \<Rightarrow> nat \<Rightarrow> int list \<Rightarrow> int list \<Rightarrow> int \<Rightarrow> u8 list outcome" where
  "addRectangles img height width rectangles classes thickness =
     (if height \<le> 0 then throw ''height must be greater than 0''
      else if width \<le> 0 then throw ''width must be greater than 0''
      else if length rectangles mod 4 \<noteq> 0 \<or> length rectangles div 4 \<noteq> length classes then ret img
      else map_option Inr (draw_rectangles height width rectangles classes thickness img))"

section \<open>Painting pixels\<close>

definition pixel :: "u8 list \<Rightarrow> nat \<Rightarrow> nat \<Rightarrow> nat \<Rightarrow> Color" where
  "pixel img width r c =
     (let p = (r * width + c) * 3 in \<lparr>red = img ! p, green = img ! (p + 1), blue = img ! (p + 2)\<rparr>)"

fun paint :: "Color \<Rightarrow> nat \<Rightarrow> (nat \<times> nat) list \<Rightarrow> u8 list \<Rightarrow> u8 list option" where
  "paint col width [] img = Some img"
| "paint col width ((r, c) # ps) img = do {
     img \<leftarrow> set_pixel col ((r * width + c) * 3) img;
     paint col width ps img
   }"

lemma paint_append: "paint col width (ps @ qs) img = Option.bind (paint col width ps img) (paint col width qs)"
  by (induction ps arbitrary: img) (auto split: Option.bind_split)

definition is_canvas :: "nat \<Rightarrow> nat \<Rightarrow> u8 list \<Rightarrow> bool" where
  "is_canvas height width img \<longleftrightarrow> height * width * 3 \<le> length img"

lemma pixel_bound:
  fixes height width r c :: nat
  assumes "r < height" "c < width"
  shows "(r * width + c) * 3 + 3 \<le> height * width * 3"
proof -
  have "(r + 1) * width \<le> height * width" using assms(1) by (intro mult_right_mono) simp_all
  then show ?thesis using assms(2) by (simp add: algebra_simps)
qed

lemma pixel_index_inj:
  fixes width c c' :: nat
  assumes "c < width" "c' < width"
  shows "r * width + c = r' * width + c' \<longleftrightarrow> r = r' \<and> c = c'"
proof
  assume eq: "r * width + c = r' * width + c'"
  have "(r * width + c) div width = r" "(r' * width + c') div width = r'" using assms by simp_all
  then have "r = r'" using eq by metis
  then show "r = r' \<and> c = c'" using eq by simp
qed simp

lemma set_pixel_canvas:
  assumes "is_canvas height width img" "r < height" "c < width"
  shows "\<exists>img'. set_pixel col ((r * width + c) * 3) img = Some img' \<and> length img' = length img
    \<and> (\<forall>r' c'. r' < height \<longrightarrow> c' < width \<longrightarrow> pixel img' width r' c' = (if r' = r \<and> c' = c then col else pixel img width r' c'))"
proof -
  let ?p = "(r * width + c) * 3"
  have b: "?p + 3 \<le> length img" using pixel_bound [OF assms(2,3)] assms(1) by (simp add: is_canvas_def)
  let ?img = "img[?p := red col, ?p + 1 := green col, ?p + 2 := blue col]"
  have "set_pixel col ?p img = Some ?img" using b by (simp add: set_pixel_def arr_set_def)
  moreover have "pixel ?img width r' c' = (if r' = r \<and> c' = c then col else pixel img width r' c')"
    if "r' < height" "c' < width" for r' c'
  proof (cases "r' * width + c' = r * width + c")
    case True
    then have "r' = r \<and> c' = c" using pixel_index_inj [OF that(2) assms(3)] by blast
    then show ?thesis using b by (simp add: pixel_def Let_def nth_list_update)
  next
    case False
    then have "(r' * width + c') * 3 \<noteq> ?p" "(r' * width + c') * 3 + 1 \<noteq> ?p + 1" "(r' * width + c') * 3 + 2 \<noteq> ?p + 2"
      "(r' * width + c') * 3 \<noteq> ?p + 1" "(r' * width + c') * 3 \<noteq> ?p + 2" "(r' * width + c') * 3 + 1 \<noteq> ?p"
      "(r' * width + c') * 3 + 1 \<noteq> ?p + 2" "(r' * width + c') * 3 + 2 \<noteq> ?p" "(r' * width + c') * 3 + 2 \<noteq> ?p + 1"
      by presburger+
    then show ?thesis using False by (auto simp: pixel_def Let_def nth_list_update)
  qed
  ultimately show ?thesis by auto
qed

lemma paint_canvas:
  assumes "is_canvas height width img" "\<forall>(r, c) \<in> set ps. r < height \<and> c < width"
  shows "\<exists>img'. paint col width ps img = Some img' \<and> length img' = length img
    \<and> (\<forall>r c. r < height \<longrightarrow> c < width \<longrightarrow> pixel img' width r c = (if (r, c) \<in> set ps then col else pixel img width r c))"
  using assms
proof (induction ps arbitrary: img)
  case (Cons p ps)
  obtain r c where p: "p = (r, c)" by (cases p)
  obtain img1 where i: "set_pixel col ((r * width + c) * 3) img = Some img1" "length img1 = length img"
    "\<forall>r' c'. r' < height \<longrightarrow> c' < width \<longrightarrow> pixel img1 width r' c' = (if r' = r \<and> c' = c then col else pixel img width r' c')"
    using set_pixel_canvas [OF Cons.prems(1), of r c col] Cons.prems(2) p by auto
  have "is_canvas height width img1" using Cons.prems(1) i(2) by (simp add: is_canvas_def)
  from Cons.IH [OF this] Cons.prems(2) i p show ?case by auto
qed simp

section \<open>A rectangle is a frame\<close>

text \<open>The pixels the loops visit.\<close>

definition row_pixels :: "nat \<Rightarrow> nat \<Rightarrow> int list \<Rightarrow> (nat \<times> nat) list" where
  "row_pixels r r' iis = concat (map (\<lambda>ii. [(r, nat ii), (r', nat ii)]) iis)"

definition column_pixels :: "nat \<Rightarrow> nat \<Rightarrow> int list \<Rightarrow> (nat \<times> nat) list" where
  "column_pixels c c' iis = concat (map (\<lambda>ii. [(nat ii, c), (nat ii, c')]) iis)"

lemma paint_Cons:
  "paint col width ((r, c) # ps) = (\<lambda>img. Option.bind (set_pixel col ((r * width + c) * 3) img) (paint col width ps))"
  by (simp add: fun_eq_iff)

lemma draw_rows_paint:
  assumes "\<forall>ii \<in> set iis. 0 \<le> ii \<and> ii * 3 < 2147483648"
  shows "draw_rows col (r * width * 3) (r' * width * 3) iis = paint col width (row_pixels r r' iis)"
  using assms
proof (induction iis)
  case (Cons ii iis)
  have "fits_int (ii * 3) = Some (ii * 3)" using Cons.prems by (simp add: fits_int_def)
  moreover have "nat (ii * 3) = nat ii * 3" using Cons.prems by (simp add: nat_mult_distrib)
  ultimately show ?case
    using Cons by (intro ext) (simp add: row_pixels_def algebra_simps paint_Cons del: paint.simps(2))
qed (simp add: row_pixels_def fun_eq_iff)

lemma draw_columns_paint:
  "draw_columns col width (c * 3) (c' * 3) iis = paint col width (column_pixels c c' iis)"
proof (induction iis)
  case (Cons ii iis)
  then show ?case by (intro ext) (simp add: column_pixels_def algebra_simps paint_Cons del: paint.simps(2))
qed (simp add: column_pixels_def fun_eq_iff)

text \<open>The frame of thickness \<open>n\<close> inside the rectangle with the given corner and sides.\<close>

definition in_frame :: "int \<Rightarrow> int \<Rightarrow> int \<Rightarrow> int \<Rightarrow> int \<Rightarrow> nat \<times> nat \<Rightarrow> bool" where
  "in_frame x y w h n = (\<lambda>(r, c). y \<le> int r \<and> int r \<le> y + h \<and> x \<le> int c \<and> int c \<le> x + w
     \<and> (int r < y + n \<or> y + h - n < int r \<or> int c < x + n \<or> x + w - n < int c))"

definition fits_canvas :: "nat \<Rightarrow> nat \<Rightarrow> int \<Rightarrow> int \<Rightarrow> int \<Rightarrow> int \<Rightarrow> int \<Rightarrow> bool" where
  "fits_canvas height width x y w h n \<longleftrightarrow> 0 \<le> x \<and> 0 \<le> y \<and> 0 \<le> w \<and> 0 \<le> h \<and> x + w < int width \<and> y + h < int height
     \<and> n \<le> w div 2 + 1 \<and> n \<le> h div 2 + 1 \<and> int width * 3 < 2147483648"

definition horizontal_pixels :: "int \<Rightarrow> int \<Rightarrow> int \<Rightarrow> int \<Rightarrow> int list \<Rightarrow> (nat \<times> nat) list" where
  "horizontal_pixels x y w h ts = concat (map (\<lambda>t. row_pixels (nat (y + t)) (nat (y + h - t)) [x..x + w]) ts)"

definition vertical_pixels :: "int \<Rightarrow> int \<Rightarrow> int \<Rightarrow> int \<Rightarrow> int list \<Rightarrow> (nat \<times> nat) list" where
  "vertical_pixels x y w h ts = concat (map (\<lambda>t. column_pixels (nat (x + t)) (nat (x + w - t)) [y..y + h]) ts)"

lemma paint_append_fun: "paint col width (ps @ qs) = (\<lambda>img. Option.bind (paint col width ps img) (paint col width qs))"
  by (simp add: fun_eq_iff paint_append)

lemma draw_horizontal_paint:
  assumes "0 \<le> x" "x + w < int width" "int width * 3 < 2147483648"
  shows "draw_horizontal col width x y w h ts = paint col width (horizontal_pixels x y w h ts)"
proof (induction ts)
  case (Cons t ts)
  have "\<forall>ii \<in> set [x..x + w]. 0 \<le> ii \<and> ii * 3 < 2147483648" using assms by auto
  from draw_rows_paint [OF this] Cons show ?case
    by (intro ext) (simp add: horizontal_pixels_def paint_append_fun)
qed (simp add: horizontal_pixels_def fun_eq_iff)

lemma draw_vertical_paint:
  assumes "0 \<le> x" "0 \<le> w" "x + w < int width" "int width * 3 < 2147483648"
    and "\<forall>t \<in> set ts. 0 \<le> t \<and> t \<le> w"
  shows "draw_vertical col width x y w h ts = paint col width (vertical_pixels x y w h ts)"
  using assms(5)
proof (induction ts)
  case (Cons t ts)
  have "fits_int ((x + t) * 3) = Some ((x + t) * 3)" "fits_int ((x + w - t) * 3) = Some ((x + w - t) * 3)"
    using assms(1-4) Cons.prems by (auto simp: fits_int_def)
  moreover have "nat ((x + t) * 3) = nat (x + t) * 3" "nat ((x + w - t) * 3) = nat (x + w - t) * 3"
    using assms(1) Cons.prems by (simp_all add: nat_mult_distrib)
  ultimately show ?case
    using Cons draw_columns_paint [of col width "nat (x + t)" "nat (x + w - t)" "[y..y + h]"]
    by (intro ext) (simp add: vertical_pixels_def paint_append_fun)
qed (simp add: vertical_pixels_def fun_eq_iff)

lemma nat_range:
  assumes "0 \<le> a"
  shows "(\<exists>ii \<in> {a..b}. m = nat ii) \<longleftrightarrow> a \<le> int m \<and> int m \<le> b"
proof
  assume "\<exists>ii \<in> {a..b}. m = nat ii"
  then show "a \<le> int m \<and> int m \<le> b" using assms by auto
next
  assume "a \<le> int m \<and> int m \<le> b"
  then show "\<exists>ii \<in> {a..b}. m = nat ii" by (intro bexI [of _ "int m"]) simp_all
qed

text \<open>The first or last \<open>n\<close> positions of a range.\<close>

lemma border_range:
  assumes "0 \<le> a" "0 \<le> l" "n \<le> l div 2 + 1"
  shows "(\<exists>t \<in> {0..n - 1}. m = nat (a + t) \<or> m = nat (a + l - t))
    \<longleftrightarrow> a \<le> int m \<and> int m \<le> a + l \<and> (int m < a + n \<or> a + l - n < int m)"
proof
  assume "\<exists>t \<in> {0..n - 1}. m = nat (a + t) \<or> m = nat (a + l - t)"
  then obtain t where t: "0 \<le> t" "t \<le> n - 1" "m = nat (a + t) \<or> m = nat (a + l - t)" by auto
  have "t \<le> l" using t(2) assms(2,3) by linarith
  then show "a \<le> int m \<and> int m \<le> a + l \<and> (int m < a + n \<or> a + l - n < int m)" using t assms(1) by auto
next
  assume m: "a \<le> int m \<and> int m \<le> a + l \<and> (int m < a + n \<or> a + l - n < int m)"
  show "\<exists>t \<in> {0..n - 1}. m = nat (a + t) \<or> m = nat (a + l - t)"
  proof (cases "int m < a + n")
    case True
    then show ?thesis using m by (intro bexI [of _ "int m - a"]) auto
  next
    case False
    then show ?thesis using m by (intro bexI [of _ "a + l - int m"]) auto
  qed
qed

lemma row_pixels_set:
  "0 \<le> x \<Longrightarrow> (r, c) \<in> set (row_pixels r1 r2 [x..x + w]) \<longleftrightarrow> (r = r1 \<or> r = r2) \<and> x \<le> int c \<and> int c \<le> x + w"
  using nat_range [of x "x + w" c] by (auto simp: row_pixels_def)

lemma column_pixels_set:
  "0 \<le> y \<Longrightarrow> (r, c) \<in> set (column_pixels c1 c2 [y..y + h]) \<longleftrightarrow> (c = c1 \<or> c = c2) \<and> y \<le> int r \<and> int r \<le> y + h"
  using nat_range [of y "y + h" r] by (auto simp: column_pixels_def)

lemma frame_pixels:
  assumes "fits_canvas height width x y w h n"
  shows "p \<in> set (horizontal_pixels x y w h [0..n - 1] @ vertical_pixels x y w h [0..n - 1]) \<longleftrightarrow> in_frame x y w h n p"
proof -
  obtain r c where p: "p = (r, c)" by (cases p)
  have f: "0 \<le> x" "0 \<le> y" "0 \<le> w" "0 \<le> h" "n \<le> w div 2 + 1" "n \<le> h div 2 + 1"
    using assms by (simp_all add: fits_canvas_def)
  have "(r, c) \<in> set (horizontal_pixels x y w h [0..n - 1])
      \<longleftrightarrow> (\<exists>t \<in> {0..n - 1}. r = nat (y + t) \<or> r = nat (y + h - t)) \<and> x \<le> int c \<and> int c \<le> x + w"
    using row_pixels_set [OF f(1)] by (auto simp: horizontal_pixels_def)
  moreover have "(r, c) \<in> set (vertical_pixels x y w h [0..n - 1])
      \<longleftrightarrow> (\<exists>t \<in> {0..n - 1}. c = nat (x + t) \<or> c = nat (x + w - t)) \<and> y \<le> int r \<and> int r \<le> y + h"
    using column_pixels_set [OF f(2)] by (auto simp: vertical_pixels_def)
  ultimately show ?thesis
    unfolding border_range [OF f(2,4,6)] border_range [OF f(1,3,5)] p in_frame_def by auto
qed

lemma frame_on_canvas:
  "fits_canvas height width x y w h n \<Longrightarrow> in_frame x y w h n (r, c) \<Longrightarrow> r < height \<and> c < width"
  by (auto simp: fits_canvas_def in_frame_def)

lemma as_int_small: "0 \<le> v \<Longrightarrow> v < 2147483648 \<Longrightarrow> as_int v = v"
  by (simp add: as_int_def to_int_def)

lemma clamp_axis_fits:
  assumes "0 < side" "int side < 2147483648" "clamp_axis side p l thickness = (p', l', thickness')"
  shows "0 \<le> p'" "0 \<le> l'" "p' + l' < int side"
proof -
  have s: "as_int (int side - 1) = int side - 1" "as_int (int side - max p 0 - 1) = int side - max p 0 - 1"
    if "max p 0 < int side"
    using that assms(1,2) by (auto intro!: as_int_small)
  have s1: "as_int (int side - 1) = int side - 1" using assms(1,2) by (intro as_int_small) simp_all
  have z: "as_int 0 = 0" by (rule as_int_small) simp_all
  show "0 \<le> p'" "0 \<le> l'" "p' + l' < int side"
    using assms(1,3) s s1 z by (auto simp: clamp_axis_def Let_def split: if_splits)
qed

lemma clamp_fits:
  assumes "0 < height" "0 < width" "int width * 3 < 2147483648" "int height < 2147483648"
    and "clamp_rectangle height width rect thickness = (x, y, w, h, n)"
  shows "fits_canvas height width x y w h n"
proof -
  obtain x0 y0 w0 h0 where r: "rect = (x0, y0, w0, h0)" by (cases rect) auto
  obtain x1 w1 t1 where a: "clamp_axis width x0 w0 thickness = (x1, w1, t1)" by (metis prod_cases3)
  obtain y1 h1 t2 where b: "clamp_axis height y0 h0 t1 = (y1, h1, t2)" by (metis prod_cases3)
  have "int width < 2147483648" using assms(3) by simp
  note f = clamp_axis_fits [OF assms(2) this a] clamp_axis_fits [OF assms(1,4) b]
  have "x = x1" "y = y1" "w = w1" "h = h1" "n = min (min t2 (w1 div 2 + 1)) (h1 div 2 + 1)"
    using assms(5) by (auto simp: clamp_rectangle_def r a b Let_def)
  then show ?thesis using f assms(3) by (simp add: fits_canvas_def)
qed

text \<open>One rectangle paints its frame and nothing else.\<close>

lemma draw_rectangle_frame:
  assumes "is_canvas height width img" "0 < height" "0 < width" "int width * 3 < 2147483648" "int height < 2147483648"
    and "clamp_rectangle height width rect thickness = (x, y, w, h, n)"
  shows "\<exists>img'. draw_rectangle height width rect cls thickness img = Some (img', n) \<and> length img' = length img
    \<and> (\<forall>r c. r < height \<longrightarrow> c < width \<longrightarrow>
          pixel img' width r c = (if in_frame x y w h n (r, c) then color_of cls else pixel img width r c))"
proof -
  note f = clamp_fits [OF assms(2-6)]
  then have g: "0 \<le> x" "0 \<le> w" "x + w < int width" "n \<le> w div 2 + 1" by (simp_all add: fits_canvas_def)
  let ?ps = "horizontal_pixels x y w h [0..n - 1] @ vertical_pixels x y w h [0..n - 1]"
  have "\<forall>t \<in> set [0..n - 1]. 0 \<le> t \<and> t \<le> w" using g(2,4) by auto
  note v = draw_vertical_paint [OF g(1-3) assms(4) this]
  have "draw_rectangle height width rect cls thickness img
      = map_option (\<lambda>img. (img, n)) (paint (color_of cls) width ?ps img)"
    by (simp add: draw_rectangle_def assms(6) draw_horizontal_paint [OF g(1,3) assms(4)] v paint_append)
       (auto split: Option.bind_split)
  moreover have "\<forall>(r, c) \<in> set ?ps. r < height \<and> c < width"
    using frame_pixels [OF f] frame_on_canvas [OF f] by blast
  from paint_canvas [OF assms(1) this, of "color_of cls"] obtain img' where
    "paint (color_of cls) width ?ps img = Some img'" "length img' = length img"
    "\<forall>r c. r < height \<longrightarrow> c < width \<longrightarrow> pixel img' width r c = (if (r, c) \<in> set ?ps then color_of cls else pixel img width r c)"
    by blast
  ultimately show ?thesis using frame_pixels [OF f] by auto
qed

text \<open>
  What the rectangles should leave, by positions alone. Along one axis a rectangle reaches from its corner over its
  side, a negative corner or side counting as 0, and from what reaches over the end of the image the last position
  is left. Its frame are the positions that are nearer to an edge than the thickness, which is 1 for a rectangle
  that lies behind the last row or column. A narrow rectangle lowers the thickness for those after it.
\<close>

definition span :: "nat \<Rightarrow> int \<Rightarrow> int \<Rightarrow> int \<times> int" where
  "span side p l = (min (max p 0) (int side - 1), min (max p 0 + max l 0) (int side - 1))"

definition frame_thickness :: "nat \<Rightarrow> nat \<Rightarrow> int \<times> int \<times> int \<times> int \<Rightarrow> int \<Rightarrow> int" where
  "frame_thickness height width = (\<lambda>(x, y, w, h) thickness.
     if int width \<le> x \<or> int height \<le> y then 1 else thickness)"

definition edge_distance :: "int \<times> int \<Rightarrow> int \<Rightarrow> int" where
  "edge_distance = (\<lambda>(first, final) m. min (m - first) (final - m))"

definition on_frame :: "nat \<Rightarrow> nat \<Rightarrow> int \<times> int \<times> int \<times> int \<Rightarrow> int \<Rightarrow> nat \<times> nat \<Rightarrow> bool" where
  "on_frame height width rect thickness = (\<lambda>(r, c). let (x, y, w, h) = rect;
       dx = edge_distance (span width x w) (int c); dy = edge_distance (span height y h) (int r)
     in 0 \<le> dx \<and> 0 \<le> dy \<and> min dx dy < frame_thickness height width rect thickness)"

definition thickness_left :: "nat \<Rightarrow> nat \<Rightarrow> int \<times> int \<times> int \<times> int \<Rightarrow> int \<Rightarrow> int" where
  "thickness_left height width rect thickness = (let (x, y, w, h) = rect;
       (left, right) = span width x w; (top_row, bottom) = span height y h
     in min (frame_thickness height width rect thickness) (min ((right - left) div 2 + 1) ((bottom - top_row) div 2 + 1)))"

text \<open>The last frame over a position decides about its color.\<close>

fun painted :: "nat \<Rightarrow> nat \<Rightarrow> ((int \<times> int \<times> int \<times> int) \<times> int) list \<Rightarrow> int \<Rightarrow> nat \<times> nat \<Rightarrow> Color \<Rightarrow> Color" where
  "painted height width [] thickness p col = col"
| "painted height width ((rect, cls) # rs) thickness p col =
     painted height width rs (thickness_left height width rect thickness) p
       (if on_frame height width rect thickness p then color_of cls else col)"

lemma clamp_axis_span:
  assumes "0 < side" "int side < 2147483648"
  shows "clamp_axis side p l t
    = (fst (span side p l), snd (span side p l) - fst (span side p l), if int side \<le> p then 1 else t)"
proof (cases "int side \<le> p")
  case True
  have "as_int (int side - 1) = int side - 1" using assms by (intro as_int_small) simp_all
  moreover have "as_int 0 = 0" by (rule as_int_small) simp_all
  ultimately show ?thesis using True assms(1) by (auto simp: clamp_axis_def span_def Let_def)
next
  case False
  then have "as_int (int side - max p 0 - 1) = int side - max p 0 - 1" using assms by (intro as_int_small) simp_all
  then show ?thesis using False assms(1) by (auto simp: clamp_axis_def span_def Let_def)
qed

lemma edge_distance_half: "edge_distance (a, b) m < (b - a) div 2 + 1"
  unfolding edge_distance_def by simp

lemma clamp_rectangle_on_frame:
  assumes "0 < height" "0 < width" "int width < 2147483648" "int height < 2147483648"
    and "clamp_rectangle height width rect thickness = (x, y, w, h, n)"
  shows "n = thickness_left height width rect thickness"
    and "in_frame x y w h n p \<longleftrightarrow> on_frame height width rect thickness p"
proof -
  obtain x0 y0 w0 h0 where r: "rect = (x0, y0, w0, h0)" by (cases rect) auto
  obtain x1 x2 y1 y2 where sp: "span width x0 w0 = (x1, x2)" "span height y0 h0 = (y1, y2)" by (metis surj_pair)
  have eqs: "x = x1" "y = y1" "w = x2 - x1" "h = y2 - y1"
    "n = min (min (frame_thickness height width rect thickness) (w div 2 + 1)) (h div 2 + 1)"
    using assms(5) by (auto simp: clamp_rectangle_def r clamp_axis_span [OF assms(2,3)] clamp_axis_span [OF assms(1,4)] sp
        frame_thickness_def)
  then show "n = thickness_left height width rect thickness" by (simp add: thickness_left_def r sp min.assoc)
  obtain i j where p: "p = (i, j)" by (cases p)
  let ?dx = "edge_distance (x1, x2) (int j)" and ?dy = "edge_distance (y1, y2) (int i)"
  have "in_frame x y w h n p \<longleftrightarrow> 0 \<le> ?dx \<and> 0 \<le> ?dy \<and> (?dx < n \<or> ?dy < n)"
    unfolding in_frame_def p eqs(1-4) by (auto simp: edge_distance_def)
  moreover have "min ?dx ?dy < n \<longleftrightarrow> min ?dx ?dy < frame_thickness height width rect thickness"
    using edge_distance_half [of x1 x2 "int j"] edge_distance_half [of y1 y2 "int i"] eqs(3-5) by auto
  ultimately show "in_frame x y w h n p \<longleftrightarrow> on_frame height width rect thickness p"
    by (auto simp: on_frame_def p r sp)
qed

definition flat_rects :: "((int \<times> int \<times> int \<times> int) \<times> int) list \<Rightarrow> int list" where
  "flat_rects rs = concat (map (\<lambda>((x, y, w, h), _). [x, y, w, h]) rs)"

lemma draw_rectangles_painted:
  assumes "is_canvas height width img" "0 < height" "0 < width" "int width * 3 < 2147483648" "int height < 2147483648"
  shows "\<exists>img'. draw_rectangles height width (flat_rects rs) (map snd rs) thickness img = Some img' \<and> length img' = length img
    \<and> (\<forall>r c. r < height \<longrightarrow> c < width \<longrightarrow> pixel img' width r c = painted height width rs thickness (r, c) (pixel img width r c))"
  using assms(1)
proof (induction rs arbitrary: thickness img)
  case (Cons a rs)
  obtain x0 y0 w0 h0 cls where a: "a = ((x0, y0, w0, h0), cls)" by (cases a) auto
  obtain x y w h n where c: "clamp_rectangle height width (x0, y0, w0, h0) thickness = (x, y, w, h, n)"
    by (metis prod_cases5)
  from draw_rectangle_frame [OF Cons.prems assms(2-5) c, of cls] obtain img1 where i:
    "draw_rectangle height width (x0, y0, w0, h0) cls thickness img = Some (img1, n)" "length img1 = length img"
    "\<forall>r c. r < height \<longrightarrow> c < width \<longrightarrow>
       pixel img1 width r c = (if in_frame x y w h n (r, c) then color_of cls else pixel img width r c)" by blast
  have "is_canvas height width img1" using Cons.prems i(2) by (simp add: is_canvas_def)
  moreover have "int width < 2147483648" using assms(4) by simp
  note f = clamp_rectangle_on_frame [OF assms(2,3) this assms(5) c]
  ultimately show ?case using Cons.IH [of img1 n] i by (auto simp: flat_rects_def a f(2) simp flip: f(1))
qed (simp add: flat_rects_def)

text \<open>
  C32: \<open>addRectangles\<close> never writes outside the image, whatever the rectangles, classes and thickness, and
  leaves at every position the color of the last frame over it or what was there. A rectangle is cut off at the right
  and at the lower border, but one with a negative corner is moved, with its full sides, to column or row 0; one that
  lies behind the last column or row leaves a line of thickness 1 there; and the thickness that a narrow rectangle
  has left is that of the following ones. The image has less than 2^31 rows and bytes in a row.
\<close>

theorem add_rectangles_paints_frames:
  assumes "is_canvas height width img" "0 < height" "0 < width" "int width * 3 < 2147483648" "int height < 2147483648"
  shows "\<exists>img'. addRectangles img height width (flat_rects rs) (map snd rs) thickness = ret img' \<and> length img' = length img
    \<and> (\<forall>r c. r < height \<longrightarrow> c < width \<longrightarrow> pixel img' width r c = painted height width rs thickness (r, c) (pixel img width r c))"
proof -
  have "length (flat_rects rs) = 4 * length rs" by (induction rs) (auto simp: flat_rects_def)
  then show ?thesis
    using draw_rectangles_painted [OF assms, of rs thickness] assms(2,3) by (auto simp: addRectangles_def ret_def)
qed

theorem add_rectangles_paints_frames_witness:
  "\<exists>img'. addRectangles (replicate 75 0) 5 5 [-3, 1, 3, 9] [2] 1 = ret img' \<and> length img' = 75
    \<and> pixel img' 5 2 3 = color_of 2 \<and> pixel img' 5 4 1 = color_of 2 \<and> pixel img' 5 2 2 = \<lparr>red = 0, green = 0, blue = 0\<rparr>"
proof -
  have "is_canvas 5 5 (replicate 75 0)" by (simp add: is_canvas_def)
  from add_rectangles_paints_frames [OF this, of "[((-3, 1, 3, 9), 2)]" 1] obtain img' where
    i: "addRectangles (replicate 75 0) 5 5 [-3, 1, 3, 9] [2] 1 = ret img'" "length img' = 75"
      "\<forall>r c. r < 5 \<longrightarrow> c < 5 \<longrightarrow> pixel img' 5 r c = painted 5 5 [((-3, 1, 3, 9), 2)] 1 (r, c) (pixel (replicate 75 0) 5 r c)"
    by (auto simp: flat_rects_def)
  have "painted 5 5 [((-3, 1, 3, 9), 2)] 1 (2, 3) col = color_of 2" "painted 5 5 [((-3, 1, 3, 9), 2)] 1 (4, 1) col = color_of 2"
    "painted 5 5 [((-3, 1, 3, 9), 2)] 1 (2, 2) col = col" for col
    by (simp_all add: on_frame_def span_def edge_distance_def frame_thickness_def)
  moreover have "pixel (replicate 75 0) 5 2 2 = \<lparr>red = 0, green = 0, blue = 0\<rparr>" by (simp add: pixel_def)
  ultimately show ?thesis using i by (intro exI [of _ img']) simp
qed

end
