(* ===== verification/Sample_Tensors.thy ===== *)
theory Sample_Tensors
  imports Sample_Npy Sample_Inputs Sample_Images Float_Order
begin

text \<open>
  Filling the input tensors of \<open>benchmark_app\<close> (\<open>inputs_filling.cpp\<close>): from images, NumPy arrays and binary
  files, with the size of the image, and with random values. \<open>None\<close> is undefined behaviour, \<open>Inl\<close> a thrown
  exception; of the longer messages the constant part is kept, and the text that names the files used is not
  modelled.

  A tensor is its bytes, each \<open>None\<close> until it is written: the memory of a new \<open>ov::Tensor\<close> is not initialised.
  Of the closed runtime library the number of bytes of a tensor, the width of an element type and the conversion
  to \<open>ov::float16\<close> are parameters. Random numbers are a function of their range and their position.
\<close>

section \<open>Tensors and their elements\<close>

record tensor =
  tn_type :: Type_t
  tn_shape :: "u64 list"
  tn_data :: "u8 option list"

record tensor_rt =
  byte_size :: "Type_t \<Rightarrow> u64 list \<Rightarrow> nat"
  bitwidth :: "Type_t \<Rightarrow> u64"
  float16_of :: "u8 \<Rightarrow> u8 list"

definition new_tensor :: "tensor_rt \<Rightarrow> Type_t \<Rightarrow> u64 list \<Rightarrow> tensor" where
  "new_tensor rt type dims = \<lparr>tn_type = type, tn_shape = dims, tn_data = replicate (byte_size rt type dims) None\<rparr>"

definition put_bytes :: "nat \<Rightarrow> u8 list \<Rightarrow> u8 option list \<Rightarrow> (u8 option list) outcome" where
  "put_bytes off bs d =
     (if off + length bs \<le> length d then ret (take off d @ map Some bs @ drop (off + length bs) d) else None)"

text \<open>The C++ type an instance of the templates works with.\<close>

datatype elem = T_f16 | T_f32 | T_f64 | T_i8 | T_i16 | T_i32 | T_i64 | T_u8 | T_u16 | T_u32 | T_u64

fun sizeof :: "elem \<Rightarrow> nat" where
  "sizeof T_f16 = 2" | "sizeof T_f32 = 4" | "sizeof T_f64 = 8"
| "sizeof T_i8 = 1" | "sizeof T_i16 = 2" | "sizeof T_i32 = 4" | "sizeof T_i64 = 8"
| "sizeof T_u8 = 1" | "sizeof T_u16 = 2" | "sizeof T_u32 = 4" | "sizeof T_u64 = 8"

fun le_bytes :: "nat \<Rightarrow> nat \<Rightarrow> u8 list" where
  "le_bytes 0 n = []"
| "le_bytes (Suc k) n = of_nat n # le_bytes k (n div 256)"

text \<open>The bits of a positive number below \<open>2 ^ (mant + 1)\<close> in an IEEE format.\<close>

definition ieee_bits :: "nat \<Rightarrow> nat \<Rightarrow> nat \<Rightarrow> nat" where
  "ieee_bits mant bias n =
     (if n = 0 then 0
      else let e = nbits n - 1 in (bias + e) * 2 ^ mant + (n - 2 ^ e) * 2 ^ (mant - e))"

text \<open>\<open>static_cast<T>(v)\<close> of an \<open>uint8_t\<close>, as it lies in memory.\<close>

fun cast_u8 :: "tensor_rt \<Rightarrow> elem \<Rightarrow> u8 \<Rightarrow> u8 list" where
  "cast_u8 rt T_f16 v = float16_of rt v"
| "cast_u8 rt T_f32 v = le_bytes 4 (ieee_bits 23 127 (unat v))"
| "cast_u8 rt T_f64 v = le_bytes 8 (ieee_bits 52 1023 (unat v))"
| "cast_u8 rt t v = v # replicate (sizeof t - 1) 0"

section \<open>Loops\<close>

fun for_each :: "('a \<Rightarrow> 's \<Rightarrow> 's outcome) \<Rightarrow> 'a list \<Rightarrow> 's \<Rightarrow> 's outcome" where
  "for_each f [] s = ret s"
| "for_each f (x # xs) s = andthen (f x s) (for_each f xs)"

definition upto64 :: "u64 \<Rightarrow> nat list" where
  "upto64 n = [0..<unat n]"

definition size64 :: "nat \<Rightarrow> nat" where
  "size64 n = n mod 18446744073709551616"

text \<open>\<open>std::accumulate\<close> with the initial value 1: the accumulator is an \<open>int\<close>.\<close>

definition tensor_size :: "u64 list \<Rightarrow> u64" where
  "tensor_size dims = of_int (foldl (\<lambda>a d. as_int (uint ((of_int a :: u64) * d))) 1 dims)"

definition batch_of :: "('l, 'p) ov_api \<Rightarrow> ('l, 'p, 'f) InputInfo \<Rightarrow> u64 \<Rightarrow> u64" where
  "batch_of api info batchSize =
     (if \<not> layout_empty api (in_layout info) \<and> has_batch api (in_layout info) then batchSize else 1)"

definition file_at :: "string list \<Rightarrow> u64 \<Rightarrow> nat \<Rightarrow> string option" where
  "file_at files inputId b =
     (if files = [] then None else Some (files ! (unat (inputId + of_nat b) mod length files)))"

section \<open>Images\<close>

definition read_image ::
    "('l, 'p) ov_api \<Rightarrow> (string \<Rightarrow> ('r option) outcome) \<Rightarrow> ('r \<Rightarrow> u64 \<Rightarrow> u64 \<Rightarrow> u8 list option) \<Rightarrow> string list \<Rightarrow> u64
     \<Rightarrow> ('l, 'p, 'f) InputInfo \<Rightarrow> nat \<Rightarrow> u8 list list \<Rightarrow> (u8 list list) outcome" where
  "read_image api open_reader getData files inputId info b vreader =
     (case file_at files inputId b of
        None \<Rightarrow> None
      | Some f \<Rightarrow>
          andthen (open_reader f) (\<lambda>r.
            case r of
              None \<Rightarrow> ret vreader
            | Some reader \<Rightarrow>
                andthen (Some (info_width api info)) (\<lambda>w.
                andthen (Some (info_height api info)) (\<lambda>h.
                  case getData reader w h of
                    None \<Rightarrow> ret vreader
                  | Some imageData \<Rightarrow> ret (vreader @ [imageData])))))"

definition image_offset :: "bool \<Rightarrow> nat \<Rightarrow> nat \<Rightarrow> nat \<Rightarrow> nat \<Rightarrow> nat \<Rightarrow> nat \<Rightarrow> nat \<Rightarrow> nat" where
  "image_offset planar numChannels width height b w h ch =
     size64 (b * numChannels * width * height
       + (if planar then ch * width * height + h * width + w else h * width * numChannels + w * numChannels + ch))"

definition put_pixel ::
    "tensor_rt \<Rightarrow> elem \<Rightarrow> bool \<Rightarrow> u8 list list \<Rightarrow> nat \<Rightarrow> nat \<Rightarrow> nat \<Rightarrow> nat \<Rightarrow> nat \<Rightarrow> nat \<Rightarrow> nat \<Rightarrow> u8 option list
     \<Rightarrow> (u8 option list) outcome" where
  "put_pixel rt T planar vreader numChannels width height b w h ch d =
     (if b \<ge> length vreader then throw ''out_of_range''
      else case arr_get (vreader ! b) (size64 (h * width * numChannels + w * numChannels + ch)) of
        None \<Rightarrow> None
      | Some v \<Rightarrow> put_bytes (image_offset planar numChannels width height b w h ch * sizeof T) (cast_u8 rt T v) d)"

definition create_tensor_from_image ::
    "('l, 'p) ov_api \<Rightarrow> tensor_rt \<Rightarrow> (string \<Rightarrow> ('r option) outcome) \<Rightarrow> ('r \<Rightarrow> u64 \<Rightarrow> u64 \<Rightarrow> u8 list option) \<Rightarrow> elem
     \<Rightarrow> string list \<Rightarrow> u64 \<Rightarrow> u64 \<Rightarrow> ('l, 'p, 'f) InputInfo \<Rightarrow> tensor outcome" where
  "create_tensor_from_image api rt open_reader getData T files inputId batchSize info =
     (let tensor = new_tensor rt (in_type info) (dataShape info);
          imgBatchSize = batch_of api info batchSize;
          planar = (layout_is api (in_layout info) ''NCHW'' \<or> layout_is api (in_layout info) ''CHW'')
      in andthen (for_each (read_image api open_reader getData files inputId info) (upto64 imgBatchSize) []) (\<lambda>vreader.
         andthen (Some (info_channels api info)) (\<lambda>numChannels.
         andthen (Some (info_width api info)) (\<lambda>width.
         andthen (Some (info_height api info)) (\<lambda>height.
         andthen (for_each (\<lambda>b. for_each (\<lambda>w. for_each (\<lambda>h. for_each (\<lambda>ch.
                      put_pixel rt T planar vreader (unat numChannels) (unat width) (unat height) b w h ch)
                    (upto64 numChannels)) (upto64 height)) (upto64 width)) (upto64 imgBatchSize) (tn_data tensor)) (\<lambda>data.
           ret (tensor\<lparr>tn_data := data\<rparr>)))))))"

section \<open>NumPy arrays\<close>

definition read_array ::
    "(string \<Rightarrow> ('r option) outcome) \<Rightarrow> ('r \<Rightarrow> u64 \<Rightarrow> u64 \<Rightarrow> u8 list option) \<Rightarrow> string list \<Rightarrow> u64
     \<Rightarrow> nat \<Rightarrow> u8 list list \<Rightarrow> (u8 list list) outcome" where
  "read_array open_reader getData files inputId b arrays =
     (case file_at files inputId b of
        None \<Rightarrow> None
      | Some f \<Rightarrow>
          andthen (open_reader f) (\<lambda>r.
            case r of
              None \<Rightarrow> ret arrays
            | Some reader \<Rightarrow>
                (case getData reader 0 0 of
                   None \<Rightarrow> ret arrays
                 | Some a \<Rightarrow> ret (arrays @ [a]))))"

text \<open>The loop over the bytes of one element.\<close>

fun copy_bytes :: "u8 list list \<Rightarrow> nat \<Rightarrow> nat \<Rightarrow> nat list \<Rightarrow> u8 list \<Rightarrow> (u8 list) outcome" where
  "copy_bytes arrays batch_nr start [] buffer = ret buffer"
| "copy_bytes arrays batch_nr start (byte_nr # ns) buffer =
     (if batch_nr \<ge> length arrays then throw ''out_of_range''
      else case arr_get (arrays ! batch_nr) (size64 (start + byte_nr)) of
        None \<Rightarrow> None
      | Some v \<Rightarrow> copy_bytes arrays batch_nr start ns (buffer @ [v]))"

definition put_element :: "elem \<Rightarrow> u8 list list \<Rightarrow> nat \<Rightarrow> nat \<Rightarrow> nat \<Rightarrow> u8 option list \<Rightarrow> (u8 option list) outcome" where
  "put_element T arrays tsize batch_nr input_tensor_nr d =
     (let offset = size64 (batch_nr * tsize + input_tensor_nr)
      in andthen (copy_bytes arrays batch_nr (offset * sizeof T) [0..<sizeof T] []) (\<lambda>bytes_buffer.
           put_bytes (offset * sizeof T) bytes_buffer d))"

definition create_tensor_from_numpy ::
    "('l, 'p) ov_api \<Rightarrow> tensor_rt \<Rightarrow> (string \<Rightarrow> ('r option) outcome) \<Rightarrow> ('r \<Rightarrow> u64 \<Rightarrow> u64 \<Rightarrow> u8 list option) \<Rightarrow> elem
     \<Rightarrow> string list \<Rightarrow> u64 \<Rightarrow> u64 \<Rightarrow> ('l, 'p, 'f) InputInfo \<Rightarrow> tensor outcome" where
  "create_tensor_from_numpy api rt open_reader getData T files inputId batchSize info =
     (let tensor = new_tensor rt (in_type info) (dataShape info);
          numpy_batch_size = batch_of api info batchSize
      in if numpy_batch_size = 0 then None
         else
           let tsize = tensor_size (dataShape info) div numpy_batch_size
           in andthen (for_each (read_array open_reader getData files inputId) (upto64 numpy_batch_size) []) (\<lambda>arrays.
              andthen (for_each (\<lambda>batch_nr. for_each (\<lambda>input_tensor_nr.
                           put_element T arrays (unat tsize) batch_nr input_tensor_nr)
                         (upto64 tsize)) (upto64 numpy_batch_size) (tn_data tensor)) (\<lambda>data.
                ret (tensor\<lparr>tn_data := data\<rparr>))))"

section \<open>The size of the image\<close>

definition put_info :: "u64 \<times> u64 \<Rightarrow> u64 \<Rightarrow> nat \<Rightarrow> nat \<Rightarrow> u8 option list \<Rightarrow> (u8 option list) outcome" where
  "put_info image_size iminfoSize b i d =
     put_bytes (size64 (b * unat iminfoSize + i))
       [if i = 0 then ucast (fst image_size) else if i = 1 then ucast (snd image_size) else 1] d"

definition create_tensor_im_info ::
    "('l, 'p) ov_api \<Rightarrow> tensor_rt \<Rightarrow> elem \<Rightarrow> u64 \<times> u64 \<Rightarrow> u64 \<Rightarrow> ('l, 'p, 'f) InputInfo \<Rightarrow> tensor outcome" where
  "create_tensor_im_info api rt T image_size batchSize info =
     (let tensor = new_tensor rt (in_type info) (dataShape info);
          infoBatchSize = batch_of api info batchSize;
          iminfoSize = tensor_size (dataShape info) div infoBatchSize
      in andthen (for_each (\<lambda>b. for_each (put_info image_size iminfoSize b) (upto64 iminfoSize))
                    (upto64 infoBatchSize) (tn_data tensor)) (\<lambda>data.
           ret (tensor\<lparr>tn_data := data\<rparr>)))"

section \<open>Binary files\<close>

text \<open>\<open>binaryFile.read(&data[off], n)\<close>\<close>

definition read_into :: "nat \<Rightarrow> nat \<Rightarrow> ifs \<times> u8 option list \<Rightarrow> (ifs \<times> u8 option list) outcome" where
  "read_into off n st =
     (let (bs, s) = is_read n (fst st) in andthen (put_bytes off bs (snd st)) (\<lambda>d. ret (s, d)))"

definition read_binary ::
    "('l, 'p) ov_api \<Rightarrow> tensor_rt \<Rightarrow> (string \<Rightarrow> u8 list option) \<Rightarrow> elem \<Rightarrow> string list \<Rightarrow> u64 \<Rightarrow> u64 \<Rightarrow> ('l, 'p, 'f) InputInfo
     \<Rightarrow> nat \<Rightarrow> u8 option list \<Rightarrow> (u8 option list) outcome" where
  "read_binary api rt fs T files inputId binaryBatchSize info b d =
     (case file_at files inputId b of
        None \<Rightarrow> None
      | Some f \<Rightarrow>
          (case fs f of
             None \<Rightarrow> throw ''Cannot open ''
           | Some bytes \<Rightarrow>
               let inputSize = tensor_size (dataShape info) div binaryBatchSize;
                   inputByteSize = inputSize * bitwidth rt (in_type info) div 8
               in if get_extension f \<noteq> ''bin'' then throw (''Unsupported binary file type: '' @ get_extension f)
                  else if (of_nat (length bytes) :: u64) \<noteq> inputByteSize then throw ''File ''
                  else if \<not> layout_is api (in_layout info) ''CN''
                  then andthen (read_into (size64 (b * unat inputByteSize)) (unat inputByteSize) (open_file bytes, d)) (\<lambda>st. ret (snd st))
                  else andthen (Some (info_channels api info)) (\<lambda>channels.
                         andthen (for_each (\<lambda>i. read_into (size64 ((i * unat binaryBatchSize + b) * sizeof T)) (sizeof T))
                                    (upto64 channels) (open_file bytes, d)) (\<lambda>st. ret (snd st)))))"

definition create_tensor_from_binary ::
    "('l, 'p) ov_api \<Rightarrow> tensor_rt \<Rightarrow> (string \<Rightarrow> u8 list option) \<Rightarrow> elem \<Rightarrow> string list \<Rightarrow> u64 \<Rightarrow> u64 \<Rightarrow> ('l, 'p, 'f) InputInfo
     \<Rightarrow> tensor outcome" where
  "create_tensor_from_binary api rt fs T files inputId batchSize info =
     (let tensor = new_tensor rt (in_type info) (dataShape info);
          binaryBatchSize = batch_of api info batchSize
      in andthen (for_each (read_binary api rt fs T files inputId binaryBatchSize info) (upto64 binaryBatchSize) (tn_data tensor))
           (\<lambda>data. ret (tensor\<lparr>tn_data := data\<rparr>)))"

section \<open>Random values\<close>

definition create_tensor_random ::
    "tensor_rt \<Rightarrow> elem \<Rightarrow> (int \<Rightarrow> int \<Rightarrow> nat \<Rightarrow> u8 list) \<Rightarrow> int \<Rightarrow> int \<Rightarrow> ('l, 'p, 'f) InputInfo \<Rightarrow> tensor outcome" where
  "create_tensor_random rt T draw rand_min rand_max info =
     (let tensor = new_tensor rt (in_type info) (dataShape info)
      in andthen (for_each (\<lambda>i. put_bytes (i * sizeof T) (draw rand_min rand_max i)) (upto64 (tensor_size (dataShape info))) (tn_data tensor))
           (\<lambda>data. ret (tensor\<lparr>tn_data := data\<rparr>)))"

text \<open>Two elements a byte; \<open>junk\<close> is what the new tensor holds.\<close>

definition put_nibble :: "(nat \<Rightarrow> u8) \<Rightarrow> nat \<Rightarrow> u8 list \<Rightarrow> (u8 list) outcome" where
  "put_nibble draw i data =
     (let val = draw i; dst_idx = i div 2
      in case arr_get data dst_idx of
           None \<Rightarrow> None
         | Some old \<Rightarrow>
             ret (data[dst_idx := if i mod 2 \<noteq> 0 then (old AND 0x0F) OR push_bit 4 val else (old AND 0xF0) OR (val AND 0x0F)]))"

definition create_tensor_random_4bit ::
    "tensor_rt \<Rightarrow> (nat \<Rightarrow> u8) \<Rightarrow> (int \<Rightarrow> int \<Rightarrow> nat \<Rightarrow> u8) \<Rightarrow> int \<Rightarrow> int \<Rightarrow> ('l, 'p, 'f) InputInfo \<Rightarrow> tensor outcome" where
  "create_tensor_random_4bit rt junk draw rand_min rand_max info =
     (let tensor = new_tensor rt (in_type info) (dataShape info)
      in andthen (for_each (put_nibble (draw rand_min rand_max)) (upto64 (prod_list (dataShape info)))
                    (map junk [0..<length (tn_data tensor)])) (\<lambda>data. ret (tensor\<lparr>tn_data := map Some data\<rparr>)))"

section \<open>Selection of the element type\<close>

definition tensor_elem :: "Type_t \<Rightarrow> elem option" where
  "tensor_elem type =
     (case type of
        ET_f16 \<Rightarrow> Some T_f16 | ET_f32 \<Rightarrow> Some T_f32 | ET_f64 \<Rightarrow> Some T_f64
      | ET_i8 \<Rightarrow> Some T_i8 | ET_i16 \<Rightarrow> Some T_i16 | ET_i32 \<Rightarrow> Some T_i32 | ET_i64 \<Rightarrow> Some T_i64
      | ET_u8 \<Rightarrow> Some T_u8 | ET_boolean \<Rightarrow> Some T_u8
      | ET_u16 \<Rightarrow> Some T_u16 | ET_u32 \<Rightarrow> Some T_u32 | ET_u64 \<Rightarrow> Some T_u64
      | _ \<Rightarrow> None)"

definition binary_elem :: "Type_t \<Rightarrow> elem option" where
  "binary_elem type = (if type = ET_i4 then Some T_i8 else if type = ET_u4 then Some T_u8 else tensor_elem type)"

definition with_elem :: "elem option \<Rightarrow> string \<Rightarrow> (elem \<Rightarrow> tensor outcome) \<Rightarrow> tensor outcome" where
  "with_elem t name create =
     (case t of None \<Rightarrow> throw (''Input type is not supported for '' @ name) | Some T \<Rightarrow> create T)"

definition get_image_tensor ::
    "('l, 'p) ov_api \<Rightarrow> tensor_rt \<Rightarrow> (string \<Rightarrow> ('r option) outcome) \<Rightarrow> ('r \<Rightarrow> u64 \<Rightarrow> u64 \<Rightarrow> u8 list option)
     \<Rightarrow> string list \<Rightarrow> u64 \<Rightarrow> u64 \<Rightarrow> string \<times> ('l, 'p, 'f) InputInfo \<Rightarrow> tensor outcome" where
  "get_image_tensor api rt open_reader getData files inputId batchSize inputInfo =
     with_elem (tensor_elem (in_type (snd inputInfo))) (fst inputInfo)
       (\<lambda>T. create_tensor_from_image api rt open_reader getData T files inputId batchSize (snd inputInfo))"

definition get_im_info_tensor ::
    "('l, 'p) ov_api \<Rightarrow> tensor_rt \<Rightarrow> u64 \<times> u64 \<Rightarrow> u64 \<Rightarrow> string \<times> ('l, 'p, 'f) InputInfo \<Rightarrow> tensor outcome" where
  "get_im_info_tensor api rt image_size batchSize inputInfo =
     with_elem (tensor_elem (in_type (snd inputInfo))) (fst inputInfo)
       (\<lambda>T. create_tensor_im_info api rt T image_size batchSize (snd inputInfo))"

definition get_numpy_tensor ::
    "('l, 'p) ov_api \<Rightarrow> tensor_rt \<Rightarrow> (string \<Rightarrow> ('r option) outcome) \<Rightarrow> ('r \<Rightarrow> u64 \<Rightarrow> u64 \<Rightarrow> u8 list option)
     \<Rightarrow> string list \<Rightarrow> u64 \<Rightarrow> u64 \<Rightarrow> string \<times> ('l, 'p, 'f) InputInfo \<Rightarrow> tensor outcome" where
  "get_numpy_tensor api rt open_reader getData files inputId batchSize inputInfo =
     with_elem (tensor_elem (in_type (snd inputInfo))) (fst inputInfo)
       (\<lambda>T. create_tensor_from_numpy api rt open_reader getData T files inputId batchSize (snd inputInfo))"

definition get_binary_tensor ::
    "('l, 'p) ov_api \<Rightarrow> tensor_rt \<Rightarrow> (string \<Rightarrow> u8 list option) \<Rightarrow> string list \<Rightarrow> u64 \<Rightarrow> u64 \<Rightarrow> string \<times> ('l, 'p, 'f) InputInfo
     \<Rightarrow> tensor outcome" where
  "get_binary_tensor api rt fs files inputId batchSize inputInfo =
     with_elem (binary_elem (in_type (snd inputInfo))) (fst inputInfo)
       (\<lambda>T. create_tensor_from_binary api rt fs T files inputId batchSize (snd inputInfo))"

text \<open>
  The ranges of the random values; the second test for \<open>boolean\<close>, with the range from 0 to 1, is never
  reached. The tensors of strings are a parameter.
\<close>

record random_source =
  draw_value :: "elem \<Rightarrow> int \<Rightarrow> int \<Rightarrow> nat \<Rightarrow> u8 list"
  draw_nibble :: "int \<Rightarrow> int \<Rightarrow> nat \<Rightarrow> u8"
  fresh_byte :: "nat \<Rightarrow> u8"
  random_strings :: "u64 list \<Rightarrow> tensor outcome"

definition get_random_tensor :: "tensor_rt \<Rightarrow> random_source \<Rightarrow> string \<times> ('l, 'p, 'f) InputInfo \<Rightarrow> tensor outcome" where
  "get_random_tensor rt rs inputInfo =
     (let info = snd inputInfo;
          random = (\<lambda>T rand_min rand_max. create_tensor_random rt T (draw_value rs T) rand_min rand_max info)
      in case in_type info of
           ET_f32 \<Rightarrow> random T_f32 0 255
         | ET_f64 \<Rightarrow> random T_f64 0 255
         | ET_f16 \<Rightarrow> random T_f16 0 255
         | ET_i32 \<Rightarrow> random T_i32 0 255
         | ET_i64 \<Rightarrow> random T_i64 0 255
         | ET_u8 \<Rightarrow> random T_u8 0 255
         | ET_boolean \<Rightarrow> random T_u8 0 255
         | ET_i8 \<Rightarrow> random T_i8 (- 128) 127
         | ET_u16 \<Rightarrow> random T_u16 0 255
         | ET_i16 \<Rightarrow> random T_i16 0 255
         | ET_u4 \<Rightarrow> create_tensor_random_4bit rt (fresh_byte rs) (draw_nibble rs) 0 15 info
         | ET_i4 \<Rightarrow> create_tensor_random_4bit rt (fresh_byte rs) (draw_nibble rs) 0 15 info
         | ET_string \<Rightarrow> random_strings rs (dataShape info)
         | _ \<Rightarrow> throw (''Input type is not supported for '' @ fst inputInfo))"

end
