(* ===== verification/Sample_Tensor_Props.thy ===== *)
theory Sample_Tensor_Props
  imports Sample_Tensors Sample_Config
begin

text \<open>
  What the filled tensors hold: which element of an image, an array or a file each element comes from, and
  which bytes are left uninitialised.
\<close>

section \<open>Writing elements one after the other\<close>

lemma for_each_append: "for_each f (xs @ ys) s = andthen (for_each f xs s) (for_each f ys)"
  by (induction f xs s rule: for_each.induct) (simp, simp add: andthen_def split: option.splits sum.splits)

lemma for_each_map: "for_each f (map g xs) = for_each (\<lambda>x. f (g x)) xs"
  by (induction xs) (intro ext, simp)+

lemma for_each_cong: "xs = ys \<Longrightarrow> (\<And>x s. x \<in> set ys \<Longrightarrow> f x s = g x s) \<Longrightarrow> for_each f xs s = for_each g ys s"
proof (induction ys arbitrary: xs s)
  case (Cons y ys)
  then have "for_each f ys = for_each g ys" by (intro ext) simp
  then show ?case using Cons.prems by simp
qed simp

text \<open>Two nested loops are one loop over the pairs.\<close>

lemma for_each_product: "for_each (\<lambda>x. for_each (g x) ys) xs = for_each (\<lambda>p. g (fst p) (snd p)) (List.product xs ys)"
  by (induction xs) (intro ext, simp add: for_each_append for_each_map)+

definition cell :: "nat \<Rightarrow> nat \<Rightarrow> u8 option list \<Rightarrow> u8 option list" where
  "cell sz i d = take sz (drop (i * sz) d)"

lemma cell_below: "i < n \<Longrightarrow> i * sz + sz \<le> n * (sz :: nat)"
proof -
  assume "i < n"
  then have "(i + 1) * sz \<le> n * sz" by (intro mult_right_mono) simp_all
  then show ?thesis by simp
qed

lemma put_cell:
  assumes "length d = n * sz" "i < n" "length bs = sz"
  shows "\<exists>d'. put_bytes (i * sz) bs d = ret d' \<and> length d' = n * sz
    \<and> (\<forall>j < n. cell sz j d' = (if j = i then map Some bs else cell sz j d))"
proof -
  let ?d = "take (i * sz) d @ map Some bs @ drop (i * sz + sz) d"
  have b: "i * sz + sz \<le> length d" using cell_below [OF assms(2)] assms(1) by simp
  have "cell sz j ?d = (if j = i then map Some bs else cell sz j d)" if "j < n" for j
  proof -
    consider "j = i" | "j + 1 \<le> i" | "i + 1 \<le> j" by linarith
    then show ?thesis
    proof cases
      case 1
      then show ?thesis using b assms(3) by (simp add: cell_def)
    next
      case 2
      have "(j + 1) * sz \<le> i * sz" using 2 by (rule mult_right_mono) simp
      then have e: "j * sz + sz \<le> i * sz" by simp
      then have "sz \<le> i * sz - j * sz" by simp
      then have "take sz (drop (j * sz) (take (i * sz) d)) = take sz (drop (j * sz) d)"
        by (simp add: drop_take min_def)
      moreover have "take sz (drop (j * sz) ?d) = take sz (drop (j * sz) (take (i * sz) d))"
        using e b by simp
      ultimately show ?thesis using 2 by (simp add: cell_def)
    next
      case 3
      have "(i + 1) * sz \<le> j * sz" using 3 by (rule mult_right_mono) simp
      then have e: "i * sz + sz \<le> j * sz" by simp
      then have "j * sz - (i * sz + sz) + (i * sz + sz) = j * sz" by simp
      then show ?thesis using 3 b e assms(3)
        by (simp add: cell_def min_def diff_diff_left add.commute)
    qed
  qed
  then show ?thesis using b assms(1,3) by (intro exI [of _ ?d]) (simp add: put_bytes_def)
qed

lemma put_cells:
  assumes "length d = n * sz" "distinct (map off xs)"
    and "\<And>x. x \<in> set xs \<Longrightarrow> off x < n \<and> length (val x) = sz"
    and "\<And>x s. x \<in> set xs \<Longrightarrow> f x s = put_bytes (off x * sz) (val x) s"
  shows "\<exists>d'. for_each f xs d = ret d' \<and> length d' = n * sz \<and> (\<forall>x \<in> set xs. cell sz (off x) d' = map Some (val x))
    \<and> (\<forall>j < n. j \<notin> off ` set xs \<longrightarrow> cell sz j d' = cell sz j d)"
  using assms
proof (induction xs arbitrary: d)
  case Nil
  then show ?case by (intro exI [of _ d]) simp
next
  case (Cons x xs)
  obtain d1 where d1: "put_bytes (off x * sz) (val x) d = ret d1" "length d1 = n * sz"
    "\<forall>j < n. cell sz j d1 = (if j = off x then map Some (val x) else cell sz j d)"
    using put_cell [OF Cons.prems(1), of "off x" "val x"] Cons.prems(3) [of x] by auto
  obtain d2 where d2: "for_each f xs d1 = ret d2" "length d2 = n * sz"
    "\<forall>y \<in> set xs. cell sz (off y) d2 = map Some (val y)"
    "\<forall>j < n. j \<notin> off ` set xs \<longrightarrow> cell sz j d2 = cell sz j d1"
    using Cons.IH [OF d1(2)] Cons.prems by auto
  have "cell sz (off x) d2 = map Some (val x)" using d2(4) d1(3) Cons.prems(2,3) by auto
  then show ?case using d1 d2 Cons.prems(4) [of x d] by auto
qed

lemma initialised:
  assumes "length d = n * sz" "\<And>j. j < n \<Longrightarrow> None \<notin> set (cell sz j d)"
  shows "None \<notin> set d"
proof
  assume "None \<in> set d"
  then obtain k where k: "k < n * sz" "d ! k = None" using assms(1) by (auto simp: in_set_conv_nth)
  then have z: "0 < sz" by (cases sz) simp_all
  have j: "k div sz < n" using k(1) by (simp add: less_mult_imp_div_less)
  have "k mod sz < length (cell sz (k div sz) d)"
    using cell_below [OF j, of sz] z assms(1) by (simp add: cell_def)
  moreover have "cell sz (k div sz) d ! (k mod sz) = d ! k"
  proof -
    have "k div sz * sz \<le> length d" using cell_below [OF j, of sz] assms(1) by linarith
    then show ?thesis using z by (simp add: cell_def)
  qed
  ultimately have "None \<in> set (cell sz (k div sz) d)" using k(2) by (metis nth_mem)
  then show False using assms(2) [OF j] by simp
qed

text \<open>A loop that writes as many different elements as there are writes them all.\<close>

lemma all_cells:
  assumes "\<And>x. x \<in> set xs \<Longrightarrow> off x < n" "distinct (map off xs)" "length xs = n" "j < n"
  shows "j \<in> off ` set xs"
proof -
  have "card (off ` set xs) = n" using assms(2,3) distinct_card [of "map off xs"] by simp
  moreover have "off ` set xs \<subseteq> {..<n}" using assms(1) by auto
  ultimately have "off ` set xs = {..<n}" by (intro card_subset_eq) simp_all
  then show ?thesis using assms(4) by simp
qed

section \<open>Images\<close>

lemma radix_eq: "r < m \<Longrightarrow> r' < m \<Longrightarrow> a * m + r = a' * m + r' \<longleftrightarrow> a = a' \<and> r = (r' :: nat)"
  by (metis add.commute div_mult_self3 div_less add_cancel_right_right mod_mult_self3 mod_less not_less0)

lemma radix_less: "a < n \<Longrightarrow> r < m \<Longrightarrow> a * m + r < n * (m :: nat)"
proof -
  assume "a < n" "r < m"
  have "(a + 1) * m \<le> n * m" using \<open>a < n\<close> by (intro mult_right_mono) simp_all
  then show ?thesis using \<open>r < m\<close> by simp
qed

definition pixel_index :: "bool \<Rightarrow> nat \<Rightarrow> nat \<Rightarrow> nat \<Rightarrow> nat \<Rightarrow> nat \<Rightarrow> nat \<Rightarrow> nat \<Rightarrow> nat" where
  "pixel_index planar c h w b y x ch =
     (if planar then ((b * c + ch) * h + y) * w + x else ((b * h + y) * w + x) * c + ch)"

lemma pixel_index_eq:
  assumes "ch < c" "y < h" "x < w" "ch' < c" "y' < h" "x' < w"
  shows "pixel_index planar c h w b y x ch = pixel_index planar c h w b' y' x' ch'
    \<longleftrightarrow> b = b' \<and> y = y' \<and> x = x' \<and> ch = ch'"
  using assms by (auto simp: pixel_index_def radix_eq)

lemma pixel_index_less:
  assumes "b < n" "ch < c" "y < h" "x < w"
  shows "pixel_index planar c h w b y x ch < n * c * h * w"
proof -
  have "((b * c + ch) * h + y) * w + x < n * c * h * w" "((b * h + y) * w + x) * c + ch < n * h * w * c"
    using assms by (intro radix_less; simp)+
  then show ?thesis by (simp add: pixel_index_def ac_simps)
qed

lemma image_offset_index:
  assumes "b < n" "ch < c" "y < h" "x < w" "n * c * h * w < 18446744073709551616"
  shows "image_offset planar c w h b x y ch = pixel_index planar c h w b y x ch"
proof -
  have "b * c * w * h + (if planar then ch * w * h + y * w + x else y * w * c + x * c + ch) = pixel_index planar c h w b y x ch"
    by (simp add: pixel_index_def algebra_simps)
  then show ?thesis
    using pixel_index_less [OF assms(1-4), of planar] assms(5) by (simp add: image_offset_def size64_def)
qed

lemma image_source:
  assumes "b < n" "ch < c" "y < h" "x < w" "n * c * h * w < 18446744073709551616" "w * h * c \<le> length img"
  shows "arr_get img (size64 (y * w * c + x * c + ch)) = Some (img ! ((y * w + x) * c + ch))"
proof -
  have i: "(y * w + x) * c + ch < h * w * c" using assms(2-4) by (intro radix_less; simp)
  moreover have "h * w * c * 1 \<le> h * w * c * n" using assms(1) by (intro mult_left_mono) simp_all
  moreover have "h * w * c * n = n * c * h * w" by (simp add: ac_simps)
  ultimately have "(y * w + x) * c + ch < 18446744073709551616" using assms(5) by linarith
  moreover have "(y * w + x) * c + ch < length img" using i assms(6) by (simp add: ac_simps)
  moreover have "y * w * c + x * c + ch = (y * w + x) * c + ch" by (simp add: algebra_simps)
  ultimately show ?thesis by (simp add: size64_def)
qed

lemma length_cast: "\<forall>v. length (float16_of rt v) = 2 \<Longrightarrow> length (cast_u8 rt T v) = sizeof T"
proof -
  assume f: "\<forall>v. length (float16_of rt v) = 2"
  have "length (le_bytes k n) = k" for k n by (induction k n rule: le_bytes.induct) simp_all
  then show ?thesis using f by (cases T) simp_all
qed

lemma read_images:
  assumes "files \<noteq> []" "info_width api info = Inr w" "info_height api info = Inr h"
    and "\<And>b. b < n \<Longrightarrow> \<exists>r. open_reader (the (file_at files inputId b)) = ret (Some r) \<and> getData r w h = Some (img b)"
  shows "for_each (read_image api open_reader getData files inputId info) [0..<n] [] = ret (map img [0..<n])"
  using assms(4)
proof (induction n)
  case 0
  then show ?case by simp
next
  case (Suc n)
  obtain r where r: "open_reader (the (file_at files inputId n)) = ret (Some r)" "getData r w h = Some (img n)"
    using Suc.prems [of n] by auto
  obtain f where f: "file_at files inputId n = Some f" using assms(1) by (simp add: file_at_def)
  have "read_image api open_reader getData files inputId info n (map img [0..<n]) = ret (map img [0..<n] @ [img n])"
    using r assms(2,3) by (simp add: read_image_def f flip: ret_def)
  then show ?case using Suc by (simp add: for_each_append)
qed

text \<open>
  A tensor filled from images holds, for every image of the batch, the component of every pixel, converted
  to the element type, at the index its layout gives it (planar for \<open>NCHW\<close> and \<open>CHW\<close>, interleaved
  otherwise), and no byte of it is left uninitialised; the image of each batch entry is the file at that
  distance from the first one, cyclically.
\<close>

lemma image_tensor_filled:
  assumes "tensor_elem (in_type info) = Some T" "\<forall>v. length (float16_of rt v) = 2"
    and "info_width api info = Inr w" "info_height api info = Inr h" "info_channels api info = Inr c"
    and "n = unat (batch_of api info batchSize)" "n * unat c * unat h * unat w < 18446744073709551616"
    and "byte_size rt (in_type info) (dataShape info) = n * unat c * unat h * unat w * sizeof T"
    and "files \<noteq> []" "planar = (layout_is api (in_layout info) ''NCHW'' \<or> layout_is api (in_layout info) ''CHW'')"
    and "\<And>b. b < n \<Longrightarrow> \<exists>r. open_reader (files ! (unat (inputId + of_nat b) mod length files)) = ret (Some r)
          \<and> getData r w h = Some (img b) \<and> unat w * unat h * unat c \<le> length (img b)"
  shows "\<exists>t. get_image_tensor api rt open_reader getData files inputId batchSize (name, info) = ret t \<and> None \<notin> set (tn_data t)
    \<and> (\<forall>b < n. \<forall>y < unat h. \<forall>x < unat w. \<forall>ch < unat c.
        cell (sizeof T) (pixel_index planar (unat c) (unat h) (unat w) b y x ch) (tn_data t)
        = map Some (cast_u8 rt T (img b ! ((y * unat w + x) * unat c + ch))))"
proof -
  let ?c = "unat c" and ?h = "unat h" and ?w = "unat w"
  let ?ps = "List.product [0..<n] (List.product [0..<?w] (List.product [0..<?h] [0..<?c]))"
  let ?off = "\<lambda>(b, x, y, ch). pixel_index planar ?c ?h ?w b y x ch"
  let ?val = "\<lambda>(b, x, y, ch). cast_u8 rt T (img b ! ((y * ?w + x) * ?c + ch))"
  let ?put = "put_pixel rt T planar (map img [0..<n]) ?c ?w ?h"
  let ?d = "tn_data (new_tensor rt (in_type info) (dataShape info))"
  have rd: "for_each (read_image api open_reader getData files inputId info) [0..<n] [] = ret (map img [0..<n])"
    using assms(9,11) by (intro read_images [OF assms(9,3,4)]) (fastforce simp: file_at_def)
  have d: "length ?d = n * ?c * ?h * ?w * sizeof T" by (simp add: new_tensor_def assms(8))
  have ps: "set ?ps = {(b, x, y, ch). b < n \<and> x < ?w \<and> y < ?h \<and> ch < ?c}" "length ?ps = n * ?c * ?h * ?w"
    by (auto simp: ac_simps)
  have off: "?off p < n * ?c * ?h * ?w" if "p \<in> set ?ps" for p
    using that pixel_index_less by (auto simp: ps(1))
  have inj: "distinct (map ?off ?ps)"
    by (subst distinct_map) (auto simp: distinct_product ps(1) inj_on_def pixel_index_eq simp del: set_product)
  have put: "?put (fst p) (fst (snd p)) (fst (snd (snd p))) (snd (snd (snd p))) s = put_bytes (?off p * sizeof T) (?val p) s"
    if p: "p \<in> set ?ps" for p s
  proof -
    obtain b x y ch where e: "p = (b, x, y, ch)" "b < n" "x < ?w" "y < ?h" "ch < ?c" using p unfolding ps(1) by auto
    have "?w * ?h * ?c \<le> length (img b)" using assms(11) [OF e(2)] by auto
    then show ?thesis
      using image_offset_index [OF e(2,5,4,3) assms(7), of planar] image_source [OF e(2,5,4,3) assms(7), of "img b"] e
      by (simp add: put_pixel_def)
  qed
  obtain d' where d': "for_each (\<lambda>p. ?put (fst p) (fst (snd p)) (fst (snd (snd p))) (snd (snd (snd p)))) ?ps ?d = ret d'"
    "length d' = n * ?c * ?h * ?w * sizeof T" "\<forall>p \<in> set ?ps. cell (sizeof T) (?off p) d' = map Some (?val p)"
    using put_cells [where f = "\<lambda>p. ?put (fst p) (fst (snd p)) (fst (snd (snd p))) (snd (snd (snd p)))" and off = ?off and val = ?val, OF d inj _ put]
      off length_cast [OF assms(2), of T] by (auto simp: split_beta)
  have "None \<notin> set d'"
  proof (rule initialised [OF d'(2)])
    fix j assume "j < n * ?c * ?h * ?w"
    then obtain p where "p \<in> set ?ps" "j = ?off p" using all_cells [OF off inj ps(2)] by blast
    then show "None \<notin> set (cell (sizeof T) j d')" using d'(3) by auto
  qed
  moreover have "get_image_tensor api rt open_reader getData files inputId batchSize (name, info)
      = ret ((new_tensor rt (in_type info) (dataShape info))\<lparr>tn_data := d'\<rparr>)"
    using rd d'(1) assms(1,3-6,10)
    by (simp add: get_image_tensor_def with_elem_def create_tensor_from_image_def upto64_def for_each_product Let_def)
  ultimately show ?thesis using d'(3) unfolding ps(1) by (intro exI conjI) auto
qed

lemma bmp_opened:
  assumes "extension f = Some ''bmp''" "fs f = Some bytes" "writeOutputBmp True limit img h w = ret (True, bytes)"
    and "length img = w * 3 * h" "0 < h" "0 < w" "h < 2147483648" "w < 2147483648" "h < limit" "w < limit"
    and "can_alloc (w * 3 * h)"
  shows "\<exists>r. CreateFormatReader can_alloc junk fs f = ret (Some r) \<and> reader_getData r (of_nat w) (of_nat h) = Some img"
proof -
  obtain bytes' where b: "writeOutputBmp True limit img h w = ret (True, bytes')"
    "BitMap can_alloc junk (Some bytes') = Some (Inr \<lparr>rd_height = of_nat h, rd_width = of_nat w,
        rd_data = Some img, rd_shape = [of_nat h, of_nat w]\<rparr>)"
    using bmp_written_read [of img w h limit can_alloc junk] assms(4-11) by auto
  then have e: "bytes' = bytes" using assms(3) by (simp add: ret_def)
  obtain a b c d r where bytes: "bytes = a # b # c # d # r" "a \<noteq> 0" "a = 0x42"
    using assms(3) by (auto simp: writeOutputBmp_def bmp_file_header_def ret_def throw_def Let_def int_bytes_def split: if_splits option.splits)
  have npy: "NumpyArray can_alloc f (Some bytes) = ret blank_npy" using assms(1) by (simp add: NumpyArray_def)
  have "w * h * 3 < 18446744073709551616"
  proof -
    have "w * h \<le> 2147483647 * 2147483647" using assms(7,8) by (intro mult_mono) simp_all
    then show ?thesis by simp
  qed
  then have "unat (of_nat w * of_nat h * 3 :: u64) = w * h * 3"
    using assms(7,8) by (simp add: unat_mult_u64 unat_of_nat_u64)
  then have "(of_nat w * of_nat h * 3 :: u64) \<noteq> 0" using assms(5,6) by (intro notI) simp
  then have "CreateFormatReader can_alloc junk fs f = ret (Some (Bmp_r \<lparr>rd_height = of_nat h, rd_width = of_nat w,
        rd_data = Some img, rd_shape = [of_nat h, of_nat w]\<rparr>))"
    using b(2) npy assms(1,2) not_mnist [OF bytes(2), of can_alloc junk b c d r] bytes(1)
    by (simp add: CreateFormatReader_def e made_def mnist_size_def bmp_size_def blank_reader_def blank_npy_def YUV_NV12_def
        ret_def)
  then show ?thesis by (intro exI conjI, assumption) (simp add: reader_getData_def bmp_getData_def)
qed

text \<open>
  C33: Images that \<open>writeOutputBmp\<close> has written are loaded into an input tensor through the registry of readers:
  the tensor holds, for every image of the batch, every component of every pixel converted to the element
  type, at the index the layout gives it (planar for \<open>NCHW\<close> and \<open>CHW\<close>, interleaved otherwise), and no
  byte of it is left uninitialised; entry \<open>b\<close> of the batch is the file \<open>b\<close> places after the first, cyclically.
\<close>

theorem bmp_images_loaded:
  assumes "tensor_elem (in_type info) = Some T" "\<forall>v. length (float16_of rt v) = 2"
    and "info_width api info = Inr (of_nat w)" "info_height api info = Inr (of_nat h)" "info_channels api info = Inr 3"
    and "n = unat (batch_of api info batchSize)" "n * 3 * h * w < 18446744073709551616"
    and "byte_size rt (in_type info) (dataShape info) = n * 3 * h * w * sizeof T"
    and "planar = (layout_is api (in_layout info) ''NCHW'' \<or> layout_is api (in_layout info) ''CHW'')"
    and "0 < h" "0 < w" "h < 2147483648" "w < 2147483648" "h < limit" "w < limit" "can_alloc (w * 3 * h)"
    and "files \<noteq> []" "\<forall>f \<in> set files. extension f = Some ''bmp'' \<and> length (pixels f) = w * 3 * h
          \<and> (\<exists>bytes. fs f = Some bytes \<and> writeOutputBmp True limit (pixels f) h w = ret (True, bytes))"
  shows "\<exists>t. get_image_tensor api rt (CreateFormatReader can_alloc junk fs) reader_getData files inputId batchSize (name, info) = ret t
    \<and> None \<notin> set (tn_data t)
    \<and> (\<forall>b < n. \<forall>y < h. \<forall>x < w. \<forall>ch < 3.
        cell (sizeof T) (pixel_index planar 3 h w b y x ch) (tn_data t)
        = map Some (cast_u8 rt T (pixels (files ! (unat (inputId + of_nat b) mod length files)) ! ((y * w + x) * 3 + ch))))"
proof -
  have u: "unat (of_nat w :: u64) = w" "unat (of_nat h :: u64) = h" using assms(12,13) by (simp_all add: unat_of_nat_u64)
  define img where "img b = pixels (files ! (unat (inputId + of_nat b) mod length files))" for b :: nat
  have "\<exists>r. CreateFormatReader can_alloc junk fs (files ! (unat (inputId + of_nat b) mod length files)) = ret (Some r)
      \<and> reader_getData r (of_nat w) (of_nat h) = Some (img b) \<and> w * h * 3 \<le> length (img b)" for b
  proof -
    let ?f = "files ! (unat (inputId + of_nat b) mod length files)"
    have f: "?f \<in> set files" using assms(17) by simp
    then obtain bytes where b: "fs ?f = Some bytes" "writeOutputBmp True limit (pixels ?f) h w = ret (True, bytes)"
      "extension ?f = Some ''bmp''" "length (pixels ?f) = w * 3 * h" using assms(18) by blast
    show ?thesis using bmp_opened [where can_alloc = can_alloc and junk = junk and fs = fs, OF b(3,1,2,4) assms(10-16)] b(4)
      by (simp add: img_def ac_simps)
  qed
  then have "\<exists>r. CreateFormatReader can_alloc junk fs (files ! (unat (inputId + of_nat b) mod length files)) = ret (Some r)
      \<and> reader_getData r (of_nat w) (of_nat h) = Some (img b) \<and> unat (of_nat w :: u64) * unat (of_nat h :: u64) * unat (3 :: u64) \<le> length (img b)"
    for b by (simp add: u)
  from image_tensor_filled [where open_reader = "CreateFormatReader can_alloc junk fs" and getData = reader_getData and files = files and img = img and rt = rt and inputId = inputId and batchSize = batchSize and name = name,
      OF assms(1-6) _ _ assms(17,9) this]
  show ?thesis using assms(7,8) by (simp add: u img_def)
qed

section \<open>NumPy arrays\<close>

lemma copy_bytes_in:
  assumes "b < length arrays" "\<forall>k \<in> set ns. start + k < length (arrays ! b)" "length (arrays ! b) < 18446744073709551616"
  shows "copy_bytes arrays b start ns buffer = ret (buffer @ map (\<lambda>k. arrays ! b ! (start + k)) ns)"
  using assms(2)
proof (induction ns arbitrary: buffer)
  case (Cons k ns)
  then have "start + k < 18446744073709551616" using assms(3) by (simp add: less_trans)
  then show ?case using Cons assms(1) by (simp add: size64_def)
qed simp

lemma fits_sizeof: "n * sizeof T < bound \<Longrightarrow> n < (bound :: nat)"
  by (cases T) simp_all

text \<open>The elements of batch entry 0 are where the loop looks for them; those of the others are not.\<close>

lemma put_element_first:
  assumes "arrays \<noteq> []" "length (arrays ! 0) = n * sizeof T" "i < n" "n * sizeof T < 18446744073709551616"
  shows "put_element T arrays m 0 i d = put_bytes (i * sizeof T) (take (sizeof T) (drop (i * sizeof T) (arrays ! 0))) d"
proof -
  have b: "i * sizeof T + sizeof T \<le> n * sizeof T" by (rule cell_below [OF assms(3)])
  have i: "size64 i = i" using fits_sizeof [OF assms(4)] assms(3) by (simp add: size64_def)
  have "copy_bytes arrays 0 (i * sizeof T) [0..<sizeof T] [] = ret (map (\<lambda>k. arrays ! 0 ! (i * sizeof T + k)) [0..<sizeof T])"
    using copy_bytes_in [of 0 arrays "[0..<sizeof T]" "i * sizeof T" "[]"] assms(1,2,4) b by simp
  moreover have "map (\<lambda>k. arrays ! 0 ! (i * sizeof T + k)) [0..<sizeof T] = take (sizeof T) (drop (i * sizeof T) (arrays ! 0))"
  proof -
    have "i * sizeof T \<le> length (arrays ! 0)" using b assms(2) by linarith
    then show ?thesis using b assms(2) by (intro nth_equalityI) simp_all
  qed
  ultimately show ?thesis by (simp add: put_element_def i Let_def)
qed

lemma cells_concat:
  assumes "length d = n * sz" "\<And>j. j < n \<Longrightarrow> cell sz j d = map Some (f j)"
  shows "d = map Some (concat (map f [0..<n]))"
  using assms
proof (induction n arbitrary: d)
  case 0
  then show ?case by simp
next
  case (Suc n)
  have "cell sz j (take (n * sz) d) = cell sz j d" if "j < n" for j
    using cell_below [OF that, of sz] by (simp add: cell_def drop_take min_def)
  then have "take (n * sz) d = map Some (concat (map f [0..<n]))" using Suc by simp
  moreover have "drop (n * sz) d = map Some (f n)" using Suc.prems(1) Suc.prems(2) [of n] by (simp add: cell_def)
  ultimately show ?case using append_take_drop_id [of "n * sz" d] by simp
qed

lemma first_batch_filled:
  assumes "arrays \<noteq> []" "length (arrays ! 0) = n * sizeof T" "n * sizeof T < 18446744073709551616"
    and "length d = N * sizeof T" "n \<le> N"
  shows "\<exists>d'. for_each (put_element T arrays m 0) [0..<n] d = ret d' \<and> length d' = N * sizeof T
    \<and> (\<forall>i < n. cell (sizeof T) i d' = map Some (take (sizeof T) (drop (i * sizeof T) (arrays ! 0))))"
proof -
  have "length (take (sizeof T) (drop (i * sizeof T) (arrays ! 0))) = sizeof T" if "i < n" for i
    using cell_below [OF that, of "sizeof T"] assms(2) by simp
  then show ?thesis
    using put_cells [where xs = "[0..<n]" and off = "\<lambda>i. i" and val = "\<lambda>i. take (sizeof T) (drop (i * sizeof T) (arrays ! 0))"
        and f = "put_element T arrays m 0", OF assms(4)] put_element_first [OF assms(1,2) _ assms(3)] assms(5)
    by (auto simp: less_le_trans)
qed

lemma read_arrays:
  assumes "files \<noteq> []"
    and "\<And>b. b < n \<Longrightarrow> \<exists>r. open_reader (files ! (unat (inputId + of_nat b) mod length files)) = ret (Some r) \<and> getData r 0 0 = Some (arr b)"
  shows "for_each (read_array open_reader getData files inputId) [0..<n] [] = ret (map arr [0..<n])"
  using assms(2)
proof (induction n)
  case 0
  then show ?case by simp
next
  case (Suc n)
  obtain r where r: "open_reader (files ! (unat (inputId + of_nat n) mod length files)) = ret (Some r)" "getData r 0 0 = Some (arr n)"
    using Suc.prems [of n] by auto
  have "read_array open_reader getData files inputId n (map arr [0..<n]) = ret (map arr [0..<n] @ [arr n])"
    using r assms(1) by (simp add: read_array_def file_at_def)
  then show ?case using Suc by (simp add: for_each_append)
qed

text \<open>
  C34: For an input without a batch dimension or with batch size 1, a file that \<open>numpy.save\<close> has written for a
  row-major array (\<open>'fortran_order': False\<close>, the only order the reader accepts, and a plain element type in the
  header of format 1.0) that has exactly as many bytes as the tensor, at least one, fills the tensor with exactly the
  bytes of its array, in their order; the shape that the file gives is not compared with that of the tensor. The
  memory for the array can be allocated, and sizes and dimensions are below 2^64.
\<close>

theorem numpy_file_loaded:
  assumes "tensor_elem (in_type info) = Some T" "batch_of api info batchSize = 1"
    and "length contents = unat (tensor_size (dataShape info)) * sizeof T" "length contents < 18446744073709551616"
    and "byte_size rt (in_type info) (dataShape info) = length contents" "contents \<noteq> []"
    and "files \<noteq> []" "f = files ! (unat inputId mod length files)" "extension f = Some ''npy''"
    and "fs f = Some (npy_file descr dims pad contents)" "plain_descr descr" "\<forall>d \<in> set dims. d < 18446744073709551616"
    and "length (npy_header descr dims pad) < 65536" "can_alloc (length contents)"
  shows "get_numpy_tensor api rt (CreateFormatReader can_alloc junk fs) reader_getData files inputId batchSize (name, info)
    = ret \<lparr>tn_type = in_type info, tn_shape = dataShape info, tn_data = map Some contents\<rparr>"
proof -
  let ?N = "unat (tensor_size (dataShape info))"
  let ?d = "tn_data (new_tensor rt (in_type info) (dataShape info))"
  have rd: "for_each (read_array (CreateFormatReader can_alloc junk fs) reader_getData files inputId) [0..<1] [] = ret (map (\<lambda>b. contents) [0..<1])"
    using npy_opened [where can_alloc = can_alloc and junk = junk and fs = fs, OF assms(11-13,6,4,14,9,10)] assms(7,8)
    by (intro read_arrays) (auto simp: reader_getData_def npy_getData_def)
  have d: "length ?d = ?N * sizeof T" by (simp add: new_tensor_def assms(3,5))
  obtain d' where d': "for_each (put_element T [contents] ?N 0) [0..<?N] ?d = ret d'" "length d' = ?N * sizeof T"
    "\<forall>i < ?N. cell (sizeof T) i d' = map Some (take (sizeof T) (drop (i * sizeof T) contents))"
    using first_batch_filled [of "[contents]" ?N T ?d ?N ?N] d assms(3,4) by auto
  have "d' = map Some (concat (map (\<lambda>i. take (sizeof T) (drop (i * sizeof T) contents)) [0..<?N]))"
    using d'(2,3) by (intro cells_concat [where sz = "sizeof T"]) simp_all
  moreover have "map Some contents = map Some (concat (map (\<lambda>i. take (sizeof T) (drop (i * sizeof T) contents)) [0..<?N]))"
    using assms(3) by (intro cells_concat [where sz = "sizeof T"]) (simp_all add: cell_def take_map drop_map)
  ultimately have "d' = map Some contents" by simp
  then show ?thesis
    using rd d'(1) assms(1,2)
    by (simp add: get_numpy_tensor_def with_elem_def create_tensor_from_numpy_def upto64_def Let_def new_tensor_def)
qed

text \<open>
  C35: For an input with a batch of two or more, files that hold one entry of the batch each are read at the
  position the entry has in the tensor, which lies beyond the end of the second file's array.
\<close>

theorem numpy_batch_out_of_bounds:
  assumes "tensor_elem (in_type info) = Some T" "batch_of api info batchSize = n" "1 < unat n"
    and "share = unat (tensor_size (dataShape info) div n)" "0 < share" "share * sizeof T < 18446744073709551616"
    and "byte_size rt (in_type info) (dataShape info) = unat n * share * sizeof T" "files \<noteq> []"
    and "\<And>b. b < unat n \<Longrightarrow> \<exists>r. open_reader (files ! (unat (inputId + of_nat b) mod length files)) = ret (Some r)
          \<and> getData r 0 0 = Some (arr b) \<and> length (arr b) = share * sizeof T"
  shows "get_numpy_tensor api rt open_reader getData files inputId batchSize (name, info) = None"
proof -
  let ?d = "tn_data (new_tensor rt (in_type info) (dataShape info))"
  have rd: "for_each (read_array open_reader getData files inputId) [0..<unat n] [] = ret (map arr [0..<unat n])"
    using assms(9) by (intro read_arrays [OF assms(8)]) blast
  have l: "length (arr b) = share * sizeof T" if "b < unat n" for b using assms(9) [OF that] by blast
  have le: "share \<le> unat n * share" using assms(3) by simp
  obtain d' where d': "for_each (put_element T (map arr [0..<unat n]) share 0) [0..<share] ?d = ret d'"
    using first_batch_filled [where arrays = "map arr [0..<unat n]" and m = share and d = ?d, OF _ _ assms(6) _ le]
      l [of 0] assms(3,7) by (auto simp: new_tensor_def)
  have sz: "[0..<sizeof T] = 0 # [1..<sizeof T]" by (cases T) (simp_all add: upt_rec)
  have s64: "size64 share = share" "size64 (share * sizeof T) = share * sizeof T"
    using assms(6) fits_sizeof [OF assms(6)] by (simp_all add: size64_def)
  have bad: "put_element T (map arr [0..<unat n]) share 1 0 d' = None"
    unfolding put_element_def sz using assms(3) l [of 1] s64 by (simp add: Let_def)
  have outer: "[0..<unat n] = 0 # 1 # [2..<unat n]" using assms(3) by (simp add: upt_conv_Cons numeral_2_eq_2)
  have inner: "[0..<share] = 0 # [1..<share]" using assms(5) by (simp add: upt_rec)
  have "for_each (\<lambda>b. for_each (put_element T (map arr [0..<unat n]) share b) [0..<share]) [0..<unat n] ?d = None"
    by (subst outer) (use d' bad inner in simp)
  then show ?thesis
    using rd assms(1-4) by (auto simp: get_numpy_tensor_def with_elem_def create_tensor_from_numpy_def upto64_def Let_def)
qed

section \<open>Binary files\<close>

lemma andthen_ret: "andthen r f = ret y \<Longrightarrow> \<exists>x. r = ret x \<and> f x = ret y"
  by (auto simp: andthen_def ret_def split: option.splits sum.splits)

lemma for_each_ret: "for_each f xs s = ret s' \<Longrightarrow> x \<in> set xs \<Longrightarrow> \<exists>s1 s2. f x s1 = ret s2"
proof (induction xs arbitrary: s)
  case (Cons y ys)
  from Cons.prems(1) obtain s1 where s1: "f y s = ret s1" "for_each f ys s1 = ret s'"
    by (auto dest: andthen_ret)
  then show ?case using Cons by auto
qed simp

definition right_binary :: "(string \<Rightarrow> u8 list option) \<Rightarrow> u64 \<Rightarrow> string \<Rightarrow> bool" where
  "right_binary fs n f \<longleftrightarrow> get_extension f = ''bin'' \<and> (\<exists>bytes. fs f = Some bytes \<and> of_nat (length bytes) = n)"

lemma read_binary_right:
  assumes "file_at files inputId b = Some f" "k = tensor_size (dataShape info) div n * bitwidth rt (in_type info) div 8"
    and "read_binary api rt fs T files inputId n info b s = ret s'"
  shows "right_binary fs k f"
proof -
  obtain bytes where b: "fs f = Some bytes" using assms(1,3) by (cases "fs f") (simp_all add: read_binary_def throw_def ret_def)
  moreover have "get_extension f = ''bin''" "of_nat (length bytes) = k"
    using assms(1,3) by (auto simp: read_binary_def b throw_def ret_def Let_def assms(2) split: if_splits)
  ultimately show ?thesis by (simp add: right_binary_def)
qed

lemma right_binary_bytes:
  assumes "right_binary fs k f" "\<forall>bytes. fs f = Some bytes \<longrightarrow> length bytes < 18446744073709551616"
  shows "\<exists>bytes. fs f = Some bytes \<and> of_nat (length bytes) = k \<and> get_extension f = ''bin'' \<and> length bytes = unat k"
  using assms by (auto simp: right_binary_def unat_of_nat_u64)

text \<open>The file's bytes in one piece.\<close>

lemma read_binary_put:
  assumes "file_at files inputId b = Some f" "k = tensor_size (dataShape info) div n * bitwidth rt (in_type info) div 8"
    and "right_binary fs k f" "\<not> layout_is api (in_layout info) ''CN''" "b < unat n" "unat n * unat k < 18446744073709551616"
    and "\<forall>bytes. fs f = Some bytes \<longrightarrow> length bytes < 18446744073709551616"
  shows "read_binary api rt fs T files inputId n info b s = put_bytes (b * unat k) (the (fs f)) s"
proof -
  obtain bytes where bytes: "fs f = Some bytes" "of_nat (length bytes) = k" "get_extension f = ''bin''" "length bytes = unat k"
    using right_binary_bytes [OF assms(3,7)] by blast
  have "b * unat k \<le> unat n * unat k" using assms(5) by (intro mult_right_mono) simp_all
  then have "b * unat k < 18446744073709551616" using assms(6) by (rule le_less_trans)
  then have "size64 (b * unat k) = b * unat k" by (simp add: size64_def)
  moreover have "andthen (andthen (put_bytes off bs s) (\<lambda>d. ret (x, d))) (\<lambda>st. ret (snd st)) = put_bytes off bs s"
    for off bs and x :: ifs by (simp add: put_bytes_def ret_def)
  ultimately show ?thesis
    using bytes assms(1,2,4) by (simp add: read_binary_def read_into_def open_file_def is_read_def Let_def)
qed

text \<open>The file's bytes element by element, each to the place of its own.\<close>

definition element :: "nat \<Rightarrow> u8 list \<Rightarrow> nat \<Rightarrow> u8 list" where
  "element sz bytes i = take sz (drop (i * sz) bytes)"

lemma read_elements:
  assumes "m * sz \<le> length bytes" "j \<le> m"
  shows "andthen (for_each (\<lambda>i. read_into (off i) sz) [j..<m] (\<lparr>is_all = bytes, is_rest = drop (j * sz) bytes, is_fail = False\<rparr>, d))
      (\<lambda>st. ret (snd st))
    = for_each (\<lambda>i. put_bytes (off i) (element sz bytes i)) [j..<m] d"
  using assms(2)
proof (induction "m - j" arbitrary: j d)
  case 0
  then show ?case by simp
next
  case (Suc x)
  then have up: "[j..<m] = j # [Suc j..<m]" and j: "j < m" by (simp_all add: upt_conv_Cons)
  have "j * sz + sz \<le> length bytes" using cell_below [OF j, of sz] assms(1) by linarith
  then have rd: "is_read sz \<lparr>is_all = bytes, is_rest = drop (j * sz) bytes, is_fail = False\<rparr>
      = (element sz bytes j, \<lparr>is_all = bytes, is_rest = drop (Suc j * sz) bytes, is_fail = False\<rparr>)"
    by (simp add: is_read_def element_def add.commute)
  show ?case
  proof (cases "put_bytes (off j) (element sz bytes j) d")
    case None
    then show ?thesis by (simp add: up read_into_def rd andthen_def)
  next
    case (Some r)
    then obtain d' where d': "put_bytes (off j) (element sz bytes j) d = ret d'"
      by (auto simp: put_bytes_def ret_def split: if_splits)
    have "x = m - Suc j" "Suc j \<le> m" using Suc.hyps(2) j by simp_all
    from Suc.hyps(1) [OF this, of d'] show ?thesis
      by (simp add: up read_into_def rd d')
  qed
qed

lemma read_binary_elements:
  assumes "file_at files inputId b = Some f" "k = tensor_size (dataShape info) div n * bitwidth rt (in_type info) div 8"
    and "right_binary fs k f" "layout_is api (in_layout info) ''CN''" "b < unat n" "unat n * unat k < 18446744073709551616"
    and "\<forall>bytes. fs f = Some bytes \<longrightarrow> length bytes < 18446744073709551616"
    and "info_channels api info = Inr ch" "unat ch * sizeof T = unat k"
  shows "read_binary api rt fs T files inputId n info b s
    = for_each (\<lambda>i. put_bytes ((i * unat n + b) * sizeof T) (element (sizeof T) (the (fs f)) i)) [0..<unat ch] s"
proof -
  obtain bytes where bytes: "fs f = Some bytes" "of_nat (length bytes) = k" "get_extension f = ''bin''" "length bytes = unat k"
    using right_binary_bytes [OF assms(3,7)] by blast
  have off: "size64 ((i * unat n + b) * sizeof T) = (i * unat n + b) * sizeof T" if "i < unat ch" for i
  proof -
    have "i * unat n + b < unat ch * unat n" by (rule radix_less [OF that assms(5)])
    then have "(i * unat n + b) * sizeof T \<le> unat ch * unat n * sizeof T" by (intro mult_right_mono) simp_all
    also have "\<dots> = unat n * unat k" by (simp flip: assms(9))
    finally show ?thesis using assms(6) by (simp add: size64_def)
  qed
  have "read_binary api rt fs T files inputId n info b s
      = andthen (for_each (\<lambda>i. read_into (size64 ((i * unat n + b) * sizeof T)) (sizeof T)) [0..<unat ch] (open_file bytes, s))
          (\<lambda>st. ret (snd st))"
    using bytes assms(1,2,4,8) by (simp add: read_binary_def Let_def upto64_def)
  also have "\<dots> = for_each (\<lambda>i. put_bytes (size64 ((i * unat n + b) * sizeof T)) (element (sizeof T) bytes i)) [0..<unat ch] s"
    using read_elements [of "unat ch" "sizeof T" bytes 0 "\<lambda>i. size64 ((i * unat n + b) * sizeof T)" s] bytes(4) assms(9)
    by (simp add: open_file_def)
  also have "\<dots> = for_each (\<lambda>i. put_bytes ((i * unat n + b) * sizeof T) (element (sizeof T) bytes i)) [0..<unat ch] s"
    using off by (intro for_each_cong) simp_all
  finally show ?thesis by (simp add: bytes(1))
qed

text \<open>What the tensor should hold: entry after entry, or, with the batch last, element after element of all entries.\<close>

definition entries_in_order :: "(nat \<Rightarrow> u8 list) \<Rightarrow> nat \<Rightarrow> u8 list" where
  "entries_in_order bytes n = concat (map bytes [0..<n])"

definition entries_interleaved :: "nat \<Rightarrow> (nat \<Rightarrow> u8 list) \<Rightarrow> nat \<Rightarrow> nat \<Rightarrow> u8 list" where
  "entries_interleaved sz bytes n m = concat (map (\<lambda>i. concat (map (\<lambda>b. element sz (bytes b) i) [0..<n])) [0..<m])"

lemma interleaved_cells:
  "concat (map (\<lambda>i. concat (map (f i) [0..<n])) [0..<m]) = concat (map (\<lambda>j. f (j div n) (j mod n)) [0..<m * n])"
proof (induction m)
  case (Suc m)
  have "map (\<lambda>b. f ((m * n + b) div n) ((m * n + b) mod n)) [0..<n] = map (f m) [0..<n]"
    by (rule map_cong) auto
  then have "concat (map ((\<lambda>j. f (j div n) (j mod n)) \<circ> (\<lambda>b. m * n + b)) [0..<n]) = concat (map (f m) [0..<n])"
    by (simp only: comp_def)
  moreover have "[0..<Suc m * n] = [0..<m * n] @ map (\<lambda>b. m * n + b) [0..<n]"
    using upt_add_eq_append [of 0 "m * n" n] by (simp add: add.commute map_add_upt)
  ultimately show ?case using Suc by (simp only: map_append concat_append map_map upt_Suc_append [OF le0] list.map concat.simps append_Nil2)
qed simp

lemma interleaved_filled:
  assumes "\<And>b. b < n \<Longrightarrow> length (bytes b) = m * sz"
    and "\<And>b s. b < n \<Longrightarrow> f b s = for_each (\<lambda>i. put_bytes ((i * n + b) * sz) (element sz (bytes b) i)) [0..<m] s"
  shows "for_each f [0..<n] (replicate (n * (m * sz)) None) = ret (map Some (entries_interleaved sz bytes n m))"
proof -
  let ?d = "replicate (m * n * sz) None :: u8 option list"
  let ?ps = "List.product [0..<n] [0..<m]" and ?off = "\<lambda>p. snd p * n + fst p" and ?val = "\<lambda>p. element sz (bytes (fst p)) (snd p)"
  have off: "?off p < m * n" if "p \<in> set ?ps" for p using that by (auto intro: radix_less)
  have val: "length (?val p) = sz" if "p \<in> set ?ps" for p
    using that assms(1) [of "fst p"] cell_below [of "snd p" m sz] by (auto simp: element_def)
  have inj: "distinct (map ?off ?ps)"
    by (subst distinct_map) (auto simp: distinct_product inj_on_def radix_eq)
  have "for_each f [0..<n] ?d
      = for_each (\<lambda>b. for_each (\<lambda>i. put_bytes ((i * n + b) * sz) (element sz (bytes b) i)) [0..<m]) [0..<n] ?d"
    using assms(2) by (intro for_each_cong) simp_all
  also have "\<dots> = for_each (\<lambda>p. put_bytes (?off p * sz) (?val p)) ?ps ?d" by (simp add: for_each_product)
  finally have eq: "for_each f [0..<n] ?d = for_each (\<lambda>p. put_bytes (?off p * sz) (?val p)) ?ps ?d" .
  obtain d' where d': "for_each f [0..<n] ?d = ret d'" "length d' = m * n * sz"
    "\<forall>p \<in> set ?ps. cell sz (?off p) d' = map Some (?val p)"
    using put_cells [where d = ?d and n = "m * n" and sz = sz and off = ?off and xs = ?ps and val = ?val
        and f = "\<lambda>p. put_bytes (?off p * sz) (?val p)", OF _ inj] off val unfolding eq by auto
  have "cell sz j d' = map Some (element sz (bytes (j mod n)) (j div n))" if "j < m * n" for j
  proof -
    have "0 < n" using that by (cases n) simp_all
    then have "(j mod n, j div n) \<in> set ?ps" using that by (simp add: less_mult_imp_div_less)
    with d'(3) show ?thesis by fastforce
  qed
  from cells_concat [OF d'(2) this] d'(1) show ?thesis
    by (simp add: entries_interleaved_def interleaved_cells ac_simps)
qed

text \<open>
  C36: A tensor is filled from binary files exactly when every file its batch takes can be opened, is named
  \<open>.bin\<close> in lower case and has the size of one entry; it then is the files' bytes one after the other, or, for the
  layout CN, interleaved: the first elements of all files, then the second ones, and so on. The entries of the batch
  make up the whole tensor (its shape divides by the batch size), and for CN an entry is one element per channel.
\<close>

theorem binary_tensor_concatenates:
  fixes fs :: "string \<Rightarrow> u8 list option"
  assumes "binary_elem (in_type info) = Some T"
    and "n = batch_of api info batchSize" "k = tensor_size (dataShape info) div n * bitwidth rt (in_type info) div 8"
    and "byte_size rt (in_type info) (dataShape info) = unat n * unat k" "unat n * unat k < 18446744073709551616"
    and "files \<noteq> []" "\<forall>f \<in> set files. \<forall>bytes. fs f = Some bytes \<longrightarrow> length bytes < 18446744073709551616"
    and "entry = (\<lambda>b. files ! (unat (inputId + of_nat b) mod length files))"
    and "layout_is api (in_layout info) ''CN'' \<Longrightarrow> info_channels api info = Inr ch \<and> unat ch * sizeof T = unat k"
  shows "((\<exists>t. get_binary_tensor api rt fs files inputId batchSize (name, info) = ret t)
      \<longleftrightarrow> (\<forall>b < unat n. right_binary fs k (entry b)))
    \<and> ((\<forall>b < unat n. right_binary fs k (entry b)) \<longrightarrow>
      get_binary_tensor api rt fs files inputId batchSize (name, info)
      = ret \<lparr>tn_type = in_type info, tn_shape = dataShape info,
             tn_data = map Some
               (if layout_is api (in_layout info) ''CN''
                then entries_interleaved (sizeof T) (\<lambda>b. the (fs (entry b))) (unat n) (unat ch)
                else entries_in_order (\<lambda>b. the (fs (entry b))) (unat n))\<rparr>)"
proof -
  let ?rb = "read_binary api rt fs T files inputId n info"
  let ?d = "replicate (unat n * unat k) None :: u8 option list"
  let ?call = "get_binary_tensor api rt fs files inputId batchSize (name, info)"
  let ?cn = "layout_is api (in_layout info) ''CN''" and ?bytes = "\<lambda>b. the (fs (entry b))"
  have call: "?call = andthen (for_each ?rb [0..<unat n] ?d)
      (\<lambda>data. ret \<lparr>tn_type = in_type info, tn_shape = dataShape info, tn_data = data\<rparr>)"
    using assms(1,2,4)
    by (simp add: get_binary_tensor_def with_elem_def create_tensor_from_binary_def upto64_def new_tensor_def Let_def)
  have at: "file_at files inputId b = Some (entry b)" for b using assms(6,8) by (simp add: file_at_def)
  have short: "\<forall>bytes. fs (entry b) = Some bytes \<longrightarrow> length bytes < 18446744073709551616" for b
  proof -
    have "entry b \<in> set files" using assms(6,8) by simp
    then show ?thesis using assms(7) by blast
  qed
  have len: "length (?bytes b) = unat k" if "right_binary fs k (entry b)" for b
    using right_binary_bytes [OF that short] by auto
  have filled: "for_each ?rb [0..<unat n] ?d = ret (map Some
      (if ?cn then entries_interleaved (sizeof T) ?bytes (unat n) (unat ch) else entries_in_order ?bytes (unat n)))"
    if g: "\<forall>b < unat n. right_binary fs k (entry b)"
  proof (cases ?cn)
    case True
    note ch = assms(9) [OF True]
    have "for_each ?rb [0..<unat n] (replicate (unat n * (unat ch * sizeof T)) None)
        = ret (map Some (entries_interleaved (sizeof T) ?bytes (unat n) (unat ch)))"
      by (rule interleaved_filled)
        (use g len ch in \<open>auto intro!: read_binary_elements [where k = k] at assms(3,5) short True\<close>)
    then show ?thesis using True ch by simp
  next
    case False
    obtain d' where "for_each ?rb [0..<unat n] ?d = ret d'" "length d' = unat n * unat k"
      "\<forall>b < unat n. cell (unat k) b d' = map Some (?bytes b)"
      using put_cells [where f = ?rb and off = "\<lambda>b. b" and val = ?bytes and xs = "[0..<unat n]"
          and n = "unat n" and sz = "unat k" and d = ?d] read_binary_put [where k = k and n = n and fs = fs and T = T, OF at assms(3) _ False _ assms(5) short] len g by auto
    then show ?thesis using cells_concat [of d' "unat n" "unat k"] False by (simp add: entries_in_order_def)
  qed
  show ?thesis
  proof (intro conjI iffI impI allI)
    fix b assume "\<exists>t. ?call = ret t" "b < unat n"
    then show "right_binary fs k (entry b)"
      unfolding call using read_binary_right [OF at assms(3)] by (auto dest!: andthen_ret for_each_ret [where x = b])
  qed (auto simp: call filled)
qed

section \<open>The size of the image\<close>

text \<open>Single bytes written one row after the other into an uninitialised buffer.\<close>

lemma byte_grid:
  assumes put: "\<And>b i s. b < n \<Longrightarrow> i < m \<Longrightarrow> f b i s = put_bytes (b * m + i) [v b i] s" and fits: "n * m \<le> K"
  shows "\<exists>d. for_each (\<lambda>p. f (fst p) (snd p)) (List.product [0..<n] [0..<m]) (replicate K None) = ret d \<and> length d = K
    \<and> (\<forall>b < n. \<forall>i < m. d ! (b * m + i) = Some (v b i)) \<and> (\<forall>j. n * m \<le> j \<and> j < K \<longrightarrow> d ! j = None)"
proof -
  let ?ps = "List.product [0..<n] [0..<m]" and ?off = "\<lambda>p. fst p * m + snd p" and ?val = "\<lambda>p. [v (fst p) (snd p)]"
  let ?d = "replicate K None :: u8 option list"
  have small: "b * m + i < n * m" if "b < n" "i < m" for b i using that by (rule radix_less)
  have inj: "distinct (map ?off ?ps)"
    by (subst distinct_map) (auto simp: distinct_product inj_on_def radix_eq)
  have row: "f (fst p) (snd p) s = put_bytes (?off p * 1) (?val p) s" if "p \<in> set ?ps" for p s using that put by auto
  obtain d where d: "for_each (\<lambda>p. f (fst p) (snd p)) ?ps ?d = ret d" "length d = K"
    "\<forall>p \<in> set ?ps. cell 1 (?off p) d = map Some (?val p)" "\<forall>j < K. j \<notin> ?off ` set ?ps \<longrightarrow> cell 1 j d = cell 1 j ?d"
    using put_cells [where f = "\<lambda>p. f (fst p) (snd p)" and off = ?off and val = ?val and n = K and sz = 1 and d = ?d and xs = ?ps,
        OF _ inj _ row] less_le_trans [OF small fits] by auto
  have c: "cell 1 j x = [x ! j]" if "j < length x" for j and x :: "u8 option list"
    using that by (simp add: cell_def take_Suc_conv_app_nth Cons_nth_drop_Suc [symmetric])
  have "d ! (b * m + i) = Some (v b i)" if "b < n" "i < m" for b i
    using bspec [OF d(3), of "(b, i)"] that c [of "b * m + i" d] less_le_trans [OF small [OF that] fits] d(2) by simp
  moreover have "d ! j = None" if "n * m \<le> j" "j < K" for j
  proof -
    have "j \<notin> ?off ` set ?ps" using small that(1) by fastforce
    then show ?thesis using d(4) c [of j d] c [of j ?d] that(2) d(2) by simp
  qed
  ultimately show ?thesis using d(1,2) by blast
qed

text \<open>
  C37: The size of the image is stored one byte a value, whatever the element type: all values fill only as many
  bytes as the tensor has elements, and of an element type of two or more bytes the rest of the tensor stays
  uninitialised.
\<close>

theorem im_info_stores_bytes:
  assumes "tensor_elem (in_type info) = Some T" "n = unat (batch_of api info batchSize)"
    and "N = unat (tensor_size (dataShape info))" "byte_size rt (in_type info) (dataShape info) = N * sizeof T"
    and "N * sizeof T < 18446744073709551616"
  shows "\<exists>t. get_im_info_tensor api rt (w, h) batchSize (name, info) = ret t \<and> length (tn_data t) = N * sizeof T
    \<and> (\<forall>b < n. \<forall>i < N div n. tn_data t ! (b * (N div n) + i) = Some (if i = 0 then ucast w else if i = 1 then ucast h else 1))
    \<and> (\<forall>j. N \<le> j \<and> j < N * sizeof T \<longrightarrow> tn_data t ! j = None)"
proof -
  let ?v = "\<lambda>b i :: nat. if i = 0 then ucast w else if i = 1 then ucast h else 1 :: u8"
  let ?put = "put_info (w, h) (tensor_size (dataShape info) div batch_of api info batchSize)"
  have m: "unat (tensor_size (dataShape info) div batch_of api info batchSize) = N div n" using assms(2,3) by (simp add: unat_div_u64)
  have "N \<le> N * sizeof T" by (cases T) simp_all
  then have fits: "n * (N div n) \<le> N" "n * (N div n) \<le> N * sizeof T" using le_trans [of "n * (N div n)" N] by simp_all
  have put: "?put b i s = put_bytes (b * (N div n) + i) [?v b i] s" if "b < n" "i < N div n" for b i s
    using radix_less [OF that] fits(2) assms(5) by (simp add: put_info_def m size64_def)
  obtain d where d: "for_each (\<lambda>p. ?put (fst p) (snd p)) (List.product [0..<n] [0..<N div n]) (replicate (N * sizeof T) None) = ret d"
    "length d = N * sizeof T" "\<forall>b < n. \<forall>i < N div n. d ! (b * (N div n) + i) = Some (?v b i)"
    "\<forall>j. n * (N div n) \<le> j \<and> j < N * sizeof T \<longrightarrow> d ! j = None"
    using byte_grid [where f = ?put and v = ?v, OF put fits(2)] by blast
  have "get_im_info_tensor api rt (w, h) batchSize (name, info)
      = ret \<lparr>tn_type = in_type info, tn_shape = dataShape info, tn_data = d\<rparr>"
    using d(1) assms(1,2,4) m
    by (simp add: get_im_info_tensor_def with_elem_def create_tensor_im_info_def upto64_def for_each_product new_tensor_def Let_def)
  moreover have "\<forall>j. N \<le> j \<and> j < N * sizeof T \<longrightarrow> d ! j = None" using d(4) le_trans [OF fits(1)] by blast
  ultimately show ?thesis using d(2,3)
    by (intro exI [of _ "\<lparr>tn_type = in_type info, tn_shape = dataShape info, tn_data = d\<rparr>"]) simp
qed

section \<open>Elements of four bits\<close>

definition nibble :: "nat \<Rightarrow> u8 list \<Rightarrow> u8" where
  "nibble i d = drop_bit (4 * (i mod 2)) (d ! (i div 2)) AND 15"

lemma nibble_bits:
  fixes old v :: u8
  assumes "v AND 15 = v"
  shows "((old AND 15) OR push_bit 4 v) AND 15 = old AND 15" "drop_bit 4 ((old AND 15) OR push_bit 4 v) AND 15 = v"
    "((old AND 0xF0) OR (v AND 15)) AND 15 = v" "drop_bit 4 ((old AND 0xF0) OR (v AND 15)) AND 15 = drop_bit 4 old AND 15"
proof -
  have m: "(15 :: u8) = mask 4" "(0xF0 :: u8) = push_bit 4 (mask 4)" by (simp_all add: mask_eq_exp_minus_1 push_bit_eq_mult)
  have v: "bit v k \<Longrightarrow> k < 4" for k using assms by (metis bit_and_iff bit_mask_iff m(1))
  show "((old AND 15) OR push_bit 4 v) AND 15 = old AND 15"
    by (rule bit_eqI) (auto simp: m bit_simps)
  show "drop_bit 4 ((old AND 15) OR push_bit 4 v) AND 15 = v"
    by (rule bit_eqI) (use v in \<open>auto simp: m bit_simps\<close>)
  show "((old AND 0xF0) OR (v AND 15)) AND 15 = v"
    by (rule bit_eqI) (use v in \<open>auto simp: m bit_simps\<close>)
  show "drop_bit 4 ((old AND 0xF0) OR (v AND 15)) AND 15 = drop_bit 4 old AND 15"
    by (rule bit_eqI) (auto simp: m bit_simps)
qed

lemma put_nibble_at:
  assumes "i < 2 * length d" "draw i AND 15 = draw i"
  shows "\<exists>d'. put_nibble draw i d = ret d' \<and> length d' = length d
    \<and> (\<forall>j < 2 * length d. nibble j d' = (if j = i then draw i else nibble j d))"
proof -
  let ?v = "draw i" and ?old = "d ! (i div 2)"
  let ?new = "if i mod 2 \<noteq> 0 then (?old AND 15) OR push_bit 4 ?v else (?old AND 0xF0) OR (?v AND 15)"
  have k: "i div 2 < length d" using assms(1) by (simp add: less_mult_imp_div_less mult.commute)
  have "nibble j (d[i div 2 := ?new]) = (if j = i then ?v else nibble j d)" for j
  proof (cases "j div 2 = i div 2")
    case True
    have "j = i \<longleftrightarrow> j mod 2 = i mod 2" using True by (metis div_mult_mod_eq)
    moreover have "j mod 2 = 0 \<or> j mod 2 = 1" "i mod 2 = 0 \<or> i mod 2 = 1" by presburger+
    ultimately show ?thesis using k nibble_bits [OF assms(2), of ?old] True by (auto simp: nibble_def)
  next
    case False
    then show ?thesis by (auto simp: nibble_def)
  qed
  moreover have "put_nibble draw i d = ret (d[i div 2 := ?new])" using k by (simp add: put_nibble_def Let_def)
  ultimately show ?thesis by (metis length_list_update)
qed

text \<open>
  Random tensors of the two integer types of four bits hold the drawn values two a byte, the even elements
  in the lower half, in bounds and whatever the memory of the tensor held before.
\<close>

theorem random_4bit_packed:
  assumes "in_type info = ET_u4 \<or> in_type info = ET_i4" "N = unat (prod_list (dataShape info))"
    and "byte_size rt (in_type info) (dataShape info) = (N + 1) div 2"
    and "\<forall>i. draw_nibble rs 0 15 i AND 15 = draw_nibble rs 0 15 i"
  shows "\<exists>t d. get_random_tensor rt rs (name, info) = ret t \<and> tn_data t = map Some d \<and> length d = (N + 1) div 2
    \<and> (\<forall>i < N. nibble i d = draw_nibble rs 0 15 i)"
proof -
  let ?draw = "draw_nibble rs 0 15" and ?d0 = "map (fresh_byte rs) [0..<(N + 1) div 2]"
  have "\<exists>d. for_each (put_nibble ?draw) [0..<m] ?d0 = ret d \<and> length d = (N + 1) div 2 \<and> (\<forall>i < m. nibble i d = ?draw i)"
    if "m \<le> N" for m
    using that
  proof (induction m)
    case 0
    then show ?case by (intro exI [of _ ?d0]) simp
  next
    case (Suc m)
    then obtain d where d: "for_each (put_nibble ?draw) [0..<m] ?d0 = ret d" "length d = (N + 1) div 2"
      "\<forall>i < m. nibble i d = ?draw i" by auto
    have m: "m < 2 * length d" using Suc.prems d(2) by presburger
    from put_nibble_at [where draw = ?draw, OF m] assms(4) obtain d' where d': "put_nibble ?draw m d = ret d'"
      "length d' = length d" "\<forall>j < 2 * length d. nibble j d' = (if j = m then ?draw m else nibble j d)" by auto
    have "nibble i d' = ?draw i" if "i < Suc m" for i using d'(3) d(3) m that by (auto simp: less_Suc_eq)
    then show ?case using d d' by (intro exI [of _ d']) (simp add: for_each_append)
  qed
  from this [of N] obtain d where d: "for_each (put_nibble ?draw) [0..<N] ?d0 = ret d" "length d = (N + 1) div 2"
    "\<forall>i < N. nibble i d = ?draw i" by auto
  then have "get_random_tensor rt rs (name, info)
      = ret ((new_tensor rt (in_type info) (dataShape info))\<lparr>tn_data := map Some d\<rparr>)"
    using assms(1-3) by (auto simp: get_random_tensor_def create_tensor_random_4bit_def upto64_def new_tensor_def Let_def)
  then show ?thesis using d(2,3)
    by (intro exI [of _ "(new_tensor rt (in_type info) (dataShape info))\<lparr>tn_data := map Some d\<rparr>"] exI [of _ d]) simp
qed

section \<open>Examples\<close>

definition demo_rt :: tensor_rt where
  "demo_rt =
     \<lparr>byte_size = (\<lambda>t dims. if t = ET_u4 then (unat (prod_list dims) + 1) div 2
                          else unat (prod_list dims) * (if t = ET_i16 then 2 else 1)),
      bitwidth = (\<lambda>t. if t = ET_u4 then 4 else if t = ET_i16 then 16 else 8), float16_of = (\<lambda>v. [v, 0])\<rparr>"

definition demo_info :: "Type_t \<Rightarrow> string \<Rightarrow> u64 list \<Rightarrow> (string, u64 list, unit) InputInfo" where
  "demo_info t l dims = \<lparr>in_type = t, partialShape = dims, dataShape = dims, in_layout = l, in_scale = [], in_mean = []\<rparr>"

lemmas demo_simps = demo_rt_def demo_info_def toy_api_def tensor_elem_def binary_elem_def batch_of_def
  info_width_def info_height_def info_channels_def info_dim_def vec_at_def layout_is_def

definition demo_pixels :: "u8 list" where
  "demo_pixels = [1, 2, 3, 4, 5, 6]"

definition demo_bmp :: "u8 list" where
  "demo_bmp = (case writeOutputBmp True 4198400 demo_pixels 1 2 of Some (Inr (_, bytes)) \<Rightarrow> bytes | _ \<Rightarrow> [])"

lemma demo_bmp: "writeOutputBmp True 4198400 demo_pixels 1 2 = ret (True, demo_bmp)"
  using bmp_written_read [of demo_pixels 2 1 4198400 "\<lambda>n. True" "\<lambda>i. 0"]
  by (auto simp: demo_bmp_def demo_pixels_def ret_def)

theorem bmp_images_loaded_witness:
  "\<exists>t. get_image_tensor toy_api demo_rt (CreateFormatReader (\<lambda>n. True) (\<lambda>i. 0) (\<lambda>f. Some demo_bmp)) reader_getData [''a.bmp''] 0 1
      (''x'', demo_info ET_i16 ''NCHW'' [1, 3, 1, 2]) = ret t
    \<and> None \<notin> set (tn_data t) \<and> cell 2 5 (tn_data t) = [Some 6, Some 0]"
proof -
  let ?info = "demo_info ET_i16 ''NCHW'' [1, 3, 1, 2]"
  have p: "length demo_pixels = 6" "demo_pixels ! 5 = 6" by (simp_all add: demo_pixels_def)
  have "\<exists>t. get_image_tensor toy_api demo_rt (CreateFormatReader (\<lambda>n. True) (\<lambda>i. 0) (\<lambda>f. Some demo_bmp)) reader_getData [''a.bmp''] 0 1
      (''x'', ?info) = ret t \<and> None \<notin> set (tn_data t)
    \<and> (\<forall>b < 1. \<forall>y < 1. \<forall>x < 2. \<forall>ch < 3.
        cell (sizeof T_i16) (pixel_index True 3 1 2 b y x ch) (tn_data t)
        = map Some (cast_u8 demo_rt T_i16 (demo_pixels ! ((y * 2 + x) * 3 + ch))))"
    by (rule bmp_images_loaded [where pixels = "\<lambda>f. demo_pixels" and limit = 4198400])
      (simp_all add: demo_simps demo_bmp [simplified] p)
  then obtain t where t: "get_image_tensor toy_api demo_rt (CreateFormatReader (\<lambda>n. True) (\<lambda>i. 0) (\<lambda>f. Some demo_bmp)) reader_getData
      [''a.bmp''] 0 1 (''x'', ?info) = ret t" "None \<notin> set (tn_data t)"
    "\<forall>b < 1. \<forall>y < 1. \<forall>x < 2. \<forall>ch < 3. cell (sizeof T_i16) (pixel_index True 3 1 2 b y x ch) (tn_data t)
        = map Some (cast_u8 demo_rt T_i16 (demo_pixels ! ((y * 2 + x) * 3 + ch)))" by blast
  have "cell 2 5 (tn_data t) = [Some 6, Some 0]"
    using t(3) [rule_format, of 0 0 1 2] by (simp add: pixel_index_def p)
  then show ?thesis using t(1,2) by blast
qed

theorem numpy_file_loaded_witness:
  "get_numpy_tensor toy_api demo_rt
      (CreateFormatReader (\<lambda>n. True) (\<lambda>i. 0) (\<lambda>f. Some (npy_file ''<i2'' [2] [CHR 0x0A] [1, 2, 3, 4]))) reader_getData
      [''a.npy''] 0 1 (''x'', demo_info ET_i16 ''C'' [2])
    = ret \<lparr>tn_type = ET_i16, tn_shape = [2], tn_data = map Some [1, 2, 3, 4]\<rparr>"
proof -
  have "get_numpy_tensor toy_api demo_rt
      (CreateFormatReader (\<lambda>n. True) (\<lambda>i. 0) (\<lambda>f. Some (npy_file ''<i2'' [2] [CHR 0x0A] [1, 2, 3, 4]))) reader_getData
      [''a.npy''] 0 1 (''x'', demo_info ET_i16 ''C'' [2])
    = ret \<lparr>tn_type = in_type (demo_info ET_i16 ''C'' [2]), tn_shape = dataShape (demo_info ET_i16 ''C'' [2]), tn_data = map Some [1, 2, 3, 4]\<rparr>"
    by (rule numpy_file_loaded [where T = T_i16 and f = "''a.npy''" and descr = "''<i2''" and dims = "[2]" and pad = "[CHR 0x0A]"])
      (simp_all add: demo_simps plain_descr_def npy_header_def show_nat.simps digit_char_def tensor_size_def as_int_def to_int_def)
  then show ?thesis by (simp add: demo_info_def)
qed

theorem numpy_batch_out_of_bounds_witness:
  "get_numpy_tensor toy_api demo_rt (\<lambda>f. ret (Some ())) (\<lambda>r w h. Some [1, 2]) [''a.npy'', ''b.npy''] 0 2
      (''x'', demo_info ET_i16 ''NC'' [2, 1]) = None"
  by (rule numpy_batch_out_of_bounds [where T = T_i16 and n = 2 and share = 1 and arr = "\<lambda>b. [1, 2]"])
    (simp_all add: demo_simps tensor_size_def as_int_def to_int_def unat_div_u64)

definition batch_last :: "(string, u64 list) ov_api" where
  "batch_last = toy_api\<lparr>channels_idx := (\<lambda>l. Inr 0)\<rparr>"

definition two_files :: "string \<Rightarrow> u8 list option" where
  "two_files f = (if f = ''a.bin'' then Some [1, 2, 3, 4] else if f = ''b.bin'' then Some [5, 6, 7, 8] else None)"

theorem binary_tensor_concatenates_witness:
  "get_binary_tensor batch_last demo_rt two_files [''a.bin'', ''b.bin''] 0 2 (''x'', demo_info ET_i16 ''CN'' [2, 2])
    = ret \<lparr>tn_type = ET_i16, tn_shape = [2, 2], tn_data = map Some [1, 2, 5, 6, 3, 4, 7, 8]\<rparr>"
proof -
  let ?info = "demo_info ET_i16 ''CN'' [2, 2]" and ?files = "[''a.bin'', ''b.bin'']"
  let ?call = "get_binary_tensor batch_last demo_rt two_files ?files 0 2 (''x'', ?info)"
  let ?entry = "\<lambda>b. ?files ! (unat ((0 :: u64) + of_nat b) mod length ?files)"
  have k: "(4 :: u64) = tensor_size (dataShape ?info) div 2 * bitwidth demo_rt (in_type ?info) div 8"
    by (simp add: demo_rt_def demo_info_def tensor_size_def as_int_def to_int_def)
  have e: "?entry 0 = ''a.bin''" "?entry (Suc 0) = ''b.bin''" by simp_all
  have r: "\<forall>b < unat (2 :: u64). right_binary two_files 4 (?entry b)"
    using e by (auto simp: right_binary_def two_files_def get_extension_def less_2_cases_iff)
  have "((\<exists>t. ?call = ret t) \<longleftrightarrow> (\<forall>b < unat (2 :: u64). right_binary two_files 4 (?entry b)))
    \<and> ((\<forall>b < unat (2 :: u64). right_binary two_files 4 (?entry b)) \<longrightarrow>
      ?call = ret \<lparr>tn_type = in_type ?info, tn_shape = dataShape ?info,
             tn_data = map Some
               (if layout_is batch_last (in_layout ?info) ''CN''
                then entries_interleaved (sizeof T_i16) (\<lambda>b. the (two_files (?entry b))) (unat (2 :: u64)) (unat (2 :: u64))
                else entries_in_order (\<lambda>b. the (two_files (?entry b))) (unat (2 :: u64)))\<rparr>)"
    by (rule binary_tensor_concatenates [OF _ _ k _ _ _ _ refl, where T = T_i16 and ch = 2])
      (simp_all add: demo_simps batch_last_def two_files_def)
  with r have "?call = ret \<lparr>tn_type = in_type ?info, tn_shape = dataShape ?info,
      tn_data = map Some (entries_interleaved 2 (\<lambda>b. the (two_files (?entry b))) 2 2)\<rparr>"
    by (simp add: demo_simps batch_last_def)
  moreover have "entries_interleaved 2 (\<lambda>b. the (two_files (?entry b))) 2 2 = [1, 2, 5, 6, 3, 4, 7, 8]"
    using e by (simp add: entries_interleaved_def element_def two_files_def upt_rec)
  ultimately show ?thesis by (simp add: demo_info_def)
qed

theorem im_info_stores_bytes_witness:
  "\<exists>t. get_im_info_tensor toy_api demo_rt (224, 100) 1 (''x'', demo_info ET_i16 ''NC'' [1, 2]) = ret t
    \<and> tn_data t ! 1 = Some 100 \<and> tn_data t ! 3 = None"
proof -
  have "\<exists>t. get_im_info_tensor toy_api demo_rt (224, 100) 1 (''x'', demo_info ET_i16 ''NC'' [1, 2]) = ret t \<and> length (tn_data t) = 2 * sizeof T_i16
    \<and> (\<forall>b < 1. \<forall>i < 2 div 1. tn_data t ! (b * (2 div 1) + i) = Some (if i = 0 then ucast (224 :: u64) else if i = 1 then ucast (100 :: u64) else 1))
    \<and> (\<forall>j. 2 \<le> j \<and> j < 2 * sizeof T_i16 \<longrightarrow> tn_data t ! j = None)"
    by (rule im_info_stores_bytes) (simp_all add: demo_simps tensor_size_def as_int_def to_int_def)
  then obtain t where t: "get_im_info_tensor toy_api demo_rt (224, 100) 1 (''x'', demo_info ET_i16 ''NC'' [1, 2]) = ret t"
    "\<forall>b < (1 :: nat). \<forall>i < 2 div 1. tn_data t ! (b * (2 div 1) + i) = Some (if i = 0 then ucast (224 :: u64) else if i = 1 then ucast (100 :: u64) else 1)"
    "\<forall>j. 2 \<le> j \<and> j < 2 * sizeof T_i16 \<longrightarrow> tn_data t ! j = None" by blast
  from t(2) [rule_format, of 0 1] t(3) [rule_format, of 3] have "tn_data t ! 1 = Some 100" "tn_data t ! 3 = None" by simp_all
  then show ?thesis using t(1) by blast
qed

theorem random_4bit_packed_witness:
  "\<exists>t d. get_random_tensor demo_rt \<lparr>draw_value = \<lambda>T lo hi i. [], draw_nibble = \<lambda>lo hi i. of_nat i AND 15, fresh_byte = \<lambda>i. 0xFF,
      random_strings = \<lambda>dims. None\<rparr> (''x'', demo_info ET_u4 ''C'' [3]) = ret t
    \<and> tn_data t = map Some d \<and> nibble 2 d = 2"
proof -
  let ?rs = "\<lparr>draw_value = \<lambda>T lo hi i. [], draw_nibble = \<lambda>lo hi i. of_nat i AND 15, fresh_byte = \<lambda>i. 0xFF,
      random_strings = \<lambda>dims. None\<rparr> :: random_source"
  have "\<exists>t d. get_random_tensor demo_rt ?rs (''x'', demo_info ET_u4 ''C'' [3]) = ret t \<and> tn_data t = map Some d
    \<and> length d = (3 + 1) div 2 \<and> (\<forall>i < 3. nibble i d = draw_nibble ?rs 0 15 i)"
    by (rule random_4bit_packed) (simp_all add: demo_rt_def demo_info_def and.assoc)
  then obtain t d where t: "get_random_tensor demo_rt ?rs (''x'', demo_info ET_u4 ''C'' [3]) = ret t" "tn_data t = map Some d"
    "\<forall>i < 3. nibble i d = draw_nibble ?rs 0 15 i" by blast
  from t(3) [rule_format, of 2] have "nibble 2 d = 2" by simp
  then show ?thesis using t(1,2) by blast
qed

end
