(* ===== verification/Sample_Filling.thy ===== *)
theory Sample_Filling
  imports Sample_Tensor_Props Std_Sort
begin

text \<open>
  Distributing files over the inputs of \<open>benchmark_app\<close> (\<open>inputs_filling.cpp\<close>): \<open>get_tensors\<close>, for models with
  dynamic shapes or named inputs, \<open>get_tensors_static_case\<close> for the others, and \<open>copy_tensor_data\<close>. What they
  log is not modelled. \<open>None\<close> is undefined behaviour or not returning, \<open>Inl\<close> a thrown exception.
\<close>

text \<open>What the code fills tensors with: the runtime library, random numbers, and files with their readers.\<close>

record ('l, 'p, 'r) fill_env =
  fe_api :: "('l, 'p) ov_api"
  fe_rt :: tensor_rt
  fe_random :: random_source
  fe_open :: "string \<Rightarrow> ('r option) outcome"
  fe_getData :: "'r \<Rightarrow> u64 \<Rightarrow> u64 \<Rightarrow> u8 list option"
  fe_fs :: "string \<Rightarrow> u8 list option"

definition numpy_files :: "string list \<Rightarrow> string list" where
  "numpy_files fs = filter_files_by_extensions fs [''npy'']"

definition image_files :: "string list \<Rightarrow> string list" where
  "image_files fs = filter_files_by_extensions fs (supported_image_extensions False)"

definition binary_files :: "string list \<Rightarrow> string list" where
  "binary_files fs = filter_files_by_extensions fs [''bin'']"

section \<open>get_tensors\<close>

fun sizes_of_inputs :: "('l, 'p) ov_api \<Rightarrow> ('l, 'p, 'f) InputsInfo \<Rightarrow> (u64 \<times> u64) list result" where
  "sizes_of_inputs api [] = Inr []"
| "sizes_of_inputs api ((name, input) # inputs) =
     and_then (is_image api input) (\<lambda>img.
       if img then and_then (info_width api input) (\<lambda>w. and_then (info_height api input) (\<lambda>h.
                     and_then (sizes_of_inputs api inputs) (\<lambda>rest. Inr ((w, h) # rest))))
       else sizes_of_inputs api inputs)"

fun image_sizes :: "('l, 'p) ov_api \<Rightarrow> ('l, 'p, 'f) InputsInfo list \<Rightarrow> (u64 \<times> u64) list result" where
  "image_sizes api [] = Inr []"
| "image_sizes api (inputs # more_inputs) =
     and_then (sizes_of_inputs api inputs) (\<lambda>a. and_then (image_sizes api more_inputs) (\<lambda>b. Inr (a @ b)))"

text \<open>\<open>Inl\<close> of the pair is the \<open>continue\<close> of the loop.\<close>

definition select_files ::
    "('l, 'p) ov_api \<Rightarrow> ('l, 'p, 'f) InputInfo \<Rightarrow> bool \<Rightarrow> string list \<Rightarrow> (bool \<times> string list) result" where
  "select_files api input sizes_match files =
     (if files = [] \<or> hd files = ''random'' \<or> hd files = ''image_info'' then Inr (False, files)
      else if numpy_files files \<noteq> [] then Inr (False, numpy_files files)
      else and_then (if image_files files \<noteq> [] then is_image api input else Inr False) (\<lambda>img.
        if img then Inr (False, image_files files)
        else and_then (is_image_info api input) (\<lambda>inf.
          if inf \<and> sizes_match then Inr (True, [''image_info''])
          else Inr (False, binary_files files))))"

text \<open>Configurations beyond a multiple of the files are dropped, one image size with each.\<close>

fun pop_configs :: "nat \<Rightarrow> 'i list \<times> (u64 \<times> u64) list \<Rightarrow> ('i list \<times> (u64 \<times> u64) list) option" where
  "pop_configs 0 st = Some st"
| "pop_configs (Suc n) (app, sizes) =
     (if sizes = [] then None else pop_configs n (butlast app, butlast sizes))"

definition balance ::
    "string list \<Rightarrow> 'i list \<Rightarrow> (u64 \<times> u64) list \<Rightarrow> (string list \<times> 'i list \<times> (u64 \<times> u64) list) option" where
  "balance files app sizes =
     (if length files > length app
      then if app = [] then None
           else Some (take (length files - length files mod length app) files, app, sizes)
      else map_option (\<lambda>(app, sizes). (files, app, sizes)) (pop_configs (length app mod length files) (app, sizes)))"

type_synonym ('l, 'p, 'f) fill_state = "mapped \<times> ('l, 'p, 'f) InputsInfo list \<times> (u64 \<times> u64) list"

definition prepare_input ::
    "('l, 'p) ov_api \<Rightarrow> string \<times> string list \<Rightarrow> ('l, 'p, 'f) fill_state \<Rightarrow> ('l, 'p, 'f) fill_state outcome" where
  "prepare_input api item st =
     (let (name, files) = item; (done_files, app, sizes) = st
      in case app of
           [] \<Rightarrow> None
         | first # _ \<Rightarrow>
             if name \<noteq> [] \<and> map_of first name = None then throw ''Input name''
             else if first = [] then None
             else
               let input_name = (if name = [] then fst (hd first) else name)
               in andthen (Some (select_files api (the (map_of first input_name)) (length sizes = length app) files)) (\<lambda>(skip, files).
                    if skip then ret (done_files @ [(name, files)], app, sizes)
                    else
                      let files = (if files = [] then [''random''] else files)
                      in case balance files app sizes of
                           None \<Rightarrow> None
                         | Some (files, app, sizes) \<Rightarrow> ret (done_files @ [(name, files)], app, sizes)))"

definition make_tensor ::
    "('l, 'p, 'r) fill_env \<Rightarrow> string list \<Rightarrow> nat \<Rightarrow> u64 \<Rightarrow> string \<times> ('l, 'p, 'f) InputInfo \<Rightarrow> tensor outcome" where
  "make_tensor env files inputId batchSize inputInfo =
     (if get_extension (hd files) = ''npy''
      then get_numpy_tensor (fe_api env) (fe_rt env) (fe_open env) (fe_getData env) files (of_nat inputId) batchSize inputInfo
      else andthen (Some (is_image (fe_api env) (snd inputInfo))) (\<lambda>img.
        if img then get_image_tensor (fe_api env) (fe_rt env) (fe_open env) (fe_getData env) files (of_nat inputId) batchSize inputInfo
        else get_binary_tensor (fe_api env) (fe_rt env) (fe_fs env) files (of_nat inputId) batchSize inputInfo))"

definition make_configured ::
    "('l, 'p, 'r) fill_env \<Rightarrow> (u64 \<times> u64) list \<Rightarrow> ('l, 'p, 'f) InputsInfo list \<Rightarrow> u64 list \<Rightarrow> string \<Rightarrow> string list
     \<Rightarrow> nat \<Rightarrow> nat \<Rightarrow> tensor outcome" where
  "make_configured env sizes app batchSizes input_name files n_shape m_file =
     (let k = n_shape mod length app; batchSize = batchSizes ! k
      in if files = [] then None
         else case map_of (app ! k) input_name of
           None \<Rightarrow> throw ''out_of_range''
         | Some info \<Rightarrow>
             if hd files = ''random'' then get_random_tensor (fe_rt env) (fe_random env) (input_name, info)
             else if hd files = ''image_info''
             then if k \<ge> length sizes then throw ''out_of_range''
                  else get_im_info_tensor (fe_api env) (fe_rt env) (sizes ! k) batchSize (input_name, info)
             else make_tensor env files (m_file mod length files) batchSize (input_name, info))"

text \<open>The \<open>while\<close> loop over the configurations and the files of one input.\<close>

partial_function (option) fill_loop ::
    "(nat \<Rightarrow> nat \<Rightarrow> tensor outcome) \<Rightarrow> nat list \<Rightarrow> nat \<Rightarrow> nat \<Rightarrow> nat \<Rightarrow> tensor list \<Rightarrow> (tensor list) outcome" where
  "fill_loop create batches filesNum n_shape m_file ts =
     (if n_shape < length batches \<or> m_file < filesNum
      then (case create n_shape m_file of
              None \<Rightarrow> None
            | Some (Inl e) \<Rightarrow> Some (Inl e)
            | Some (Inr t) \<Rightarrow>
                fill_loop create batches filesNum (n_shape + 1) (m_file + batches ! (n_shape mod length batches)) (ts @ [t]))
      else Some (Inr ts))"

fun batch_sizes :: "('l, 'p) ov_api \<Rightarrow> ('l, 'p, 'f) InputsInfo list \<Rightarrow> u64 list result" where
  "batch_sizes api [] = Inr []"
| "batch_sizes api (info # infos) =
     and_then (get_batch_size api info) (\<lambda>b. and_then (batch_sizes api infos) (\<lambda>bs. Inr (b # bs)))"

definition fill_input ::
    "('l, 'p, 'r) fill_env \<Rightarrow> (u64 \<times> u64) list \<Rightarrow> ('l, 'p, 'f) InputsInfo list \<Rightarrow> u64 list \<Rightarrow> nat \<Rightarrow> string \<times> string list
     \<Rightarrow> (string \<times> tensor list) list \<Rightarrow> ((string \<times> tensor list) list) outcome" where
  "fill_input env sizes app batchSizes filesNum item tensors =
     (let input_name = (if fst item = [] then fst (hd (app ! 0)) else fst item)
      in andthen (fill_loop (make_configured env sizes app batchSizes input_name (snd item)) (map unat batchSizes) filesNum 0 0
                    (case map_of tensors input_name of None \<Rightarrow> [] | Some ts \<Rightarrow> ts)) (\<lambda>ts.
           ret (map_assign input_name ts tensors)))"

definition get_tensors ::
    "('l, 'p, 'r) fill_env \<Rightarrow> mapped \<Rightarrow> ('l, 'p, 'f) InputsInfo list \<Rightarrow> ((string \<times> tensor list) list) outcome" where
  "get_tensors env inputFiles app_inputs_info =
     (if app_inputs_info = [] then throw ''Inputs Info for model is empty!''
      else if inputFiles \<noteq> [] \<and> length inputFiles \<noteq> length (app_inputs_info ! 0)
      then throw ''Number of inputs specified in -i must be equal to number of model inputs!''
      else
        andthen (Some (image_sizes (fe_api env) app_inputs_info)) (\<lambda>sizes.
        andthen (for_each (prepare_input (fe_api env)) inputFiles ([], app_inputs_info, sizes)) (\<lambda>(files, app, sizes).
          let filesNum = (if files \<noteq> [] then max_size_of files else 0);
              files = (if files \<noteq> [] then files else map (\<lambda>e. (fst e, [''random''])) (app ! 0))
          in andthen (Some (batch_sizes (fe_api env) app)) (\<lambda>batchSizes.
               for_each (fill_input env sizes app batchSizes filesNum) files []))))"

section \<open>get_tensors_static_case\<close>

function strided :: "nat \<Rightarrow> nat \<Rightarrow> nat \<Rightarrow> nat list" where
  "strided i n step = (if step = 0 \<or> n \<le> i then [] else i # strided (i + step) n step)"
  by pat_completeness auto

termination by (relation "measure (\<lambda>(i, n, step). n - i)") auto

declare strided.simps [simp del]

text \<open>One round of the loop over the inputs: the files an input is mapped to, and the counters.\<close>

definition map_input ::
    "('l, 'p) ov_api \<Rightarrow> string list \<Rightarrow> string list \<Rightarrow> string list \<Rightarrow> string \<times> ('l, 'p, 'f) InputInfo
     \<Rightarrow> (mapped \<times> nat \<times> nat \<times> nat) \<Rightarrow> (mapped \<times> nat \<times> nat \<times> nat) outcome" where
  "map_input api numpys images binaries input st =
     (let (mappedFiles, ni, ii, bi) = st; name = fst input;
          numpyInputsNum = length numpys; imageInputsNum = length images; binaryInputsNum = length binaries
      in if numpyInputsNum \<noteq> 0
         then ret (map_assign name (map (\<lambda>i. numpys ! ((ni + i) * numpyInputsNum mod length numpys))
                     (strided 0 (length numpys) numpyInputsNum)) mappedFiles, ni + 1, ii, bi)
         else andthen (Some (is_image api (snd input))) (\<lambda>img.
           if img
           then ret (map_assign name (map (\<lambda>i. images ! ((ii + i) * imageInputsNum mod length images))
                       (strided 0 (length images) imageInputsNum)) mappedFiles, ni, ii + 1, bi)
           else ret (map_assign name (map (\<lambda>i. binaries ! ((bi + i) mod length binaries))
                       (strided 0 (length binaries) binaryInputsNum)) mappedFiles, ni, ii, bi + 1)))"

fun static_sizes :: "('l, 'p) ov_api \<Rightarrow> ('l, 'p, 'f) InputsInfo \<Rightarrow> (u64 \<times> u64) list result" where
  "static_sizes api [] = Inr []"
| "static_sizes api ((name, input) # inputs) =
     and_then (if shape_static api (partialShape input) then is_image api input else Inr False) (\<lambda>img.
       if img then and_then (info_width api input) (\<lambda>w. and_then (info_height api input) (\<lambda>h.
                     and_then (static_sizes api inputs) (\<lambda>rest. Inr ((w, h) # rest))))
       else static_sizes api inputs)"

text \<open>
  One test configuration of one input. The array branch passes the image counter and advances its own, which
  nothing reads.
\<close>

definition static_config ::
    "('l, 'p, 'r) fill_env \<Rightarrow> (u64 \<times> u64) list \<Rightarrow> bool \<Rightarrow> bool \<Rightarrow> u64 \<Rightarrow> string list \<Rightarrow> string \<times> ('l, 'p, 'f) InputInfo \<Rightarrow> nat
     \<Rightarrow> tensor list \<times> nat \<times> nat \<times> nat \<Rightarrow> (tensor list \<times> nat \<times> nat \<times> nat) outcome" where
  "static_config env sizes have_images have_binaries batchSize files inputInfo i st =
     (let (blobs, imageId, numpyId, binaryId) = st; api = fe_api env; rt = fe_rt env;
          next_id = (\<lambda>k. (k + unat batchSize) mod length files);
          random = andthen (get_random_tensor rt (fe_random env) inputInfo) (\<lambda>t. ret (blobs @ [t], imageId, numpyId, binaryId))
      in if files \<noteq> [] \<and> get_extension (files ! 0) = ''npy''
         then andthen (get_numpy_tensor api rt (fe_open env) (fe_getData env) files (of_nat imageId) batchSize inputInfo) (\<lambda>t.
                ret (blobs @ [t], imageId, next_id numpyId, binaryId))
         else andthen (Some (is_image api (snd inputInfo))) (\<lambda>img.
           if img
           then if have_images
                then andthen (get_image_tensor api rt (fe_open env) (fe_getData env) files (of_nat imageId) batchSize inputInfo) (\<lambda>t.
                       if files = [] then None else ret (blobs @ [t], next_id imageId, numpyId, binaryId))
                else random
           else if have_binaries
                then andthen (get_binary_tensor api rt (fe_fs env) files (of_nat binaryId) batchSize inputInfo) (\<lambda>t.
                       if files = [] then None else ret (blobs @ [t], imageId, numpyId, next_id binaryId))
                else andthen (Some (is_image_info api (snd inputInfo))) (\<lambda>inf.
                       if inf \<and> length sizes = 1
                       then andthen (get_im_info_tensor api rt (sizes ! 0) batchSize inputInfo) (\<lambda>t.
                              ret (blobs @ [t], imageId, numpyId, binaryId))
                       else random)))"

definition static_input ::
    "('l, 'p, 'r) fill_env \<Rightarrow> (u64 \<times> u64) list \<Rightarrow> bool \<Rightarrow> bool \<Rightarrow> u64 \<Rightarrow> nat \<Rightarrow> ('l, 'p, 'f) InputsInfo \<Rightarrow> string \<times> string list
     \<Rightarrow> (string \<times> tensor list) list \<Rightarrow> ((string \<times> tensor list) list) outcome" where
  "static_input env sizes have_images have_binaries batchSize test_configs_num infos item blobs =
     (case map_of infos (fst item) of
        None \<Rightarrow> throw ''out_of_range''
      | Some info \<Rightarrow>
          andthen (for_each (static_config env sizes have_images have_binaries batchSize (snd item) (fst item, info))
                     [0..<test_configs_num] ([], 0, 0, 0)) (\<lambda>st. ret (map_assign (fst item) (fst st) blobs)))"

definition get_tensors_static_case ::
    "('l, 'p, 'r) fill_env \<Rightarrow> string list \<Rightarrow> u64 \<Rightarrow> ('l, 'p, 'f) InputsInfo \<Rightarrow> ((string \<times> tensor list) list) outcome" where
  "get_tensors_static_case env inputFiles batchSize infos =
     andthen (Some (static_sizes (fe_api env) infos)) (\<lambda>sizes.
       let numpys = sort_by (<) (numpy_files inputFiles);
           images = sort_by (<) (image_files inputFiles);
           binaries = sort_by (<) (binary_files inputFiles)
       in andthen (for_each (map_input (fe_api env) numpys images binaries) infos ([], 0, 0, 0)) (\<lambda>(mappedFiles, _).
            if mappedFiles = [] \<or> batchSize = 0 then None
            else
              let filesNum = (if inputFiles \<noteq> [] then max_size_of mappedFiles else 0);
                  test_configs_num = (if filesNum div unat batchSize = 0 then 1 else filesNum div unat batchSize)
              in for_each (static_input env sizes (images \<noteq> []) (binaries \<noteq> []) batchSize test_configs_num infos) mappedFiles []))"

section \<open>copy_tensor_data\<close>

definition copy_tensor_data :: "tensor \<Rightarrow> tensor \<Rightarrow> tensor outcome" where
  "copy_tensor_data dst src =
     (if tn_shape src \<noteq> tn_shape dst \<or> length (tn_data src) \<noteq> length (tn_data dst)
      then throw ''Source and destination tensors shapes and byte sizes are expected to be equal for data copying.''
      else ret (dst\<lparr>tn_data := tn_data src\<rparr>))"

section \<open>The number of tensors of an input\<close>

definition loop_counts :: "nat list \<Rightarrow> nat \<Rightarrow> nat \<Rightarrow> nat \<Rightarrow> tensor list \<Rightarrow> string + tensor list \<Rightarrow> bool" where
  "loop_counts batches filesNum n m ts r \<longleftrightarrow>
     (\<forall>out. r = Inr out \<longrightarrow> length ts + (length batches - n) \<le> length out
      \<and> (\<forall>create ts' out'. fill_loop create batches filesNum n m ts' = Some (Inr out') \<longrightarrow> length out + length ts' = length out' + length ts))"

lemma fill_loop_counts:
  assumes "fill_loop create batches filesNum n m ts = Some r"
  shows "loop_counts batches filesNum n m ts r"
proof (rule fill_loop.raw_induct [where P = "\<lambda>create batches filesNum n m ts r. loop_counts batches filesNum n m ts r", OF _ assms])
  fix loop and create :: "nat \<Rightarrow> nat \<Rightarrow> tensor outcome" and batches filesNum n m ts r
  assume IH: "\<And>create batches filesNum n m ts r. loop create batches filesNum n m ts = Some r \<Longrightarrow> loop_counts batches filesNum n m ts r"
    and body: "(if n < length batches \<or> m < filesNum
      then (case create n m of
              None \<Rightarrow> None
            | Some (Inl e) \<Rightarrow> Some (Inl e)
            | Some (Inr t) \<Rightarrow> loop create batches filesNum (n + 1) (m + batches ! (n mod length batches)) (ts @ [t]))
      else Some (Inr ts)) = Some r"
  show "loop_counts batches filesNum n m ts r"
  proof (cases "n < length batches \<or> m < filesNum")
    case False
    then have "r = Inr ts" using body by simp
    moreover have "fill_loop create' batches filesNum n m ts' = Some (Inr ts')" for create' ts'
      using False by (subst fill_loop.simps) simp
    ultimately show ?thesis using False by (auto simp: loop_counts_def)
  next
    case True
    show ?thesis
      unfolding loop_counts_def
    proof (intro allI impI)
      fix out assume r: "r = Inr out"
      then obtain t where t: "loop create batches filesNum (n + 1) (m + batches ! (n mod length batches)) (ts @ [t]) = Some (Inr out)"
        using body True by (auto split: option.splits sum.splits)
      note ih = IH [OF t, unfolded loop_counts_def, rule_format, OF refl]
      have "length out + length ts' = length out' + length ts"
        if l: "fill_loop create' batches filesNum n m ts' = Some (Inr out')" for create' ts' out'
      proof -
        obtain t' where "fill_loop create' batches filesNum (n + 1) (m + batches ! (n mod length batches)) (ts' @ [t']) = Some (Inr out')"
          using l True by (subst (asm) fill_loop.simps) (auto split: option.splits sum.splits)
        then have "length out + length (ts' @ [t']) = length out' + length (ts @ [t])"
          using ih by blast
        then show ?thesis by simp
      qed
      moreover have "length ts + (length batches - n) \<le> length out" using conjunct1 [OF ih] by simp
      ultimately show "length ts + (length batches - n) \<le> length out
        \<and> (\<forall>create ts' out'. fill_loop create batches filesNum n m ts' = Some (Inr out') \<longrightarrow> length out + length ts' = length out' + length ts)"
        by blast
    qed
  qed
qed

text \<open>With positive batch sizes the loop ends.\<close>

lemma fill_loop_returns:
  assumes "\<And>n m. create n m \<noteq> None" "batches \<noteq> []" "\<forall>b \<in> set batches. 0 < b"
  shows "fill_loop create batches filesNum n m ts \<noteq> None"
proof (induction "(length batches - n) + (filesNum - m)" arbitrary: n m ts rule: less_induct)
  case less
  show ?case
  proof (cases "n < length batches \<or> m < filesNum")
    case False
    then show ?thesis by (subst fill_loop.simps) simp
  next
    case True
    have "batches ! (n mod length batches) \<in> set batches" using assms(2) by simp
    then have b: "0 < batches ! (n mod length batches)" using assms(3) by blast
    have "fill_loop create batches filesNum (n + 1) (m + batches ! (n mod length batches)) (ts @ [t]) \<noteq> None" for t
      by (rule less) (use True b in auto)
    then show ?thesis using True assms(1) [of n m] by (subst fill_loop.simps) (auto split: option.splits sum.splits)
  qed
qed

lemma batch_size_positive: "get_batch_size api info = Inr b \<Longrightarrow> b \<noteq> 0"
proof -
  have "batch_size_loop api info n = Inr b \<Longrightarrow> b \<noteq> 0" for n
    by (induction api info n rule: batch_size_loop.induct) (auto simp: and_then_def split: if_splits sum.splits)
  then show "get_batch_size api info = Inr b \<Longrightarrow> b \<noteq> 0" by (simp add: get_batch_size_def)
qed

lemma batch_sizes_props:
  "batch_sizes api infos = Inr bs \<Longrightarrow> length bs = length infos \<and> (\<forall>b \<in> set bs. b \<noteq> 0)"
proof (induction infos arbitrary: bs)
  case (Cons info infos)
  then obtain b bs' where "get_batch_size api info = Inr b" "batch_sizes api infos = Inr bs'" "bs = b # bs'"
    by (auto simp: and_then_def split: sum.splits)
  then show ?case using Cons.IH batch_size_positive [of api info b] by auto
qed simp

section \<open>Preparing the files\<close>

lemma pop_configs_take: "pop_configs n (app, sizes) = Some (app', sizes') \<Longrightarrow> app' = take (length app - n) app"
proof (induction n arbitrary: app sizes)
  case (Suc n)
  then have "pop_configs n (butlast app, butlast sizes) = Some (app', sizes')" by (simp split: if_splits)
  then have "app' = take (length (butlast app) - n) (butlast app)" by (rule Suc.IH)
  then show ?case by (simp add: butlast_conv_take min_def)
qed simp

lemma balance_keeps:
  assumes "balance files app sizes = Some (files', app', sizes')" "files \<noteq> []" "app \<noteq> []"
  shows "app' \<noteq> []"
proof (cases "length files > length app")
  case True
  then show ?thesis using assms by (auto simp: balance_def)
next
  case False
  have "length app mod length files < length files" using assms(2) by simp
  then have "length app mod length files < length app" using False by linarith
  moreover have "app' = take (length app - length app mod length files) app"
    using assms(1) False by (auto simp: balance_def dest: pop_configs_take)
  ultimately show ?thesis using assms(3) by simp
qed

lemma prepare_input_step:
  assumes "prepare_input api item (done_files, app, sizes) = ret (files', app', sizes')" "app \<noteq> []"
  shows "map fst files' = map fst done_files @ [fst item] \<and> app' \<noteq> []"
proof -
  obtain name files where i: "item = (name, files)" by (cases item)
  obtain first more_apps where a: "app = first # more_apps" using assms(2) by (cases app) auto
  let ?n = "if name = [] then fst (hd first) else name"
  have ok: "\<not> (name \<noteq> [] \<and> map_of first name = None)" "first \<noteq> []"
    using assms(1) unfolding prepare_input_def i a Let_def ret_def throw_def
    by (cases "name \<noteq> [] \<and> map_of first name = None"; cases "first = []"; simp)+
  show ?thesis
  proof (cases "select_files api (the (map_of first ?n)) (length sizes = length app) files")
    case (Inl e)
    then show ?thesis using assms(1) ok by (simp add: prepare_input_def i a Let_def ret_def)
  next
    case (Inr sel)
    obtain skip fs where f: "sel = (skip, fs)" by (cases sel)
    let ?fs = "if fs = [] then [''random''] else fs"
    have st: "(if skip then ret (done_files @ [(name, fs)], app, sizes)
      else case balance ?fs app sizes of None \<Rightarrow> None
           | Some (fs, app, sizes) \<Rightarrow> ret (done_files @ [(name, fs)], app, sizes)) = ret (files', app', sizes')"
      using assms(1) ok Inr unfolding f by (simp add: prepare_input_def i a Let_def cong: if_cong split del: if_split)
    show ?thesis
    proof (cases skip)
      case True
      then show ?thesis using st assms(2) by (auto simp: ret_def i)
    next
      case False
      then obtain fs2 where "balance ?fs app sizes = Some (fs2, app', sizes')" "files' = done_files @ [(name, fs2)]"
        using st by (auto simp: ret_def split: option.splits)
      then show ?thesis using balance_keeps [of ?fs app sizes fs2 app' sizes'] assms(2) i by simp
    qed
  qed
qed

lemma prepared:
  "for_each (prepare_input api) items (done_files, app, sizes) = ret (files', app', sizes') \<Longrightarrow> app \<noteq> [] \<Longrightarrow>
    map fst files' = map fst done_files @ map fst items \<and> app' \<noteq> []"
proof (induction items arbitrary: done_files app sizes)
  case Nil
  then show ?case by (simp add: ret_def)
next
  case (Cons item items)
  from Cons.prems(1) obtain f a s where st: "prepare_input api item (done_files, app, sizes) = ret (f, a, s)"
    "for_each (prepare_input api) items (f, a, s) = ret (files', app', sizes')"
    by (auto dest!: andthen_ret)
  show ?case using prepare_input_step [OF st(1) Cons.prems(2)] Cons.IH [OF st(2)] by simp
qed


section \<open>All inputs get as many tensors\<close>

lemma prepare_input_all:
  assumes "andthen (for_each (prepare_input api) items ([], infos, sizes)) f = ret tensors" "infos \<noteq> []"
  obtains files app sizes' where "f (files, app, sizes') = ret tensors" "map fst files = map fst items" "app \<noteq> []"
    "items = [] \<longrightarrow> app = infos"
proof -
  obtain files app sizes' where p: "for_each (prepare_input api) items ([], infos, sizes) = ret (files, app, sizes')"
    and f: "f (files, app, sizes') = ret tensors"
    using andthen_ret [OF assms(1)] by auto
  have "items = [] \<longrightarrow> app = infos" using p by (auto simp: ret_def)
  with that [OF f] prepared [OF p assms(2)] show ?thesis by simp
qed

lemma fill_inputs:
  assumes "for_each (fill_input env sizes app bs filesNum) items tensors = ret out" "distinct (map fst items)"
    and "\<forall>name \<in> fst ` set items. name \<noteq> [] \<and> map_of tensors name = None"
  shows "fst ` set out = fst ` set tensors \<union> fst ` set items
    \<and> (\<forall>name. name \<notin> fst ` set items \<longrightarrow> map_of out name = map_of tensors name)
    \<and> (\<forall>name \<in> fst ` set items. \<exists>create ts. map_of out name = Some ts \<and> fill_loop create (map unat bs) filesNum 0 0 [] = Some (Inr ts))"
  using assms
proof (induction items arbitrary: tensors)
  case Nil
  then show ?case by (simp add: ret_def)
next
  case (Cons item items)
  obtain name files where i: "item = (name, files)" by (cases item)
  have new: "name \<noteq> []" "map_of tensors name = None" using Cons.prems(3) i by auto
  from Cons.prems(1) obtain tensors' where st: "fill_input env sizes app bs filesNum item tensors = ret tensors'"
    and rest: "for_each (fill_input env sizes app bs filesNum) items tensors' = ret out"
    by (auto dest!: andthen_ret)
  from st new obtain ts where ts: "fill_loop (make_configured env sizes app bs name files) (map unat bs) filesNum 0 0 [] = Some (Inr ts)"
    and t': "tensors' = map_assign name ts tensors"
    by (auto simp: fill_input_def i ret_def dest!: andthen_ret [unfolded ret_def])
  have keys: "fst ` set tensors' = insert name (fst ` set tensors)"
    unfolding t' dom_map_of_conv_image_fst [symmetric] map_of_assign by auto
  have "\<forall>name' \<in> fst ` set items. name' \<noteq> [] \<and> map_of tensors' name' = None"
    using Cons.prems(2,3) by (auto simp: t' map_of_assign i)
  from Cons.IH [OF rest _ this] Cons.prems(2)
  have ih: "fst ` set out = fst ` set tensors' \<union> fst ` set items"
    "\<forall>name. name \<notin> fst ` set items \<longrightarrow> map_of out name = map_of tensors' name"
    "\<forall>name \<in> fst ` set items. \<exists>create ts. map_of out name = Some ts \<and> fill_loop create (map unat bs) filesNum 0 0 [] = Some (Inr ts)"
    by simp_all
  have "name \<notin> fst ` set items" using Cons.prems(2) i by simp
  then have "map_of out name = Some ts" using ih(2) by (simp add: t' map_of_assign)
  then show ?case using ih ts keys by (auto simp: i t' map_of_assign)
qed

lemma get_tensors_steps:
  assumes "get_tensors env inputFiles infos = ret tensors" "infos \<noteq> []"
  shows "\<exists>files app sizes bs. app \<noteq> [] \<and> (inputFiles = [] \<longrightarrow> app = infos) \<and> map fst files = map fst inputFiles
    \<and> batch_sizes (fe_api env) app = Inr bs
    \<and> for_each (fill_input env sizes app bs (if files \<noteq> [] then max_size_of files else 0))
        (if files \<noteq> [] then files else map (\<lambda>e. (fst e, [''random''])) (app ! 0)) [] = ret tensors"
proof -
  have guard: "\<not> (inputFiles \<noteq> [] \<and> length inputFiles \<noteq> length (infos ! 0))"
  proof
    assume "inputFiles \<noteq> [] \<and> length inputFiles \<noteq> length (infos ! 0)"
    then show False using assms by (simp add: get_tensors_def throw_def ret_def)
  qed
  from assms(1) obtain sizes where "andthen (for_each (prepare_input (fe_api env)) inputFiles ([], infos, sizes)) (\<lambda>(files, app, sizes).
          let filesNum = (if files \<noteq> [] then max_size_of files else 0);
              files = (if files \<noteq> [] then files else map (\<lambda>e. (fst e, [''random''])) (app ! 0))
          in andthen (Some (batch_sizes (fe_api env) app)) (\<lambda>batchSizes.
               for_each (fill_input env sizes app batchSizes filesNum) files [])) = ret tensors"
    unfolding get_tensors_def if_not_P [OF assms(2)] if_not_P [OF guard]
    by - (drule andthen_ret, elim exE conjE, rule that)
  from prepare_input_all [OF this assms(2)] obtain files app sizes' where p: "(let filesNum = (if files \<noteq> [] then max_size_of files else 0);
              files = (if files \<noteq> [] then files else map (\<lambda>e. (fst e, [''random''])) (app ! 0))
          in andthen (Some (batch_sizes (fe_api env) app)) (\<lambda>batchSizes.
               for_each (fill_input env sizes' app batchSizes filesNum) files [])) = ret tensors"
    "map fst files = map fst inputFiles" "app \<noteq> []" "inputFiles = [] \<longrightarrow> app = infos"
    unfolding prod.case by metis
  from andthen_ret [OF p(1) [unfolded Let_def]] obtain bs where "batch_sizes (fe_api env) app = Inr bs"
    "for_each (fill_input env sizes' app bs (if files \<noteq> [] then max_size_of files else 0))
        (if files \<noteq> [] then files else map (\<lambda>e. (fst e, [''random''])) (app ! 0)) [] = ret tensors"
    by (auto simp: ret_def)
  with p(2-4) show ?thesis by blast
qed

text \<open>
  C38: whatever the numbers of files and of shapes given for each input, \<open>get_tensors\<close> that succeeds returns tensors
  for exactly the named inputs (all inputs of the model, if none is named), and the same positive number for each.
\<close>

theorem get_tensors_equal_counts:
  assumes "get_tensors env inputFiles infos = ret tensors"
    and "names = (if inputFiles = [] then map fst (hd infos) else map fst inputFiles)"
    and "distinct names" "[] \<notin> set names"
  shows "\<exists>n > 0. fst ` set tensors = set names \<and> (\<forall>name \<in> set names. \<exists>ts. map_of tensors name = Some ts \<and> length ts = n)"
proof -
  have ne: "infos \<noteq> []" using assms(1) by (auto simp: get_tensors_def throw_def ret_def)
  obtain files app sizes bs where app: "app \<noteq> []" "inputFiles = [] \<longrightarrow> app = infos" and files: "map fst files = map fst inputFiles"
    and bs: "batch_sizes (fe_api env) app = Inr bs"
    and fill: "for_each (fill_input env sizes app bs (if files \<noteq> [] then max_size_of files else 0))
      (if files \<noteq> [] then files else map (\<lambda>e. (fst e, [''random''])) (app ! 0)) [] = ret tensors"
    using get_tensors_steps [OF assms(1) ne] by blast
  define items where "items = (if files \<noteq> [] then files else map (\<lambda>e. (fst e, [''random''])) (app ! 0))"
  define n where "n = (if files \<noteq> [] then max_size_of files else 0)"
  have "map fst items = names"
    using assms(2) app files by (auto simp: items_def hd_conv_nth comp_def)
  then have names: "distinct (map fst items)" "fst ` set items = set names" using assms(3) by (auto simp flip: set_map)
  from fill_inputs [OF fill [folded items_def n_def] names(1)] names(2) assms(4)
  have out: "fst ` set tensors = set names"
    "\<forall>name \<in> set names. \<exists>create ts. map_of tensors name = Some ts \<and> fill_loop create (map unat bs) n 0 0 [] = Some (Inr ts)"
    by auto
  have some: "0 < length ts" if "fill_loop create (map unat bs) n 0 0 [] = Some (Inr ts)" for create ts
    using fill_loop_counts [OF that] batch_sizes_props [OF bs] app(1) by (auto simp: loop_counts_def)
  have same: "length ts = length ts'"
    if "fill_loop create (map unat bs) n 0 0 [] = Some (Inr ts)" "fill_loop create' (map unat bs) n 0 0 [] = Some (Inr ts')"
    for create create' ts ts'
    using fill_loop_counts [OF that(1)] that(2) unfolding loop_counts_def by fastforce
  show ?thesis
  proof (cases names)
    case Nil
    then show ?thesis using out(1) by (intro exI [of _ 1]) simp
  next
    case (Cons name names')
    then obtain create ts where ts: "fill_loop create (map unat bs) n 0 0 [] = Some (Inr ts)" using out(2) by auto
    have "\<exists>ts'. map_of tensors name' = Some ts' \<and> length ts' = length ts" if "name' \<in> set names" for name'
      using out(2) that same [OF ts] by fastforce
    then show ?thesis using out(1) some [OF ts] by blast
  qed
qed

text \<open>
  the loop over the configurations and the files of an input ends, because the batch size of every configuration
  is positive: if every tensor it asks for is made or refused with an exception, it returns.
\<close>

theorem fill_loop_total:
  assumes "batch_sizes api infos = Inr bs" "infos \<noteq> []" "\<And>n m. create n m \<noteq> None"
  shows "fill_loop create (map unat bs) filesNum 0 0 ts \<noteq> None"
proof (rule fill_loop_returns [OF assms(3)])
  show "map unat bs \<noteq> []" using batch_sizes_props [OF assms(1)] assms(2) by auto
  show "\<forall>b \<in> set (map unat bs). 0 < b" using batch_sizes_props [OF assms(1)] by (auto simp: unat_gt_0)
qed


section \<open>Files that are ignored\<close>

lemma strided_once: "0 < n \<Longrightarrow> strided 0 n n = [0]"
  by (subst strided.simps) (simp add: strided.simps)

lemma filtered: "filter_files_by_extensions fs exts = filter (has_extension exts) fs"
  by (induction fs) auto

lemma map_image:
  assumes "images \<noteq> []" "is_image api (snd input) = Inr True"
  shows "map_input api [] images binaries input st
    = (let (mapped, ni, ii, bi) = st in ret (map_assign (fst input) [images ! 0] mapped, ni, ii + 1, bi))"
  using assms by (simp add: map_input_def strided_once split: prod.split)

lemma static_config_image:
  "is_image (fe_api env) info = Inr True \<Longrightarrow>
    static_config env sizes True b batch fs (name, info) = static_config env sizes True b' batch fs (name, info)"
  by (intro ext) (simp add: static_config_def Let_def split: prod.split)

interpretation linear_less: strict_weak_order "(<) :: 'a :: linorder \<Rightarrow> 'a \<Rightarrow> bool"
  by unfold_locales auto

lemma least_sorted:
  fixes x :: "'a :: linorder"
  assumes "x \<in> set xs" "\<forall>y \<in> set xs. x \<le> y"
  shows "sort_by (<) xs ! 0 = x"
proof (rule antisym)
  have "sort_by (<) xs ! 0 \<in> set xs"
    using nth_mem [of 0 "sort_by (<) xs"] length_pos_if_in_set [OF assms(1)] by simp
  then show "x \<le> sort_by (<) xs ! 0" using assms(2) by blast
  show "sort_by (<) xs ! 0 \<le> x" using linear_less.sort_by_first [OF assms(1)] by (simp add: not_less)
qed

text \<open>
  C39: without arrays, image files other than the first in sorted order are ignored by a model of static shapes whose
  inputs are all images: each input is filled as if only that file had been given, however many files, inputs and
  requests there are.
\<close>

theorem static_case_first_image:
  assumes "numpy_files files = []" "x \<in> set (image_files files)" "\<forall>y \<in> set (image_files files). x \<le> y"
    and "\<forall>input \<in> set infos. is_image (fe_api env) (snd input) = Inr True"
  shows "get_tensors_static_case env files batchSize infos = get_tensors_static_case env [x] batchSize infos"
proof -
  let ?images = "sort_by (<) (image_files files)" and ?api = "fe_api env"
  have x: "has_extension (supported_image_extensions False) x" "x \<in> set files" "\<not> has_extension [''npy''] x"
    using assms(1,2) by (auto simp: image_files_def numpy_files_def filtered filter_empty_conv)
  have one: "image_files [x] = [x]" "numpy_files [x] = []"
    using x by (simp_all add: image_files_def numpy_files_def)
  have first: "?images ! 0 = x" by (rule least_sorted [OF assms(2,3)])
  have ne: "?images \<noteq> []" "files \<noteq> []" using assms(2) x by auto
  have single: "sort_by (<) [x] = [x]" "sort_by (<) ([] :: string list) = []" by (simp_all add: sort_by_def)
  have same_map: "for_each (map_input ?api [] ?images b) infos = for_each (map_input ?api [] [x] b') infos" for b b'
  proof (intro ext for_each_cong refl)
    fix input st assume "input \<in> set infos"
    then have img: "is_image ?api (snd input) = Inr True" using assms(4) by blast
    show "map_input ?api [] ?images b input st = map_input ?api [] [x] b' input st"
      using map_image [OF ne(1) img] map_image [OF _ img, of "[x]"] first by simp
  qed
  have same_fill: "static_input env sizes True b batchSize n infos = static_input env sizes True b' batchSize n infos"
    for sizes b b' n
  proof (intro ext)
    fix item blobs
    show "static_input env sizes True b batchSize n infos item blobs = static_input env sizes True b' batchSize n infos item blobs"
    proof (cases "map_of infos (fst item)")
      case (Some info)
      then have "is_image ?api info = Inr True" using assms(4) map_of_SomeD by fastforce
      then show ?thesis by (simp add: static_input_def Some static_config_image [of env info sizes b _ _ _ b'])
    qed (simp add: static_input_def)
  qed
  show ?thesis
    unfolding get_tensors_static_case_def one assms(1) Let_def single
      same_map [of "sort_by (<) (binary_files files)" "sort_by (<) (binary_files [x])"]
    using ne
    by (intro arg_cong2 [where f = andthen] refl ext)
      (simp add: same_fill [of _ "binary_files files \<noteq> []" _ "binary_files [x] \<noteq> []"] split: prod.split)
qed

text \<open>
  A model without image inputs has no image sizes. The files an input then uses: arrays before binary files, random
  data if there are none; and of more files than configurations a multiple of their number.
\<close>

definition no_images :: "('l, 'p) ov_api \<Rightarrow> ('l, 'p, 'f) InputsInfo list \<Rightarrow> bool" where
  "no_images api infos \<longleftrightarrow> (\<forall>inputs \<in> set infos. \<forall>e \<in> set inputs.
     is_image api (snd e) = Inr False \<and> (\<exists>b. is_image_info api (snd e) = Inr b))"

definition used_files :: "string list \<Rightarrow> string list" where
  "used_files fs =
     (if fs = [] then [''random'']
      else if hd fs = ''random'' \<or> hd fs = ''image_info'' then fs
      else if numpy_files fs \<noteq> [] then numpy_files fs
      else if binary_files fs \<noteq> [] then binary_files fs
      else [''random''])"

definition whole_multiple :: "nat \<Rightarrow> string list \<Rightarrow> string list" where
  "whole_multiple k fs = (if k < length fs then take (k * (length fs div k)) fs else fs)"

lemma no_image_sizes: "no_images api infos \<Longrightarrow> image_sizes api infos = Inr []"
proof (induction infos)
  case (Cons inputs infos)
  have "sizes_of_inputs api es = Inr []" if "set es \<subseteq> set inputs" for es
    using that Cons.prems by (induction es) (auto simp: no_images_def)
  then have "sizes_of_inputs api inputs = Inr []" by simp
  then show ?case using Cons by (simp add: no_images_def)
qed simp

lemma select_used:
  assumes "is_image api input = Inr False" "is_image_info api input = Inr b"
  shows "\<exists>sel. select_files api input False fs = Inr (False, sel) \<and> (if sel = [] then [''random''] else sel) = used_files fs"
  using assms by (auto simp: select_files_def used_files_def)

lemma used_files_nonempty: "used_files fs \<noteq> []"
  by (simp add: used_files_def)

lemma balance_without_sizes:
  assumes "app \<noteq> []" "fs \<noteq> []"
  shows "balance fs app [] = (if length fs \<le> length app \<and> \<not> length fs dvd length app then None
    else Some (whole_multiple (length app) fs, app, []))"
proof -
  have "pop_configs n (app, []) = (if n = 0 then Some (app, []) else None)" for n by (cases n) simp_all
  moreover have "length fs - length fs mod length app = length app * (length fs div length app)"
    by (simp add: minus_mod_eq_mult_div)
  ultimately show ?thesis using assms by (auto simp: balance_def whole_multiple_def dvd_eq_mod_eq_0)
qed

lemma prepare_without_images:
  assumes "no_images api infos" "infos \<noteq> []" "name \<in> fst ` set (infos ! 0)" "name \<noteq> []"
  shows "prepare_input api (name, fs) (prepared_files, infos, []) =
    (if length (used_files fs) \<le> length infos \<and> \<not> length (used_files fs) dvd length infos then None
     else ret (prepared_files @ [(name, whole_multiple (length infos) (used_files fs))], infos, []))"
proof -
  obtain first rest where infos: "infos = first # rest" using assms(2) by (cases infos) auto
  then have "map_of first name \<noteq> None" using assms(3) by (simp add: map_of_eq_None_iff)
  then obtain info where known: "map_of first name = Some info" "first \<noteq> []" by (cases first) auto
  have "(name, info) \<in> set first" using known(1) by (rule map_of_SomeD)
  then obtain b where "is_image api info = Inr False" "is_image_info api info = Inr b"
    using assms(1) infos by (fastforce simp: no_images_def)
  from select_used [OF this] obtain sel where sel: "select_files api info False fs = Inr (False, sel)"
    "(if sel = [] then [''random''] else sel) = used_files fs" by blast
  have bal: "balance (used_files fs) (first # rest) [] =
      (if length (used_files fs) \<le> length (first # rest) \<and> \<not> length (used_files fs) dvd length (first # rest) then None
       else Some (whole_multiple (length (first # rest)) (used_files fs), first # rest, []))"
    by (rule balance_without_sizes) (simp_all add: used_files_nonempty)
  show ?thesis unfolding infos
    using known assms(4) sel bal by (simp add: prepare_input_def Let_def cong: if_cong)
qed

lemma prepare_all_without_images:
  assumes "no_images api infos" "infos \<noteq> []" "\<forall>name \<in> fst ` set items. name \<in> fst ` set (infos ! 0) \<and> name \<noteq> []"
  shows "for_each (prepare_input api) items (prepared_files, infos, []) =
    (if \<exists>(name, fs) \<in> set items. length (used_files fs) \<le> length infos \<and> \<not> length (used_files fs) dvd length infos then None
     else ret (prepared_files @ map (\<lambda>(name, fs). (name, whole_multiple (length infos) (used_files fs))) items, infos, []))"
  using assms(3)
proof (induction items arbitrary: prepared_files)
  case (Cons item items)
  obtain name fs where i: "item = (name, fs)" by (cases item)
  have "name \<in> fst ` set (infos ! 0)" "name \<noteq> []" using Cons.prems i by auto
  note step = prepare_without_images [OF assms(1,2) this, of fs prepared_files]
  show ?case
  proof (cases "length (used_files fs) \<le> length infos \<and> \<not> length (used_files fs) dvd length infos")
    case True
    then show ?thesis using step by (simp add: i)
  next
    case False
    then have "prepare_input api item (prepared_files, infos, [])
        = ret (prepared_files @ [(name, whole_multiple (length infos) (used_files fs))], infos, [])"
      unfolding i step by (rule if_not_P)
    then show ?thesis using Cons False by (auto simp: i)
  qed
qed simp

text \<open>
  C40: for a model none of whose inputs is an image, with any number of configurations and files named for each input, in
  any order, \<open>get_tensors\<close> calls \<open>pop_back\<close> on the empty vector of image sizes as soon as some input uses no more files than there
  are configurations, in a number that does not divide theirs. Otherwise every configuration is kept, and each input
  keeps its files, arrays before binary ones, or, of more files than configurations, the largest multiple of their number.
\<close>

theorem configurations_without_images:
  assumes "no_images (fe_api env) infos" "infos \<noteq> []" "length items = length (infos ! 0)"
    and "\<forall>name \<in> fst ` set items. name \<in> fst ` set (infos ! 0) \<and> name \<noteq> []"
  shows "if \<exists>(name, fs) \<in> set items. length (used_files fs) \<le> length infos \<and> \<not> length (used_files fs) dvd length infos
    then get_tensors env items infos = None
    else image_sizes (fe_api env) infos = Inr []
      \<and> for_each (prepare_input (fe_api env)) items ([], infos, [])
        = ret (map (\<lambda>(name, fs). (name, whole_multiple (length infos) (used_files fs))) items, infos, [])"
  using prepare_all_without_images [OF assms(1,2,4), of "[]"] no_image_sizes [OF assms(1)] assms(2,3)
  by (auto simp: get_tensors_def)

section \<open>Examples\<close>

lemma fill_loop_stop: "length batches \<le> n \<Longrightarrow> filesNum \<le> m \<Longrightarrow> fill_loop create batches filesNum n m ts = Some (Inr ts)"
  by (subst fill_loop.simps) simp

lemma fill_loop_step:
  "n < length batches \<or> m < filesNum \<Longrightarrow> create n m = ret t \<Longrightarrow>
    fill_loop create batches filesNum n m ts = fill_loop create batches filesNum (n + 1) (m + batches ! (n mod length batches)) (ts @ [t])"
  by (subst fill_loop.simps) (simp add: ret_def)

definition demo_env :: "(string, u64 list, unit) fill_env" where
  "demo_env = \<lparr>fe_api = toy_api, fe_rt = demo_rt, fe_random = \<lparr>draw_value = \<lambda>T lo hi i. [],
    draw_nibble = \<lambda>lo hi i. 0, fresh_byte = \<lambda>i. 0, random_strings = \<lambda>dims. None\<rparr>, fe_open = (\<lambda>f. ret (Some ())),
    fe_getData = (\<lambda>_ _ _. Some [1, 2, 3, 4, 5, 6]), fe_fs = (\<lambda>f. Some [7, 8])\<rparr>"

definition demo_inputs :: "(string, u64 list, unit) InputsInfo" where
  "demo_inputs = [(''x'', demo_info ET_i16 ''NC'' [1, 1]), (''y'', demo_info ET_i16 ''NC'' [1, 1])]"

definition demo_files :: mapped where
  "demo_files = [(''x'', [''a.bin'', ''b.bin'']), (''y'', [''c.bin''])]"

definition demo_filled :: tensor where
  "demo_filled = \<lparr>tn_type = ET_i16, tn_shape = [1, 1], tn_data = [Some 7, Some 8]\<rparr>"

lemma demo_prepared:
  "image_sizes toy_api [demo_inputs] = Inr []"
  "for_each (prepare_input toy_api) demo_files ([], [demo_inputs], []) = ret (demo_files, [demo_inputs], [])"
  "batch_sizes toy_api [demo_inputs] = Inr [1]" "max_size_of demo_files = 2" "demo_files \<noteq> []" "length demo_files = length demo_inputs"
  by code_simp+

lemma demo_read: "andthen (read_into (size64 0) 2 (open_file [7, 8], replicate 2 None)) (\<lambda>st. ret (snd st)) = ret [Some 7, Some 8]"
  by (simp add: read_into_def size64_def is_read_def open_file_def put_bytes_def numeral_2_eq_2)

lemma demo_binary:
  assumes "files \<noteq> []" "\<forall>f \<in> set files. get_extension f = ''bin''"
  shows "get_binary_tensor toy_api demo_rt (\<lambda>f. Some [7, 8]) files i 1 (name, demo_info ET_i16 ''NC'' [1, 1]) = ret demo_filled"
  using assms demo_read by (simp add: get_binary_tensor_def with_elem_def create_tensor_from_binary_def upto64_def new_tensor_def read_binary_def
    demo_simps file_at_def tensor_size_def as_int_def to_int_def demo_filled_def)

lemma demo_env_simps:
  "fe_api demo_env = toy_api" "fe_rt demo_env = demo_rt" "fe_fs demo_env = (\<lambda>f. Some [7, 8])"
  "is_image toy_api (demo_info ET_i16 ''NC'' [1, 1]) = Inr False"
  "map_of demo_inputs ''x'' = Some (demo_info ET_i16 ''NC'' [1, 1])"
  "map_of demo_inputs ''y'' = Some (demo_info ET_i16 ''NC'' [1, 1])"
  by (simp_all add: demo_env_def is_image_def demo_simps demo_inputs_def)

lemma demo_made:
  assumes "info \<in> {''x'', ''y''}" "files \<in> {[''a.bin'', ''b.bin''], [''c.bin'']}"
  shows "make_configured demo_env [] [demo_inputs] [1] info files n m = ret demo_filled"
  using assms by (auto simp: make_configured_def make_tensor_def demo_env_simps get_extension_def demo_binary)

lemma demo_tensors: "get_tensors demo_env demo_files [demo_inputs]
   = ret [(''x'', [demo_filled, demo_filled]), (''y'', [demo_filled, demo_filled])]"
proof -
  have two: "fill_loop (make_configured demo_env [] [demo_inputs] [1] info files) [1] 2 0 0 [] = ret [demo_filled, demo_filled]"
    if "info \<in> {''x'', ''y''}" "files \<in> {[''a.bin'', ''b.bin''], [''c.bin'']}" for info files
    by (simp add: fill_loop_step [OF _ demo_made [OF that]] fill_loop_stop ret_def)
  have "get_tensors demo_env demo_files [demo_inputs] = for_each (fill_input demo_env [] [demo_inputs] [1] 2) demo_files []"
    by (simp add: get_tensors_def demo_env_simps demo_prepared del: for_each.simps batch_sizes.simps image_sizes.simps)
  also have "\<dots> = ret [(''x'', [demo_filled, demo_filled]), (''y'', [demo_filled, demo_filled])]"
    using two [of "''x''" "[''a.bin'', ''b.bin'']"] two [of "''y''" "[''c.bin'']"]
    by (simp add: demo_files_def fill_input_def)
  finally show ?thesis .
qed

theorem get_tensors_equal_counts_witness:
  "\<exists>n > 0. fst ` set [(''x'', [demo_filled, demo_filled]), (''y'', [demo_filled, demo_filled])] = {''x'', ''y''}
    \<and> (\<forall>name \<in> {''x'', ''y''}. \<exists>ts. map_of [(''x'', [demo_filled, demo_filled]), (''y'', [demo_filled, demo_filled])] name = Some ts \<and> length ts = n)"
  using get_tensors_equal_counts [OF demo_tensors refl] by (simp add: demo_files_def)

theorem fill_loop_total_witness: "fill_loop (\<lambda>n m. throw ''no reader'') (map unat [1 :: u64]) 2 0 0 [] \<noteq> None"
  by (rule fill_loop_total [OF demo_prepared(3)]) (simp_all add: throw_def)

theorem static_case_first_image_witness:
  "get_tensors_static_case demo_env [''b.bmp'', ''a.bmp'', ''c.bin''] 1 [(''x'', demo_info ET_u8 ''NCHW'' [1, 3, 1, 2])]
    = get_tensors_static_case demo_env [''a.bmp''] 1 [(''x'', demo_info ET_u8 ''NCHW'' [1, 3, 1, 2])]"
proof (rule static_case_first_image)
  show "numpy_files [''b.bmp'', ''a.bmp'', ''c.bin''] = []" by code_simp
  have "image_files [''b.bmp'', ''a.bmp'', ''c.bin''] = [''b.bmp'', ''a.bmp'']" by code_simp
  then show "''a.bmp'' \<in> set (image_files [''b.bmp'', ''a.bmp'', ''c.bin''])"
    "\<forall>y \<in> set (image_files [''b.bmp'', ''a.bmp'', ''c.bin'']). ''a.bmp'' \<le> y" by simp_all
  show "\<forall>input \<in> set [(''x'', demo_info ET_u8 ''NCHW'' [1, 3, 1, 2])]. is_image (fe_api demo_env) (snd input) = Inr True"
    by (simp add: demo_env_simps is_image_def demo_simps)
qed

theorem configurations_without_images_witness:
  "get_tensors demo_env [(''y'', [''c.bin'']), (''x'', [''a.bin'', ''b.bin''])] [demo_inputs, demo_inputs, demo_inputs] = None
    \<and> for_each (prepare_input (fe_api demo_env)) [(''x'', [''a.bin'']), (''y'', [''b.bin'', ''c.bin'', ''d.bin''])]
        ([], [demo_inputs, demo_inputs], [])
      = ret ([(''x'', [''a.bin'']), (''y'', [''b.bin'', ''c.bin''])], [demo_inputs, demo_inputs], [])"
proof -
  let ?three = "[demo_inputs, demo_inputs, demo_inputs]" and ?two = "[demo_inputs, demo_inputs]"
  let ?a = "[(''y'', [''c.bin'']), (''x'', [''a.bin'', ''b.bin''])]" and ?b = "[(''x'', [''a.bin'']), (''y'', [''b.bin'', ''c.bin'', ''d.bin''])]"
  have none: "no_images (fe_api demo_env) ?three" "no_images (fe_api demo_env) ?two"
    by (simp_all add: demo_env_simps no_images_def demo_inputs_def is_image_def is_image_info_def demo_simps)
  have named: "\<forall>name \<in> fst ` set ?a. name \<in> fst ` set (?three ! 0) \<and> name \<noteq> []" "length ?a = length (?three ! 0)"
    "\<forall>name \<in> fst ` set ?b. name \<in> fst ` set (?two ! 0) \<and> name \<noteq> []" "length ?b = length (?two ! 0)"
    by (simp_all add: demo_inputs_def)
  have used: "used_files [''c.bin''] = [''c.bin'']" "used_files [''a.bin'', ''b.bin''] = [''a.bin'', ''b.bin'']"
    "used_files [''a.bin''] = [''a.bin'']" "used_files [''b.bin'', ''c.bin'', ''d.bin''] = [''b.bin'', ''c.bin'', ''d.bin'']"
    by code_simp+
  have odd: "\<not> 2 dvd (3 :: nat)" by presburger
  have "\<exists>(name, fs) \<in> set ?a. length (used_files fs) \<le> length ?three \<and> \<not> length (used_files fs) dvd length ?three"
    using odd by (simp add: used numeral_2_eq_2 numeral_3_eq_3)
  moreover have "\<not> (\<exists>(name, fs) \<in> set ?b. length (used_files fs) \<le> length ?two \<and> \<not> length (used_files fs) dvd length ?two)"
    by (simp add: used)
  moreover have "map (\<lambda>(name, fs). (name, whole_multiple (length ?two) (used_files fs))) ?b
      = [(''x'', [''a.bin'']), (''y'', [''b.bin'', ''c.bin''])]"
    unfolding list.map prod.case used whole_multiple_def by code_simp
  ultimately show ?thesis
    using configurations_without_images [OF none(1) _ named(2,1)] configurations_without_images [OF none(2) _ named(4,3)]
    by (simp only: if_P if_not_P list.distinct not_False_eq_True simp_thms)
qed

end
