(* ===== verification/Spec2Isabelle.thy ===== *)
theory Spec2Isabelle
  imports Mem_Pool_Props Mem_Pool_Init Mem_Conc Mem_Alloc Mem_Ring V4L2_Capture
    CL_Engine Vulkan_Renderer Main_Program
    Ov_Reduce Ov_Properties Sample_Config
    Bench_Report Bench_Times Sample_Filling
begin

text \<open>
  Verification library of the KBX vision runtime.

  The repository holds the runtime itself (\<open>src/main.cc\<close>, \<open>src/include\<close>, \<open>src/src\<close>), a pipeline from a
  V4L2 camera through OpenCL to a Vulkan display, and the OpenVINO package it is built on
  (\<open>src/openvino\<close>): the headers of the binary runtime library and the source of the samples, of which
  \<open>benchmark_app\<close> is the largest. The library models both halves; every definition that stands for code
  follows one function, one loop or one block of it.

  \<^bold>\<open>Parts and theories\<close>

  The runtime. \<open>main\<close> (\<open>Main_Program\<close>) checks its arguments, creates the memory pools and the OpenCL
  context, polls a reactor and releases the pools.
  \<^item> \<open>KBX_Types\<close>: the enumerations and structs of \<open>include/kbx_types.h\<close>.
  \<^item> \<open>Mem_Pool\<close>, \<open>Mem_Pool_Props\<close>, \<open>Mem_Pool_Init\<close> (\<open>src/mem/mem_pool.cc\<close>, \<open>include/kbx_mem.h\<close>): the
    CPU page pools. The state is \<open>kbx_mem_manager\<close>; an array of the code is its address and its cells.
    \<open>Mem_Conc\<close> has the same scan and release as atomic steps of any number of threads, \<open>Mem_Alloc\<close> the
    GPU, shared and system allocators.
  \<^item> \<open>Queue_Interface\<close>, \<open>Mem_Ring\<close> (\<open>src/mem/mem_ring.cc\<close>): the task ring and the contract of a bounded
    queue it implements.
  \<^item> \<open>V4L2_Model\<close>, \<open>V4L2_Init\<close>, \<open>V4L2_Device\<close>, \<open>V4L2_Capture\<close> (\<open>src/io/v4l2_camera.cc\<close>): the camera, over
    a kernel parameter and a history of system calls.
  \<^item> \<open>Float_Rounding\<close>, \<open>Float_Order\<close>: binary floating point as pairs of integers with rounding to nearest;
    \<open>NV12_Pixel\<close>, \<open>NV12_Image\<close>: the colour conversion of \<open>src/compute/lo_engine.cc\<close> on the CPU and of
    \<open>src/kernels/nv12_to_rgb.cl\<close>; \<open>CL_Init\<close>, \<open>CL_Engine\<close>: the OpenCL context, its kernels, the imported
    image and the launch, over an OpenCL parameter; \<open>Vulkan_Renderer\<close> (\<open>src/gfx/drm_vk_renderer.cc\<close>): the
    Vulkan context, over a driver parameter.

  The OpenVINO headers. \<open>Ov_Parallel\<close>, \<open>Ov_Reduce\<close> (\<open>openvino/core/parallel.hpp\<close>): the parallel loops and
  reductions; \<open>Ov_Stream\<close>, \<open>Ov_Properties\<close> (\<open>openvino/runtime/properties.hpp\<close>): the values of properties
  and their text.

  The samples (\<open>src/openvino/samples/cpp\<close>). \<open>Std_Text\<close> and \<open>Std_Sort\<close> are the strings, maps and sorting of
  the standard library they are written with.
  \<^item> \<open>Sample_Args\<close> (\<open>args_helper.cpp\<close>), \<open>Sample_Devices\<close>, \<open>Sample_Inputs\<close>, \<open>Sample_Config\<close>
    (\<open>benchmark_app/utils.cpp\<close>): the command line, the options of each device, the inputs of a model and
    their test configurations (\<open>get_inputs_info\<close>).
  \<^item> \<open>Sample_Formats\<close>, \<open>Sample_Npy\<close> (\<open>common/format_reader\<close>): the readers of BMP, MNIST, NV12 and NumPy
    files and their registry; \<open>Sample_Images\<close> (\<open>samples/common.hpp\<close>): writing a BMP file and drawing
    rectangles.
  \<^item> \<open>Sample_Tensors\<close>, \<open>Sample_Tensor_Props\<close> (\<open>benchmark_app/inputs_filling.cpp\<close>): filling the input tensors
    from images, arrays, binary files and random numbers; \<open>Sample_Filling\<close>: the distribution of the given files
    over inputs and configurations (\<open>get_tensors\<close>, \<open>get_tensors_static_case\<close>).
  \<^item> \<open>Bench_Queue\<close>, \<open>Bench_Props\<close> (\<open>infer_request_wrap.hpp\<close> and the measuring loop of
    \<open>benchmark_app/main.cpp\<close>): the queue of inference requests, as an interleaving of the main thread with
    the callbacks of the runtime; \<open>Bench_Times\<close>: the clock readings of such a run and the durations between
    them; \<open>Bench_Metrics\<close> (\<open>latency_metrics.cpp\<close>): the latencies of a run;
    \<open>Bench_Report\<close> (\<open>statistics_report.cpp\<close>, \<open>csv_dumper.hpp\<close>): the CSV reports.

  \<^bold>\<open>What the lemmas show\<close>

  \<^item> Memory: the allocators keep the invariant of the manager, blocks handed out are disjoint and the scan is
    first fit; under concurrency no block has two owners; the buffers of the GPU and shared allocators are
    never leaked; the ring refines a bounded list.
  \<^item> Camera: after a successful initialisation every mapped buffer is queued, and \<open>kbx_v4l2_destroy\<close> then releases
    exactly what was acquired; one failed step of the initialisation leaves the descriptor open. A capture takes
    the frames one by one, tries to store each and gives its buffer back, and returns over a driver that goes on
    delivering; that a file could not be written is not reported. A single read copies what fits into the
    caller's bytes.
  \<^item> OpenCL and Vulkan: the context is created for a device of the highest rank among those that are listed; a
    conversion that succeeds has run the kernel, with the arguments it was given, over the whole frame and changed
    no other buffer; on every path of its initialisation Vulkan's objects are created and destroyed in order.
  \<^item> Conversion: the kernel agrees with an exact reference within a stated error and with the CPU code.
  \<^item> Loops: each parallel loop visits every index exactly once on every back end.
  \<^item> Command line and inputs: printing and parsing are inverse, the options of virtual devices are configured
    as given, beside what is configured already, and a static model gives the configuration of its ports with
    their layouts or the ones chosen by rank.
  \<^item> Images and tensors: a BMP file written by the samples is read back, and through the registry fills a tensor
    with every component at the index of its layout; a row-major NumPy file of its size fills it with its
    bytes; binary files with theirs, entry after entry or interleaved by the layout, if and only if their names and
    sizes are right. Rectangles are drawn within the image. All inputs get the same number of tensors.
  \<^item> Measuring: a request is never idle and running at once, no wake-up is lost, every iteration is recorded
    once, with the time between its start and its end, and a run limited by a number of iterations ends after exactly the aligned number; the statistics lie
    where they should and the CSV text can be parsed back.
  \<^item> Where the code misses its purpose a theorem states what it does instead.

  \<^bold>\<open>Interfaces\<close>

  \<open>bounded_queue\<close> (\<open>task_ring\<close>), \<open>allocator\<close> (\<open>gpu\<close>, \<open>shared\<close>), \<open>word_codec\<close> (one interpretation for each
  enumeration of properties), \<open>dictionary\<close> (\<open>std_map\<close>) and \<open>strict_weak_order\<close> (\<open>flt_order\<close>, \<open>by_time\<close>,
  \<open>linear_less\<close>) are the locales; each is interpreted on the model's own operations.

  \<^bold>\<open>Conventions and bounds\<close>

  Unsigned integers are words of their width, or natural numbers with \<open>mod\<close> written out. \<open>None\<close> is undefined
  behaviour, a trap, or not returning; \<open>Inl\<close> a thrown exception. There is no fuel: loops are structural or have
  a proved measure, and the four that may run for ever (the retry of \<open>xioctl\<close>, the capture loop, the reader
  of a map and the loop over the files of an input) are \<open>partial_function (option)\<close>, with theorems on when they return. The interleavings of
  \<open>Mem_Conc\<close> and \<open>Bench_Queue\<close> are inductive step relations without a bound on threads or steps. Documented
  behaviour of closed code (a kernel, a driver, the runtime library) is a parameter, constrained by hypotheses
  of the theorems and instantiated in their witnesses.

  \<^bold>\<open>Not modelled\<close>

  The empty units of the runtime (telemetry, inference, display, USM import, DMABUF), whose headers declare
  functions without a body; vendored code (oneTBB, gflags, the JSON library); Python and C; the header-only
  interface of the closed runtime library (\<open>openvino/core\<close>, \<open>openvino/op\<close>), which is declarations; samples that
  only call it; the OpenCV readers, the remote tensors of GPU and NPU, the JSON report and everything that only
  prints.
\<close>

end
